(* ===== verification/Rust_Text.thy ===== *)
theory Rust_Text
  imports Prelude "HOL-Library.Sublist" "HOL-Library.Char_ord" "HOL-Library.List_Lexorder"
begin

text \<open>
  Rust string slices. A \<open>&str\<close> is its UTF-8 byte sequence: a HOL \<open>string\<close>, whose
  \<open>char\<close>s are bytes. So \<open>len()\<close> is \<open>length\<close>, a byte offset is a list index, slicing is
  \<open>take\<close> and \<open>drop\<close>, and \<open>Ord\<close> is the lexicographic order on bytes. Operations of the
  standard library that look at scalar values (white space, \<open>chars().count()\<close>) read the
  UTF-8 encodings explicitly. The theory models the library functions the components
  call, and proves the facts their proofs share.
\<close>

subsection \<open>Prefixes, suffixes and searching\<close>

definition starts_with :: "'a list \<Rightarrow> 'a list \<Rightarrow> bool" where
  "starts_with p s \<longleftrightarrow> take (length p) s = p"

definition ends_with :: "'a list \<Rightarrow> 'a list \<Rightarrow> bool" where
  "ends_with p s \<longleftrightarrow> length p \<le> length s \<and> drop (length s - length p) s = p"

definition strip_prefix_str :: "'a list \<Rightarrow> 'a list \<Rightarrow> 'a list option" where
  "strip_prefix_str p s = (if starts_with p s then Some (drop (length p) s) else None)"

definition strip_suffix_str :: "'a list \<Rightarrow> 'a list \<Rightarrow> 'a list option" where
  "strip_suffix_str p s = (if ends_with p s then Some (take (length s - length p) s) else None)"

text \<open>\<open>s.find(needle)\<close>: the byte offset of the first occurrence.\<close>

fun find_sub :: "'a list \<Rightarrow> 'a list \<Rightarrow> nat option" where
  "find_sub n [] = (if n = [] then Some 0 else None)"
| "find_sub n (c # cs) =
     (if starts_with n (c # cs) then Some 0 else map_option Suc (find_sub n cs))"

text \<open>\<open>needle\<close> occurs in \<open>s\<close>.\<close>

definition occurs :: "'a list \<Rightarrow> 'a list \<Rightarrow> bool" where
  "occurs n s \<longleftrightarrow> find_sub n s \<noteq> None"

lemma starts_with_iff: "starts_with p s \<longleftrightarrow> (\<exists>t. s = p @ t)"
  unfolding starts_with_def by (metis append_eq_conv_conj append_take_drop_id)

lemma starts_with_append [simp]: "starts_with p (p @ t)"
  by (auto simp: starts_with_iff)

lemma starts_with_length: "starts_with p s \<Longrightarrow> length p \<le> length s"
  by (auto simp: starts_with_iff)

lemma starts_with_Cons [simp]:
  "starts_with (a # p) (b # s) \<longleftrightarrow> a = b \<and> starts_with p s"
  "starts_with [] s"
  "\<not> starts_with (a # p) []"
  by (auto simp: starts_with_def)

lemma strip_prefix_Some: "strip_prefix_str p s = Some t \<longleftrightarrow> s = p @ t"
  by (auto simp: strip_prefix_str_def starts_with_iff split: if_splits)

lemma ends_with_iff: "ends_with p s \<longleftrightarrow> (\<exists>t. s = t @ p)"
  unfolding ends_with_def by (metis append_eq_append_conv append_take_drop_id diff_le_self
      le_add2 length_append length_drop diff_diff_cancel)

lemma strip_suffix_Some: "strip_suffix_str p s = Some t \<longleftrightarrow> s = t @ p"
  by (auto simp: strip_suffix_str_def ends_with_iff split: if_splits)

lemma find_sub_decomp:
  "find_sub n s = Some i \<Longrightarrow> s = take i s @ n @ drop (i + length n) s \<and> i + length n \<le> length s"
proof (induction s arbitrary: i)
  case Nil
  then show ?case by (simp split: if_splits)
next
  case (Cons c cs)
  show ?case
  proof (cases "starts_with n (c # cs)")
    case True
    with Cons.prems have "i = 0" by simp
    moreover from True obtain t where "c # cs = n @ t" by (auto simp: starts_with_iff)
    ultimately show ?thesis by simp
  next
    case False
    with Cons.prems obtain j where "find_sub n cs = Some j" "i = Suc j" by auto
    with Cons.IH [of j] show ?thesis by simp
  qed
qed

lemma find_sub_least:
  "find_sub n s = Some i \<Longrightarrow> j < i \<Longrightarrow> \<not> starts_with n (drop j s)"
proof (induction s arbitrary: i j)
  case Nil
  then show ?case by (simp split: if_splits)
next
  case (Cons c cs)
  show ?case
  proof (cases j)
    case 0
    with Cons.prems show ?thesis by (auto split: if_splits)
  next
    case (Suc k)
    with Cons.prems obtain i' where "find_sub n cs = Some i'" "i = Suc i'"
      by (auto split: if_splits)
    with Suc Cons.prems Cons.IH [of i' k] show ?thesis by simp
  qed
qed

lemma find_sub_None: "find_sub n s = None \<longleftrightarrow> (\<forall>a b. s \<noteq> a @ n @ b)"
proof (induction s)
  case Nil
  then show ?case by auto
next
  case (Cons c cs)
  show ?case
  proof
    assume L: "find_sub n (c # cs) = None"
    then have ns: "\<not> starts_with n (c # cs)" and "find_sub n cs = None"
      by (auto split: if_splits)
    with Cons have no: "\<forall>a b. cs \<noteq> a @ n @ b" by simp
    show "\<forall>a b. c # cs \<noteq> a @ n @ b"
    proof (intro allI notI)
      fix a b assume eq: "c # cs = a @ n @ b"
      show False
      proof (cases a)
        case Nil
        with eq ns show ?thesis by (auto simp: starts_with_iff)
      next
        case (Cons d ds)
        with eq no show ?thesis by auto
      qed
    qed
  next
    assume R: "\<forall>a b. c # cs \<noteq> a @ n @ b"
    have "\<not> starts_with n (c # cs)"
      using R by (metis append_Nil starts_with_iff)
    moreover have "\<forall>a b. cs \<noteq> a @ n @ b"
      using R by (metis append_Cons)
    ultimately show "find_sub n (c # cs) = None" using Cons by simp
  qed
qed

lemma occurs_iff: "occurs n s \<longleftrightarrow> (\<exists>a b. s = a @ n @ b)"
  by (auto simp: occurs_def find_sub_None)

lemma occurs_self_append [simp]: "occurs n (a @ n @ b)"
  by (auto simp: occurs_iff)

lemma find_sub_bound: "find_sub n s = Some i \<Longrightarrow> i + length n \<le> length s"
  using find_sub_decomp by blast

text \<open>The first occurrence is where the needle starts and nowhere before.\<close>

lemma find_sub_eqI:
  assumes "starts_with n (drop i s)" and "\<And>j. j < i \<Longrightarrow> \<not> starts_with n (drop j s)" and "i \<le> length s"
  shows "find_sub n s = Some i"
  using assms
proof (induction s arbitrary: i)
  case Nil
  then show ?case by (cases n) auto
next
  case (Cons c cs)
  show ?case
  proof (cases i)
    case 0
    with Cons.prems show ?thesis by simp
  next
    case (Suc k)
    have "\<not> starts_with n (c # cs)" using Cons.prems(2) [of 0] Suc by simp
    moreover have "find_sub n cs = Some k"
    proof (rule Cons.IH)
      show "starts_with n (drop k cs)" using Cons.prems(1) Suc by simp
      show "\<not> starts_with n (drop j cs)" if "j < k" for j
        using Cons.prems(2) [of "Suc j"] Suc that by simp
      show "k \<le> length cs" using Cons.prems(3) Suc by simp
    qed
    ultimately show ?thesis using Suc by simp
  qed
qed

text \<open>A search is decided by the text up to the end of the first occurrence.\<close>

lemma find_sub_append_stable:
  assumes "find_sub n s = Some i"
  shows "find_sub n (s @ t) = Some i"
proof (rule find_sub_eqI)
  from assms have len: "i + length n \<le> length s" and dec: "s = take i s @ n @ drop (i + length n) s"
    using find_sub_decomp by blast+
  have "drop i s = n @ drop (i + length n) s"
    by (subst dec) (use len in simp)
  with len show "starts_with n (drop i (s @ t))" by simp
  show "i \<le> length (s @ t)" using len by simp
  show "\<not> starts_with n (drop j (s @ t))" if "j < i" for j
  proof
    assume "starts_with n (drop j (s @ t))"
    then have "take (length n) (drop j (s @ t)) = n" by (simp add: starts_with_def)
    with len that have "take (length n) (drop j s) = n" by simp
    with find_sub_least [OF assms that] show False by (simp add: starts_with_def)
  qed
qed

subsection \<open>Lines\<close>

text \<open>\<open>s.split_inclusive(d)\<close> on a one-byte delimiter.\<close>

fun split_inclusive :: "'a \<Rightarrow> 'a list \<Rightarrow> 'a list list" where
  "split_inclusive d [] = []"
| "split_inclusive d (c # cs) =
     (if c = d then [c] # split_inclusive d cs
      else (case split_inclusive d cs of [] \<Rightarrow> [[c]] | l # ls \<Rightarrow> (c # l) # ls))"

abbreviation NL :: char where "NL \<equiv> CHR 0x0A"
abbreviation CR :: char where "CR \<equiv> CHR 0x0D"

text \<open>\<open>s.lines()\<close> drops one line feed and then one carriage return per line.\<close>

definition chomp_line :: "string \<Rightarrow> string" where
  "chomp_line l =
     (case strip_suffix_str [NL] l of
        None \<Rightarrow> l
      | Some m \<Rightarrow> (case strip_suffix_str [CR] m of None \<Rightarrow> m | Some k \<Rightarrow> k))"

definition lines_of :: "string \<Rightarrow> string list" where
  "lines_of s = map chomp_line (split_inclusive NL s)"

lemma concat_split_inclusive [simp]: "concat (split_inclusive d s) = s"
  by (induction s) (auto split: list.splits)

lemma split_inclusive_Nil_iff [simp]: "split_inclusive d s = [] \<longleftrightarrow> s = []"
  by (cases s) (auto split: list.splits)

lemma split_inclusive_delim_end:
  "split_inclusive d ((xs @ [d]) @ ys) = split_inclusive d (xs @ [d]) @ split_inclusive d ys"
  by (induction xs) (auto split: list.splits)

lemma split_inclusive_append:
  assumes "xs = [] \<or> last xs = d"
  shows "split_inclusive d (xs @ ys) = split_inclusive d xs @ split_inclusive d ys"
proof (cases xs rule: rev_cases)
  case Nil
  then show ?thesis by simp
next
  case (snoc zs z)
  with assms show ?thesis using split_inclusive_delim_end [of d zs ys] by simp
qed

lemma split_inclusive_line: "l \<noteq> [] \<Longrightarrow> d \<notin> set (butlast l) \<Longrightarrow> split_inclusive d l = [l]"
proof (induction l)
  case (Cons c cs)
  then show ?case by (cases cs) auto
qed simp

text \<open>Every piece but the last ends in the delimiter, and holds it nowhere else.\<close>

definition is_line :: "'a \<Rightarrow> 'a list \<Rightarrow> bool" where
  "is_line d l \<longleftrightarrow> l \<noteq> [] \<and> d \<notin> set (butlast l)"

lemma split_inclusive_is_line: "l \<in> set (split_inclusive d s) \<Longrightarrow> is_line d l"
proof (induction s arbitrary: l)
  case (Cons c cs)
  then show ?case
    by (fastforce simp: is_line_def split: list.splits if_splits)
qed simp

lemma split_inclusive_butlast:
  "l \<in> set (butlast (split_inclusive d s)) \<Longrightarrow> last l = d"
proof (induction s arbitrary: l)
  case (Cons c cs)
  have ne: "\<And>m ms. split_inclusive d cs = m # ms \<Longrightarrow> m \<noteq> []"
    by (metis is_line_def list.set_intros(1) split_inclusive_is_line)
  show ?case
  proof (cases "split_inclusive d cs")
    case Nil
    with Cons.prems show ?thesis by (auto split: if_splits)
  next
    case (Cons m ms)
    note sp = Cons
    show ?thesis
    proof (cases "c = d")
      case True
      with Cons.prems sp Cons.IH show ?thesis by (auto split: if_splits)
    next
      case False
      with Cons.prems sp have "l \<in> set (butlast ((c # m) # ms))" by simp
      then show ?thesis
        using sp ne [OF sp] Cons.IH by (cases ms) auto
    qed
  qed
qed simp

lemma concat_take_split_end:
  assumes "n < length (split_inclusive d s)"
  shows "concat (take n (split_inclusive d s)) = [] \<or> last (concat (take n (split_inclusive d s))) = d"
proof (cases n)
  case 0
  then show ?thesis by simp
next
  case (Suc m)
  let ?ls = "split_inclusive d s"
  from Suc assms have m: "m < length ?ls" by simp
  have "take n ?ls = take m ?ls @ [?ls ! m]"
    using Suc m by (simp add: take_Suc_conv_app_nth)
  moreover have "?ls ! m \<noteq> []"
    using m split_inclusive_is_line [of "?ls ! m" d s] by (auto simp: is_line_def)
  moreover have "last (?ls ! m) = d"
  proof (rule split_inclusive_butlast)
    show "?ls ! m \<in> set (butlast ?ls)"
      using assms Suc by (metis Suc_lessE butlast_conv_take diff_Suc_1 in_set_conv_nth length_butlast
          lessI less_Suc_eq nth_butlast not_less_eq)
  qed
  ultimately show ?thesis by simp
qed

lemma split_inclusive_concat_drop:
  "split_inclusive d (concat (drop n (split_inclusive d s))) = drop n (split_inclusive d s)"
proof (induction s arbitrary: n)
  case (Cons c cs)
  show ?case
  proof (cases n)
    case 0
    then show ?thesis by (metis concat_split_inclusive drop0)
  next
    case (Suc m)
    show ?thesis
    proof (cases "c = d")
      case True
      with Suc Cons.IH show ?thesis by simp
    next
      case False
      show ?thesis
      proof (cases "split_inclusive d cs")
        case Nil
        with False Suc show ?thesis by simp
      next
        case (Cons l ls)
        with False Suc have "drop n (split_inclusive d (c # cs)) = drop n (split_inclusive d cs)"
          by simp
        with Cons.IH show ?thesis by simp
      qed
    qed
  qed
qed simp

lemma split_inclusive_concat_take:
  "split_inclusive d (concat (take n (split_inclusive d s))) = take n (split_inclusive d s)"
proof (cases "n < length (split_inclusive d s)")
  case False
  then show ?thesis by simp
next
  case True
  let ?ls = "split_inclusive d s"
  let ?p = "concat (take n ?ls)" and ?q = "concat (drop n ?ls)"
  have "?p @ ?q = s" by (metis append_take_drop_id concat_append concat_split_inclusive)
  then have "?ls = split_inclusive d ?p @ split_inclusive d ?q"
    using split_inclusive_append [OF concat_take_split_end [OF True], of ?q] by simp
  then have "take n ?ls @ drop n ?ls = split_inclusive d ?p @ drop n ?ls"
    by (simp add: split_inclusive_concat_drop)
  then show ?thesis by (metis append_same_eq)
qed

subsection \<open>White space\<close>

text \<open>
  \<open>ws_width s\<close> is the UTF-8 width of the White\_Space scalar value that \<open>s\<close> starts with,
  0 when it starts with another one: U+0009 to U+000D, U+0020, U+0085, U+00A0, U+1680,
  U+2000 to U+200A, U+2028, U+2029, U+202F, U+205F and U+3000.
\<close>

definition byte :: "char \<Rightarrow> nat" where
  "byte c = of_char c"

definition ascii_ws :: "char \<Rightarrow> bool" where
  "ascii_ws c \<longleftrightarrow> c \<in> {CHR 0x09, CHR 0x0A, CHR 0x0B, CHR 0x0C, CHR 0x0D, CHR 0x20}"

definition ws2 :: "char \<Rightarrow> char \<Rightarrow> bool" where
  "ws2 c d \<longleftrightarrow> c = CHR 0xC2 \<and> d \<in> {CHR 0x85, CHR 0xA0}"

definition ws3 :: "char \<Rightarrow> char \<Rightarrow> char \<Rightarrow> bool" where
  "ws3 c d e \<longleftrightarrow>
     (c = CHR 0xE1 \<and> d = CHR 0x9A \<and> e = CHR 0x80) \<or>
     (c = CHR 0xE2 \<and> d = CHR 0x80 \<and>
        e \<in> {CHR 0x80, CHR 0x81, CHR 0x82, CHR 0x83, CHR 0x84, CHR 0x85, CHR 0x86, CHR 0x87,
             CHR 0x88, CHR 0x89, CHR 0x8A, CHR 0xA8, CHR 0xA9, CHR 0xAF}) \<or>
     (c = CHR 0xE2 \<and> d = CHR 0x81 \<and> e = CHR 0x9F) \<or>
     (c = CHR 0xE3 \<and> d = CHR 0x80 \<and> e = CHR 0x80)"

fun ws_width :: "string \<Rightarrow> nat" where
  "ws_width [] = 0"
| "ws_width [c] = (if ascii_ws c then 1 else 0)"
| "ws_width [c, d] = (if ascii_ws c then 1 else if ws2 c d then 2 else 0)"
| "ws_width (c # d # e # r) =
     (if ascii_ws c then 1 else if ws2 c d then 2 else if ws3 c d e then 3 else 0)"

text \<open>The same for the last scalar value, on the reversed byte list.\<close>

fun ws_width_rev :: "string \<Rightarrow> nat" where
  "ws_width_rev [] = 0"
| "ws_width_rev [c] = (if ascii_ws c then 1 else 0)"
| "ws_width_rev [d, c] = (if ascii_ws d then 1 else if ws2 c d then 2 else 0)"
| "ws_width_rev (e # d # c # r) =
     (if ascii_ws e then 1 else if ws2 d e then 2 else if ws3 c d e then 3 else 0)"

lemma ws_width_le: "ws_width s \<le> length s"
  by (induction s rule: ws_width.induct) auto

lemma ws_width_rev_le: "ws_width_rev s \<le> length s"
  by (induction s rule: ws_width_rev.induct) auto

function trim_start :: "string \<Rightarrow> string" where
  "trim_start s = (if ws_width s = 0 then s else trim_start (drop (ws_width s) s))"
  by pat_completeness auto
termination
proof (relation "measure length")
  show "(drop (ws_width s) s, s) \<in> measure length" if "ws_width s \<noteq> 0" for s
    using that ws_width_le [of s] by simp
qed simp

function trim_end_rev :: "string \<Rightarrow> string" where
  "trim_end_rev s = (if ws_width_rev s = 0 then s else trim_end_rev (drop (ws_width_rev s) s))"
  by pat_completeness auto
termination
proof (relation "measure length")
  show "(drop (ws_width_rev s) s, s) \<in> measure length" if "ws_width_rev s \<noteq> 0" for s
    using that ws_width_rev_le [of s] by simp
qed simp

declare trim_start.simps [simp del] trim_end_rev.simps [simp del]

definition trim_end :: "string \<Rightarrow> string" where
  "trim_end s = rev (trim_end_rev (rev s))"

definition trim :: "string \<Rightarrow> string" where
  "trim s = trim_end (trim_start s)"

text \<open>\<open>s.find(char::is_whitespace)\<close>.\<close>

fun find_ws :: "string \<Rightarrow> nat option" where
  "find_ws [] = None"
| "find_ws (c # cs) = (if ws_width (c # cs) > 0 then Some 0 else map_option Suc (find_ws cs))"

lemma find_ws_bound: "find_ws s = Some i \<Longrightarrow> i < length s"
  by (induction s arbitrary: i) (auto split: if_splits)

lemma trim_start_suffix: "\<exists>p. s = p @ trim_start s"
proof (induction s rule: trim_start.induct)
  case (1 s)
  show ?case
  proof (cases "ws_width s = 0")
    case True
    then show ?thesis by (simp add: trim_start.simps)
  next
    case False
    with "1" obtain p where "drop (ws_width s) s = p @ trim_start (drop (ws_width s) s)" by blast
    then have "s = (take (ws_width s) s @ p) @ trim_start (drop (ws_width s) s)"
      by (metis append.assoc append_take_drop_id)
    with False show ?thesis by (metis trim_start.simps)
  qed
qed

lemma trim_end_rev_suffix: "\<exists>p. s = p @ trim_end_rev s"
proof (induction s rule: trim_end_rev.induct)
  case (1 s)
  show ?case
  proof (cases "ws_width_rev s = 0")
    case True
    then show ?thesis by (simp add: trim_end_rev.simps)
  next
    case False
    with "1" obtain p where "drop (ws_width_rev s) s = p @ trim_end_rev (drop (ws_width_rev s) s)"
      by blast
    then have "s = (take (ws_width_rev s) s @ p) @ trim_end_rev (drop (ws_width_rev s) s)"
      by (metis append.assoc append_take_drop_id)
    with False show ?thesis by (metis trim_end_rev.simps)
  qed
qed

lemma trim_infix: "\<exists>a b. s = a @ trim s @ b"
proof -
  obtain a where a: "s = a @ trim_start s" using trim_start_suffix by blast
  obtain p where "rev (trim_start s) = p @ trim_end_rev (rev (trim_start s))"
    using trim_end_rev_suffix by blast
  then have "trim_start s = trim s @ rev p"
    unfolding trim_def trim_end_def by (metis rev_append rev_rev_ident)
  with a show ?thesis by metis
qed

subsection \<open>Trimming fixed bytes\<close>

text \<open>\<open>trim_end_matches\<close> and \<open>trim_matches\<close> with a set of one-byte patterns.\<close>

definition trim_end_matches :: "char set \<Rightarrow> string \<Rightarrow> string" where
  "trim_end_matches cs s = rev (dropWhile (\<lambda>c. c \<in> cs) (rev s))"

definition trim_start_matches :: "char set \<Rightarrow> string \<Rightarrow> string" where
  "trim_start_matches cs s = dropWhile (\<lambda>c. c \<in> cs) s"

definition trim_matches :: "char set \<Rightarrow> string \<Rightarrow> string" where
  "trim_matches cs s = trim_end_matches cs (trim_start_matches cs s)"

lemma trim_end_matches_decomp:
  "\<exists>t. s = trim_end_matches cs s @ t \<and> set t \<subseteq> cs"
proof -
  have "rev s = takeWhile (\<lambda>c. c \<in> cs) (rev s) @ dropWhile (\<lambda>c. c \<in> cs) (rev s)" by simp
  then have "s = trim_end_matches cs s @ rev (takeWhile (\<lambda>c. c \<in> cs) (rev s))"
    unfolding trim_end_matches_def by (metis rev_append rev_rev_ident)
  moreover have "set (rev (takeWhile (\<lambda>c. c \<in> cs) (rev s))) \<subseteq> cs"
    by (auto dest: set_takeWhileD)
  ultimately show ?thesis by blast
qed

lemma trim_end_matches_last:
  "trim_end_matches cs s \<noteq> [] \<Longrightarrow> last (trim_end_matches cs s) \<notin> cs"
  unfolding trim_end_matches_def
  by (metis (no_types, lifting) hd_dropWhile last_rev rev.simps(1))

lemma trim_end_matches_id: "s = [] \<or> last s \<notin> cs \<Longrightarrow> trim_end_matches cs s = s"
  by (cases s rule: rev_cases) (auto simp: trim_end_matches_def)

subsection \<open>ASCII case\<close>

definition ascii_lower_char :: "char \<Rightarrow> char" where
  "ascii_lower_char c = (if 65 \<le> byte c \<and> byte c \<le> 90 then char_of (byte c + 32) else c)"

definition to_ascii_lowercase :: "string \<Rightarrow> string" where
  "to_ascii_lowercase s = map ascii_lower_char s"

subsection \<open>UTF-8 scalar values\<close>

definition is_continuation :: "char \<Rightarrow> bool" where
  "is_continuation c \<longleftrightarrow> 128 \<le> byte c \<and> byte c < 192"

text \<open>\<open>s.chars().count()\<close>: the bytes that start a scalar value.\<close>

definition char_count :: "string \<Rightarrow> nat" where
  "char_count s = length (filter (\<lambda>c. \<not> is_continuation c) s)"

text \<open>\<open>s.chars().take(n).collect()\<close>: the bytes of the first \<open>n\<close> scalar values.\<close>

fun take_chars :: "nat \<Rightarrow> string \<Rightarrow> string" where
  "take_chars n [] = []"
| "take_chars n (c # cs) =
     (if is_continuation c then c # take_chars n cs
      else if n = 0 then [] else c # take_chars (n - 1) cs)"

lemma char_count_append [simp]: "char_count (a @ b) = char_count a + char_count b"
  by (simp add: char_count_def)

lemma char_count_take_chars: "char_count (take_chars n s) \<le> n"
proof (induction n s rule: take_chars.induct)
  case (2 n c cs)
  then show ?case by (auto simp: char_count_def)
qed (simp add: char_count_def)

lemma char_count_le: "char_count s \<le> length s"
  by (simp add: char_count_def)

subsection \<open>Further facts shared by the parsers\<close>

text \<open>\<open>n.to_string()\<close>, in decimal.\<close>

function show_nat :: "nat \<Rightarrow> string" where
  "show_nat n = (if n < 10 then [char_of (48 + n)] else show_nat (n div 10) @ [char_of (48 + n mod 10)])"
  by pat_completeness auto
termination
  by (relation "measure id") auto

declare show_nat.simps [simp del]

lemma trim_id: "ws_width s = 0 \<Longrightarrow> ws_width_rev (rev s) = 0 \<Longrightarrow> trim s = s"
  by (simp add: trim_def trim_end_def trim_start.simps trim_end_rev.simps)

lemmas trim_eval = trim_def trim_end_def trim_start.simps trim_end_rev.simps ascii_ws_def ws2_def ws3_def

lemma trim_Nil [simp]: "trim [] = []"
  by (simp add: trim_eval)

lemma find_ws_pos: "find_ws s = Some i \<Longrightarrow> ws_width s = 0 \<Longrightarrow> 0 < i"
  by (cases s) (auto split: if_splits)

lemma ws_width_before_space:
  "ws_width (c # cs) = 0 \<Longrightarrow> ws_width (c # cs @ CHR 0x20 # t) = 0"
  by (cases cs; cases "tl cs"; cases t) (auto simp: ws2_def ws3_def split: if_splits)

lemma find_ws_before_space:
  "find_ws s = None \<Longrightarrow> find_ws (s @ CHR 0x20 # t) = Some (length s)"
proof (induction s)
  case Nil
  then show ?case by (cases t; cases "tl t") (auto simp: ascii_ws_def)
next
  case (Cons c cs)
  from Cons.prems have "ws_width (c # cs) = 0" "find_ws cs = None" by (auto split: if_splits)
  with Cons.IH ws_width_before_space [of c cs t] show ?case by simp
qed

text \<open>Lines put together again: the pieces of a concatenation of terminated lines.\<close>

lemma split_inclusive_concat_lines:
  assumes "\<forall>l \<in> set (butlast ls). \<exists>b. l = b @ [d] \<and> d \<notin> set b"
    and "ls \<noteq> [] \<Longrightarrow> d \<notin> set (butlast (last ls))"
  shows "split_inclusive d (concat ls) = (if ls \<noteq> [] \<and> last ls = [] then butlast ls else ls)"
  using assms
proof (induction ls)
  case (Cons l ls)
  show ?case
  proof (cases "ls = []")
    case True
    with Cons.prems show ?thesis by (simp add: split_inclusive_line)
  next
    case False
    with Cons.prems obtain b where b: "l = b @ [d]" "d \<notin> set b" by auto
    have "split_inclusive d (concat ls) = (if ls \<noteq> [] \<and> last ls = [] then butlast ls else ls)"
      using Cons.IH Cons.prems False by simp
    moreover have "split_inclusive d (l @ concat ls) = [l] @ split_inclusive d (concat ls)"
    proof -
      have "split_inclusive d l = [l]" by (rule split_inclusive_line) (use b in simp_all)
      then show ?thesis using split_inclusive_append [of l d "concat ls"] b(1) by simp
    qed
    ultimately show ?thesis using False by simp
  qed
qed simp

lemma split_inclusive_cases:
  assumes "l \<in> set (split_inclusive d s)"
  obtains b where "d \<notin> set b" "l = b @ [d]" | b where "d \<notin> set b" "l = b" "l \<noteq> []"
    "l = last (split_inclusive d s)"
proof -
  from split_inclusive_is_line [OF assms] have il: "l \<noteq> []" "d \<notin> set (butlast l)"
    by (auto simp: is_line_def)
  from il have dec: "l = butlast l @ [last l]" by simp
  show ?thesis
  proof (cases "last l = d")
    case True
    with il dec show ?thesis using that(1) by metis
  next
    case False
    have "l \<notin> set (butlast (split_inclusive d s))"
      using False split_inclusive_butlast [of l d s] by auto
    moreover have "split_inclusive d s = butlast (split_inclusive d s) @ [last (split_inclusive d s)]"
      using assms by (cases "split_inclusive d s = []") auto
    ultimately have "l = last (split_inclusive d s)"
      using assms by (metis Un_iff empty_iff empty_set set_ConsD set_append)
    moreover have "d \<notin> set l"
      using il False dec by (metis Un_iff empty_iff empty_set set_ConsD set_append)
    ultimately show ?thesis using il that(2) by blast
  qed
qed

lemma find_ws_None_width: "find_ws s = None \<Longrightarrow> ws_width s = 0"
  by (cases s) (auto split: if_splits)

lemma find_ws_None_append: "find_ws (a @ b) = None \<Longrightarrow> find_ws b = None"
  by (induction a) (auto split: if_splits)

text \<open>
  A text that ends in a run without white space after a plain ASCII byte does not end in
  white space.
\<close>

lemma ws_width_rev_token:
  assumes no: "find_ws r = None" and ne: "r \<noteq> []" and x: "byte x < 128"
  shows "ws_width_rev (rev r @ x # t) = 0"
proof -
  have x': "x \<notin> {CHR 0xC2, CHR 0xE1, CHR 0xE2, CHR 0xE3, CHR 0x9A, CHR 0x80, CHR 0x81}"
    using x by (auto simp: byte_def)
  obtain r1 e where r: "r = r1 @ [e]" using ne by (metis rev_exhaust)
  have e: "\<not> ascii_ws e"
    using find_ws_None_append [of r1 "[e]"] find_ws_None_width [of "[e]"] no r by (auto split: if_splits)
  show ?thesis
  proof (cases r1 rule: rev_cases)
    case Nil
    with r e x' show ?thesis by (cases t) (auto simp: ws2_def ws3_def)
  next
    case (snoc r2 d)
    have de: "\<not> ws2 d e"
      using find_ws_None_append [of r2 "[d, e]"] find_ws_None_width [of "[d, e]"] no r snoc e
      by (auto simp: ws2_def ascii_ws_def split: if_splits)
    show ?thesis
    proof (cases r2 rule: rev_cases)
      case Nil
      with r snoc e de x' show ?thesis by (auto simp: ws3_def)
    next
      case (snoc r3 c)
      have "\<not> ws3 c d e"
        using find_ws_None_append [of r3 "[c, d, e]"] find_ws_None_width [of "[c, d, e]"] no r
          \<open>r1 = r2 @ [d]\<close> snoc e de
        by (auto simp: ws3_def ascii_ws_def ws2_def split: if_splits)
      with r \<open>r1 = r2 @ [d]\<close> snoc e de show ?thesis by simp
    qed
  qed
qed

text \<open>\<open>[String]::join\<close>.\<close>

fun join_str :: "string \<Rightarrow> string list \<Rightarrow> string" where
  "join_str sep [] = []"
| "join_str sep [x] = x"
| "join_str sep (x # y # ys) = x @ sep @ join_str sep (y # ys)"

lemma join_append:
  "xs \<noteq> [] \<Longrightarrow> ys \<noteq> [] \<Longrightarrow> join_str d (xs @ ys) = join_str d xs @ d @ join_str d ys"
proof (induction d xs rule: join_str.induct)
  case (2 d x)
  then show ?case by (cases ys) auto
qed auto

text \<open>A search whose first hit lies past a common prefix that already holds the needle's end.\<close>

lemma find_sub_same_prefix:
  assumes "find_sub n (p @ n @ t) = Some (length p)"
  shows "find_sub n (p @ n @ t') = Some (length p)"
proof (rule find_sub_eqI)
  fix j assume j: "j < length p"
  have "take (length n) (drop j (p @ n @ t)) = take (length n) (drop j (p @ n @ t'))"
    using j by simp
  with find_sub_least [OF assms j] show "\<not> starts_with n (drop j (p @ n @ t'))"
    by (simp add: starts_with_def)
qed auto

text \<open>\<open>s.replace(from, to)\<close> for a non-empty \<open>from\<close>.\<close>

function replace_str :: "string \<Rightarrow> string \<Rightarrow> string \<Rightarrow> string" where
  "replace_str from to s =
     (case find_sub from s of
        None \<Rightarrow> s
      | Some i \<Rightarrow>
          (if from = [] then s
           else take i s @ to @ replace_str from to (drop (i + length from) s)))"
  by pat_completeness auto

termination
  by (relation "measure (\<lambda>(_, _, s). length s)") (auto dest!: find_sub_bound simp: neq_Nil_conv)

declare replace_str.simps [simp del]

subsection \<open>Numbers in decimal\<close>

abbreviation digit :: "char \<Rightarrow> bool" where
  "digit c \<equiv> 48 \<le> byte c \<and> byte c < 58"

definition digits_value :: "string \<Rightarrow> nat" where
  "digits_value s = foldl (\<lambda>v c. 10 * v + (byte c - 48)) 0 s"

text \<open>\<open>str::parse::<u64>\<close>: an optional plus sign, then digits, within 64 bits.\<close>

definition parse_u64 :: "string \<Rightarrow> u64 option" where
  "parse_u64 s =
     (let ds = (case s of c # cs \<Rightarrow> if c = CHR ''+'' then cs else s | [] \<Rightarrow> [])
      in if ds \<noteq> [] \<and> list_all (\<lambda>c. digit c) ds \<and> digits_value ds < 2 ^ 64
         then Some (of_nat (digits_value ds)) else None)"

lemma byte_char_of: "n < 256 \<Longrightarrow> byte (char_of n) = n"
  by (simp add: byte_def)

lemma show_nat_nonempty [simp]: "show_nat n \<noteq> []"
  by (subst show_nat.simps) simp

lemma show_nat_digits: "\<forall>c \<in> set (show_nat n). digit c"
  by (induction n rule: show_nat.induct) (subst show_nat.simps, auto simp: byte_char_of)

lemma digits_value_show [simp]: "digits_value (show_nat n) = n"
  by (induction n rule: show_nat.induct) (subst show_nat.simps, auto simp: digits_value_def byte_char_of)

lemma show_nat_inj: "show_nat m = show_nat n \<Longrightarrow> m = n"
  by (metis digits_value_show)

lemma digit_plain:
  assumes "digit c"
  shows "\<not> ascii_ws c" "\<not> ws2 x c" "\<not> ws3 x y c" "\<not> ws2 c x" "\<not> ws3 c x y" "c \<noteq> NL" "c \<noteq> CR" "c \<noteq> CHR ''+''"
  using assms by (auto simp: ascii_ws_def ws2_def ws3_def byte_def)

lemma trim_digits:
  assumes "\<forall>c \<in> set s. digit c"
  shows "trim s = s"
proof (rule trim_id)
  show "ws_width s = 0"
    using assms by (cases s rule: ws_width.cases) (simp_all add: digit_plain)
  have "\<forall>c \<in> set (rev s). digit c" using assms by simp
  then show "ws_width_rev (rev s) = 0"
    by (cases "rev s" rule: ws_width_rev.cases) (simp_all add: digit_plain)
qed

lemma parse_show_u64: "parse_u64 (trim (show_nat (unat w))) = Some w"
proof -
  obtain c cs where digits: "show_nat (unat w) = c # cs" by (cases "show_nat (unat w)") auto
  then have "c \<noteq> CHR ''+''" using show_nat_digits [of "unat w"] by (intro digit_plain(8)) simp
  moreover have "list_all digit (show_nat (unat w))" by (simp add: list_all_iff show_nat_digits)
  moreover have "unat w < 2 ^ 64" using unsigned_less [of w, where ?'a = nat] by simp
  moreover have "trim (show_nat (unat w)) = show_nat (unat w)" by (rule trim_digits) (rule show_nat_digits)
  ultimately show ?thesis
    using digits digits_value_show [of "unat w"] by (simp add: parse_u64_def Let_def)
qed

text \<open>Rust's \<open>Debug\<close> text of a string; a character beyond ASCII is taken as printable.\<close>

definition hex_digit :: "nat \<Rightarrow> char" where
  "hex_digit n = ''0123456789abcdef'' ! n"

definition debug_char :: "char \<Rightarrow> string" where
  "debug_char c =
     (if c = CHR 0x22 then [CHR 0x5C, CHR 0x22]
      else if c = CHR 0x5C then [CHR 0x5C, CHR 0x5C]
      else if c = CHR 0x00 then CHR 0x5C # ''0''
      else if c = CHR 0x09 then CHR 0x5C # ''t''
      else if c = CHR 0x0A then CHR 0x5C # ''n''
      else if c = CHR 0x0D then CHR 0x5C # ''r''
      else let b = (of_char c :: nat)
           in if b < 0x20 \<or> b = 0x7F
              then CHR 0x5C # ''u{'' @ (if b < 16 then [] else [hex_digit (b div 16)]) @ [hex_digit (b mod 16)] @ ''}''
              else [c])"

definition debug_str :: "string \<Rightarrow> string" where
  "debug_str s = [CHR 0x22] @ concat (map debug_char s) @ [CHR 0x22]"

end
