(* ===== verification/Markdown_Events.thy ===== *)
theory Markdown_Events
  imports Rust_Text
begin

text \<open>
  The interface to the CommonMark parser. \<open>pulldown-cmark\<close> is not part of the
  repository: the components take the parser as an argument, a function from a text to
  its event stream with byte ranges. The datatypes name the variants the sources match
  on; every other variant is \<open>TagOther\<close>, \<open>EndOther\<close> or \<open>OtherEvent\<close>.
\<close>

datatype heading_level = H1 | H2 | H3 | H4 | H5 | H6

datatype code_block_kind = Indented | Fenced string

datatype md_tag =
    Heading heading_level
  | Paragraph
  | CodeBlock code_block_kind
  | Link string
  | Image string
  | FootnoteDefinition string
  | TagOther

datatype md_tag_end =
    EndHeading
  | EndParagraph
  | EndCodeBlock
  | EndLink
  | EndImage
  | EndFootnoteDefinition
  | EndOther

datatype md_event =
    Start md_tag
  | End md_tag_end
  | TextEvent string
  | CodeSpan string
  | FootnoteReference string
  | SoftBreak
  | HardBreak
  | OtherEvent

type_synonym md_range = "nat \<times> nat"
type_synonym md_stream = "(md_event \<times> md_range) list"
type_synonym md_parser = "string \<Rightarrow> md_stream"

text \<open>
  \<open>collect_heading_text\<close> of \<open>corpus.rs\<close>: consumes the stream through the end of the
  heading and returns the trimmed text with the rest of the stream.
\<close>

fun collect_heading_text_from :: "string \<Rightarrow> md_stream \<Rightarrow> string \<times> md_stream" where
  "collect_heading_text_from buf [] = (trim buf, [])"
| "collect_heading_text_from buf ((ev, r) # es) =
     (case ev of
        End EndHeading \<Rightarrow> (trim buf, es)
      | TextEvent t \<Rightarrow> collect_heading_text_from (buf @ t) es
      | CodeSpan t \<Rightarrow> collect_heading_text_from (buf @ t) es
      | _ \<Rightarrow> collect_heading_text_from buf es)"

definition collect_heading_text :: "md_stream \<Rightarrow> string \<times> md_stream" where
  "collect_heading_text es = collect_heading_text_from [] es"

lemma collect_heading_text_from_length:
  "collect_heading_text_from buf es = (t, es') \<Longrightarrow> length es' \<le> length es"
  by (induction buf es arbitrary: t es' rule: collect_heading_text_from.induct)
     (fastforce split: md_event.splits md_tag_end.splits)+

lemma collect_heading_text_length:
  "length (snd (collect_heading_text es)) \<le> length es"
  using collect_heading_text_from_length [of "[]" es]
  by (cases "collect_heading_text_from [] es") (simp add: collect_heading_text_def)

lemma collect_heading_text_shorter:
  "(t, es') = collect_heading_text es \<Longrightarrow> length es' < Suc (length es)"
  using collect_heading_text_length [of es] by (metis le_imp_less_Suc snd_conv)

subsection \<open>Where the code blocks are\<close>

text \<open>
  What the scans of the sources track in a flag, declaratively: the event at a position is inside a code
  block when a code block starts before it and none ends in between.
\<close>

definition opens_code_block :: "md_event \<Rightarrow> bool" where
  "opens_code_block ev = (case ev of Start (CodeBlock _) \<Rightarrow> True | _ \<Rightarrow> False)"

definition inside_code_block :: "md_stream \<Rightarrow> nat \<Rightarrow> bool" where
  "inside_code_block es i \<longleftrightarrow>
     (\<exists>j < i. opens_code_block (fst (es ! j)) \<and> (\<forall>m < i. j < m \<longrightarrow> fst (es ! m) \<noteq> End EndCodeBlock))"

lemma inside_code_block_0 [simp]: "\<not> inside_code_block es 0"
  by (simp add: inside_code_block_def)

lemma inside_code_block_Suc:
  "inside_code_block es (Suc i) \<longleftrightarrow>
     opens_code_block (fst (es ! i)) \<or> inside_code_block es i \<and> fst (es ! i) \<noteq> End EndCodeBlock"
  by (auto simp: inside_code_block_def less_Suc_eq)

text \<open>A scan that looks at one event and its place at a time.\<close>

lemma map_positions_Cons:
  assumes "es = pre @ e # rest"
  shows "map f [length pre..<length es] = f (length pre) # map f [length (pre @ [e])..<length es]"
    and "es ! length pre = e"
proof -
  have "length pre < length es" using assms by simp
  from upt_conv_Cons [OF this] show "map f [length pre..<length es] = f (length pre) # map f [length (pre @ [e])..<length es]"
    by simp
qed (use assms in simp)

end
