(* ===== verification/Section_Edit.thy ===== *)
theory Section_Edit
  imports Markdown_Events
begin

text \<open>
  \<open>corpus/section.rs\<close>: the pure edits behind section-scoped \<open>add_markdown\<close> writes.
  \<open>splice_under_heading\<close> inserts a block into the section of a heading,
  \<open>replace_line_range\<close> replaces a range of lines, and \<open>replace_unique_match\<close> replaces
  the one occurrence of a literal. The lemmas show that each keeps every byte outside
  the edited region.
\<close>

subsection \<open>Types\<close>


record line_range =
  lr_start :: nat
  lr_end :: nat


datatype range_error = OutOfRange | Inverted

datatype match_error = MatchNotFound | Ambiguous nat

subsection \<open>Section splice\<close>







subsection \<open>Line range\<close>

definition replace_line_range ::
  "string \<Rightarrow> line_range \<Rightarrow> string \<Rightarrow> (range_error, string) result" where
  "replace_line_range doc rng body =
     (let start = lr_start rng; end = lr_end rng
      in if start = 0 \<or> end = 0 then Err OutOfRange
         else if start > end then Err Inverted
         else let ls = split_inclusive NL doc
              in if end > length ls then Err OutOfRange
                 else Ok (concat (take (start - 1) ls) @ trim_matches {NL} body @ [NL]
                          @ concat (drop end ls)))"

subsection \<open>Unique literal match\<close>

text \<open>\<open>doc.matches(needle).count()\<close>: the non-overlapping occurrences, left to right.\<close>

function match_count :: "'a list \<Rightarrow> 'a list \<Rightarrow> nat" where
  "match_count n s =
     (case find_sub n s of
        None \<Rightarrow> 0
      | Some i \<Rightarrow> if n = [] then 0 else Suc (match_count n (drop (i + length n) s)))"
  by pat_completeness auto
termination
proof (relation "measure (\<lambda>(n, s). length s)", goal_cases)
  case (2 n s i)
  then show ?case using find_sub_bound [of n s i] by (cases n) auto
qed simp

declare match_count.simps [simp del]

text \<open>\<open>doc.replacen(needle, body, 1)\<close>.\<close>

definition replace_first :: "'a list \<Rightarrow> 'a list \<Rightarrow> 'a list \<Rightarrow> 'a list" where
  "replace_first n body s =
     (case find_sub n s of
        None \<Rightarrow> s
      | Some i \<Rightarrow> take i s @ body @ drop (i + length n) s)"

definition replace_unique_match ::
  "string \<Rightarrow> string \<Rightarrow> string \<Rightarrow> (match_error, string) result" where
  "replace_unique_match doc needle body =
     (if needle = [] then Err MatchNotFound
      else let count = match_count needle doc
           in if count = 0 then Err MatchNotFound
              else if count = 1 then Ok (replace_first needle body doc)
              else Err (Ambiguous count))"

subsection \<open>Facts on the heading scan\<close>






subsection \<open>Facts on matching\<close>

lemma match_count_zero: "n \<noteq> [] \<Longrightarrow> match_count n s = 0 \<longleftrightarrow> \<not> occurs n s"
  by (simp add: match_count.simps [of n s] occurs_def split: option.splits)

lemma match_count_one:
  assumes "n \<noteq> []"
  shows "match_count n s = 1 \<longleftrightarrow>
    (\<exists>i. find_sub n s = Some i \<and> \<not> occurs n (drop (i + length n) s))"
  using assms match_count_zero [of n]
  by (simp add: match_count.simps [of n s] split: option.splits)

text \<open>
  The non-overlapping occurrences declaratively: the text is cut into pieces that each end at the next
  occurrence of \<open>n\<close>, the first one there is in the piece, and a rest without any.
\<close>

definition cut_at_matches :: "'a list \<Rightarrow> 'a list list \<Rightarrow> 'a list \<Rightarrow> 'a list \<Rightarrow> bool" where
  "cut_at_matches n pieces rest s \<longleftrightarrow>
     s = concat (map (\<lambda>p. p @ n) pieces) @ rest \<and> \<not> occurs n rest \<and>
     (\<forall>p \<in> set pieces. \<forall>j < length p. \<not> starts_with n (drop j (p @ n)))"

lemma starts_with_drop_piece:
  assumes "j \<le> length p"
  shows "starts_with n (drop j (p @ n @ s)) \<longleftrightarrow> starts_with n (drop j (p @ n))"
proof -
  have "drop j (p @ n @ s) = drop j (p @ n) @ s" "length n \<le> length (drop j (p @ n))" using assms by simp_all
  then show ?thesis by (simp add: starts_with_def)
qed

lemma cut_at_matches_exists:
  "n \<noteq> [] \<Longrightarrow> \<exists>pieces rest. cut_at_matches n pieces rest s \<and> length pieces = match_count n s"
proof (induction s rule: measure_induct_rule [of length])
  case (less s)
  show ?case
  proof (cases "find_sub n s")
    case None
    then have "cut_at_matches n [] s s" "match_count n s = 0"
      by (simp_all add: cut_at_matches_def occurs_def match_count.simps [of n s])
    then show ?thesis by (metis list.size(3))
  next
    case (Some i)
    note dec = find_sub_decomp [OF Some]
    have "length (drop (i + length n) s) < length s" using dec less.prems by (cases n) auto
    from less.IH [OF this less.prems] obtain pieces rest where
      ih: "cut_at_matches n pieces rest (drop (i + length n) s)" "length pieces = match_count n (drop (i + length n) s)"
      by blast
    have "\<not> starts_with n (drop j (take i s @ n))" if "j < length (take i s)" for j
    proof -
      have "\<not> starts_with n (drop j s)" using find_sub_least [OF Some] that by simp
      then show ?thesis
        using starts_with_drop_piece [of j "take i s" n "drop (i + length n) s"] dec that by simp
    qed
    moreover have "s = concat (map (\<lambda>p. p @ n) (take i s # pieces)) @ rest"
      using dec ih(1) by (simp add: cut_at_matches_def)
    ultimately have "cut_at_matches n (take i s # pieces) rest s"
      using ih(1) unfolding cut_at_matches_def by simp
    moreover have "length (take i s # pieces) = match_count n s"
      using ih(2) Some less.prems by (simp add: match_count.simps [of n s])
    ultimately show ?thesis by blast
  qed
qed

lemma cut_at_matches_count:
  "n \<noteq> [] \<Longrightarrow> cut_at_matches n pieces rest s \<Longrightarrow> match_count n s = length pieces"
proof (induction pieces arbitrary: s)
  case Nil
  then show ?case by (simp add: cut_at_matches_def match_count_zero)
next
  case (Cons p pieces)
  let ?s = "concat (map (\<lambda>p. p @ n) pieces) @ rest"
  have s: "s = p @ n @ ?s" and p: "\<forall>j < length p. \<not> starts_with n (drop j (p @ n))"
    using Cons.prems(2) by (auto simp: cut_at_matches_def)
  have "find_sub n s = Some (length p)"
  proof (rule find_sub_eqI)
    show "\<not> starts_with n (drop j s)" if "j < length p" for j
      using p that starts_with_drop_piece [of j p n ?s] unfolding s by simp
  qed (simp_all add: s starts_with_def)
  moreover have "match_count n ?s = length pieces"
    using Cons by (simp add: cut_at_matches_def)
  moreover have "drop (length p + length n) s = ?s" using s by simp
  ultimately show ?case using Cons.prems(1) unfolding match_count.simps [of n s] by simp
qed

lemma match_count_pieces:
  assumes "n \<noteq> []"
  shows "match_count n s = k \<longleftrightarrow> (\<exists>pieces rest. cut_at_matches n pieces rest s \<and> length pieces = k)"
  using cut_at_matches_exists [OF assms] cut_at_matches_count [OF assms] by metis

subsection \<open>Properties\<close>







text \<open>
  C2. A line-range replacement is surgical. It fails with \<open>OutOfRange\<close> when a bound is
  zero or the end is past the last line, with \<open>Inverted\<close> when the bounds are swapped,
  and otherwise the lines of the result are exactly the lines before the range, the
  lines of the body with its surrounding line feeds trimmed and one terminator added,
  and the lines after the range.
\<close>

theorem replace_line_range_lines:
  "case replace_line_range doc \<lparr>lr_start = s, lr_end = e\<rparr> body of
     Err OutOfRange \<Rightarrow> s = 0 \<or> e = 0 \<or> s \<le> e \<and> length (split_inclusive NL doc) < e
   | Err Inverted \<Rightarrow> 0 < e \<and> e < s
   | Ok r \<Rightarrow> 0 < s \<and> s \<le> e \<and> e \<le> length (split_inclusive NL doc) \<and>
       split_inclusive NL r =
         take (s - 1) (split_inclusive NL doc)
         @ split_inclusive NL (trim_matches {NL} body @ [NL])
         @ drop e (split_inclusive NL doc)"
proof (cases "s = 0 \<or> e = 0 \<or> e < s \<or> length (split_inclusive NL doc) < e")
  case True
  then show ?thesis by (auto simp: replace_line_range_def Let_def)
next
  case False
  let ?ls = "split_inclusive NL doc" and ?b = "trim_matches {NL} body @ [NL]"
  let ?r = "concat (take (s - 1) ?ls) @ ?b @ concat (drop e ?ls)"
  have ok: "replace_line_range doc \<lparr>lr_start = s, lr_end = e\<rparr> body = Ok ?r"
    using False by (auto simp: replace_line_range_def Let_def)
  have "s - 1 < length ?ls" using False by linarith
  from concat_take_split_end [OF this]
  have "split_inclusive NL ?r =
      split_inclusive NL (concat (take (s - 1) ?ls)) @ split_inclusive NL (?b @ concat (drop e ?ls))"
    by (rule split_inclusive_append)
  also have "split_inclusive NL (?b @ concat (drop e ?ls)) =
      split_inclusive NL ?b @ split_inclusive NL (concat (drop e ?ls))"
    by (rule split_inclusive_append) simp
  finally have "split_inclusive NL ?r = take (s - 1) ?ls @ split_inclusive NL ?b @ drop e ?ls"
    by (simp only: split_inclusive_concat_take split_inclusive_concat_drop)
  with False ok show ?thesis by simp
qed

lemma replace_unique_match_ok:
  "replace_unique_match doc needle body = Ok r \<longleftrightarrow>
     needle \<noteq> [] \<and>
     (\<exists>pre post. doc = pre @ needle @ post \<and> r = pre @ body @ post \<and>
        \<not> occurs needle post \<and>
        (\<forall>j < length pre. \<not> starts_with needle (drop j doc)))"
  (is "?L \<longleftrightarrow> ?R")
proof
  assume ?L
  then have ne: "needle \<noteq> []" and one: "match_count needle doc = 1"
    and r: "r = replace_first needle body doc"
    by (auto simp: replace_unique_match_def Let_def split: if_splits)
  from one obtain i where i: "find_sub needle doc = Some i"
    and no: "\<not> occurs needle (drop (i + length needle) doc)"
    using match_count_one [OF ne] by blast
  from find_sub_decomp [OF i]
  have dec: "doc = take i doc @ needle @ drop (i + length needle) doc" and len: "i \<le> length doc"
    by auto
  have r': "r = take i doc @ body @ drop (i + length needle) doc"
    using r i by (simp add: replace_first_def)
  have "\<forall>j < length (take i doc). \<not> starts_with needle (drop j doc)"
    using find_sub_least [OF i] by simp
  with ne dec r' no show ?R by blast
next
  assume ?R
  then obtain pre post where ne: "needle \<noteq> []" and doc: "doc = pre @ needle @ post"
    and r: "r = pre @ body @ post" and no: "\<not> occurs needle post"
    and least: "\<forall>j < length pre. \<not> starts_with needle (drop j doc)" by blast
  have i: "find_sub needle doc = Some (length pre)"
    by (rule find_sub_eqI) (use doc least in auto)
  with no doc have "match_count needle doc = 1"
    using match_count_one [OF ne, of doc] by auto
  with ne i doc r show ?L
    by (simp add: replace_unique_match_def replace_first_def)
qed

text \<open>
  C3. A literal replacement succeeds exactly when the needle is not empty and the text
  after its first occurrence holds no further one, and then the result is the document
  with that occurrence replaced and every other byte kept. It reports that nothing matches
  exactly for an empty needle and for one that does not occur. Otherwise it reports the
  match as ambiguous, with the number of the occurrences, two at least, read from left to
  right without overlap.
\<close>

theorem replace_unique_match_iff:
  "(replace_unique_match doc needle body = Ok r \<longleftrightarrow>
      needle \<noteq> [] \<and>
      (\<exists>pre post. doc = pre @ needle @ post \<and> r = pre @ body @ post \<and>
         \<not> occurs needle post \<and>
         (\<forall>j < length pre. \<not> starts_with needle (drop j doc)))) \<and>
   (replace_unique_match doc needle body = Err MatchNotFound \<longleftrightarrow> needle = [] \<or> \<not> occurs needle doc) \<and>
   (replace_unique_match doc needle body = Err (Ambiguous n) \<longleftrightarrow>
      needle \<noteq> [] \<and> 2 \<le> n \<and>
      (\<exists>pieces rest. length pieces = n \<and> doc = concat (map (\<lambda>p. p @ needle) pieces) @ rest \<and>
         \<not> occurs needle rest \<and>
         (\<forall>p \<in> set pieces. \<forall>j < length p. \<not> starts_with needle (drop j (p @ needle)))))"
proof (intro conjI)
  show "replace_unique_match doc needle body = Err MatchNotFound \<longleftrightarrow> needle = [] \<or> \<not> occurs needle doc"
    using match_count_zero [of needle doc] by (auto simp: replace_unique_match_def Let_def)
  show "replace_unique_match doc needle body = Err (Ambiguous n) \<longleftrightarrow>
      needle \<noteq> [] \<and> 2 \<le> n \<and>
      (\<exists>pieces rest. length pieces = n \<and> doc = concat (map (\<lambda>p. p @ needle) pieces) @ rest \<and>
         \<not> occurs needle rest \<and>
         (\<forall>p \<in> set pieces. \<forall>j < length p. \<not> starts_with needle (drop j (p @ needle))))"
  proof (cases "needle = []")
    case False
    have "replace_unique_match doc needle body = Err (Ambiguous n) \<longleftrightarrow> 2 \<le> n \<and> match_count needle doc = n"
      using False by (auto simp: replace_unique_match_def Let_def)
    then show ?thesis using False match_count_pieces [OF False, of doc n] unfolding cut_at_matches_def by blast
  qed (simp add: replace_unique_match_def)
qed (rule replace_unique_match_ok)

theorem replace_unique_match_iff_witness:
  "replace_unique_match ''one two'' ''two'' ''2'' = Ok ''one 2'' \<and>
   (\<exists>pre post. ''one two'' = pre @ ''two'' @ post \<and> ''one 2'' = pre @ ''2'' @ post) \<and>
   replace_unique_match ''one two'' ''ten'' ''2'' = Err MatchNotFound \<and>
   replace_unique_match ''aaaaa'' ''aa'' ''2'' = Err (Ambiguous 2)"
proof (intro conjI)
  show one: "replace_unique_match ''one two'' ''two'' ''2'' = Ok ''one 2''"
    by (simp add: replace_unique_match_def match_count.simps replace_first_def)
  then show "\<exists>pre post. ''one two'' = pre @ ''two'' @ post \<and> ''one 2'' = pre @ ''2'' @ post"
    using replace_unique_match_iff [of "''one two''" "''two''" "''2''" "''one 2''"] by blast
  show "replace_unique_match ''one two'' ''ten'' ''2'' = Err MatchNotFound"
    using replace_unique_match_iff [of "''one two''" "''ten''" "''2''"] by (simp add: occurs_def)
  have "replace_unique_match ''aaaaa'' ''aa'' ''2'' = Err (Ambiguous 2) \<longleftrightarrow>
      (\<exists>pieces rest. length pieces = 2 \<and> ''aaaaa'' = concat (map (\<lambda>p. p @ ''aa'') pieces) @ rest \<and>
         \<not> occurs ''aa'' rest \<and> (\<forall>p \<in> set pieces. \<forall>j < length p. \<not> starts_with ''aa'' (drop j (p @ ''aa''))))"
    using replace_unique_match_iff [of "''aaaaa''" "''aa''" "''2''" _ 2] by simp
  then show "replace_unique_match ''aaaaa'' ''aa'' ''2'' = Err (Ambiguous 2)"
    by (rule iffD2) (intro exI [of _ "[[], []]"] exI [of _ "''a''"], simp add: occurs_def)
qed

end
