(* ===== verification/Claim_Marks.thy ===== *)
theory Claim_Marks
  imports Rust_Text
begin

text \<open>
  \<open>corpus/claim_marks.rs\<close>: claim-level provenance marks, the inline comments
  \<open><!--claim:STATUS ref=... note="..."-->\<close>. The theory models the comment scanner, the
  attribute parser, extraction, stripping and the advisory lint. Stripping leaves no
  claim comment behind and keeps every line feed; a mark written in canonical form is
  extracted with its fields.
\<close>

subsection \<open>Types\<close>

datatype claim_status = Confirmed | Qualified | Superseded | Contradicted

definition from_str_ci :: "string \<Rightarrow> claim_status option" where
  "from_str_ci s =
     (let w = to_ascii_lowercase (trim s)
      in if w = ''confirmed'' then Some Confirmed
         else if w = ''qualified'' then Some Qualified
         else if w = ''superseded'' then Some Superseded
         else if w = ''contradicted'' then Some Contradicted
         else None)"

fun expects_reference :: "claim_status \<Rightarrow> bool" where
  "expects_reference Superseded = True"
| "expects_reference Contradicted = True"
| "expects_reference _ = False"

record claim_mark =
  status :: claim_status
  line :: nat
  reference :: "string option"
  note_text :: "string option"

datatype comment =
    NotClaim
  | Malformed
  | Mark claim_status "string option" "string option"

subsection \<open>Attributes\<close>

text \<open>
  The loop of \<open>parse_attributes\<close>. The suffix \<open>&span[i..]\<close> is the argument, so advancing
  \<open>i\<close> is dropping bytes; the accumulators are \<open>reference\<close> and \<open>note\<close>.
\<close>

abbreviation note_open :: string where "note_open \<equiv> ''note='' @ [CHR 0x22]"

function parse_attributes_from ::
  "string \<Rightarrow> string option \<Rightarrow> string option \<Rightarrow> string option \<times> string option" where
  "parse_attributes_from rest ref nt =
     (if rest = [] then (ref, nt)
      else if ws_width rest > 0 then parse_attributes_from (drop (ws_width rest) rest) ref nt
      else case strip_prefix_str note_open rest of
          Some after \<Rightarrow>
            (case find_sub [CHR 0x22] after of
               Some k \<Rightarrow> parse_attributes_from (drop (k + 1) after) ref (Some (take k after))
             | None \<Rightarrow> (ref, Some after))
        | None \<Rightarrow>
            (if starts_with ''ref='' rest then
               let after = drop 4 rest;
                   k = (case find_ws after of Some k \<Rightarrow> k | None \<Rightarrow> length after);
                   v = take k after
               in parse_attributes_from (drop k after)
                    (if v \<noteq> [] then Some v else ref) nt
             else
               let k = (case find_ws rest of Some k \<Rightarrow> k | None \<Rightarrow> length rest)
               in parse_attributes_from (drop k rest) ref nt))"
  by pat_completeness auto
termination
proof (relation "measure (\<lambda>(rest, ref, nt). length rest)", goal_cases)
  case 1
  then show ?case by simp
next
  case (2 rest ref nt)
  then show ?case using ws_width_le [of rest] by simp
qed (auto simp: strip_prefix_Some starts_with_iff split: option.splits dest: find_ws_pos)

declare parse_attributes_from.simps [simp del]

definition parse_attributes :: "string \<Rightarrow> string option \<times> string option" where
  "parse_attributes span = parse_attributes_from span None None"

definition classify :: "string \<Rightarrow> comment" where
  "classify inner =
     (case strip_prefix_str ''claim:'' (trim inner) of
        None \<Rightarrow> NotClaim
      | Some rest \<Rightarrow>
          (let (status_tok, attr_span) =
                 (case find_ws rest of
                    Some i \<Rightarrow> (take i rest, drop i rest)
                  | None \<Rightarrow> (rest, []))
           in case from_str_ci status_tok of
                None \<Rightarrow> Malformed
              | Some st \<Rightarrow> (let (ref, nt) = parse_attributes attr_span in Mark st ref nt)))"

subsection \<open>Scanning\<close>

text \<open>The comments whose delimiters sit on one line, in order.\<close>

function line_comments :: "string \<Rightarrow> string list" where
  "line_comments rest =
     (case find_sub ''<!--'' rest of
        None \<Rightarrow> []
      | Some opn \<Rightarrow>
          (let after = drop (opn + 4) rest
           in case find_sub ''-->'' after of
                None \<Rightarrow> []
              | Some cls \<Rightarrow> take cls after # line_comments (drop (cls + 3) after)))"
  by pat_completeness auto
termination
proof (relation "measure length", goal_cases)
  case (2 rest opn after cls)
  then show ?case using find_sub_bound [of "''<!--''" rest opn] by auto
qed simp

declare line_comments.simps [simp del]

definition scan_comments :: "string \<Rightarrow> (nat \<times> string) list" where
  "scan_comments content =
     concat (map (\<lambda>(idx, l). map (\<lambda>inner. (idx + 1, inner)) (line_comments l))
       (enumerate 0 (lines_of content)))"

definition extract_claim_marks :: "string \<Rightarrow> claim_mark list" where
  "extract_claim_marks content =
     concat (map (\<lambda>(ln, inner).
        case classify inner of
          Mark st ref nt \<Rightarrow> [\<lparr>status = st, line = ln, reference = ref, note_text = nt\<rparr>]
        | _ \<Rightarrow> []) (scan_comments content))"

subsection \<open>Stripping\<close>

function strip_claim_comments_once :: "string \<Rightarrow> string" where
  "strip_claim_comments_once rest =
     (case find_sub ''<!--'' rest of
        None \<Rightarrow> rest
      | Some opn \<Rightarrow>
          (let after = drop (opn + 4) rest
           in case find_sub ''-->'' after of
                None \<Rightarrow> rest
              | Some cls \<Rightarrow>
                  (let inner = take cls after;
                       full_end = opn + 4 + cls + 3;
                       kept = (case classify inner of
                                 NotClaim \<Rightarrow> take full_end rest
                               | _ \<Rightarrow> take opn rest)
                   in kept @ strip_claim_comments_once (drop full_end rest))))"
  by pat_completeness auto
termination
proof (relation "measure length", goal_cases)
  case (2 rest opn after cls inner full_end kept)
  then show ?case using find_sub_bound [of "''<!--''" rest opn] by auto
qed simp

declare strip_claim_comments_once.simps [simp del]

lemma strip_once_length: "length (strip_claim_comments_once l) \<le> length l"
proof (induction l rule: strip_claim_comments_once.induct)
  case (1 rest)
  show ?case
    using "1.IH" find_sub_bound
    by (subst strip_claim_comments_once.simps)
       (fastforce simp: Let_def split: option.splits comment.splits)
qed

text \<open>The loop that strips until the length no longer changes.\<close>

function strip_until_stable :: "string \<Rightarrow> string" where
  "strip_until_stable l =
     (let next = strip_claim_comments_once l
      in if length next = length l then next else strip_until_stable next)"
  by pat_completeness auto
termination
proof (relation "measure length", goal_cases)
  case (2 l x)
  then show ?case using strip_once_length [of l] by simp
qed simp

declare strip_until_stable.simps [simp del]

definition strip_claim_comments_in_line :: "string \<Rightarrow> string" where
  "strip_claim_comments_in_line l = strip_until_stable (strip_claim_comments_once l)"

definition strip_segment :: "string \<Rightarrow> string" where
  "strip_segment segment =
     (let (body, eol) = (case strip_suffix_str [NL] segment of
                           Some b \<Rightarrow> (b, [NL])
                         | None \<Rightarrow> (segment, []))
      in strip_claim_comments_in_line body @ eol)"

definition strip_claim_marks :: "string \<Rightarrow> string" where
  "strip_claim_marks doc = concat (map strip_segment (split_inclusive NL doc))"

subsection \<open>Storage and lint\<close>

text \<open>\<open>serde_json::to_string\<close> is the argument \<open>to_json\<close>.\<close>

definition marks_to_canonical_json :: "(claim_mark list \<Rightarrow> string) \<Rightarrow> claim_mark list \<Rightarrow> string option" where
  "marks_to_canonical_json to_json marks = (if marks = [] then None else Some (to_json marks))"

fun status_word :: "claim_status \<Rightarrow> string" where
  "status_word Confirmed = ''confirmed''"
| "status_word Qualified = ''qualified''"
| "status_word Superseded = ''superseded''"
| "status_word Contradicted = ''contradicted''"

definition lint_claim_marks :: "string \<Rightarrow> string list" where
  "lint_claim_marks content =
     concat (map (\<lambda>(ln, inner).
        case classify inner of
          NotClaim \<Rightarrow> []
        | Malformed \<Rightarrow>
            [''line '' @ show_nat ln @
             '': claim comment has an unrecognized status; expected one of '' @
             ''confirmed/qualified/superseded/contradicted (it was ignored as a claim mark)'']
        | Mark st ref nt \<Rightarrow>
            (if expects_reference st \<and> ref = None
             then [''line '' @ show_nat ln @ '': '' @ status_word st @
                   '' claim mark is missing a `ref=` pointer'']
             else [])) (scan_comments content))"

subsection \<open>What stripping leaves\<close>

definition claim_free :: "string \<Rightarrow> bool" where
  "claim_free l \<longleftrightarrow> (\<forall>inner \<in> set (line_comments l). classify inner = NotClaim)"

lemma comment_step:
  assumes "find_sub ''<!--'' rest = Some opn" and "find_sub ''-->'' (drop (opn + 4) rest) = Some cls"
  shows "opn + 4 + cls + 3 \<le> length rest"
    and "drop (cls + 3) (drop (opn + 4) rest) = drop (opn + 4 + cls + 3) rest"
proof -
  show "opn + 4 + cls + 3 \<le> length rest"
    using find_sub_bound [OF assms(1)] find_sub_bound [OF assms(2)] by simp
  show "drop (cls + 3) (drop (opn + 4) rest) = drop (opn + 4 + cls + 3) rest"
    by (simp add: add.commute add.left_commute)
qed

lemma strip_once_stable:
  "length (strip_claim_comments_once l) = length l \<Longrightarrow> strip_claim_comments_once l = l \<and> claim_free l"
proof (induction l rule: strip_claim_comments_once.induct)
  case (1 rest)
  show ?case
  proof (cases "find_sub ''<!--'' rest")
    case None
    then show ?thesis
      by (simp add: strip_claim_comments_once.simps [of rest] claim_free_def line_comments.simps [of rest])
  next
    case (Some opn)
    note opn = Some
    show ?thesis
    proof (cases "find_sub ''-->'' (drop (opn + 4) rest)")
      case None
      with opn show ?thesis
        by (simp add: strip_claim_comments_once.simps [of rest] claim_free_def line_comments.simps [of rest])
    next
      case (Some cls)
      let ?inner = "take cls (drop (opn + 4) rest)" and ?e = "opn + 4 + cls + 3"
      note st = comment_step [OF opn Some]
      have lc: "line_comments rest = ?inner # line_comments (drop ?e rest)"
        using opn Some st(2) by (simp add: line_comments.simps [of rest])
      have so: "strip_claim_comments_once rest =
          (case classify ?inner of NotClaim \<Rightarrow> take ?e rest | _ \<Rightarrow> take opn rest)
          @ strip_claim_comments_once (drop ?e rest)"
        by (subst strip_claim_comments_once.simps) (simp only: opn Some option.simps Let_def)
      have ih: "length (strip_claim_comments_once (drop ?e rest)) = length (drop ?e rest) \<Longrightarrow>
          strip_claim_comments_once (drop ?e rest) = drop ?e rest \<and> claim_free (drop ?e rest)"
        using "1.IH" [OF opn refl Some refl refl refl] .
      show ?thesis
      proof (cases "classify ?inner")
        case NotClaim
        with so st(1) "1.prems"
        have "length (strip_claim_comments_once (drop ?e rest)) = length (drop ?e rest)" by simp
        with ih have "strip_claim_comments_once (drop ?e rest) = drop ?e rest" "claim_free (drop ?e rest)"
          by auto
        with so NotClaim lc show ?thesis by (simp add: claim_free_def)
      next
        case Malformed
        with so st(1) "1.prems" strip_once_length [of "drop ?e rest"] show ?thesis by simp
      next
        case Mark
        with so st(1) "1.prems" strip_once_length [of "drop ?e rest"] show ?thesis by simp
      qed
    qed
  qed
qed

lemma strip_once_set: "set (strip_claim_comments_once l) \<subseteq> set l"
proof (induction l rule: strip_claim_comments_once.induct)
  case (1 rest)
  show ?case
    using "1.IH" set_take_subset [of _ rest] set_drop_subset [of _ rest]
    by (subst strip_claim_comments_once.simps)
       (fastforce simp: Let_def split: option.splits comment.splits dest: in_set_takeD in_set_dropD)
qed

lemma strip_until_stable_spec:
  "strip_claim_comments_once (strip_until_stable l) = strip_until_stable l
   \<and> claim_free (strip_until_stable l) \<and> set (strip_until_stable l) \<subseteq> set l"
proof (induction l rule: strip_until_stable.induct)
  case (1 l)
  show ?case
  proof (cases "length (strip_claim_comments_once l) = length l")
    case True
    with strip_once_stable [OF True] show ?thesis by (simp add: strip_until_stable.simps [of l])
  next
    case False
    with "1.IH" [OF refl] strip_once_set [of l] show ?thesis
      by (auto simp: strip_until_stable.simps [of l])
  qed
qed

lemma strip_in_line_spec:
  "claim_free (strip_claim_comments_in_line l)"
  "set (strip_claim_comments_in_line l) \<subseteq> set l"
  "strip_claim_comments_in_line (strip_claim_comments_in_line l) = strip_claim_comments_in_line l"
  using strip_until_stable_spec [of "strip_claim_comments_once l"] strip_once_set [of l]
  by (auto simp: strip_claim_comments_in_line_def strip_until_stable.simps
      [of "strip_until_stable (strip_claim_comments_once l)"])

lemma line_comments_append: "set (line_comments l) \<subseteq> set (line_comments (l @ t))"
proof (induction l rule: line_comments.induct)
  case (1 rest)
  show ?case
  proof (cases "find_sub ''<!--'' rest")
    case None
    then show ?thesis by (simp add: line_comments.simps [of rest])
  next
    case (Some opn)
    note opn = Some
    show ?thesis
    proof (cases "find_sub ''-->'' (drop (opn + 4) rest)")
      case None
      with opn show ?thesis by (simp add: line_comments.simps [of rest])
    next
      case (Some cls)
      have len: "opn + 4 \<le> length rest" using find_sub_bound [OF opn] by simp
      have len2: "cls + 3 \<le> length (drop (opn + 4) rest)" using find_sub_bound [OF Some] by simp
      have "find_sub ''<!--'' (rest @ t) = Some opn" using opn by (rule find_sub_append_stable)
      moreover have "find_sub ''-->'' (drop (opn + 4) (rest @ t)) = Some cls"
        using find_sub_append_stable [OF Some, of t] len by simp
      ultimately have "line_comments (rest @ t) = take cls (drop (opn + 4) rest)
          # line_comments (drop (cls + 3) (drop (opn + 4) rest) @ t)"
        using len len2 by (subst line_comments.simps) simp
      moreover have "line_comments rest = take cls (drop (opn + 4) rest)
          # line_comments (drop (cls + 3) (drop (opn + 4) rest))"
        using opn Some by (subst line_comments.simps) simp
      ultimately show ?thesis using "1.IH" [OF opn refl Some] by auto
    qed
  qed
qed

lemma claim_free_appendD: "claim_free (l @ t) \<Longrightarrow> claim_free l"
  using line_comments_append [of l t] by (auto simp: claim_free_def)

subsection \<open>Lines of the stripped text\<close>

lemma strip_segment_term: "strip_segment (b @ [NL]) = strip_claim_comments_in_line b @ [NL]"
proof -
  have "strip_suffix_str [NL] (b @ [NL]) = Some b" by (simp add: strip_suffix_Some)
  then show ?thesis by (simp add: strip_segment_def)
qed

lemma strip_segment_open: "NL \<notin> set b \<Longrightarrow> strip_segment b = strip_claim_comments_in_line b"
proof -
  assume no: "NL \<notin> set b"
  have "strip_suffix_str [NL] b = None"
  proof (cases "strip_suffix_str [NL] b")
    case (Some t)
    then have "b = t @ [NL]" by (simp only: strip_suffix_Some)
    with no show ?thesis by simp
  qed
  then show ?thesis by (simp add: strip_segment_def)
qed

text \<open>A stripped line: no line feed inside, no claim comment, stable under stripping.\<close>

definition stripped :: "string \<Rightarrow> bool" where
  "stripped b \<longleftrightarrow> NL \<notin> set b \<and> claim_free b \<and> strip_claim_comments_in_line b = b"

lemma stripped_in_line: "NL \<notin> set b \<Longrightarrow> stripped (strip_claim_comments_in_line b)"
  using strip_in_line_spec [of b] by (auto simp: stripped_def)

lemma strip_segment_cases:
  assumes "l \<in> set (split_inclusive NL doc)"
  shows "\<exists>b. stripped b \<and> (strip_segment l = b @ [NL] \<or> strip_segment l = b)"
  using assms
proof (cases rule: split_inclusive_cases)
  case (1 b)
  with stripped_in_line [of b] strip_segment_term [of b] show ?thesis by auto
next
  case (2 b)
  with stripped_in_line [of b] strip_segment_open [of b] show ?thesis by auto
qed

lemma strip_segment_terminated:
  assumes "l \<in> set (butlast (split_inclusive NL doc))"
  shows "\<exists>b. stripped b \<and> strip_segment l = b @ [NL]"
proof -
  have "l \<in> set (split_inclusive NL doc)" using assms by (rule in_set_butlastD)
  then show ?thesis
  proof (cases rule: split_inclusive_cases)
    case (1 b)
    with stripped_in_line [of b] strip_segment_term [of b] show ?thesis by auto
  next
    case (2 b)
    with split_inclusive_butlast [OF assms] last_in_set [of l] show ?thesis by auto
  qed
qed

lemma split_strip_claim_marks:
  "split_inclusive NL (strip_claim_marks doc) =
     (let ls = map strip_segment (split_inclusive NL doc)
      in if ls \<noteq> [] \<and> last ls = [] then butlast ls else ls)"
  unfolding strip_claim_marks_def Let_def
proof (rule split_inclusive_concat_lines)
  let ?segs = "split_inclusive NL doc"
  show "\<forall>l\<in>set (butlast (map strip_segment ?segs)). \<exists>b. l = b @ [NL] \<and> NL \<notin> set b"
    using strip_segment_terminated [of _ doc] by (fastforce simp: map_butlast [symmetric] stripped_def)
  assume "map strip_segment ?segs \<noteq> []"
  then have "last (map strip_segment ?segs) \<in> strip_segment ` set ?segs"
    by (metis image_set last_in_set)
  then obtain l where "l \<in> set ?segs" and eq: "last (map strip_segment ?segs) = strip_segment l" by blast
  with strip_segment_cases [of l doc] obtain b where "stripped b"
    and "strip_segment l = b @ [NL] \<or> strip_segment l = b" by blast
  with eq show "NL \<notin> set (butlast (last (map strip_segment ?segs)))"
    by (auto simp: stripped_def dest: in_set_butlastD)
qed

lemma split_strip_subset:
  "l \<in> set (split_inclusive NL (strip_claim_marks doc)) \<Longrightarrow>
   \<exists>b. stripped b \<and> (l = b @ [NL] \<or> l = b)"
  using strip_segment_cases [of _ doc]
  by (fastforce simp: split_strip_claim_marks Let_def dest: in_set_butlastD split: if_splits)

lemma chomp_line_prefix:
  "\<exists>t. b = chomp_line (b @ [NL]) @ t" "NL \<notin> set b \<Longrightarrow> chomp_line b = b"
proof -
  have s: "strip_suffix_str [NL] (b @ [NL]) = Some b" by (simp add: strip_suffix_Some)
  show "\<exists>t. b = chomp_line (b @ [NL]) @ t"
  proof (cases "strip_suffix_str [CR] b")
    case None
    then show ?thesis by (simp add: chomp_line_def s)
  next
    case (Some a)
    then have "chomp_line (b @ [NL]) = a" by (simp add: chomp_line_def s)
    with Some show ?thesis by (auto simp only: strip_suffix_Some)
  qed
  assume no: "NL \<notin> set b"
  have "strip_suffix_str [NL] b = None"
  proof (cases "strip_suffix_str [NL] b")
    case (Some t)
    then have "b = t @ [NL]" by (simp only: strip_suffix_Some)
    with no show ?thesis by simp
  qed
  then show "chomp_line b = b" by (simp add: chomp_line_def)
qed

lemma stripped_line_claim_free:
  assumes "m \<in> set (lines_of (strip_claim_marks doc))"
  shows "claim_free m"
proof -
  from assms obtain l where l: "l \<in> set (split_inclusive NL (strip_claim_marks doc))"
    and m: "m = chomp_line l" by (auto simp: lines_of_def)
  from split_strip_subset [OF l] obtain b where b: "stripped b" "l = b @ [NL] \<or> l = b" by blast
  show ?thesis
  proof (cases "l = b @ [NL]")
    case True
    with chomp_line_prefix(1) [of b] m obtain t where "b = m @ t" by auto
    with b show ?thesis using claim_free_appendD by (auto simp: stripped_def)
  next
    case False
    with b chomp_line_prefix(2) [of b] m show ?thesis by (auto simp: stripped_def)
  qed
qed

lemma strip_segment_newlines:
  assumes "l \<in> set (split_inclusive NL doc)"
  shows "count_list (strip_segment l) NL = count_list l NL"
  using assms
proof (cases rule: split_inclusive_cases)
  case (1 b)
  with strip_in_line_spec(2) [of b] strip_segment_term [of b] show ?thesis
    by (auto simp: count_list_0_iff)
next
  case (2 b)
  with strip_in_line_spec(2) [of b] strip_segment_open [of b] show ?thesis
    by (auto simp: count_list_0_iff)
qed

lemma count_list_concat: "count_list (concat ls) x = sum_list (map (\<lambda>l. count_list l x) ls)"
  by (induction ls) auto

lemma strip_claim_marks_idem: "strip_claim_marks (strip_claim_marks doc) = strip_claim_marks doc"
proof -
  let ?ls = "split_inclusive NL (strip_claim_marks doc)"
  have "map strip_segment ?ls = ?ls"
  proof (rule map_idI)
    fix l assume "l \<in> set ?ls"
    then obtain b where "stripped b" "l = b @ [NL] \<or> l = b" using split_strip_subset by blast
    then show "strip_segment l = l"
      using strip_segment_term [of b] strip_segment_open [of b] by (auto simp: stripped_def)
  qed
  then show ?thesis by (simp add: strip_claim_marks_def [of "strip_claim_marks doc"])
qed

lemma scan_comments_iff:
  "(ln, inner) \<in> set (scan_comments c) \<longleftrightarrow>
     (\<exists>k < length (lines_of c). ln = k + 1 \<and> inner \<in> set (line_comments (lines_of c ! k)))"
proof -
  have "(ln, inner) \<in> set (scan_comments c) \<longleftrightarrow>
      (\<exists>x \<in> set (enumerate 0 (lines_of c)). ln = fst x + 1 \<and> inner \<in> set (line_comments (snd x)))"
    by (auto simp: scan_comments_def case_prod_beta)
  also have "\<dots> \<longleftrightarrow> (\<exists>k < length (lines_of c). ln = k + 1 \<and> inner \<in> set (line_comments (lines_of c ! k)))"
    by (force simp: in_set_enumerate_eq Bex_def)
  finally show ?thesis .
qed

subsection \<open>The written form\<close>

text \<open>The grammar the module documents, as a printer.\<close>

definition render_mark :: "claim_status \<Rightarrow> string option \<Rightarrow> string option \<Rightarrow> string" where
  "render_mark st ref nt = ''claim:'' @ status_word st
     @ (case ref of None \<Rightarrow> [] | Some r \<Rightarrow> '' ref='' @ r)
     @ (case nt of None \<Rightarrow> [] | Some n \<Rightarrow> '' note='' @ [CHR 0x22] @ n @ [CHR 0x22])"

text \<open>A reference is a non-empty token, a note holds no double quote.\<close>

definition writable :: "string option \<Rightarrow> string option \<Rightarrow> bool" where
  "writable ref nt \<longleftrightarrow>
     (\<forall>r. ref = Some r \<longrightarrow> r \<noteq> [] \<and> find_ws r = None) \<and>
     (\<forall>n. nt = Some n \<longrightarrow> CHR 0x22 \<notin> set n)"

lemma ws_width_space: "ws_width (CHR 0x20 # t) = 1"
  by (cases t; cases "tl t") (auto simp: ascii_ws_def)

lemma find_sub_quote: "q \<notin> set n \<Longrightarrow> find_sub [q] (n @ q # t) = Some (length n)"
  by (induction n) auto

lemma parse_attributes_space:
  "parse_attributes_from (CHR 0x20 # t) ref nt = parse_attributes_from t ref nt"
  by (subst parse_attributes_from.simps) (simp add: ws_width_space)

lemma parse_attributes_note:
  assumes "CHR 0x22 \<notin> set n"
  shows "parse_attributes_from (note_open @ n @ [CHR 0x22]) ref nt = (ref, Some n)"
proof -
  have "strip_prefix_str note_open (note_open @ n @ [CHR 0x22]) = Some (n @ [CHR 0x22])"
    by (simp only: strip_prefix_Some)
  with assms show ?thesis
    by (subst parse_attributes_from.simps)
       (simp add: ascii_ws_def ws2_def ws3_def find_sub_quote parse_attributes_from.simps [of "[]"])
qed

lemma parse_attributes_ref:
  assumes "r \<noteq> []" "find_ws r = None"
  shows "parse_attributes_from (''ref='' @ r) ref nt = (Some r, nt)"
    and "parse_attributes_from (''ref='' @ r @ CHR 0x20 # t) ref nt = parse_attributes_from (CHR 0x20 # t) (Some r) nt"
proof -
  have np: "strip_prefix_str note_open (''ref='' @ x) = None" for x :: string
    by (simp add: strip_prefix_str_def)
  show "parse_attributes_from (''ref='' @ r) ref nt = (Some r, nt)"
    using assms np [of r]
    by (subst parse_attributes_from.simps)
       (simp add: ascii_ws_def ws2_def ws3_def parse_attributes_from.simps [of "[]"])
  show "parse_attributes_from (''ref='' @ r @ CHR 0x20 # t) ref nt
      = parse_attributes_from (CHR 0x20 # t) (Some r) nt"
    using assms np [of "r @ CHR 0x20 # t"] find_ws_before_space [of r t]
    by (subst parse_attributes_from.simps) (simp add: ascii_ws_def ws2_def ws3_def)
qed

lemma parse_attributes_render:
  assumes "writable ref nt"
  shows "parse_attributes ((case ref of None \<Rightarrow> [] | Some r \<Rightarrow> '' ref='' @ r)
     @ (case nt of None \<Rightarrow> [] | Some n \<Rightarrow> '' note='' @ [CHR 0x22] @ n @ [CHR 0x22])) = (ref, nt)"
  using assms parse_attributes_note [of "the nt"] parse_attributes_ref [of "the ref"]
  by (cases ref; cases nt)
     (simp_all add: writable_def parse_attributes_def parse_attributes_space
       parse_attributes_from.simps [of "[]"])

subsection \<open>Properties\<close>

text \<open>
  C4. Stripping claim marks removes every claim comment, also one that only forms after
  a removal: no comment the scanner finds in the stripped text is a claim comment. Each
  line feed of the text stays, so the line numbers of citations stay valid, and
  stripping again changes nothing.
\<close>

theorem strip_claim_marks_clean:
  "(\<forall>(ln, inner) \<in> set (scan_comments (strip_claim_marks doc)). classify inner = NotClaim)
   \<and> extract_claim_marks (strip_claim_marks doc) = []
   \<and> count_list (strip_claim_marks doc) NL = count_list doc NL
   \<and> strip_claim_marks (strip_claim_marks doc) = strip_claim_marks doc"
proof -
  have clean: "\<forall>(ln, inner) \<in> set (scan_comments (strip_claim_marks doc)). classify inner = NotClaim"
    using stripped_line_claim_free [of _ doc] nth_mem
    by (fastforce simp: scan_comments_iff claim_free_def)
  then have "extract_claim_marks (strip_claim_marks doc) = []"
    by (fastforce simp: extract_claim_marks_def)
  moreover have "count_list (strip_claim_marks doc) NL = count_list doc NL"
  proof -
    have "count_list (strip_claim_marks doc) NL
        = sum_list (map (\<lambda>l. count_list l NL) (split_inclusive NL doc))"
      using strip_segment_newlines [of _ doc]
      by (simp add: strip_claim_marks_def count_list_concat o_def cong: map_cong)
    also have "\<dots> = count_list doc NL"
      by (simp add: count_list_concat [symmetric])
    finally show ?thesis .
  qed
  ultimately show ?thesis using clean strip_claim_marks_idem by blast
qed

theorem strip_claim_marks_clean_witness:
  "extract_claim_marks (strip_claim_marks ''a<!--cl<!--claim:qualified-->aim:confirmed-->b'') = []"
  using strip_claim_marks_clean [of "''a<!--cl<!--claim:qualified-->aim:confirmed-->b''"] by blast

lemma status_word_parse:
  "from_str_ci (status_word st) = Some st" "find_ws (status_word st) = None" "status_word st \<noteq> []"
  by (cases st; simp add: from_str_ci_def trim_eval to_ascii_lowercase_def ascii_lower_char_def byte_def)+

lemma render_mark_trim:
  assumes "writable ref nt"
  shows "trim (render_mark st ref nt) = render_mark st ref nt"
proof (rule trim_id)
  show "ws_width (render_mark st ref nt) = 0"
    by (simp add: render_mark_def ascii_ws_def ws2_def ws3_def)
  show "ws_width_rev (rev (render_mark st ref nt)) = 0"
  proof (cases nt)
    case (Some n)
    then have "rev (render_mark st ref nt) = rev [CHR 0x22] @ hd (rev n @ [CHR 0x22])
        # tl (rev n @ rev (''claim:'' @ status_word st @ (case ref of None \<Rightarrow> [] | Some r \<Rightarrow> '' ref='' @ r) @ '' note='' @ [CHR 0x22]))"
      by (cases n rule: rev_cases) (simp_all add: render_mark_def)
    then show ?thesis
      by (cases "tl (rev n @ rev (''claim:'' @ status_word st @ (case ref of None \<Rightarrow> [] | Some r \<Rightarrow> '' ref='' @ r) @ '' note='' @ [CHR 0x22]))")
         (simp_all add: ascii_ws_def ws2_def ws3_def)
  next
    case None
    show ?thesis
    proof (cases ref)
      case None
      with \<open>nt = None\<close>
      have "rev (render_mark st ref nt) = rev (status_word st) @ CHR '':'' # ''mialc''"
        by (simp add: render_mark_def)
      then show ?thesis
        using ws_width_rev_token [OF status_word_parse(2,3)] by (simp add: byte_def)
    next
      case (Some r)
      with \<open>nt = None\<close>
      have "rev (render_mark st ref nt) = rev r @ CHR ''='' # rev ('' ref'') @ rev (''claim:'' @ status_word st)"
        by (simp add: render_mark_def)
      then show ?thesis
        using ws_width_rev_token [of r "CHR ''=''"] Some assms by (simp add: byte_def writable_def)
    qed
  qed
qed

lemma status_attr_split:
  assumes "a = [] \<or> (\<exists>t. a = CHR 0x20 # t)"
  shows "(case find_ws (status_word st @ a) of
            Some i \<Rightarrow> (take i (status_word st @ a), drop i (status_word st @ a))
          | None \<Rightarrow> (status_word st @ a, [])) = (status_word st, a)"
  using assms find_ws_before_space [OF status_word_parse(2)] status_word_parse(2) [of st] by auto

text \<open>
  C5. A claim mark written in the documented grammar, with a reference that is a
  non-empty token without white space and a note without double quotes, each optional,
  is classified as a mark with exactly its status, its reference and its note.
\<close>

theorem classify_render_mark:
  assumes "writable ref nt"
  shows "classify (render_mark st ref nt) = Mark st ref nt"
proof -
  let ?a = "(case ref of None \<Rightarrow> [] | Some r \<Rightarrow> '' ref='' @ r)
     @ (case nt of None \<Rightarrow> [] | Some n \<Rightarrow> '' note='' @ [CHR 0x22] @ n @ [CHR 0x22])"
  have dec: "render_mark st ref nt = ''claim:'' @ (status_word st @ ?a)"
    by (simp add: render_mark_def)
  have "strip_prefix_str ''claim:'' (trim (render_mark st ref nt)) = Some (status_word st @ ?a)"
    unfolding render_mark_trim [OF assms, of st] by (subst dec) (rule strip_prefix_Some [THEN iffD2, OF refl])
  moreover have "?a = [] \<or> (\<exists>t. ?a = CHR 0x20 # t)"
    by (cases ref; cases nt) auto
  note status_attr_split [OF this, of st]
  ultimately show ?thesis
    using parse_attributes_render [OF assms] status_word_parse(1) [of st]
    by (simp add: classify_def)
qed

theorem classify_render_mark_witness:
  "writable (Some ''a.md'') (Some ''old claim'') \<and>
   classify (render_mark Superseded (Some ''a.md'') (Some ''old claim''))
     = Mark Superseded (Some ''a.md'') (Some ''old claim'')"
proof -
  have w: "writable (Some ''a.md'') (Some ''old claim'')"
    by (simp add: writable_def ascii_ws_def ws2_def ws3_def)
  show ?thesis using w classify_render_mark [OF w] by simp
qed

end
