(* ===== verification/Frontmatter.thy ===== *)
theory Frontmatter
  imports Rust_Text
begin

text \<open>
  \<open>corpus/frontmatter.rs\<close>: the optional YAML block at the head of a page. The YAML
  reader (\<open>serde_yaml_ng\<close>) is an argument; detecting the block, splitting it from the
  body and counting its lines is modelled in full.
\<close>

subsection \<open>Types\<close>

datatype lifecycle_status = Draft | Reviewed | Trusted | Deprecated

definition lifecycle_from_str_ci :: "string \<Rightarrow> lifecycle_status option" where
  "lifecycle_from_str_ci s =
     (let w = to_ascii_lowercase (trim s)
      in if w = ''draft'' then Some Draft
         else if w = ''reviewed'' then Some Reviewed
         else if w = ''trusted'' then Some Trusted
         else if w = ''deprecated'' then Some Deprecated
         else None)"

record frontmatter =
  fm_status :: "lifecycle_status option"
  owner :: "string option"
  last_verified :: "string option"
  confidence :: "string option"
  sources :: "string list"

definition frontmatter_default :: frontmatter where
  "frontmatter_default =
     \<lparr>fm_status = None, owner = None, last_verified = None, confidence = None, sources = []\<rparr>"

text \<open>
  What the YAML reader delivers before \<open>deserialize_status\<close> maps the raw status; \<open>None\<close>
  of a reader is a YAML or schema error.
\<close>

record raw_frontmatter =
  raw_status :: "string option"
  raw_owner :: "string option"
  raw_last_verified :: "string option"
  raw_confidence :: "string option"
  raw_sources :: "string list"

type_synonym yaml_reader = "string \<Rightarrow> raw_frontmatter option"

definition deserialize_status :: "string option \<Rightarrow> lifecycle_status option" where
  "deserialize_status raw = Option.bind raw lifecycle_from_str_ci"

definition read_frontmatter :: "yaml_reader \<Rightarrow> string \<Rightarrow> frontmatter option" where
  "read_frontmatter yaml s =
     map_option (\<lambda>r. \<lparr>fm_status = deserialize_status (raw_status r), owner = raw_owner r,
        last_verified = raw_last_verified r, confidence = raw_confidence r,
        sources = raw_sources r\<rparr>) (yaml s)"

subsection \<open>The block\<close>

datatype block = Absent | MalformedBlock | Parsed frontmatter string nat

definition is_fence :: "string \<Rightarrow> bool" where
  "is_fence l \<longleftrightarrow> trim_end_matches {CR, NL} l = ''---''"

text \<open>The loop over the lines after the opening fence: \<open>yaml_end\<close>, \<open>offset\<close>, \<open>lines\<close>.\<close>

fun scan_close :: "string list \<Rightarrow> nat \<Rightarrow> nat \<Rightarrow> nat option \<times> nat \<times> nat" where
  "scan_close [] offset n = (None, offset, n)"
| "scan_close (l # ls) offset n =
     (if is_fence l then (Some offset, offset + length l, n + 1)
      else scan_close ls (offset + length l) (n + 1))"

definition parse_block :: "yaml_reader \<Rightarrow> string \<Rightarrow> block" where
  "parse_block yaml body =
     (case split_inclusive NL body of
        [] \<Rightarrow> Absent
      | first # parts \<Rightarrow>
          (if \<not> is_fence first then Absent
           else let yaml_start = length first
                in case scan_close parts yaml_start 1 of
                     (None, _, _) \<Rightarrow> Absent
                   | (Some yaml_end, offset, n) \<Rightarrow>
                       (let block_text = take (yaml_end - yaml_start) (drop yaml_start body);
                            rest = drop offset body
                        in if trim block_text = [] then Parsed frontmatter_default rest n
                           else case read_frontmatter yaml block_text of
                                  Some fm \<Rightarrow> Parsed fm rest n
                                | None \<Rightarrow> MalformedBlock)))"

definition split_frontmatter :: "yaml_reader \<Rightarrow> string \<Rightarrow> frontmatter option \<times> string \<times> nat" where
  "split_frontmatter yaml body =
     (case parse_block yaml body of
        Parsed fm rest n \<Rightarrow> (Some fm, rest, n)
      | _ \<Rightarrow> (None, body, 0))"

definition lint_frontmatter :: "yaml_reader \<Rightarrow> string \<Rightarrow> string list" where
  "lint_frontmatter yaml body =
     (case parse_block yaml body of
        MalformedBlock \<Rightarrow>
          [''frontmatter block present but not valid YAML; it was indexed as body text '' @
           ''(fix the leading `---` block or remove it)'']
      | _ \<Rightarrow> [])"

subsection \<open>Facts\<close>

lemma scan_close_spec:
  "scan_close ls off n = (Some ye, off', n') \<Longrightarrow>
   \<exists>k < length ls. is_fence (ls ! k) \<and> (\<forall>j < k. \<not> is_fence (ls ! j)) \<and>
     ye = off + length (concat (take k ls)) \<and> off' = off + length (concat (take (k + 1) ls)) \<and>
     n' = n + k + 1"
proof (induction ls off n rule: scan_close.induct)
  case (2 l ls offset n)
  show ?case
  proof (cases "is_fence l")
    case True
    with "2.prems" show ?thesis by (intro exI [of _ 0]) auto
  next
    case False
    with "2.IH" "2.prems" obtain k where "k < length ls" "is_fence (ls ! k)"
      "\<forall>j < k. \<not> is_fence (ls ! j)" "ye = offset + length l + length (concat (take k ls))"
      "off' = offset + length l + length (concat (take (k + 1) ls))" "n' = n + 1 + k + 1"
      by auto
    with False show ?thesis
      by (intro exI [of _ "Suc k"]) (auto simp: less_Suc_eq_0_disj)
  qed
qed simp

lemma scan_close_None: "fst (scan_close ls off n) = None \<longleftrightarrow> (\<forall>l \<in> set ls. \<not> is_fence l)"
  by (induction ls off n rule: scan_close.induct) auto

lemma parse_block_Parsed:
  assumes "parse_block yaml body = Parsed fm rest n"
  shows "2 \<le> n \<and> n \<le> length (split_inclusive NL body) \<and>
    is_fence (split_inclusive NL body ! 0) \<and> is_fence (split_inclusive NL body ! (n - 1)) \<and>
    (\<forall>j. 0 < j \<longrightarrow> j < n - 1 \<longrightarrow> \<not> is_fence (split_inclusive NL body ! j)) \<and>
    rest = concat (drop n (split_inclusive NL body))"
proof -
  obtain first parts where ls: "split_inclusive NL body = first # parts" and f: "is_fence first"
    using assms by (auto simp: parse_block_def split: list.splits if_splits)
  obtain ye off m where sc: "scan_close parts (length first) 1 = (Some ye, off, m)"
    and n: "m = n" and rest: "rest = drop off body"
    using assms ls f by (auto simp: parse_block_def Let_def split: prod.splits option.splits if_splits)
  from scan_close_spec [OF sc] obtain k where k: "k < length parts" "is_fence (parts ! k)"
    "\<forall>j < k. \<not> is_fence (parts ! j)" "off = length first + length (concat (take (k + 1) parts))"
    "n = k + 2" using n by auto
  have body: "body = concat (take n (first # parts)) @ concat (drop n (first # parts))"
    by (metis append_take_drop_id concat_append concat_split_inclusive ls)
  have "off = length (concat (take n (first # parts)))" using k by simp
  then have "rest = concat (drop n (first # parts))" using rest body by (metis append_eq_conv_conj)
  moreover have "\<not> is_fence ((first # parts) ! j)" if "0 < j" "j < n - 1" for j
    using that k(3,5) by (cases j) auto
  ultimately show ?thesis using ls f k by auto
qed

subsection \<open>Properties\<close>

text \<open>
  C6. Splitting the frontmatter loses nothing and keeps line numbers mappable. The body
  is the first \<open>n\<close> lines followed by the returned rest, and the lines of the rest are
  the lines of the body from line \<open>n\<close> on. Without a parsed block the body comes back
  whole with the count 0; with one, the block has at least two lines, it opens on line 1
  and closes on line \<open>n\<close> with the first fence after the opening one.
\<close>

theorem split_frontmatter_lines:
  assumes sf: "split_frontmatter yaml body = (fm, rest, n)"
  shows "body = concat (take n (split_inclusive NL body)) @ rest \<and>
    split_inclusive NL rest = drop n (split_inclusive NL body) \<and>
    (case fm of
       None \<Rightarrow> n = 0 \<and> rest = body
     | Some _ \<Rightarrow> 2 \<le> n \<and> n \<le> length (split_inclusive NL body) \<and>
         is_fence (split_inclusive NL body ! 0) \<and> is_fence (split_inclusive NL body ! (n - 1)) \<and>
         (\<forall>j. 0 < j \<longrightarrow> j < n - 1 \<longrightarrow> \<not> is_fence (split_inclusive NL body ! j)))"
proof (cases fm)
  case None
  with sf show ?thesis by (auto simp: split_frontmatter_def split: block.splits)
next
  case (Some f)
  then have "parse_block yaml body = Parsed f rest n"
    using sf by (auto simp: split_frontmatter_def split: block.splits)
  note pb = parse_block_Parsed [OF this]
  then have r: "rest = concat (drop n (split_inclusive NL body))" by blast
  have "body = concat (take n (split_inclusive NL body) @ drop n (split_inclusive NL body))"
    by simp
  then have "body = concat (take n (split_inclusive NL body)) @ rest"
    unfolding r concat_append .
  moreover have "split_inclusive NL rest = drop n (split_inclusive NL body)"
    unfolding r by (rule split_inclusive_concat_drop)
  ultimately show ?thesis unfolding Some option.case using pb by blast
qed

theorem split_frontmatter_lines_witness:
  "split_frontmatter (\<lambda>_. None) (''---'' @ [NL] @ ''---'' @ [NL] @ ''# T'' @ [NL])
     = (Some frontmatter_default, ''# T'' @ [NL], 2) \<and>
   split_inclusive NL (''# T'' @ [NL])
     = drop 2 (split_inclusive NL (''---'' @ [NL] @ ''---'' @ [NL] @ ''# T'' @ [NL]))"
proof -
  have sf: "split_frontmatter (\<lambda>_. None) (''---'' @ [NL] @ ''---'' @ [NL] @ ''# T'' @ [NL])
     = (Some frontmatter_default, ''# T'' @ [NL], 2)"
    by (simp add: split_frontmatter_def parse_block_def is_fence_def trim_end_matches_def)
  show ?thesis using sf split_frontmatter_lines [OF sf] by blast
qed

end
