(* ===== verification/Rust_Path.thy ===== *)
theory Rust_Path
  imports Rust_Text
begin

text \<open>
  The parts of \<open>std::path\<close> the components use, on Unix. A path is its byte string and
  \<open>components\<close> reads it: separators and inner \<open>.\<close> components disappear, a leading \<open>/\<close>
  is the root. \<open>OsStr::to_str\<close> needs the bytes to be UTF-8, which \<open>utf8_valid\<close> decides.
\<close>

datatype path_component = RootDir | CurDir | ParentDir | Normal string

text \<open>The pieces between separators.\<close>

fun split_on :: "'a \<Rightarrow> 'a list \<Rightarrow> 'a list list" where
  "split_on d [] = [[]]"
| "split_on d (c # cs) =
     (if c = d then [] # split_on d cs
      else (case split_on d cs of [] \<Rightarrow> [[c]] | l # ls \<Rightarrow> (c # l) # ls))"

lemma split_on_nonempty [simp]: "split_on d s \<noteq> []"
  by (cases s) (auto split: list.splits)

abbreviation SLASH :: char where "SLASH \<equiv> CHR 0x2F"

definition component_of :: "string \<Rightarrow> path_component list" where
  "component_of s =
     (if s = [] \<or> s = ''.'' then [] else if s = ''..'' then [ParentDir] else [Normal s])"

definition components :: "string \<Rightarrow> path_component list" where
  "components p =
     (if starts_with [SLASH] p then [RootDir]
      else if hd (split_on SLASH p) = ''.'' then [CurDir] else [])
     @ concat (map component_of (split_on SLASH p))"

definition file_name_of :: "string \<Rightarrow> string option" where
  "file_name_of p =
     (case rev (components p) of Normal s # _ \<Rightarrow> Some s | _ \<Rightarrow> None)"

text \<open>\<open>file_stem\<close>: the name up to its last dot, unless that dot is its first byte.\<close>

definition stem_of :: "string \<Rightarrow> string" where
  "stem_of name =
     (let before = rev (tl (dropWhile (\<lambda>c. c \<noteq> CHR 0x2E) (rev name)))
      in if CHR 0x2E \<notin> set name \<or> before = [] then name else before)"

definition file_stem_of :: "string \<Rightarrow> string option" where
  "file_stem_of p = map_option stem_of (file_name_of p)"

text \<open>\<open>Path::starts_with\<close> compares whole components.\<close>

definition path_starts_with :: "string \<Rightarrow> string \<Rightarrow> bool" where
  "path_starts_with p base \<longleftrightarrow> starts_with (components base) (components p)"

text \<open>
  A \<open>PathBuf\<close> compares by its components, so file-system paths are component lists. The
  parent drops the last component; the empty path and the root have none.
\<close>

type_synonym path = "path_component list"

definition path_parent :: "path \<Rightarrow> path option" where
  "path_parent p = (if p = [] \<or> last p = RootDir then None else Some (butlast p))"

definition path_file_name :: "path \<Rightarrow> string option" where
  "path_file_name p = (case rev p of Normal s # _ \<Rightarrow> Some s | _ \<Rightarrow> None)"

lemma path_file_name_Some: "path_file_name p = Some n \<Longrightarrow> p = butlast p @ [Normal n]"
  by (cases p rule: rev_cases) (auto simp: path_file_name_def split: path_component.splits)

lemma path_parent_Some: "path_parent p = Some q \<longleftrightarrow> p \<noteq> [] \<and> last p \<noteq> RootDir \<and> q = butlast p"
  by (auto simp: path_parent_def)

lemma path_parent_shorter: "path_parent p = Some q \<Longrightarrow> length q < length p"
  by (auto simp: path_parent_Some)

text \<open>\<open>PathBuf::push\<close> of one name: the empty name adds no component.\<close>

definition push_name :: "path \<Rightarrow> string \<Rightarrow> path" where
  "push_name p n = p @ (if n = [] then [] else [Normal n])"

datatype io_kind = IoNotFound | IoOther

text \<open>Well-formed UTF-8, by the table of well-formed byte sequences of the Unicode standard.\<close>

definition tail_byte :: "char \<Rightarrow> bool" where
  "tail_byte c \<longleftrightarrow> 0x80 \<le> byte c \<and> byte c \<le> 0xBF"

fun utf8_valid :: "string \<Rightarrow> bool" where
  "utf8_valid [] = True"
| "utf8_valid (a # r) =
     (if byte a < 0x80 then utf8_valid r
      else if 0xC2 \<le> byte a \<and> byte a \<le> 0xDF then
        (case r of b # r' \<Rightarrow> tail_byte b \<and> utf8_valid r' | _ \<Rightarrow> False)
      else if 0xE0 \<le> byte a \<and> byte a \<le> 0xEF then
        (case r of b # c # r' \<Rightarrow>
             tail_byte b \<and> tail_byte c \<and> (byte a = 0xE0 \<longrightarrow> 0xA0 \<le> byte b) \<and>
             (byte a = 0xED \<longrightarrow> byte b \<le> 0x9F) \<and> utf8_valid r'
         | _ \<Rightarrow> False)
      else if 0xF0 \<le> byte a \<and> byte a \<le> 0xF4 then
        (case r of b # c # d # r' \<Rightarrow>
             tail_byte b \<and> tail_byte c \<and> tail_byte d \<and> (byte a = 0xF0 \<longrightarrow> 0x90 \<le> byte b) \<and>
             (byte a = 0xF4 \<longrightarrow> byte b \<le> 0x8F) \<and> utf8_valid r'
         | _ \<Rightarrow> False)
      else False)"

definition to_str :: "string \<Rightarrow> string option" where
  "to_str s = (if utf8_valid s then Some s else None)"

subsection \<open>Paths as text\<close>

fun component_str :: "path_component \<Rightarrow> string" where
  "component_str RootDir = []"
| "component_str CurDir = ''.''"
| "component_str ParentDir = ''..''"
| "component_str (Normal s) = s"

text \<open>The root prints as the empty piece before the first separator.\<close>

definition path_string :: "path \<Rightarrow> string" where
  "path_string p = (if p = [RootDir] then [SLASH] else join_str [SLASH] (map component_str p))"

text \<open>The extension of the file name: what follows its last dot, unless that dot is its first byte.\<close>

definition extension_of :: "string \<Rightarrow> string option" where
  "extension_of p =
     (case file_name_of p of
        None \<Rightarrow> None
      | Some name \<Rightarrow>
          (let before = rev (tl (dropWhile (\<lambda>c. c \<noteq> CHR 0x2E) (rev name)))
           in if CHR 0x2E \<notin> set name \<or> before = [] \<or> name = ''..'' then None
              else Some (rev (takeWhile (\<lambda>c. c \<noteq> CHR 0x2E) (rev name)))))"

text \<open>A path as \<open>components\<close> gives it, absolute.\<close>

definition plain_component :: "path_component \<Rightarrow> bool" where
  "plain_component c =
     (case c of Normal s \<Rightarrow> s \<noteq> [] \<and> s \<noteq> ''.'' \<and> s \<noteq> ''..'' \<and> SLASH \<notin> set s
      | ParentDir \<Rightarrow> True | _ \<Rightarrow> False)"

definition absolute_path :: "path \<Rightarrow> bool" where
  "absolute_path p = (case p of RootDir # cs \<Rightarrow> list_all plain_component cs | _ \<Rightarrow> False)"

lemma split_on_join:
  "xs \<noteq> [] \<Longrightarrow> \<forall>x \<in> set xs. d \<notin> set x \<Longrightarrow> split_on d (join_str [d] xs) = xs"
proof (induction "[d]" xs rule: join_str.induct)
  case (2 x)
  then show ?case by (induction x) auto
next
  case (3 x y ys)
  then have "split_on d (x @ d # join_str [d] (y # ys)) = x # split_on d (join_str [d] (y # ys))"
    by (induction x) auto
  with 3 show ?case by simp
qed simp

lemma components_path_string:
  assumes "absolute_path p"
  shows "components (path_string p) = p"
proof -
  obtain cs where p: "p = RootDir # cs" and cs: "list_all plain_component cs"
    using assms by (auto simp: absolute_path_def split: list.splits path_component.splits)
  have no: "\<forall>x \<in> set (map component_str p). SLASH \<notin> set x"
  proof -
    have "SLASH \<notin> set (component_str c)" if "plain_component c" for c
      using that by (cases c) (auto simp: plain_component_def)
    with cs show ?thesis by (auto simp: p list_all_iff)
  qed
  have "component_of (component_str c) = [c]" if "plain_component c" for c
    using that by (cases c) (auto simp: plain_component_def component_of_def)
  then have cc: "concat (map component_of (map component_str cs)) = cs"
    using cs by (induction cs) auto
  show ?thesis
  proof (cases cs)
    case Nil
    then show ?thesis by (simp add: p path_string_def components_def component_of_def)
  next
    case (Cons c ds)
    have "split_on SLASH (join_str [SLASH] (map component_str p)) = map component_str p"
      by (rule split_on_join [OF _ no]) (simp add: p)
    moreover have "starts_with [SLASH] (join_str [SLASH] (map component_str p))"
      by (simp add: p Cons)
    ultimately show ?thesis
      using cc by (simp add: components_def path_string_def p Cons component_of_def)
  qed
qed

lemma path_string_inj: "absolute_path p \<Longrightarrow> absolute_path q \<Longrightarrow> path_string p = path_string q \<Longrightarrow> p = q"
  by (metis components_path_string)

subsection \<open>The order of paths\<close>

text \<open>The derived \<open>Ord\<close> of \<open>Component\<close>: the order of the variants, then the name.\<close>

fun component_rank :: "path_component \<Rightarrow> nat" where
  "component_rank RootDir = 0"
| "component_rank CurDir = 1"
| "component_rank ParentDir = 2"
| "component_rank (Normal s) = 3"

instantiation path_component :: linorder
begin

definition less_eq_path_component :: "path_component \<Rightarrow> path_component \<Rightarrow> bool" where
  "less_eq_path_component a b \<longleftrightarrow> component_rank a < component_rank b \<or>
     component_rank a = component_rank b \<and> component_str a \<le> component_str b"

definition less_path_component :: "path_component \<Rightarrow> path_component \<Rightarrow> bool" where
  "less_path_component a b \<longleftrightarrow> a \<le> b \<and> \<not> b \<le> (a :: path_component)"

instance
proof
  fix a b c :: path_component
  show "a < b \<longleftrightarrow> a \<le> b \<and> \<not> b \<le> a" by (rule less_path_component_def)
  show "a \<le> a" by (simp add: less_eq_path_component_def)
  show "a \<le> b \<Longrightarrow> b \<le> c \<Longrightarrow> a \<le> c" by (auto simp: less_eq_path_component_def)
  show "a \<le> b \<Longrightarrow> b \<le> a \<Longrightarrow> a = b" by (cases a; cases b) (auto simp: less_eq_path_component_def)
  show "a \<le> b \<or> b \<le> a" by (auto simp: less_eq_path_component_def)
qed

end

subsection \<open>Paths that are not UTF-8\<close>

text \<open>
  \<open>String::from_utf8_lossy\<close>: the character at the head of the bytes, or how many bytes of a broken one are
  replaced by U+FFFD.
\<close>

definition lead_width :: "char \<Rightarrow> nat" where
  "lead_width a =
     (if byte a < 0x80 then 1 else if 0xC2 \<le> byte a \<and> byte a \<le> 0xDF then 2
      else if 0xE0 \<le> byte a \<and> byte a \<le> 0xEF then 3 else if 0xF0 \<le> byte a \<and> byte a \<le> 0xF4 then 4 else 0)"

definition second_byte :: "char \<Rightarrow> char \<Rightarrow> bool" where
  "second_byte a b \<longleftrightarrow> tail_byte b \<and> (byte a = 0xE0 \<longrightarrow> 0xA0 \<le> byte b) \<and> (byte a = 0xED \<longrightarrow> byte b \<le> 0x9F) \<and>
     (byte a = 0xF0 \<longrightarrow> 0x90 \<le> byte b) \<and> (byte a = 0xF4 \<longrightarrow> byte b \<le> 0x8F)"

definition utf8_head :: "char \<Rightarrow> string \<Rightarrow> bool \<times> nat" where
  "utf8_head a r =
     (let w = lead_width a;
          tail = (case r of [] \<Rightarrow> []
                  | b # r' \<Rightarrow> if second_byte a b then b # takeWhile tail_byte (take (w - 2) r') else []);
          n = min (w - 1) (length tail)
      in (w \<noteq> 0 \<and> n = w - 1, n))"

function to_string_lossy :: "string \<Rightarrow> string" where
  "to_string_lossy [] = []"
| "to_string_lossy (a # r) =
     (case utf8_head a r of (ok, n) \<Rightarrow>
        (if ok then a # take n r else [CHR 0xEF, CHR 0xBF, CHR 0xBD]) @ to_string_lossy (drop n r))"
  by pat_completeness auto

termination by (relation "measure length") auto

lemma to_string_lossy_absolute [simp]: "starts_with [SLASH] s \<Longrightarrow> starts_with [SLASH] (to_string_lossy s)"
  by (cases s) (auto simp: starts_with_def utf8_head_def lead_width_def byte_def)

definition path_lossy :: "path \<Rightarrow> string" where
  "path_lossy p = to_string_lossy (path_string p)"

end
