(* ===== verification/Index_Md.thy ===== *)
theory Index_Md
  imports Rust_Path
begin

text \<open>
  \<open>corpus/index_md.rs\<close>: the auto-maintained \<open>index.md\<close> of a wiki directory. The file
  system is a tree value; the listing of the directory is an argument, because
  \<open>std::fs::read_dir\<close> resolves the directory path by itself. The Unicode
  \<open>to_lowercase\<close> is the argument \<open>lower\<close>. The lemmas show what a rewrite keeps: the
  prose outside the markers, and the whole file once it is up to date.
\<close>

subsection \<open>Constants and paths\<close>

definition INDEX_FILENAME :: string where
  "INDEX_FILENAME = ''index.md''"

definition INDEX_START_MARKER :: string where
  "INDEX_START_MARKER = ''<!-- HALLOUMINATE:INDEX-START -->''"

definition INDEX_END_MARKER :: string where
  "INDEX_END_MARKER = ''<!-- HALLOUMINATE:INDEX-END -->''"

fun ancestor_dirs_from :: "path_component list \<Rightarrow> path_component list \<Rightarrow> path_component list list" where
  "ancestor_dirs_from acc [] = []"
| "ancestor_dirs_from acc (Normal seg # cs) =
     (acc @ [Normal seg]) # ancestor_dirs_from (acc @ [Normal seg]) cs"
| "ancestor_dirs_from acc (_ # cs) = ancestor_dirs_from acc cs"

definition ancestor_dirs ::
  "path_component list \<Rightarrow> path_component list \<Rightarrow> path_component list list" where
  "ancestor_dirs corpus_root file_relative =
     (case path_parent file_relative of
        None \<Rightarrow> [corpus_root]
      | Some parent \<Rightarrow> corpus_root # ancestor_dirs_from corpus_root parent)"

definition is_index_md :: "string \<Rightarrow> bool" where
  "is_index_md file_relative =
     (case Option.bind (file_name_of file_relative) to_str of
        Some n \<Rightarrow> n = INDEX_FILENAME
      | None \<Rightarrow> False)"

subsection \<open>The file system\<close>

text \<open>
  A file carries its text, \<open>None\<close> when it cannot be read as UTF-8; a directory carries
  whether it can be listed, and its entries.
\<close>

datatype fs_node =
    FsFile "string option"
  | FsDir bool "(string \<times> fs_node) list"
  | FsSymlink
  | FsOther

text \<open>\<open>read_leaf_no_follow\<close>: every component from the root down is a real directory.\<close>

fun read_leaf_no_follow :: "fs_node \<Rightarrow> string list \<Rightarrow> string \<Rightarrow> string option" where
  "read_leaf_no_follow (FsDir _ es) [] name =
     (case map_of es name of Some (FsFile t) \<Rightarrow> t | _ \<Rightarrow> None)"
| "read_leaf_no_follow (FsDir _ es) (c # cs) name =
     (case map_of es c of
        Some (FsDir b es') \<Rightarrow> read_leaf_no_follow (FsDir b es') cs name
      | _ \<Rightarrow> None)"
| "read_leaf_no_follow _ _ _ = None"

fun skip_to_fence :: "string list \<Rightarrow> string list option" where
  "skip_to_fence [] = None"
| "skip_to_fence (l # ls) = (if l = ''---'' then Some ls else skip_to_fence ls)"

fun first_h1 :: "string list \<Rightarrow> string option" where
  "first_h1 [] = None"
| "first_h1 (l # ls) =
     (let trimmed = trim_start l
      in if trimmed = [] then first_h1 ls
         else case strip_prefix_str ''# '' trimmed of
                Some rest \<Rightarrow> (let title = trim rest in if title = [] then None else Some title)
              | None \<Rightarrow> None)"

definition read_h1 :: "fs_node \<Rightarrow> string list \<Rightarrow> string \<Rightarrow> string option" where
  "read_h1 root dir name =
     (case read_leaf_no_follow root dir name of
        None \<Rightarrow> None
      | Some t \<Rightarrow>
          (case lines_of t of
             l # ls \<Rightarrow>
               (if l = ''---'' then Option.bind (skip_to_fence ls) first_h1 else first_h1 (l # ls))
           | [] \<Rightarrow> None))"

subsection \<open>The link list\<close>

record child_entry =
  ce_line :: string
  ce_sort_key :: string

abbreviation gloss_sep :: string where
  "gloss_sep \<equiv> '' '' @ [CHR 0xE2, CHR 0x80, CHR 0x94] @ '' ''"

definition render_file_line :: "string \<Rightarrow> string \<Rightarrow> string \<Rightarrow> string" where
  "render_file_line filename stem gloss =
     ''- ['' @ stem @ ''](./'' @ filename @ '')'' @ (if gloss = [] then [] else gloss_sep @ gloss)"

definition render_dir_line :: "string \<Rightarrow> string \<Rightarrow> string" where
  "render_dir_line dirname gloss =
     ''- ['' @ dirname @ ''/](./'' @ dirname @ ''/'' @ INDEX_FILENAME @ '')''
     @ (if gloss = [] then [] else gloss_sep @ gloss)"

fun dir_contains_markdown :: "fs_node \<Rightarrow> bool"
  and entries_contain_markdown :: "(string \<times> fs_node) list \<Rightarrow> bool" where
  "dir_contains_markdown (FsDir readable es) = (readable \<and> entries_contain_markdown es)"
| "dir_contains_markdown _ = False"
| "entries_contain_markdown [] = False"
| "entries_contain_markdown ((name, node) # es) =
     ((case node of
         FsFile _ \<Rightarrow> (case to_str name of Some n \<Rightarrow> ends_with ''.md'' n | None \<Rightarrow> False)
       | FsDir b ds \<Rightarrow> \<not> starts_with ''.'' name \<and> dir_contains_markdown (FsDir b ds)
       | _ \<Rightarrow> False)
      \<or> entries_contain_markdown es)"

definition child_of ::
  "(string \<Rightarrow> string) \<Rightarrow> fs_node \<Rightarrow> string list \<Rightarrow> string \<times> fs_node \<Rightarrow> child_entry option" where
  "child_of lower root dir entry =
     (let (name_os, node) = entry
      in case to_str name_os of
           None \<Rightarrow> None
         | Some name \<Rightarrow>
             (case node of
                FsFile _ \<Rightarrow>
                  (if \<not> ends_with ''.md'' name \<or> name = INDEX_FILENAME then None
                   else let stem = (case strip_suffix_str ''.md'' name of Some s \<Rightarrow> s | None \<Rightarrow> name);
                            gloss = (case read_h1 root dir name of Some g \<Rightarrow> g | None \<Rightarrow> [])
                        in Some \<lparr>ce_line = render_file_line name stem gloss,
                                 ce_sort_key = ''1:'' @ lower name\<rparr>)
              | FsDir _ _ \<Rightarrow>
                  (if starts_with ''.'' name \<or> \<not> dir_contains_markdown node then None
                   else let gloss = (case read_h1 root (dir @ [name]) INDEX_FILENAME of
                                       Some g \<Rightarrow> g | None \<Rightarrow> [])
                        in Some \<lparr>ce_line = render_dir_line name gloss,
                                 ce_sort_key = ''0:'' @ lower name\<rparr>)
              | _ \<Rightarrow> None))"

definition enumerate_children ::
  "(string \<Rightarrow> string) \<Rightarrow> fs_node \<Rightarrow> string list \<Rightarrow> (io_kind, (string \<times> fs_node) list) result
   \<Rightarrow> (io_kind, child_entry list) result" where
  "enumerate_children lower root dir listing =
     (case listing of
        Err IoNotFound \<Rightarrow> Ok []
      | Err e \<Rightarrow> Err e
      | Ok es \<Rightarrow> Ok (sort_key ce_sort_key (List.map_filter (child_of lower root dir) es)))"

subsection \<open>The file\<close>

definition render_scaffold :: "string \<Rightarrow> string" where
  "render_scaffold title =
     ''# '' @ title @ [NL, NL] @ INDEX_START_MARKER @ [NL] @ INDEX_END_MARKER @ [NL]"

definition render_block_body :: "child_entry list \<Rightarrow> string" where
  "render_block_body children =
     (if children = [] then [] else join_str [NL] (map ce_line children) @ [NL])"

datatype rewrite_outcome = Created | Updated | NoMarkers | Unchanged

definition dir_title :: "string \<Rightarrow> bool \<Rightarrow> string" where
  "dir_title dir is_root =
     (if is_root then ''wiki''
      else case Option.bind (file_name_of dir) to_str of Some s \<Rightarrow> s | None \<Rightarrow> ''wiki'')"

definition inject_block :: "string \<Rightarrow> string \<Rightarrow> string option" where
  "inject_block existing body =
     (case find_sub INDEX_START_MARKER existing of
        None \<Rightarrow> None
      | Some start \<Rightarrow>
          (case find_sub INDEX_END_MARKER (drop start existing) of
             None \<Rightarrow> None
           | Some end_rel \<Rightarrow>
               (let body_section = INDEX_START_MARKER @ [NL] @ body
                in Some (take start existing @ body_section @ drop (start + end_rel) existing))))"

definition compose_index_md ::
  "(string \<Rightarrow> string) \<Rightarrow> fs_node \<Rightarrow> string list \<Rightarrow> (io_kind, (string \<times> fs_node) list) result
   \<Rightarrow> string \<Rightarrow> bool \<Rightarrow> string option \<Rightarrow> (io_kind, string \<times> rewrite_outcome) result" where
  "compose_index_md lower root dir listing dir_path is_root existing =
     result_bind (enumerate_children lower root dir listing) (\<lambda>children.
       let body = render_block_body children
       in case existing of
            None \<Rightarrow>
              (let scaffold = render_scaffold (dir_title dir_path is_root);
                   new_content = (case inject_block scaffold body of Some c \<Rightarrow> c | None \<Rightarrow> scaffold)
               in Ok (new_content, Created))
          | Some ex \<Rightarrow>
              (case inject_block ex body of
                 Some new_content \<Rightarrow>
                   (if new_content = ex then Ok (new_content, Unchanged)
                    else Ok (new_content, Updated))
               | None \<Rightarrow> Ok (ex, NoMarkers)))"

subsection \<open>Facts on the markers\<close>

lemma find_end_after_start:
  "find_sub INDEX_END_MARKER (INDEX_START_MARKER @ t)
     = map_option (\<lambda>k. length INDEX_START_MARKER + k) (find_sub INDEX_END_MARKER t)"
  by (simp add: INDEX_START_MARKER_def INDEX_END_MARKER_def option.map_comp o_def)

lemma end_marker_no_newline: "NL \<notin> set INDEX_END_MARKER"
  by (simp add: INDEX_END_MARKER_def)

text \<open>A body whose lines are terminated and hold no end marker ends where the marker starts.\<close>

lemma find_end_past_body:
  assumes no: "\<not> occurs INDEX_END_MARKER body" and nl: "body = [] \<or> last body = NL"
  shows "find_sub INDEX_END_MARKER (NL # body @ INDEX_END_MARKER @ post) = Some (Suc (length body))"
proof (rule find_sub_eqI)
  let ?E = INDEX_END_MARKER and ?t = "NL # body @ INDEX_END_MARKER @ post"
  fix j assume j: "j < Suc (length body)"
  show "\<not> starts_with ?E (drop j ?t)"
  proof
    assume st: "starts_with ?E (drop j ?t)"
    show False
    proof (cases j)
      case 0
      with st show False by (simp add: INDEX_END_MARKER_def)
    next
      case (Suc i)
      with j have i: "i < length body" by simp
      from st Suc have E: "?E = take (length ?E) (drop i body @ ?E @ post)"
        using i by (simp add: starts_with_def)
      show False
      proof (cases "length ?E \<le> length body - i")
        case True
        with E have "?E = take (length ?E) (drop i body)" by simp
        then have "body = take i body @ ?E @ drop (length ?E) (drop i body)"
          by (metis append_take_drop_id)
        with no show False by (metis occurs_iff)
      next
        case False
        then have sub: "set (drop i body) \<subseteq> set ?E"
          by (subst E) (simp add: set_take_subset)
        have "last (drop i body) = NL" "drop i body \<noteq> []" using i nl by auto
        then have "NL \<in> set (drop i body)" by (metis last_in_set)
        with sub show False using end_marker_no_newline by blast
      qed
    qed
  qed
qed auto

lemma inject_block_decomp:
  assumes "inject_block existing body = Some out"
  obtains pre mid post where
    "existing = pre @ INDEX_START_MARKER @ mid @ INDEX_END_MARKER @ post"
    "out = pre @ INDEX_START_MARKER @ [NL] @ body @ INDEX_END_MARKER @ post"
    "find_sub INDEX_START_MARKER existing = Some (length pre)"
    "find_sub INDEX_END_MARKER (mid @ INDEX_END_MARKER @ post) = Some (length mid)"
proof -
  let ?S = INDEX_START_MARKER and ?E = INDEX_END_MARKER
  obtain st er where st: "find_sub ?S existing = Some st"
    and er: "find_sub ?E (drop st existing) = Some er"
    and out: "out = take st existing @ (?S @ [NL] @ body) @ drop (st + er) existing"
    using assms by (auto simp: inject_block_def Let_def split: option.splits)
  define t where "t = drop (st + length ?S) existing"
  from find_sub_decomp [OF st] have dec: "existing = take st existing @ ?S @ t"
    and len: "st + length ?S \<le> length existing" by (simp_all add: t_def)
  have dr: "drop st existing = ?S @ t"
    by (subst dec) (use len in simp)
  with er obtain k where k: "find_sub ?E t = Some k" "er = length ?S + k"
    by (auto simp: find_end_after_start)
  from find_sub_decomp [OF k(1)] have t: "t = take k t @ ?E @ drop (k + length ?E) t" and kl: "k \<le> length t"
    by auto
  have "drop (st + er) existing = drop k t" unfolding k(2) t_def by (simp add: add.commute add.left_commute)
  also have "\<dots> = ?E @ drop (k + length ?E) t" by (subst t) (use kl in simp)
  finally have tail: "drop (st + er) existing = ?E @ drop (k + length ?E) t" .
  have "existing = take st existing @ ?S @ take k t @ ?E @ drop (k + length ?E) t"
    using dec t by metis
  moreover have "out = take st existing @ ?S @ [NL] @ body @ ?E @ drop (k + length ?E) t"
    using out tail by simp
  moreover have "find_sub ?S existing = Some (length (take st existing))" using st len by simp
  moreover have "find_sub ?E (take k t @ ?E @ drop (k + length ?E) t) = Some (length (take k t))"
    using k(1) t kl by (metis length_take min.absorb2)
  ultimately show ?thesis using that by blast
qed

lemma inject_block_again:
  assumes inj: "inject_block existing body = Some out"
    and no: "\<not> occurs INDEX_END_MARKER body" and nl: "body = [] \<or> last body = NL"
  shows "inject_block out body = Some out"
proof -
  let ?S = INDEX_START_MARKER and ?E = INDEX_END_MARKER
  from inject_block_decomp [OF inj] obtain pre mid post where
    ex: "existing = pre @ ?S @ mid @ ?E @ post"
    and out: "out = pre @ ?S @ [NL] @ body @ ?E @ post"
    and st: "find_sub ?S existing = Some (length pre)" by blast
  have "find_sub ?S out = Some (length pre)"
    using find_sub_same_prefix [of ?S pre "mid @ ?E @ post"] st ex out by simp
  moreover have "find_sub ?E (drop (length pre) out) = Some (length ?S + Suc (length body))"
    using find_end_past_body [OF no nl, of post] by (simp add: out find_end_after_start)
  ultimately show ?thesis by (simp add: inject_block_def out)
qed

lemma render_block_body_terminated: "render_block_body cs = [] \<or> last (render_block_body cs) = NL"
  by (simp add: render_block_body_def)

lemma inject_block_scaffold: "inject_block (render_scaffold title) body \<noteq> None"
proof -
  let ?S = INDEX_START_MARKER and ?E = INDEX_END_MARKER
  let ?P = "''# '' @ title @ [NL, NL]"
  have sc: "render_scaffold title = ?P @ ?S @ [NL] @ ?E @ [NL]" by (simp add: render_scaffold_def)
  then have "occurs ?S (render_scaffold title)" by (metis occurs_self_append)
  then obtain st where st: "find_sub ?S (render_scaffold title) = Some st"
    by (auto simp: occurs_def)
  have "st \<le> length ?P"
  proof (rule ccontr)
    assume "\<not> st \<le> length ?P"
    then have "length ?P < st" by simp
    from find_sub_least [OF st this] show False
      by (simp only: sc drop_append) (simp add: starts_with_def)
  qed
  then have "drop st (render_scaffold title) = (drop st ?P @ ?S @ [NL]) @ ?E @ [NL]"
    by (simp only: sc drop_append) simp
  then have "find_sub ?E (drop st (render_scaffold title)) \<noteq> None"
    by (metis occurs_def occurs_self_append)
  with st show ?thesis by (auto simp: inject_block_def Let_def)
qed

subsection \<open>Properties\<close>

text \<open>
  C7. Rewriting the link block keeps the author's prose: when the markers are present,
  the new file is the old one with the text between the first start marker and the next
  end marker replaced by a line feed and the new body; everything before and after
  stays byte for byte. Without the markers nothing is rewritten.
\<close>

theorem inject_block_keeps_prose:
  "case inject_block existing body of
     Some out \<Rightarrow> \<exists>pre mid post.
       existing = pre @ INDEX_START_MARKER @ mid @ INDEX_END_MARKER @ post \<and>
       out = pre @ INDEX_START_MARKER @ [NL] @ body @ INDEX_END_MARKER @ post \<and>
       find_sub INDEX_START_MARKER existing = Some (length pre) \<and>
       find_sub INDEX_END_MARKER (mid @ INDEX_END_MARKER @ post) = Some (length mid)
   | None \<Rightarrow> \<not> (\<exists>pre mid post.
       existing = pre @ INDEX_START_MARKER @ mid @ INDEX_END_MARKER @ post \<and>
       find_sub INDEX_START_MARKER existing = Some (length pre))"
proof (cases "inject_block existing body")
  case (Some out)
  obtain pre mid post where
    "existing = pre @ INDEX_START_MARKER @ mid @ INDEX_END_MARKER @ post \<and>
     out = pre @ INDEX_START_MARKER @ [NL] @ body @ INDEX_END_MARKER @ post \<and>
     find_sub INDEX_START_MARKER existing = Some (length pre) \<and>
     find_sub INDEX_END_MARKER (mid @ INDEX_END_MARKER @ post) = Some (length mid)"
    using inject_block_decomp [OF Some] by blast
  then show ?thesis unfolding Some option.case by blast
next
  case None
  have False if ex: "existing = pre @ INDEX_START_MARKER @ mid @ INDEX_END_MARKER @ post"
    and st: "find_sub INDEX_START_MARKER existing = Some (length pre)" for pre mid post
  proof -
    have "drop (length pre) existing = INDEX_START_MARKER @ mid @ INDEX_END_MARKER @ post"
      using ex by simp
    moreover have "find_sub INDEX_END_MARKER (mid @ INDEX_END_MARKER @ post) \<noteq> None"
      using occurs_self_append by (fastforce simp: occurs_def)
    ultimately have "find_sub INDEX_END_MARKER (drop (length pre) existing) \<noteq> None"
      by (auto simp: find_end_after_start)
    with None st show False by (auto simp: inject_block_def split: option.splits)
  qed
  with None show ?thesis by auto
qed

text \<open>
  C8. The index of a directory is stable: when the listing does not change and no child
  line holds the end marker, composing the index again over the file just composed
  returns that file, with the outcome \<open>Unchanged\<close> (or \<open>NoMarkers\<close> for an author who
  removed the markers), so no further write or reindex follows.
\<close>

theorem compose_index_md_stable:
  assumes first: "compose_index_md lower root dir listing dir_path is_root existing = Ok (content, outcome)"
    and children: "enumerate_children lower root dir listing = Ok children"
    and clean: "\<not> occurs INDEX_END_MARKER (render_block_body children)"
  shows "compose_index_md lower root dir listing dir_path is_root (Some content) =
    Ok (content, if outcome = NoMarkers then NoMarkers else Unchanged)"
proof -
  note again = inject_block_again [OF _ clean render_block_body_terminated]
  obtain c where sc: "inject_block (render_scaffold (dir_title dir_path is_root)) (render_block_body children) = Some c"
    using inject_block_scaffold by blast
  show ?thesis
  proof (cases existing)
    case None
    with first children sc have "content = c" "outcome = Created"
      by (simp_all add: compose_index_md_def result_bind_def Let_def)
    with again [OF sc] children show ?thesis by (simp add: compose_index_md_def result_bind_def Let_def)
  next
    case (Some ex)
    then show ?thesis
    proof (cases "inject_block ex (render_block_body children)")
      case (Some out)
      with \<open>existing = Some ex\<close> first children have "content = out" "outcome \<noteq> NoMarkers"
        by (auto simp: compose_index_md_def result_bind_def Let_def split: if_splits)
      with again [OF Some] children show ?thesis by (simp add: compose_index_md_def result_bind_def Let_def)
    qed (use first children Some in \<open>auto simp: compose_index_md_def result_bind_def Let_def\<close>)
  qed
qed

text \<open>A wiki directory with one page, and the listing of it.\<close>

definition plain_entries :: "(string \<times> fs_node) list" where
  "plain_entries = [(''a.md'', FsFile (Some ''# x''))]"

lemma plain_entries_children:
  "enumerate_children (\<lambda>s. s) (FsDir True plain_entries) [] (Ok plain_entries) =
     Ok [\<lparr>ce_line = render_file_line ''a.md'' ''a'' ''x'', ce_sort_key = ''1:a.md''\<rparr>]"
  by code_simp

theorem compose_index_md_stable_witness:
  "\<exists>content. compose_index_md (\<lambda>s. s) (FsDir True plain_entries) [] (Ok plain_entries)
      ''/w'' True None = Ok (content, Created) \<and>
    compose_index_md (\<lambda>s. s) (FsDir True plain_entries) [] (Ok plain_entries)
      ''/w'' True (Some content) = Ok (content, Unchanged)"
proof -
  let ?cs = "[\<lparr>ce_line = render_file_line ''a.md'' ''a'' ''x'', ce_sort_key = ''1:a.md''\<rparr>]"
  have "\<exists>content. compose_index_md (\<lambda>s. s) (FsDir True plain_entries) []
      (Ok plain_entries) ''/w'' True None = Ok (content, Created)"
    by (simp add: compose_index_md_def plain_entries_children Let_def)
  then obtain content where c: "compose_index_md (\<lambda>s. s) (FsDir True plain_entries) []
      (Ok plain_entries) ''/w'' True None = Ok (content, Created)" by blast
  have "\<not> occurs INDEX_END_MARKER (render_block_body ?cs)" by code_simp
  from compose_index_md_stable [OF c plain_entries_children this] c show ?thesis by auto
qed

text \<open>
  C9. The exception is a child line that holds the end marker itself (an H1 is copied
  into the line as it is): then every rewrite over the file just written leaves a stray
  tail behind, so the file is longer each time, without end.
\<close>

theorem inject_block_grows:
  assumes inj: "inject_block existing body = Some out" and end_in: "occurs INDEX_END_MARKER body"
  shows "\<exists>out'. inject_block out body = Some out' \<and>
    length out + length INDEX_END_MARKER \<le> length out'"
proof -
  let ?S = INDEX_START_MARKER and ?E = INDEX_END_MARKER
  from inject_block_decomp [OF inj] obtain pre mid post where
    ex: "existing = pre @ ?S @ mid @ ?E @ post"
    and out: "out = pre @ ?S @ [NL] @ body @ ?E @ post"
    and st: "find_sub ?S existing = Some (length pre)" by blast
  from end_in obtain k where k: "find_sub ?E body = Some k" by (auto simp: occurs_def)
  have "find_sub ?S out = Some (length pre)"
    using find_sub_same_prefix [of ?S pre "mid @ ?E @ post"] st ex out by simp
  moreover have "find_sub ?E (NL # body @ ?E @ post) = Some (Suc k)"
    using find_sub_append_stable [OF k, of "?E @ post"] by (simp add: INDEX_END_MARKER_def)
  then have "find_sub ?E (drop (length pre) out) = Some (length ?S + Suc k)"
    by (simp add: out find_end_after_start)
  ultimately have "inject_block out body =
      Some (take (length pre) out @ (?S @ [NL] @ body) @ drop (length pre + (length ?S + Suc k)) out)"
    by (simp add: inject_block_def)
  moreover have "k + length ?E \<le> length body" by (rule find_sub_bound [OF k])
  ultimately show ?thesis by (simp add: out)
qed

theorem inject_block_grows_witness:
  "inject_block (render_scaffold []) (INDEX_END_MARKER @ [NL]) =
      Some (''# '' @ [NL, NL] @ INDEX_START_MARKER @ [NL] @ INDEX_END_MARKER @ [NL] @ INDEX_END_MARKER @ [NL]) \<and>
   (\<exists>out'. inject_block (''# '' @ [NL, NL] @ INDEX_START_MARKER @ [NL] @ INDEX_END_MARKER @ [NL]
        @ INDEX_END_MARKER @ [NL]) (INDEX_END_MARKER @ [NL]) = Some out' \<and>
      4 + length INDEX_START_MARKER + 3 * length INDEX_END_MARKER < length out')"
    (is "?first \<and> _")
proof -
  have first: ?first by code_simp
  have "occurs INDEX_END_MARKER (INDEX_END_MARKER @ [NL])" by code_simp
  from inject_block_grows [OF first this] obtain out' where
    o: "inject_block (''# '' @ [NL, NL] @ INDEX_START_MARKER @ [NL] @ INDEX_END_MARKER @ [NL]
        @ INDEX_END_MARKER @ [NL]) (INDEX_END_MARKER @ [NL]) = Some out'"
    and l: "length (''# '' @ [NL, NL] @ INDEX_START_MARKER @ [NL] @ INDEX_END_MARKER @ [NL]
        @ INDEX_END_MARKER @ [NL]) + length INDEX_END_MARKER \<le> length out'" by blast
  from l have "4 + length INDEX_START_MARKER + 3 * length INDEX_END_MARKER < length out'" by simp
  with first o show ?thesis by blast
qed

end
