(* ===== verification/Wikilinks.thy ===== *)
theory Wikilinks
  imports Markdown_Events Rust_Path
begin

text \<open>
  \<open>corpus/validate.rs\<close>: the advisory lint of a page and the resolution of
  \<open>[[wikilinks]]\<close> against the paths of a corpus. The parser and the Unicode
  \<open>to_lowercase\<close> are arguments. The lemmas show that the precomputed index resolves
  every target as the direct scan of the paths does, which targets the lint flags, and
  that the extraction finds the links a page was written with.
\<close>

subsection \<open>The structural lint\<close>

fun heading_num :: "heading_level \<Rightarrow> nat" where
  "heading_num H1 = 1"
| "heading_num H2 = 2"
| "heading_num H3 = 3"
| "heading_num H4 = 4"
| "heading_num H5 = 5"
| "heading_num H6 = 6"

fun collect_link_text_from :: "string \<Rightarrow> md_stream \<Rightarrow> string \<times> md_stream" where
  "collect_link_text_from buf [] = (buf, [])"
| "collect_link_text_from buf ((ev, r) # es) =
     (case ev of
        End EndLink \<Rightarrow> (buf, es)
      | TextEvent t \<Rightarrow> collect_link_text_from (buf @ t) es
      | CodeSpan t \<Rightarrow> collect_link_text_from (buf @ t) es
      | _ \<Rightarrow> collect_link_text_from buf es)"

definition collect_link_text :: "md_stream \<Rightarrow> string \<times> md_stream" where
  "collect_link_text es = (case collect_link_text_from [] es of (buf, es') \<Rightarrow> (trim buf, es'))"

fun collect_code_block_from :: "string \<Rightarrow> md_stream \<Rightarrow> string \<times> md_stream" where
  "collect_code_block_from buf [] = (buf, [])"
| "collect_code_block_from buf ((ev, r) # es) =
     (case ev of
        End EndCodeBlock \<Rightarrow> (buf, es)
      | TextEvent t \<Rightarrow> collect_code_block_from (buf @ t) es
      | _ \<Rightarrow> collect_code_block_from buf es)"

definition collect_code_block :: "md_stream \<Rightarrow> string \<times> md_stream" where
  "collect_code_block es = collect_code_block_from [] es"

lemma collect_link_text_from_length:
  "length (snd (collect_link_text_from buf es)) \<le> length es"
  by (induction buf es rule: collect_link_text_from.induct)
     (auto split: md_event.splits md_tag_end.splits simp: le_Suc_eq)

lemma collect_code_block_from_length:
  "length (snd (collect_code_block_from buf es)) \<le> length es"
  by (induction buf es rule: collect_code_block_from.induct)
     (auto split: md_event.splits md_tag_end.splits simp: le_Suc_eq)

lemma collect_link_text_shorter:
  "(t, es') = collect_link_text es \<Longrightarrow> length es' < Suc (length es)"
  using collect_link_text_from_length [of "[]" es]
  by (auto simp: collect_link_text_def split: prod.splits)

lemma collect_code_block_shorter:
  "(b, es') = collect_code_block es \<Longrightarrow> length es' < Suc (length es)"
  using collect_code_block_from_length [of "[]" es]
  by (cases "collect_code_block_from [] es") (simp add: collect_code_block_def)

text \<open>\<open>split_whitespace().next()\<close>.\<close>

definition first_word :: "string \<Rightarrow> string option" where
  "first_word s =
     (let t = trim_start s
      in if t = [] then None
         else Some (case find_ws t of Some i \<Rightarrow> take i t | None \<Rightarrow> t))"

definition eq_ignore_ascii_case :: "string \<Rightarrow> string \<Rightarrow> bool" where
  "eq_ignore_ascii_case a b \<longleftrightarrow> to_ascii_lowercase a = to_ascii_lowercase b"

definition heading_jump :: "nat option \<Rightarrow> nat \<Rightarrow> string list" where
  "heading_jump last_heading n =
     (case last_heading of
        Some prev \<Rightarrow>
          (if prev + 1 < n
           then [''heading level jumps from h'' @ show_nat prev @ '' to h'' @ show_nat n
                 @ '' (skips h'' @ show_nat (prev + 1) @ '')'']
           else [])
      | None \<Rightarrow> [])"

definition is_mermaid_info :: "string \<Rightarrow> bool" where
  "is_mermaid_info info =
     (case first_word info of Some lang \<Rightarrow> eq_ignore_ascii_case lang ''mermaid'' | None \<Rightarrow> False)"

function lint_events :: "nat option \<Rightarrow> md_stream \<Rightarrow> string list" where
  "lint_events last_heading [] = []"
| "lint_events last_heading ((ev, r) # es) =
     (case ev of
        Start (Heading level) \<Rightarrow>
          (let n = heading_num level
           in heading_jump last_heading n @ lint_events (Some n) es)
      | Start (Link dest_url) \<Rightarrow>
          (if trim dest_url = []
           then (case collect_link_text es of
                   (t, es') \<Rightarrow> (''link \"'' @ t @ ''\" has an empty destination'')
                               # lint_events last_heading es')
           else lint_events last_heading es)
      | Start (CodeBlock (Fenced info)) \<Rightarrow>
          (if is_mermaid_info info
           then (case collect_code_block es of
                   (b, es') \<Rightarrow> (if trim b = [] then [''empty ```mermaid code block''] else [])
                               @ lint_events last_heading es')
           else lint_events last_heading es)
      | _ \<Rightarrow> lint_events last_heading es)"
  by pat_completeness auto

termination
  by (relation "measure (\<lambda>(_, es). length es)")
     (auto dest: collect_link_text_shorter collect_code_block_shorter)

definition lint_markdown :: "md_parser \<Rightarrow> string \<Rightarrow> string list" where
  "lint_markdown parser content = lint_events None (parser content)"

subsection \<open>Finding the links\<close>

abbreviation OPEN2 :: string where "OPEN2 \<equiv> ''[[''"
abbreviation CLOSE2 :: string where "CLOSE2 \<equiv> '']]''"

definition link_target :: "string \<Rightarrow> string list" where
  "link_target inner =
     (let target = trim (hd (split_on (CHR ''|'') inner))
      in if target = [] then [] else [target])"

function extract_wikilinks :: "string \<Rightarrow> string list" where
  "extract_wikilinks rest =
     (case find_sub OPEN2 rest of
        None \<Rightarrow> []
      | Some i \<Rightarrow>
          (let after_open = drop (i + 2) rest
           in case find_sub CLOSE2 after_open of
                None \<Rightarrow> []
              | Some j \<Rightarrow> link_target (take j after_open)
                          @ extract_wikilinks (drop (j + 2) after_open)))"
  by pat_completeness auto

termination
  by (relation "measure length") (auto dest!: find_sub_bound)

declare extract_wikilinks.simps [simp del]

text \<open>The state of the scan: whether a code block is open, and the pending text.\<close>

fun find_wikilinks_from :: "bool \<Rightarrow> string \<Rightarrow> md_stream \<Rightarrow> string list" where
  "find_wikilinks_from in_code_block buf [] = (if buf = [] then [] else extract_wikilinks buf)"
| "find_wikilinks_from in_code_block buf ((ev, r) # es) =
     (case ev of
        Start (CodeBlock _) \<Rightarrow>
          (if buf = [] then [] else extract_wikilinks buf) @ find_wikilinks_from True [] es
      | End EndCodeBlock \<Rightarrow> find_wikilinks_from False buf es
      | TextEvent t \<Rightarrow>
          (if \<not> in_code_block then find_wikilinks_from in_code_block (buf @ t) es
           else if buf \<noteq> [] then extract_wikilinks buf @ find_wikilinks_from in_code_block [] es
           else find_wikilinks_from in_code_block buf es)
      | _ \<Rightarrow>
          (if buf \<noteq> [] then extract_wikilinks buf @ find_wikilinks_from in_code_block [] es
           else find_wikilinks_from in_code_block buf es))"

definition find_wikilinks :: "md_parser \<Rightarrow> string \<Rightarrow> string list" where
  "find_wikilinks parser content = find_wikilinks_from False [] (parser content)"

subsection \<open>Slugs\<close>

definition normalize_slug :: "(string \<Rightarrow> string) \<Rightarrow> string \<Rightarrow> string" where
  "normalize_slug lower raw =
     (let l = lower (map (\<lambda>c. if c = CHR 0x5C then SLASH else c) (trim raw))
      in case strip_suffix_str ''.md'' l of Some s \<Rightarrow> s | None \<Rightarrow> l)"

datatype slug_resolution = Missing | Unique string | Ambiguous "string list"

definition resolution_of :: "string list \<Rightarrow> slug_resolution" where
  "resolution_of matches =
     (case matches of [] \<Rightarrow> Missing | [m] \<Rightarrow> Unique m | _ \<Rightarrow> Ambiguous matches)"

definition resolve_slug :: "(string \<Rightarrow> string) \<Rightarrow> string \<Rightarrow> string list \<Rightarrow> slug_resolution" where
  "resolve_slug lower target paths =
     (let target_slug = normalize_slug lower target
      in resolution_of (filter (\<lambda>path. normalize_slug lower path = target_slug \<or>
             map_option lower (file_stem_of path) = Some target_slug) paths))"

type_synonym slug_index = "string \<rightharpoonup> string list"

text \<open>\<open>entry(key).or_default().push(path)\<close>.\<close>

definition push_key :: "string \<Rightarrow> string \<Rightarrow> slug_index \<Rightarrow> slug_index" where
  "push_key key path m =
     m(key \<mapsto> (case m key of Some ps \<Rightarrow> ps | None \<Rightarrow> []) @ [path])"

definition slug_index_add :: "(string \<Rightarrow> string) \<Rightarrow> slug_index \<Rightarrow> string \<Rightarrow> slug_index" where
  "slug_index_add lower by_key path =
     (let full_key = normalize_slug lower path;
          stem_key = map_option lower (file_stem_of path);
          by_key' = push_key full_key path by_key
      in if stem_key \<noteq> Some full_key
         then (case stem_key of Some k \<Rightarrow> push_key k path by_key' | None \<Rightarrow> by_key')
         else by_key')"

definition slug_index_build :: "(string \<Rightarrow> string) \<Rightarrow> string list \<Rightarrow> slug_index" where
  "slug_index_build lower paths = foldl (slug_index_add lower) Map.empty paths"

definition slug_index_resolve ::
  "(string \<Rightarrow> string) \<Rightarrow> slug_index \<Rightarrow> string \<Rightarrow> slug_resolution" where
  "slug_index_resolve lower by_key target =
     (case by_key (normalize_slug lower target) of
        None \<Rightarrow> Missing
      | Some matches \<Rightarrow>
          (if length matches = 1 then Unique (matches ! 0) else Ambiguous matches))"

definition EM_DASH :: string where
  "EM_DASH = [CHR 0xE2, CHR 0x80, CHR 0x94]"

definition wikilink_warning :: "string \<Rightarrow> slug_resolution \<Rightarrow> string option" where
  "wikilink_warning target res =
     (case res of
        Unique _ \<Rightarrow> None
      | Missing \<Rightarrow> Some (''wikilink [['' @ target @ '']] has no matching page in the corpus'')
      | Ambiguous candidates \<Rightarrow>
          Some (''wikilink [['' @ target @ '']] is ambiguous '' @ EM_DASH @ '' matches ''
                @ join_str '', '' candidates))"

definition lint_wikilinks ::
  "md_parser \<Rightarrow> (string \<Rightarrow> string) \<Rightarrow> string \<Rightarrow> string list \<Rightarrow> string list" where
  "lint_wikilinks parser lower content paths =
     (let index = slug_index_build lower paths
      in List.map_filter (\<lambda>target. wikilink_warning target (slug_index_resolve lower index target))
           (find_wikilinks parser content))"

subsection \<open>The index against the scan\<close>

abbreviation slug_matches :: "(string \<Rightarrow> string) \<Rightarrow> string \<Rightarrow> string \<Rightarrow> bool" where
  "slug_matches lower slug path \<equiv>
     normalize_slug lower path = slug \<or> map_option lower (file_stem_of path) = Some slug"

definition entries :: "slug_index \<Rightarrow> string \<Rightarrow> string list" where
  "entries m k = (case m k of Some ps \<Rightarrow> ps | None \<Rightarrow> [])"

lemma entries_push_key [simp]:
  "entries (push_key k p m) k' = entries m k' @ (if k' = k then [p] else [])"
  by (simp add: entries_def push_key_def)

lemma entries_add:
  "entries (slug_index_add lower m p) k = entries m k @ (if slug_matches lower k p then [p] else [])"
  by (auto simp: slug_index_add_def Let_def split: option.splits)

lemma push_key_nonempty:
  "(\<And>k. m k \<noteq> Some []) \<Longrightarrow> push_key k' p m k \<noteq> Some []"
  by (simp add: push_key_def)

lemma slug_index_add_nonempty:
  "(\<And>k. m k \<noteq> Some []) \<Longrightarrow> slug_index_add lower m p k \<noteq> Some []"
  by (simp add: slug_index_add_def Let_def push_key_nonempty split: option.splits)

lemma entries_foldl:
  "entries (foldl (slug_index_add lower) m paths) k = entries m k @ filter (slug_matches lower k) paths"
  by (induction paths arbitrary: m) (simp_all add: entries_add)

lemma foldl_nonempty:
  "(\<And>k. m k \<noteq> Some []) \<Longrightarrow> foldl (slug_index_add lower) m paths k \<noteq> Some []"
  by (induction paths arbitrary: m) (simp_all add: slug_index_add_nonempty)

lemma slug_index_build_lookup:
  "slug_index_build lower paths k =
     (let ps = filter (slug_matches lower k) paths in if ps = [] then None else Some ps)"
proof -
  have "slug_index_build lower paths k \<noteq> Some []"
    unfolding slug_index_build_def by (rule foldl_nonempty) simp
  moreover have "entries (slug_index_build lower paths) k = filter (slug_matches lower k) paths"
    by (simp add: slug_index_build_def entries_foldl) (simp add: entries_def)
  ultimately show ?thesis
    by (cases "slug_index_build lower paths k") (auto simp: entries_def Let_def)
qed

lemma slug_index_resolve_scan:
  "slug_index_resolve lower (slug_index_build lower paths) target = resolve_slug lower target paths"
  by (cases "filter (slug_matches lower (normalize_slug lower target)) paths";
      cases "tl (filter (slug_matches lower (normalize_slug lower target)) paths)")
     (auto simp: slug_index_resolve_def resolve_slug_def slug_index_build_lookup resolution_of_def Let_def)

subsection \<open>The text that is searched\<close>

text \<open>
  The runs of text of a page: the texts of consecutive events outside code blocks joined, cut at every other
  event. The end of a code block cuts nothing: the start of the block did.
\<close>

definition prose_text :: "md_stream \<Rightarrow> nat \<Rightarrow> string option" where
  "prose_text es i =
     (case fst (es ! i) of
        TextEvent t \<Rightarrow> if inside_code_block es i then None else Some t
      | End EndCodeBlock \<Rightarrow> Some []
      | _ \<Rightarrow> None)"

definition text_runs :: "md_stream \<Rightarrow> string list" where
  "text_runs es = map (\<lambda>run. concat (map the run)) (split_on None (map (prose_text es) [0..<length es]))"

fun runs_after :: "string \<Rightarrow> string option list \<Rightarrow> string list" where
  "runs_after buf [] = [buf]"
| "runs_after buf (Some t # ts) = runs_after (buf @ t) ts"
| "runs_after buf (None # ts) = buf # runs_after [] ts"

lemma runs_after_split:
  "runs_after buf ts =
     (case map (\<lambda>run. concat (map the run)) (split_on None ts) of r # rs \<Rightarrow> (buf @ r) # rs)"
  by (induction buf ts rule: runs_after.induct) (auto split: list.splits simp: map_eq_Cons_conv)

lemma extract_wikilinks_Nil [simp]: "extract_wikilinks [] = []"
  by (subst extract_wikilinks.simps) simp

lemma find_wikilinks_positions:
  "es = pre @ rest \<Longrightarrow> find_wikilinks_from (inside_code_block es (length pre)) buf rest =
     concat (map extract_wikilinks (runs_after buf (map (prose_text es) [length pre..<length es])))"
proof (induction rest arbitrary: pre buf)
  case (Cons e rest)
  obtain ev r where e: "e = (ev, r)" by (cases e)
  note at = map_positions_Cons [OF Cons.prems]
  have flag: "inside_code_block es (length (pre @ [e])) \<longleftrightarrow>
      opens_code_block ev \<or> inside_code_block es (length pre) \<and> ev \<noteq> End EndCodeBlock"
    by (simp add: inside_code_block_Suc at(2) e)
  have "find_wikilinks_from (inside_code_block es (length (pre @ [e]))) b rest =
      concat (map extract_wikilinks (runs_after b (map (prose_text es) [length (pre @ [e])..<length es])))" for b
    using Cons.prems by (intro Cons.IH) simp
  note ih = this [unfolded flag]
  have "find_wikilinks_from (inside_code_block es (length pre)) buf (e # rest) =
      concat (map extract_wikilinks
        (runs_after buf (prose_text es (length pre) # map (prose_text es) [length (pre @ [e])..<length es])))"
    using ih unfolding prose_text_def [of _ "length pre"] at(2) e opens_code_block_def
    by (cases ev) (auto split: md_tag.splits md_tag_end.splits)
  then show ?case unfolding at(1) .
qed simp

lemma find_wikilinks_runs:
  "find_wikilinks parser content = concat (map extract_wikilinks (text_runs (parser content)))"
proof -
  let ?es = "parser content"
  have "find_wikilinks parser content =
      concat (map extract_wikilinks (runs_after [] (map (prose_text ?es) [0..<length ?es])))"
    using find_wikilinks_positions [of ?es "[]" ?es "[]"] by (simp add: find_wikilinks_def)
  also have "\<dots> = concat (map extract_wikilinks (text_runs ?es))"
    using runs_after_split [of "[]"] by (auto simp: text_runs_def split: list.splits)
  finally show ?thesis .
qed

lemma map_filter_concat: "List.map_filter f xs = concat (map (\<lambda>x. case f x of None \<Rightarrow> [] | Some y \<Rightarrow> [y]) xs)"
  by (induction xs) (simp_all add: map_filter_simps split: option.split)

subsection \<open>Written links\<close>

text \<open>A link as an author writes it: the text before it, the target, and an optional alias.\<close>

record written_link =
  wl_before :: string
  wl_target :: string
  wl_alias :: "string option"

definition write_link :: "written_link \<Rightarrow> string" where
  "write_link l = wl_before l @ OPEN2 @ wl_target l
     @ (case wl_alias l of None \<Rightarrow> [] | Some a \<Rightarrow> ''|'' @ a) @ CLOSE2"

definition well_written :: "written_link \<Rightarrow> bool" where
  "well_written l \<longleftrightarrow> CHR ''['' \<notin> set (wl_before l) \<and> wl_target l \<noteq> [] \<and>
     trim (wl_target l) = wl_target l \<and> CHR '']'' \<notin> set (wl_target l) \<and>
     CHR ''|'' \<notin> set (wl_target l) \<and>
     (case wl_alias l of None \<Rightarrow> True | Some a \<Rightarrow> CHR '']'' \<notin> set a)"

lemma find_sub_first_char: "c \<notin> set pre \<Longrightarrow> find_sub (c # n) (pre @ c # n @ post) = Some (length pre)"
proof (induction pre)
  case Nil
  have "starts_with (c # n) ((c # n) @ post)" by (rule starts_with_append)
  then show ?case by simp
qed auto

lemma find_sub_no_char: "c \<notin> set s \<Longrightarrow> find_sub (c # n) s = None"
  by (induction s) auto

lemma hd_split_on: "d \<notin> set a \<Longrightarrow> hd (split_on d (a @ d # b)) = a" "d \<notin> set a \<Longrightarrow> hd (split_on d a) = a"
  by (induction a) (auto split: list.splits simp: neq_Nil_conv)

lemma extract_write_link:
  assumes "well_written l"
  shows "extract_wikilinks (write_link l @ rest) = wl_target l # extract_wikilinks rest"
proof -
  define inner where "inner = wl_target l @ (case wl_alias l of None \<Rightarrow> [] | Some a \<Rightarrow> ''|'' @ a)"
  have w: "write_link l @ rest = wl_before l @ OPEN2 @ inner @ CLOSE2 @ rest"
    by (simp add: write_link_def inner_def)
  have o: "find_sub OPEN2 (write_link l @ rest) = Some (length (wl_before l))"
    using assms find_sub_first_char [of "CHR ''[''" "wl_before l" "''[''" "inner @ CLOSE2 @ rest"]
    by (simp add: w well_written_def)
  have "CHR '']'' \<notin> set inner"
    using assms by (auto simp: inner_def well_written_def split: option.splits)
  then have c: "find_sub CLOSE2 (inner @ CLOSE2 @ rest) = Some (length inner)"
    using find_sub_first_char [of "CHR '']''" inner "'']''" rest] by simp
  have "link_target inner = [wl_target l]"
    using assms by (cases "wl_alias l") (auto simp: link_target_def inner_def well_written_def hd_split_on Let_def)
  with o c show ?thesis by (subst extract_wikilinks.simps) (simp add: w Let_def)
qed

subsection \<open>Properties\<close>

text \<open>
  C10. The precomputed slug index of the wikilink lint resolves every target exactly as
  the direct scan \<open>resolve_slug\<close> that backlinks use: same missing targets, same unique
  page, same candidates in the same order, each page once.
\<close>

theorem slug_index_equivalent:
  "slug_index_resolve lower (slug_index_build lower paths) target = resolve_slug lower target paths"
  by (rule slug_index_resolve_scan)

text \<open>
  C11. The wikilink lint reports exactly the links that name no page or several, one warning for each and in the
  order of the page: the missing ones with their target, the ambiguous ones with their target and the pages they
  match. A page matches when the target is its normalized path or its bare stem. The links are those of the runs
  of text outside code blocks.
\<close>

theorem lint_wikilinks_exact:
  "lint_wikilinks parser lower content paths =
     concat (map (\<lambda>target.
         let pages = filter (slug_matches lower (normalize_slug lower target)) paths
         in if length pages = 1 then []
            else if pages = [] then [''wikilink [['' @ target @ '']] has no matching page in the corpus'']
            else [''wikilink [['' @ target @ '']] is ambiguous '' @ EM_DASH @ '' matches '' @ join_str '', '' pages])
       (concat (map extract_wikilinks (text_runs (parser content)))))"
proof -
  have "(case wikilink_warning t (resolve_slug lower t paths) of None \<Rightarrow> [] | Some w \<Rightarrow> [w]) =
      (let pages = filter (slug_matches lower (normalize_slug lower t)) paths
       in if length pages = 1 then []
          else if pages = [] then [''wikilink [['' @ t @ '']] has no matching page in the corpus'']
          else [''wikilink [['' @ t @ '']] is ambiguous '' @ EM_DASH @ '' matches '' @ join_str '', '' pages])" for t
    by (cases "filter (slug_matches lower (normalize_slug lower t)) paths";
        cases "tl (filter (slug_matches lower (normalize_slug lower t)) paths)")
       (auto simp: wikilink_warning_def resolve_slug_def resolution_of_def Let_def)
  then show ?thesis
    unfolding lint_wikilinks_def slug_index_resolve_scan Let_def map_filter_concat find_wikilinks_runs by simp
qed

text \<open>A page with links to two pages, to none, and one in a code block that is not looked at.\<close>

definition sample_page_events :: md_parser where
  "sample_page_events content =
     [(Start Paragraph, (0, 0)), (TextEvent ''see [[brie'', (0, 0)), (TextEvent '']] and [[curd|a]]'', (0, 0)),
      (End EndParagraph, (0, 0)), (Start (CodeBlock Indented), (0, 0)), (TextEvent ''[[whey]]'', (0, 0)),
      (End EndCodeBlock, (0, 0)), (TextEvent ''[[Gouda]] [[rind]]'', (0, 0))]"

lemma sample_text_runs:
  "text_runs (sample_page_events content) = [[], ''see [[brie]] and [[curd|a]]'', [], [], ''[[Gouda]] [[rind]]'']"
  by (simp add: text_runs_def sample_page_events_def prose_text_def upt_rec inside_code_block_Suc
      inside_code_block_Suc [of _ 1, simplified] opens_code_block_def numeral_eq_Suc)

theorem lint_wikilinks_exact_witness:
  "lint_wikilinks sample_page_events to_ascii_lowercase [] [''a/brie.md'', ''b/brie.md'', ''gouda.md''] =
     [''wikilink [[brie]] is ambiguous '' @ EM_DASH @ '' matches a/brie.md, b/brie.md'',
      ''wikilink [[curd]] has no matching page in the corpus'',
      ''wikilink [[rind]] has no matching page in the corpus'']"
  unfolding lint_wikilinks_exact sample_text_runs by code_simp

text \<open>
  C12. Extraction is the inverse of writing links: from any text made of links
  \<open>[[target]]\<close> or \<open>[[target|alias]]\<close> with prose between them, it returns the targets, all
  of them and in order.
\<close>

theorem extract_wikilinks_roundtrip:
  assumes "\<forall>l \<in> set ls. well_written l" and "CHR ''['' \<notin> set after"
  shows "extract_wikilinks (concat (map write_link ls) @ after) = map wl_target ls"
  using assms
proof (induction ls)
  case Nil
  then show ?case by (subst extract_wikilinks.simps) (simp add: find_sub_no_char)
next
  case (Cons l ls)
  then show ?case using extract_write_link [of l] by simp
qed

theorem extract_wikilinks_roundtrip_witness:
  "extract_wikilinks (''see [[a/b]] and [[c|the c]].'') = [''a/b'', ''c'']"
proof -
  let ?ls = "[\<lparr>wl_before = ''see '', wl_target = ''a/b'', wl_alias = None\<rparr>,
    \<lparr>wl_before = '' and '', wl_target = ''c'', wl_alias = Some ''the c''\<rparr>]"
  have "\<forall>l \<in> set ?ls. well_written l" by code_simp
  from extract_wikilinks_roundtrip [OF this, of "''.''"] show ?thesis by (simp add: write_link_def)
qed

end
