(* ===== verification/Footnotes.thy ===== *)
theory Footnotes
  imports Markdown_Events
begin

text \<open>
  \<open>footnotes.rs\<close>: the footnote modes of a response. The parser with its byte ranges is
  an argument. A slice of the text panics when it is out of bounds or splits a
  character, so the operations that slice return an option, \<open>None\<close> for the panic. The
  lemmas show that on the ranges a parser gives the transforms never panic and delete
  exactly the bytes of the footnotes.
\<close>

subsection \<open>Slices\<close>

definition is_char_boundary :: "string \<Rightarrow> nat \<Rightarrow> bool" where
  "is_char_boundary s i \<longleftrightarrow>
     i = 0 \<or> i = length s \<or> (i < length s \<and> \<not> is_continuation (s ! i))"

definition str_slice :: "string \<Rightarrow> nat \<Rightarrow> nat \<Rightarrow> string option" where
  "str_slice s a b =
     (if a \<le> b \<and> b \<le> length s \<and> is_char_boundary s a \<and> is_char_boundary s b
      then Some (take (b - a) (drop a s)) else None)"

subsection \<open>Operations\<close>

datatype footnote_mode = Include | Exclude | Only

text \<open>The state of \<open>extract_footnotes\<close>.\<close>

record footnote_scan =
  results :: "(string \<times> string) list"
  current_label :: "string option"
  current_text :: string
  open_dests :: "(string \<times> nat) list"

definition close_dest :: "footnote_scan \<Rightarrow> footnote_scan" where
  "close_dest st =
     (case open_dests st of
        [] \<Rightarrow> st
      | (dest, mark) # ds \<Rightarrow>
          (let st' = st\<lparr>open_dests := ds\<rparr>
           in if \<not> occurs dest (drop mark (current_text st))
              then st'\<lparr>current_text := current_text st @ '' ('' @ dest @ '')''\<rparr>
              else st'))"

definition extract_footnotes_step :: "footnote_scan \<Rightarrow> md_event \<Rightarrow> footnote_scan" where
  "extract_footnotes_step st ev =
     (case ev of
        Start (FootnoteDefinition label) \<Rightarrow>
          st\<lparr>current_label := Some label, current_text := [], open_dests := []\<rparr>
      | End EndFootnoteDefinition \<Rightarrow>
          (case current_label st of
             Some label \<Rightarrow>
               st\<lparr>current_label := None,
                  results := results st @ [(label, trim (current_text st))]\<rparr>
           | None \<Rightarrow> st)
      | _ \<Rightarrow>
          (if current_label st = None then st
           else case ev of
                  Start (Link dest) \<Rightarrow>
                    st\<lparr>open_dests := (dest, length (current_text st)) # open_dests st\<rparr>
                | Start (Image dest) \<Rightarrow>
                    st\<lparr>open_dests := (dest, length (current_text st)) # open_dests st\<rparr>
                | End EndLink \<Rightarrow> close_dest st
                | End EndImage \<Rightarrow> close_dest st
                | TextEvent t \<Rightarrow> st\<lparr>current_text := current_text st @ t\<rparr>
                | CodeSpan t \<Rightarrow> st\<lparr>current_text := current_text st @ t\<rparr>
                | SoftBreak \<Rightarrow> st\<lparr>current_text := current_text st @ '' ''\<rparr>
                | HardBreak \<Rightarrow> st\<lparr>current_text := current_text st @ '' ''\<rparr>
                | _ \<Rightarrow> st))"

definition footnote_scan_init :: footnote_scan where
  "footnote_scan_init =
     \<lparr>results = [], current_label = None, current_text = [], open_dests = []\<rparr>"

definition extract_footnotes :: "md_parser \<Rightarrow> string \<Rightarrow> (string \<times> string) list" where
  "extract_footnotes make_parser content =
     results (foldl extract_footnotes_step footnote_scan_init (map fst (make_parser content)))"

text \<open>The byte ranges of the references and the definition blocks, in stream order.\<close>

fun footnote_ranges :: "nat option \<Rightarrow> md_stream \<Rightarrow> md_range list" where
  "footnote_ranges def_start [] = []"
| "footnote_ranges def_start ((ev, rg) # es) =
     (case ev of
        FootnoteReference _ \<Rightarrow> rg # footnote_ranges def_start es
      | Start (FootnoteDefinition _) \<Rightarrow> footnote_ranges (Some (fst rg)) es
      | End EndFootnoteDefinition \<Rightarrow>
          (case def_start of
             Some start \<Rightarrow> (start, snd rg) # footnote_ranges None es
           | None \<Rightarrow> footnote_ranges None es)
      | _ \<Rightarrow> footnote_ranges def_start es)"

fun apply_deletions_from :: "string \<Rightarrow> nat \<Rightarrow> md_range list \<Rightarrow> string option" where
  "apply_deletions_from content pos [] =
     (if pos < length content then str_slice content pos (length content) else Some [])"
| "apply_deletions_from content pos (r # rs) =
     (if pos < fst r
      then Option.bind (str_slice content pos (fst r)) (\<lambda>kept.
             map_option (\<lambda>rest. kept @ rest) (apply_deletions_from content (max pos (snd r)) rs))
      else apply_deletions_from content (max pos (snd r)) rs)"

definition apply_deletions :: "string \<Rightarrow> md_range list \<Rightarrow> string option" where
  "apply_deletions content ranges = apply_deletions_from content 0 ranges"

definition exclude_footnotes :: "md_parser \<Rightarrow> string \<Rightarrow> string option" where
  "exclude_footnotes make_parser content =
     (let remove = footnote_ranges None (make_parser content)
      in if remove = [] then Some content
         else apply_deletions content (sort_key fst remove))"

fun only_footnotes_from :: "string \<Rightarrow> nat option \<Rightarrow> md_stream \<Rightarrow> string option" where
  "only_footnotes_from content def_start [] = Some []"
| "only_footnotes_from content def_start ((ev, rg) # es) =
     (case ev of
        Start (FootnoteDefinition _) \<Rightarrow> only_footnotes_from content (Some (fst rg)) es
      | End EndFootnoteDefinition \<Rightarrow>
          (case def_start of
             Some start \<Rightarrow>
               Option.bind (str_slice content start (snd rg)) (\<lambda>block.
                 map_option (\<lambda>rest. block @ rest) (only_footnotes_from content None es))
           | None \<Rightarrow> only_footnotes_from content None es)
      | _ \<Rightarrow> only_footnotes_from content def_start es)"

definition only_footnotes :: "md_parser \<Rightarrow> string \<Rightarrow> string option" where
  "only_footnotes make_parser content = only_footnotes_from content None (make_parser content)"

definition apply_footnote_mode :: "md_parser \<Rightarrow> string \<Rightarrow> footnote_mode \<Rightarrow> string option" where
  "apply_footnote_mode make_parser content mode =
     (case mode of
        Include \<Rightarrow> Some content
      | Exclude \<Rightarrow> exclude_footnotes make_parser content
      | Only \<Rightarrow> only_footnotes make_parser content)"

subsection \<open>What the parser promises\<close>

text \<open>
  Every range lies in the text and on character boundaries, and a definition ends, in
  the text, no earlier than the last one opened before it.
\<close>

definition range_ok :: "string \<Rightarrow> md_range \<Rightarrow> bool" where
  "range_ok s r \<longleftrightarrow> fst r \<le> snd r \<and> snd r \<le> length s \<and>
     is_char_boundary s (fst r) \<and> is_char_boundary s (snd r)"

fun stream_ok :: "string \<Rightarrow> nat option \<Rightarrow> md_stream \<Rightarrow> bool" where
  "stream_ok s def_start [] = True"
| "stream_ok s def_start ((ev, rg) # es) =
     (range_ok s rg \<and>
      (case ev of
         Start (FootnoteDefinition _) \<Rightarrow> stream_ok s (Some (fst rg)) es
       | End EndFootnoteDefinition \<Rightarrow>
           (case def_start of Some a \<Rightarrow> a \<le> snd rg | None \<Rightarrow> True) \<and> stream_ok s None es
       | _ \<Rightarrow> stream_ok s def_start es))"

subsection \<open>Deletion\<close>

definition in_ranges :: "md_range list \<Rightarrow> nat \<Rightarrow> bool" where
  "in_ranges rs i \<longleftrightarrow> list_ex (\<lambda>r. fst r \<le> i \<and> i < snd r) rs"

lemma in_ranges_simps [simp]:
  "\<not> in_ranges [] i"
  "in_ranges (r # rs) i \<longleftrightarrow> fst r \<le> i \<and> i < snd r \<or> in_ranges rs i"
  by (simp_all add: in_ranges_def)

lemma in_ranges_sort [simp]: "in_ranges (sort_key fst rs) = in_ranges rs"
  by (simp add: in_ranges_def list_ex_iff fun_eq_iff)

lemma stream_ranges_ok:
  assumes "stream_ok s d es" and "\<And>a. d = Some a \<Longrightarrow> is_char_boundary s a"
  shows "\<forall>r \<in> set (footnote_ranges d es). range_ok s r"
  using assms
proof (induction d es rule: footnote_ranges.induct)
  case (2 d ev rg es)
  then show ?case
    by (auto simp: range_ok_def split: md_event.splits md_tag.splits md_tag_end.splits option.splits)
qed simp

text \<open>The bytes of \<open>s\<close> from position \<open>p\<close> on that no range covers.\<close>

definition kept_from :: "string \<Rightarrow> nat \<Rightarrow> md_range list \<Rightarrow> string" where
  "kept_from s p rs = map ((!) s) (filter (\<lambda>i. \<not> in_ranges rs i) [p..<length s])"

lemma map_nth_slice: "a \<le> b \<Longrightarrow> b \<le> length s \<Longrightarrow> map ((!) s) [a..<b] = take (b - a) (drop a s)"
  by (rule nth_equalityI) auto

lemma upt_split: "a \<le> b \<Longrightarrow> b \<le> c \<Longrightarrow> [a..<c] = [a..<b] @ [b..<c]"
  by (metis upt_add_eq_append le_add_diff_inverse)

lemma filter_upt_all: "(\<And>i. a \<le> i \<Longrightarrow> i < b \<Longrightarrow> P i) \<Longrightarrow> filter P [a..<b] = [a..<b]"
  by (rule filter_True) auto

lemma filter_upt_none: "(\<And>i. a \<le> i \<Longrightarrow> i < b \<Longrightarrow> \<not> P i) \<Longrightarrow> filter P [a..<b] = []"
  by (rule filter_False) auto

lemma kept_from_skip:
  assumes "p \<le> length s" "fst r \<le> p" "snd r \<le> length s"
  shows "kept_from s p (r # rs) = kept_from s (max p (snd r)) rs"
proof -
  let ?m = "max p (snd r)"
  have "[p..<length s] = [p..<?m] @ [?m..<length s]" using assms by (intro upt_split) auto
  moreover have "filter (\<lambda>i. \<not> in_ranges (r # rs) i) [p..<?m] = []"
    using assms by (intro filter_upt_none) auto
  moreover have "filter (\<lambda>i. \<not> in_ranges (r # rs) i) [?m..<length s] =
      filter (\<lambda>i. \<not> in_ranges rs i) [?m..<length s]" by (rule filter_cong) auto
  ultimately show ?thesis by (simp only: kept_from_def filter_append append_Nil)
qed

lemma kept_from_copy:
  assumes "p \<le> a" "a \<le> length s" "\<And>r. r \<in> set rs \<Longrightarrow> a \<le> fst r"
  shows "kept_from s p rs = take (a - p) (drop p s) @ kept_from s a rs"
proof -
  have "[p..<length s] = [p..<a] @ [a..<length s]" using assms by (intro upt_split)
  moreover have "filter (\<lambda>i. \<not> in_ranges rs i) [p..<a] = [p..<a]"
    using assms(3) by (intro filter_upt_all) (fastforce simp: in_ranges_def list_ex_iff)
  ultimately show ?thesis using assms by (simp add: kept_from_def map_nth_slice)
qed

lemma apply_deletions_kept:
  assumes "sorted (map fst rs)" "\<forall>r \<in> set rs. range_ok s r" "p \<le> length s" "is_char_boundary s p"
  shows "apply_deletions_from s p rs = Some (kept_from s p rs)"
  using assms
proof (induction rs arbitrary: p)
  case Nil
  then show ?case
    by (auto simp: str_slice_def is_char_boundary_def kept_from_def map_nth_slice)
next
  case (Cons r rs)
  let ?m = "max p (snd r)"
  have r: "range_ok s r" using Cons.prems by simp
  then have m: "?m \<le> length s" "is_char_boundary s ?m"
    using Cons.prems by (auto simp: range_ok_def max_def)
  have IH: "apply_deletions_from s ?m rs = Some (kept_from s ?m rs)"
    using Cons.IH [of ?m] Cons.prems m by simp
  show ?case
  proof (cases "p < fst r")
    case False
    then show ?thesis using IH r Cons.prems by (simp add: kept_from_skip range_ok_def)
  next
    case True
    have "kept_from s p (r # rs) = take (fst r - p) (drop p s) @ kept_from s (fst r) (r # rs)"
      using True r Cons.prems(1) by (intro kept_from_copy) (auto simp: range_ok_def)
    also have "kept_from s (fst r) (r # rs) = kept_from s (max (fst r) (snd r)) rs"
      using r by (intro kept_from_skip) (auto simp: range_ok_def)
    also have "max (fst r) (snd r) = ?m" using True r by (auto simp: range_ok_def)
    finally show ?thesis using True IH r Cons.prems by (simp add: str_slice_def range_ok_def)
  qed
qed

subsection \<open>Properties\<close>

text \<open>
  C13. Excluding footnotes never panics on the ranges a parser gives, and keeps exactly
  the bytes that belong to no footnote reference and no definition block, in order; so
  the rest of the page, code included, is untouched. References inside a definition make
  ranges that overlap, and are covered too.
\<close>

theorem exclude_footnotes_exact:
  assumes "stream_ok content None (make_parser content)"
  shows "exclude_footnotes make_parser content =
    Some (map ((!) content)
      (filter (\<lambda>i. \<not> in_ranges (footnote_ranges None (make_parser content)) i) [0..<length content]))"
proof -
  let ?rs = "footnote_ranges None (make_parser content)"
  have "apply_deletions_from content 0 (sort_key fst ?rs) = Some (kept_from content 0 (sort_key fst ?rs))"
    using stream_ranges_ok [OF assms] by (intro apply_deletions_kept) (auto simp: is_char_boundary_def)
  moreover have "kept_from content 0 [] = content" by (simp add: kept_from_def map_nth)
  ultimately show ?thesis
    by (auto simp: exclude_footnotes_def apply_deletions_def kept_from_def Let_def)
qed

text \<open>A parser for one text: a reference and its definition.\<close>

definition sample_page :: string where
  "sample_page = ''a[^1] b'' @ [NL] @ ''[^1]: c''"

definition sample_parser :: md_parser where
  "sample_parser s =
     (if s = sample_page
      then [(Start Paragraph, (0, 8)), (TextEvent ''a'', (0, 1)), (FootnoteReference ''1'', (1, 5)),
            (TextEvent '' b'', (5, 7)), (End EndParagraph, (0, 8)),
            (Start (FootnoteDefinition ''1''), (8, 15)), (Start Paragraph, (14, 15)),
            (TextEvent ''c'', (14, 15)), (End EndParagraph, (14, 15)),
            (End EndFootnoteDefinition, (8, 15))]
      else [])"

theorem exclude_footnotes_exact_witness:
  "stream_ok sample_page None (sample_parser sample_page) \<and>
   exclude_footnotes sample_parser sample_page = Some (''a b'' @ [NL])"
proof -
  have ok: "stream_ok sample_page None (sample_parser sample_page)" by code_simp
  have "map ((!) sample_page) (filter (\<lambda>i. \<not> in_ranges (footnote_ranges None
      (sample_parser sample_page)) i) [0..<length sample_page]) = ''a b'' @ [NL]" by code_simp
  with exclude_footnotes_exact [of sample_page sample_parser, OF ok] ok show ?thesis by simp
qed

end
