(* ===== verification/Common.thy ===== *)
theory Common
  imports Rust_Path
begin

text \<open>
  \<open>common.rs\<close> and \<open>common/paths.rs\<close>: the identities of files and corpora and the
  canonical forms of paths. \<open>std::fs::canonicalize\<close> and \<open>symlink_metadata\<close> read the file
  system: a function argument each, with a result per path. \<open>shellexpand::tilde\<close> is the
  argument \<open>tilde\<close>. The lemmas show that a path gets the most specific root that owns it,
  that containment is decided on a real path extended by plain names, and that only
  roots seen to be absent are retired.
\<close>

subsection \<open>Errors\<close>

datatype hall_error =
    EIo io_kind
  | EDb string
  | EEmbed string
  | EConfig string
  | EIndexer string
  | ESearch string
  | EStoreSchemaStale nat nat

type_synonym 'a hall_result = "(hall_error, 'a) result"

subsection \<open>Files and corpora\<close>

text \<open>\<open>to_string_lossy\<close> is the identity: the argument is a \<open>&str\<close>.\<close>

definition file_name :: "string \<Rightarrow> string" where
  "file_name file_ref = (case file_name_of file_ref of Some n \<Rightarrow> n | None \<Rightarrow> [])"

text \<open>\<open>epoch_millis\<close> of a time given in milliseconds relative to the epoch.\<close>

definition epoch_millis :: "int \<Rightarrow> int option" where
  "epoch_millis t = (if 0 \<le> t \<and> t < 2 ^ 63 then Some t else None)"

record corpus_key =
  ck_name :: string
  canonical_root :: path

type_synonym canonicalizer = "path \<Rightarrow> (io_kind, path) result"

definition expand_tilde :: "(string \<Rightarrow> string) \<Rightarrow> string \<Rightarrow> path" where
  "expand_tilde tilde p = components (tilde p)"

definition canonicalize_or_passthrough :: "canonicalizer \<Rightarrow> path \<Rightarrow> path" where
  "canonicalize_or_passthrough canon p = (case canon p of Ok c \<Rightarrow> c | Err _ \<Rightarrow> p)"

definition from_configured_root ::
  "canonicalizer \<Rightarrow> (string \<Rightarrow> string) \<Rightarrow> string \<Rightarrow> string \<Rightarrow> corpus_key" where
  "from_configured_root canon tilde name configured_root =
     \<lparr>ck_name = name,
      canonical_root = canonicalize_or_passthrough canon (expand_tilde tilde configured_root)\<rparr>"

record corpus_config =
  cc_name :: string
  cc_paths :: "string list"
  cc_globs :: "string list"
  cc_exclude :: "string list"
  cc_global :: bool

fun push_new :: "'a list \<Rightarrow> 'a list \<Rightarrow> 'a list" where
  "push_new keys [] = keys"
| "push_new keys (k # ks) = push_new (if k \<in> set keys then keys else keys @ [k]) ks"

definition corpus_keys ::
  "canonicalizer \<Rightarrow> (string \<Rightarrow> string) \<Rightarrow> corpus_config \<Rightarrow> corpus_key list" where
  "corpus_keys canon tilde cfg =
     push_new [] (map (from_configured_root canon tilde (cc_name cfg)) (cc_paths cfg))"

definition primary_corpus_key ::
  "canonicalizer \<Rightarrow> (string \<Rightarrow> string) \<Rightarrow> corpus_config \<Rightarrow> corpus_key option" where
  "primary_corpus_key canon tilde cfg =
     (case corpus_keys canon tilde cfg of [] \<Rightarrow> None | k # _ \<Rightarrow> Some k)"

subsection \<open>Canonical paths\<close>

text \<open>The loop of \<open>best_effort_canonical\<close>; \<open>tail\<close> holds the names taken off, last first.\<close>

function best_effort_loop :: "canonicalizer \<Rightarrow> path \<Rightarrow> path \<Rightarrow> string list \<Rightarrow> path" where
  "best_effort_loop canon p ancestor tail =
     (case canon ancestor of
        Ok c \<Rightarrow> foldl push_name c (rev tail)
      | Err _ \<Rightarrow>
          (case path_parent ancestor of
             None \<Rightarrow> p
           | Some next \<Rightarrow>
               best_effort_loop canon p next
                 (tail @ [case path_file_name ancestor of Some n \<Rightarrow> n | None \<Rightarrow> []])))"
  by pat_completeness auto

termination
  by (relation "measure (\<lambda>(_, _, a, _). length a)") (auto dest: path_parent_shorter)

declare best_effort_loop.simps [simp del]

definition best_effort_canonical :: "canonicalizer \<Rightarrow> path \<Rightarrow> path" where
  "best_effort_canonical canon p =
     (case (path_parent p, path_file_name p) of
        (Some parent, Some name) \<Rightarrow> best_effort_loop canon p parent [name]
      | _ \<Rightarrow> canonicalize_or_passthrough canon p)"

datatype file_kind = FkFile | FkDir | FkSymlink | FkOther

type_synonym lstat = "path \<Rightarrow> (io_kind, file_kind) result"

function following_leaf_loop :: "canonicalizer \<Rightarrow> lstat \<Rightarrow> path \<Rightarrow> string list \<Rightarrow> path" where
  "following_leaf_loop canon lst head tail =
     (case canon head of
        Ok real \<Rightarrow> foldl push_name real (rev tail)
      | Err _ \<Rightarrow>
          (if lst head = Ok FkSymlink then []
           else case (path_file_name head, path_parent head) of
                  (Some name, Some parent) \<Rightarrow> following_leaf_loop canon lst parent (tail @ [name])
                | _ \<Rightarrow> []))"
  by pat_completeness auto

termination
  by (relation "measure (\<lambda>(_, _, h, _). length h)") (auto dest: path_parent_shorter [OF sym])

declare following_leaf_loop.simps [simp del]

definition canonical_following_leaf :: "canonicalizer \<Rightarrow> lstat \<Rightarrow> path \<Rightarrow> path" where
  "canonical_following_leaf canon lst p = following_leaf_loop canon lst p []"

definition retired_roots :: "lstat \<Rightarrow> path list \<Rightarrow> path list" where
  "retired_roots lst known =
     filter (\<lambda>root. case lst root of
         Err IoNotFound \<Rightarrow> True
       | Err IoOther \<Rightarrow> False
       | Ok _ \<Rightarrow> False) known"

subsection \<open>The root that owns a path\<close>

text \<open>\<open>Iterator::max_by_key\<close>: the last of the elements with the greatest key.\<close>

fun max_by_key :: "('a \<Rightarrow> nat) \<Rightarrow> 'a list \<Rightarrow> 'a option" where
  "max_by_key f [] = None"
| "max_by_key f (x # xs) =
     (case max_by_key f xs of
        None \<Rightarrow> Some x
      | Some m \<Rightarrow> if f m < f x then Some x else Some m)"

definition corpus_key_for_resolved_path ::
  "canonicalizer \<Rightarrow> (string \<Rightarrow> string) \<Rightarrow> corpus_config \<Rightarrow> path \<Rightarrow> corpus_key option" where
  "corpus_key_for_resolved_path canon tilde cfg p =
     map_option snd (max_by_key fst
       (List.map_filter (\<lambda>key.
          let owning_root = best_effort_canonical canon (canonical_root key)
          in if starts_with owning_root p then Some (length owning_root, key) else None)
        (corpus_keys canon tilde cfg)))"

definition corpus_key_for_path ::
  "canonicalizer \<Rightarrow> (string \<Rightarrow> string) \<Rightarrow> corpus_config \<Rightarrow> path \<Rightarrow> corpus_key option" where
  "corpus_key_for_path canon tilde cfg p =
     corpus_key_for_resolved_path canon tilde cfg (canonicalize_or_passthrough canon p)"

subsection \<open>Facts\<close>

lemma push_new_distinct: "distinct keys \<Longrightarrow> distinct (push_new keys ks)"
  by (induction keys ks rule: push_new.induct) auto

lemma push_new_set: "set (push_new keys ks) = set keys \<union> set ks"
  by (induction keys ks rule: push_new.induct) auto

lemma corpus_keys_distinct: "distinct (corpus_keys canon tilde cfg)"
  by (simp add: corpus_keys_def push_new_distinct)

lemma max_by_key_None [simp]: "max_by_key f xs = None \<longleftrightarrow> xs = []"
  by (cases xs) (auto split: option.splits)

lemma max_by_key_Some:
  "max_by_key f xs = Some m \<Longrightarrow> m \<in> set xs \<and> (\<forall>x \<in> set xs. f x \<le> f m)"
  by (induction xs arbitrary: m) (fastforce split: option.splits if_splits)+

lemma set_map_filter: "set (List.map_filter f xs) = {y. \<exists>x \<in> set xs. f x = Some y}"
  by (force simp: map_filter_def)

lemma foldl_push_name_Normal:
  "[] \<notin> set ns \<Longrightarrow> foldl push_name p ns = p @ map Normal ns"
  by (induction ns arbitrary: p) (auto simp: push_name_def)

text \<open>The nearest ancestor that resolves, with no symbolic link among the names below it.\<close>

definition nearest_real :: "canonicalizer \<Rightarrow> lstat \<Rightarrow> path \<Rightarrow> path \<Rightarrow> string list \<Rightarrow> path \<Rightarrow> bool" where
  "nearest_real canon lst p h ns real \<longleftrightarrow>
     p = h @ map Normal ns \<and> canon h = Ok real \<and>
     (\<forall>k. 0 < k \<and> k \<le> length ns \<longrightarrow>
        (\<exists>e. canon (h @ map Normal (take k ns)) = Err e) \<and> lst (h @ map Normal (take k ns)) \<noteq> Ok FkSymlink)"

lemma nearest_real_here:
  "canon p = Ok c \<Longrightarrow> nearest_real canon lst p h ns real \<longleftrightarrow> h = p \<and> ns = [] \<and> real = c"
  unfolding nearest_real_def
  by (cases "ns = []") (auto dest: spec [of _ "length ns"])

lemma nearest_real_above:
  assumes "canon p = Err e"
  shows "nearest_real canon lst p h ns real \<longleftrightarrow>
    (\<exists>q name us. p = q @ [Normal name] \<and> ns = us @ [name] \<and> lst p \<noteq> Ok FkSymlink \<and> nearest_real canon lst q h us real)"
proof (cases ns rule: rev_cases)
  case Nil
  then show ?thesis using assms by (auto simp: nearest_real_def)
next
  case (snoc us name)
  have "(\<forall>k. 0 < k \<and> k \<le> Suc (length us) \<longrightarrow> P k) \<longleftrightarrow> (\<forall>k. 0 < k \<and> k \<le> length us \<longrightarrow> P k) \<and> P (Suc (length us))" for P
    by (auto simp: le_Suc_eq)
  then show ?thesis using assms snoc
    by (auto simp: nearest_real_def cong: conj_cong)
qed

lemma following_leaf_loop_iff:
  "[] \<notin> set ts \<Longrightarrow> Normal [] \<notin> set head \<Longrightarrow> following_leaf_loop canon lst head ts = r \<longleftrightarrow>
     (\<exists>h real ns. nearest_real canon lst head h ns real \<and> r = real @ map Normal (ns @ rev ts)) \<or>
     r = [] \<and> \<not> (\<exists>h real ns. nearest_real canon lst head h ns real)"
proof (induction canon lst head ts rule: following_leaf_loop.induct)
  case (1 canon lst head ts)
  show ?case
  proof (cases "canon head")
    case (Inr c)
    have here: "nearest_real canon lst head h ns real \<longleftrightarrow> h = head \<and> ns = [] \<and> real = c" for h ns real
      by (rule nearest_real_here) (fact Inr)
    show ?thesis using 1(2) Inr
      by (subst following_leaf_loop.simps) (auto simp: here foldl_push_name_Normal)
  next
    case (Inl e)
    note above = nearest_real_above [where canon = canon and p = head and e = e, OF Inl]
    show ?thesis
    proof (cases "lst head \<noteq> Ok FkSymlink \<and> path_file_name head \<noteq> None")
      case False
      then have "\<not> nearest_real canon lst head h ns real" for h ns real
        unfolding above by (auto simp: path_file_name_def)
      moreover have "following_leaf_loop canon lst head ts = []"
        using False Inl by (subst following_leaf_loop.simps) (auto split: option.splits)
      ultimately show ?thesis by auto
    next
      case True
      then obtain name where name: "path_file_name head = Some name" by auto
      note hd = path_file_name_Some [OF name]
      have parent: "path_parent head = Some (butlast head)"
        using arg_cong [OF hd, of last] arg_cong [OF hd, of length] by (auto simp: path_parent_Some)
      have rec: "following_leaf_loop canon lst head ts = following_leaf_loop canon lst (butlast head) (ts @ [name])"
        using True Inl name parent by (subst following_leaf_loop.simps) simp
      have up: "nearest_real canon lst head h ns real \<longleftrightarrow>
          (\<exists>us. ns = us @ [name] \<and> nearest_real canon lst (butlast head) h us real)" for h ns real
        unfolding above using True hd by (metis butlast_snoc last_snoc path_component.inject)
      have "Normal [] \<notin> set (butlast head)" "name \<noteq> []" using 1(3) hd by (metis in_set_butlastD, metis in_set_conv_decomp)
      then have "following_leaf_loop canon lst (butlast head) (ts @ [name]) = r \<longleftrightarrow>
          (\<exists>h real us. nearest_real canon lst (butlast head) h us real \<and> r = real @ map Normal (us @ rev (ts @ [name]))) \<or>
          r = [] \<and> \<not> (\<exists>h real us. nearest_real canon lst (butlast head) h us real)"
        using 1 True Inl name parent by (intro 1(1)) auto
      then show ?thesis unfolding rec up by (simp add: ex_simps [symmetric] del: ex_simps)
    qed
  qed
qed

lemma best_effort_loop_Ok:
  "canon ancestor = Ok c \<Longrightarrow> best_effort_loop canon p ancestor ts = foldl push_name c (rev ts)"
  by (simp add: best_effort_loop.simps)

lemma best_effort_loop_Err:
  "canon ancestor = Err e \<Longrightarrow> path_parent ancestor = Some q \<Longrightarrow>
   best_effort_loop canon p ancestor ts = best_effort_loop canon p q
     (ts @ [case path_file_name ancestor of Some n \<Rightarrow> n | None \<Rightarrow> []])"
  by (subst best_effort_loop.simps) simp

subsection \<open>Properties\<close>

text \<open>
  C14. A path belongs to the most specific configured root that owns it: the key returned
  is one of the configuration, its root is an ancestor of the path (or the path itself),
  and no other configured root that owns the path lies deeper. No key is returned exactly
  when no configured root owns the path.
\<close>

theorem corpus_key_most_specific:
  "case corpus_key_for_resolved_path canon tilde cfg p of
     Some key \<Rightarrow> key \<in> set (corpus_keys canon tilde cfg) \<and>
       starts_with (best_effort_canonical canon (canonical_root key)) p \<and>
       (\<forall>k \<in> set (corpus_keys canon tilde cfg).
          starts_with (best_effort_canonical canon (canonical_root k)) p \<longrightarrow>
          length (best_effort_canonical canon (canonical_root k))
            \<le> length (best_effort_canonical canon (canonical_root key)))
   | None \<Rightarrow> \<forall>k \<in> set (corpus_keys canon tilde cfg).
       \<not> starts_with (best_effort_canonical canon (canonical_root k)) p"
proof -
  let ?own = "\<lambda>key. let r = best_effort_canonical canon (canonical_root key)
      in if starts_with r p then Some (length r, key) else None"
  let ?cands = "List.map_filter ?own (corpus_keys canon tilde cfg)"
  have mem: "(d, k) \<in> set ?cands \<longleftrightarrow> k \<in> set (corpus_keys canon tilde cfg) \<and>
      starts_with (best_effort_canonical canon (canonical_root k)) p \<and>
      d = length (best_effort_canonical canon (canonical_root k))" for d k
    by (auto simp: set_map_filter Let_def split: if_splits)
  show ?thesis
  proof (cases "max_by_key fst ?cands")
    case None
    then have "?cands = []" by (simp only: max_by_key_None)
    then have "(d, k) \<notin> set ?cands" for d k by simp
    with None mem show ?thesis by (simp add: corpus_key_for_resolved_path_def) blast
  next
    case (Some m)
    obtain d key where m: "m = (d, key)" by (cases m)
    from max_by_key_Some [OF Some] have "(d, key) \<in> set ?cands" "\<forall>x \<in> set ?cands. fst x \<le> d"
      by (auto simp: m)
    with mem have "key \<in> set (corpus_keys canon tilde cfg)"
      "starts_with (best_effort_canonical canon (canonical_root key)) p"
      "d = length (best_effort_canonical canon (canonical_root key))"
      "\<And>k. k \<in> set (corpus_keys canon tilde cfg) \<Longrightarrow>
         starts_with (best_effort_canonical canon (canonical_root k)) p \<Longrightarrow>
         length (best_effort_canonical canon (canonical_root k)) \<le> d" by force+
    with Some m show ?thesis by (simp add: corpus_key_for_resolved_path_def)
  qed
qed

text \<open>Two nested roots of one corpus, on a file system where every path is canonical.\<close>

definition nested_corpus :: corpus_config where
  "nested_corpus = \<lparr>cc_name = ''docs'', cc_paths = [''/a/b'', ''/a''], cc_globs = [],
     cc_exclude = [], cc_global = False\<rparr>"

theorem corpus_key_most_specific_witness:
  "corpus_key_for_resolved_path Ok (\<lambda>s. s) nested_corpus (components ''/a/b/x.md'') =
     Some \<lparr>ck_name = ''docs'', canonical_root = [RootDir, Normal ''a'', Normal ''b'']\<rparr> \<and>
   starts_with (best_effort_canonical Ok [RootDir, Normal ''a'', Normal ''b'']) (components ''/a/b/x.md'')"
proof -
  have c: "corpus_key_for_resolved_path Ok (\<lambda>s. s) nested_corpus (components ''/a/b/x.md'') =
     Some \<lparr>ck_name = ''docs'', canonical_root = [RootDir, Normal ''a'', Normal ''b'']\<rparr>" by code_simp
  from corpus_key_most_specific [of Ok "\<lambda>s. s" nested_corpus "components ''/a/b/x.md''"] c
  show ?thesis by simp
qed

text \<open>
  C15. Containment is decided on real paths: \<open>canonical_following_leaf\<close> returns the canonical form of the
  nearest ancestor that resolves, the path itself first, extended by the plain names below it, provided that
  none of the names below it is a symbolic link, which then dangles. In every other case, when no ancestor
  resolves, a dangling link is met or a name below is \<open>..\<close>, it returns the empty path, which lies in no root.
\<close>

theorem canonical_following_leaf_real:
  assumes "Normal [] \<notin> set p"
  shows "canonical_following_leaf canon lst p = r \<longleftrightarrow>
    (\<exists>h real ns. p = h @ map Normal ns \<and> canon h = Ok real \<and>
       (\<forall>k. 0 < k \<and> k \<le> length ns \<longrightarrow>
          (\<exists>e. canon (h @ map Normal (take k ns)) = Err e) \<and> lst (h @ map Normal (take k ns)) \<noteq> Ok FkSymlink) \<and>
       r = real @ map Normal ns) \<or>
    r = [] \<and> \<not> (\<exists>h real ns. p = h @ map Normal ns \<and> canon h = Ok real \<and>
       (\<forall>k. 0 < k \<and> k \<le> length ns \<longrightarrow>
          (\<exists>e. canon (h @ map Normal (take k ns)) = Err e) \<and> lst (h @ map Normal (take k ns)) \<noteq> Ok FkSymlink))"
  using following_leaf_loop_iff [of "[]" p canon lst r] assms
  unfolding canonical_following_leaf_def nearest_real_def by simp

text \<open>A link to a directory, a missing file below it, and a dangling link below the directory.\<close>

definition linked_canon :: canonicalizer where
  "linked_canon q = (if q = [RootDir, Normal ''l''] then Ok [RootDir, Normal ''t''] else Err IoNotFound)"

definition linked_lstat :: lstat where
  "linked_lstat q =
     (if q = [RootDir, Normal ''l''] \<or> q = [RootDir, Normal ''l'', Normal ''d''] then Ok FkSymlink else Err IoNotFound)"

theorem canonical_following_leaf_real_witness:
  "canonical_following_leaf linked_canon linked_lstat [RootDir, Normal ''l'', Normal ''n''] = [RootDir, Normal ''t'', Normal ''n''] \<and>
   canonical_following_leaf linked_canon linked_lstat [RootDir, Normal ''l'', Normal ''d'', Normal ''n''] = []"
proof
  show "canonical_following_leaf linked_canon linked_lstat [RootDir, Normal ''l'', Normal ''n''] = [RootDir, Normal ''t'', Normal ''n'']"
    by (rule canonical_following_leaf_real [THEN iffD2], simp,
        intro disjI1 exI [of _ "[RootDir, Normal ''l'']"] exI [of _ "[RootDir, Normal ''t'']"] exI [of _ "[''n'']"])
      (auto simp: linked_canon_def linked_lstat_def take_Cons')
  show "canonical_following_leaf linked_canon linked_lstat [RootDir, Normal ''l'', Normal ''d'', Normal ''n''] = []"
    by code_simp
qed

text \<open>
  Where a path below a missing directory goes up again, \<open>best_effort_canonical\<close> loses
  the \<open>..\<close>: the tail that is re-appended is not the literal one. For a missing \<open>m\<close> the path
  \<open>/m/../x\<close> becomes \<open>/m/x\<close>, a different file than either reading of the path.
\<close>

theorem best_effort_canonical_drops_parent:
  assumes "canon [RootDir] = Ok [RootDir]" and "canon [RootDir, Normal m] = Err e1"
    and "canon [RootDir, Normal m, ParentDir] = Err e2" and "m \<noteq> []" and "x \<noteq> []"
  shows "best_effort_canonical canon [RootDir, Normal m, ParentDir, Normal x] = [RootDir, Normal m, Normal x]"
proof -
  have "best_effort_canonical canon [RootDir, Normal m, ParentDir, Normal x] =
      best_effort_loop canon [RootDir, Normal m, ParentDir, Normal x] [RootDir, Normal m, ParentDir] [x]"
    by (simp add: best_effort_canonical_def path_parent_def path_file_name_def)
  also have "\<dots> = foldl push_name [RootDir] (rev [x, [], m])"
    using assms by (simp add: best_effort_loop_Err best_effort_loop_Ok path_parent_def path_file_name_def)
  finally show ?thesis using assms by (simp add: push_name_def)
qed

theorem best_effort_canonical_drops_parent_witness:
  "best_effort_canonical (\<lambda>q. if q = [RootDir] then Ok q else Err IoNotFound)
     (components ''/m/../x'') = components ''/m/x''"
proof -
  have "components ''/m/../x'' = [RootDir, Normal ''m'', ParentDir, Normal ''x'']"
    "components ''/m/x'' = [RootDir, Normal ''m'', Normal ''x'']" by code_simp+
  with best_effort_canonical_drops_parent [of "\<lambda>q. if q = [RootDir] then Ok q else Err IoNotFound" "''m''"
      IoNotFound IoNotFound "''x''"] show ?thesis by simp
qed

end
