(* ===== verification/Content_Key.thy ===== *)
theory Content_Key
  imports Common
begin

text \<open>
  \<open>indexer/chunk.rs\<close> and \<open>indexer/content_key.rs\<close>: the prepared file and the identity of
  its shared content rows. The hash (\<open>blake3\<close>, hex) is an argument; what it is fed is the
  model: a byte string. The lemmas show that the byte string determines every input of
  the derivation, by way of prefix codes: an encoder after which the rest of the input
  can still be told apart.
\<close>

subsection \<open>Prepared files\<close>

record chunk_structure =
  cs_title :: "string option"
  cs_headings :: "(u8 \<times> string) list"
  generated_navigation :: bool

record prepared_chunk =
  pc_ord :: nat
  heading_path :: "string list"
  line_start :: nat
  line_end :: nat
  pc_text :: string
  search_text :: string
  claim_marks :: "string option"
  pc_structure :: "chunk_structure option"
  overlap_bytes :: nat

record prepared_file =
  pf_file_ref :: string
  pf_corpus_key :: corpus_key
  pf_mtime_ms :: int
  content_hash :: string
  pf_summary :: string
  pf_keywords :: "string list"
  pf_frontmatter :: "string option"
  indexed_at_ms :: int
  pf_chunks :: "prepared_chunk list"

subsection \<open>The fingerprint\<close>

datatype quantization = Quantized | Full

datatype embeddings_mode = Enabled | Disabled

definition show_bool :: "bool \<Rightarrow> string" where
  "show_bool b = (if b then ''true'' else ''false'')"

definition derivation_fingerprint ::
  "string \<Rightarrow> quantization \<Rightarrow> embeddings_mode \<Rightarrow> u32 \<Rightarrow> string" where
  "derivation_fingerprint embedding_model q embeddings schema_version =
     ''model='' @ embedding_model
     @ '';quantized='' @ show_bool (case q of Quantized \<Rightarrow> True | Full \<Rightarrow> False)
     @ '';embeddings='' @ show_bool (case embeddings of Enabled \<Rightarrow> True | Disabled \<Rightarrow> False)
     @ '';schema='' @ show_nat (unat schema_version)"

subsection \<open>The preimage of the key\<close>

text \<open>\<open>(n as u64).to_le_bytes()\<close>.\<close>

definition le_bytes :: "nat \<Rightarrow> string" where
  "le_bytes n = map (\<lambda>i. char_of (unat (of_nat n :: u64) div 256 ^ i mod 256)) [0..<8]"

definition put_count :: "nat \<Rightarrow> string" where
  "put_count count = le_bytes count"

definition put :: "string \<Rightarrow> string" where
  "put bytes = le_bytes (length bytes) @ bytes"

definition put_optional :: "string option \<Rightarrow> string" where
  "put_optional v = (case v of Some t \<Rightarrow> [CHR 0x01] @ put t | None \<Rightarrow> [CHR 0x00])"

text \<open>A \<open>put_count\<close> of a length followed by the elements.\<close>

definition put_each :: "('a \<Rightarrow> string) \<Rightarrow> 'a list \<Rightarrow> string" where
  "put_each enc xs = put_count (length xs) @ concat (map enc xs)"

definition put_heading :: "u8 \<times> string \<Rightarrow> string" where
  "put_heading h = [char_of (unat (fst h))] @ put (snd h)"

definition put_structure :: "chunk_structure option \<Rightarrow> string" where
  "put_structure st =
     (case st of
        None \<Rightarrow> [CHR 0x00]
      | Some s \<Rightarrow> [CHR 0x01] @ put_optional (cs_title s) @ put_each put_heading (cs_headings s)
          @ [if generated_navigation s then CHR 0x01 else CHR 0x00])"

definition put_chunk :: "prepared_chunk \<Rightarrow> string" where
  "put_chunk c =
     put_count (pc_ord c) @ put_each put (heading_path c) @ put_count (line_start c)
     @ put_count (line_end c) @ put (pc_text c) @ put (search_text c)
     @ put_optional (claim_marks c) @ put_structure (pc_structure c) @ put_count (overlap_bytes c)"

definition key_preimage :: "prepared_file \<Rightarrow> string \<Rightarrow> string" where
  "key_preimage f fp =
     put (content_hash f) @ put (file_name (pf_file_ref f)) @ put fp @ put (pf_summary f)
     @ put_each put (pf_keywords f) @ put_optional (pf_frontmatter f)
     @ put_each put_chunk (pf_chunks f)"

definition derive :: "(string \<Rightarrow> string) \<Rightarrow> prepared_file \<Rightarrow> string \<Rightarrow> string" where
  "derive blake3_hex f fp = blake3_hex (key_preimage f fp)"

subsection \<open>Prefix codes\<close>

locale prefix_code =
  fixes enc :: "'a \<Rightarrow> string" and valid :: "'a \<Rightarrow> bool"
  assumes decode: "valid a \<Longrightarrow> valid b \<Longrightarrow> enc a @ r = enc b @ s \<Longrightarrow> a = b \<and> r = s"
begin

lemma inj_iff: "valid a \<Longrightarrow> valid b \<Longrightarrow> enc a @ r = enc b @ s \<longleftrightarrow> a = b \<and> r = s"
  by (metis decode)

lemma sequence_decode:
  assumes "length xs = length ys" "list_all valid xs" "list_all valid ys"
    "concat (map enc xs) @ r = concat (map enc ys) @ s"
  shows "xs = ys \<and> r = s"
  using assms
proof (induction xs ys rule: list_induct2)
  case (Cons x xs y ys)
  then have "x = y \<and> concat (map enc xs) @ r = concat (map enc ys) @ s"
    using decode [of x y] by simp
  with Cons show ?case by auto
qed simp

end

text \<open>A \<open>usize\<close> of a 64-bit machine.\<close>

definition fits :: "nat \<Rightarrow> bool" where
  "fits n \<longleftrightarrow> n < 2 ^ 64"

lemma le_bytes_inj:
  assumes "fits m" "fits n" "le_bytes m = le_bytes n"
  shows "m = n"
proof -
  have u: "unat (of_nat k :: u64) = k" if "fits k" for k
    using that by (simp add: fits_def unat_of_nat take_bit_nat_eq_self)
  have digit: "m div 256 ^ i mod 256 = n div 256 ^ i mod 256" if "i < 8" for i
  proof -
    have "le_bytes m ! i = le_bytes n ! i" using assms by simp
    then have "of_char (char_of (m div 256 ^ i mod 256) :: char) =
        (of_char (char_of (n div 256 ^ i mod 256) :: char) :: nat)"
      using that assms by (simp add: le_bytes_def u)
    then show ?thesis by simp
  qed
  have expand: "k mod 256 ^ j = (\<Sum>i<j. k div 256 ^ i mod 256 * 256 ^ i)" for k j :: nat
  proof (induction j)
    case (Suc j)
    have "k mod 256 ^ Suc j = 256 ^ j * (k div 256 ^ j mod 256) + k mod 256 ^ j"
      by (simp only: power_Suc2 mod_mult2_eq)
    with Suc show ?case by simp
  qed simp
  have "m mod 256 ^ 8 = n mod 256 ^ 8" unfolding expand using digit by simp
  then show ?thesis using assms(1,2) by (simp add: fits_def)
qed

lemma le_bytes_length [simp]: "length (le_bytes n) = 8"
  by (simp add: le_bytes_def)

interpretation count: prefix_code put_count fits
  by unfold_locales (auto simp: put_count_def intro: le_bytes_inj)

abbreviation str_ok :: "string \<Rightarrow> bool" where "str_ok s \<equiv> fits (length s)"

lemma put_decode: "str_ok a \<Longrightarrow> str_ok b \<Longrightarrow> put a @ r = put b @ s \<Longrightarrow> a = b \<and> r = s"
  using le_bytes_inj [of "length a" "length b"] by (auto simp: put_def)

interpretation str: prefix_code put str_ok
  by unfold_locales (rule put_decode)

abbreviation opt_ok :: "string option \<Rightarrow> bool" where
  "opt_ok v \<equiv> (case v of Some t \<Rightarrow> str_ok t | None \<Rightarrow> True)"

lemma put_optional_decode:
  "opt_ok a \<Longrightarrow> opt_ok b \<Longrightarrow> put_optional a @ r = put_optional b @ s \<Longrightarrow> a = b \<and> r = s"
  by (cases a; cases b) (simp_all add: put_optional_def str.inj_iff)

interpretation opt: prefix_code put_optional opt_ok
  by unfold_locales (rule put_optional_decode)

text \<open>A counted sequence of a prefix code is a prefix code.\<close>

abbreviation each_ok :: "('a \<Rightarrow> bool) \<Rightarrow> 'a list \<Rightarrow> bool" where
  "each_ok valid xs \<equiv> fits (length xs) \<and> list_all valid xs"

context prefix_code
begin

lemma counted: "prefix_code (put_each enc) (each_ok valid)"
proof
  fix xs ys r s
  assume ok: "each_ok valid xs" "each_ok valid ys" and eq: "put_each enc xs @ r = put_each enc ys @ s"
  from eq have "put_count (length xs) @ concat (map enc xs) @ r =
      put_count (length ys) @ concat (map enc ys) @ s" by (simp add: put_each_def)
  from count.decode [OF _ _ this] ok have "length xs = length ys"
    "concat (map enc xs) @ r = concat (map enc ys) @ s" by simp_all
  with ok sequence_decode show "xs = ys \<and> r = s" by blast
qed

end

interpretation strs: prefix_code "put_each put" "each_ok str_ok"
  by (rule str.counted)

interpretation heading: prefix_code put_heading "\<lambda>h. str_ok (snd h)"
proof
  fix a b :: "u8 \<times> string" and r s
  assume ok: "str_ok (snd a)" "str_ok (snd b)" and eq: "put_heading a @ r = put_heading b @ s"
  from eq have c: "char_of (unat (fst a)) = (char_of (unat (fst b)) :: char)"
    and p: "put (snd a) @ r = put (snd b) @ s" by (simp_all add: put_heading_def)
  have "unat (fst a) < 256" "unat (fst b) < 256" using unsigned_less [of "fst a"] unsigned_less [of "fst b"]
    by simp_all
  with c have "unat (fst a) = unat (fst b)"
    by (metis of_char_of mod_less)
  then have "fst a = fst b" by (simp add: word_unat_eq_iff)
  with put_decode [OF ok p] show "a = b \<and> r = s" by (simp add: prod_eq_iff)
qed

interpretation headings: prefix_code "put_each put_heading" "each_ok (\<lambda>h. str_ok (snd h))"
  by (rule heading.counted)

abbreviation structure_ok :: "chunk_structure option \<Rightarrow> bool" where
  "structure_ok v \<equiv> (case v of None \<Rightarrow> True
     | Some t \<Rightarrow> opt_ok (cs_title t) \<and> each_ok (\<lambda>h. str_ok (snd h)) (cs_headings t))"

interpretation struct: prefix_code put_structure structure_ok
proof
  fix a b r s
  assume ok: "structure_ok a" "structure_ok b" and eq: "put_structure a @ r = put_structure b @ s"
  show "a = b \<and> r = s"
  proof (cases a; cases b)
    fix x y assume [simp]: "a = Some x" "b = Some y"
    from ok have "opt_ok (cs_title x)" "opt_ok (cs_title y)"
      "each_ok (\<lambda>h. str_ok (snd h)) (cs_headings x)" "each_ok (\<lambda>h. str_ok (snd h)) (cs_headings y)"
      by simp_all
    with eq show ?thesis
      by (auto simp: put_structure_def opt.inj_iff headings.inj_iff split: if_splits)
  qed (use eq in \<open>auto simp: put_structure_def\<close>)
qed

abbreviation chunk_ok :: "prepared_chunk \<Rightarrow> bool" where
  "chunk_ok c \<equiv> fits (pc_ord c) \<and> each_ok str_ok (heading_path c) \<and> fits (line_start c) \<and>
     fits (line_end c) \<and> str_ok (pc_text c) \<and> str_ok (search_text c) \<and> opt_ok (claim_marks c) \<and>
     structure_ok (pc_structure c) \<and> fits (overlap_bytes c)"

interpretation chunk: prefix_code put_chunk chunk_ok
proof
  fix a b r s
  assume ok: "chunk_ok a" "chunk_ok b" and eq: "put_chunk a @ r = put_chunk b @ s"
  from ok eq show "a = b \<and> r = s"
    by (simp add: put_chunk_def count.inj_iff strs.inj_iff str.inj_iff opt.inj_iff struct.inj_iff)
qed

interpretation chunks: prefix_code "put_each put_chunk" "each_ok chunk_ok"
  by (rule chunk.counted)

subsection \<open>The fingerprint is unambiguous\<close>

text \<open>The digits at the end are the longest run of digits there.\<close>

lemma digit_suffix_unique:
  assumes "x @ ''='' @ d = y @ ''='' @ e" "\<forall>c \<in> set d. digit c" "\<forall>c \<in> set e. digit c"
  shows "x = y \<and> d = e"
proof -
  have run: "takeWhile digit (rev (z @ ''='' @ f)) = rev f" if "\<forall>c \<in> set f. digit c" for z f
  proof -
    have "takeWhile digit (rev f @ ''='' @ rev z) = rev f @ takeWhile digit (''='' @ rev z)"
      using that by (intro takeWhile_append2) auto
    also have "takeWhile digit (''='' @ rev z) = []" by (simp add: byte_def)
    finally show ?thesis by simp
  qed
  have "rev d = rev e" using run [OF assms(2), of x] run [OF assms(3), of y]
    unfolding assms(1) by (rule box_equals [OF refl])
  with assms show ?thesis by simp
qed

lemma show_bool_suffix:
  "x @ ''='' @ show_bool a = y @ ''='' @ show_bool b \<Longrightarrow> x = y \<and> a = b"
  by (cases a; cases b) (auto simp: show_bool_def append_eq_append_conv2 Cons_eq_append_conv append_eq_Cons_conv)

lemma derivation_fingerprint_inj:
  assumes "derivation_fingerprint m q e v = derivation_fingerprint m' q' e' v'"
  shows "m = m' \<and> q = q' \<and> e = e' \<and> v = v'"
proof -
  let ?q = "\<lambda>q. case q of Quantized \<Rightarrow> True | Full \<Rightarrow> False"
  let ?e = "\<lambda>e. case e of Enabled \<Rightarrow> True | Disabled \<Rightarrow> False"
  let ?a = "\<lambda>m q. ''model='' @ m @ '';quantized='' @ show_bool (?q q)"
  have "(?a m q @ '';embeddings='' @ show_bool (?e e) @ '';schema'') @ ''='' @ show_nat (unat v) =
      (?a m' q' @ '';embeddings='' @ show_bool (?e e') @ '';schema'') @ ''='' @ show_nat (unat v')"
    using assms by (simp add: derivation_fingerprint_def)
  from digit_suffix_unique [OF this show_nat_digits show_nat_digits]
  have "(?a m q @ '';embeddings'') @ ''='' @ show_bool (?e e) =
      (?a m' q' @ '';embeddings'') @ ''='' @ show_bool (?e e')"
    and "show_nat (unat v) = show_nat (unat v')" by simp_all
  then have v: "v = v'" and "?a m q = ?a m' q'" and e: "?e e = ?e e'"
    using show_bool_suffix [of "?a m q @ '';embeddings''" "?e e" "?a m' q' @ '';embeddings''" "?e e'"]
    by (auto dest: show_nat_inj simp: word_unat_eq_iff)
  then have "m = m'" "?q q = ?q q'"
    using show_bool_suffix [of "''model='' @ m @ '';quantized''" "?q q" "''model='' @ m' @ '';quantized''" "?q q'"]
    by simp_all
  with v e show ?thesis by (simp split: quantization.splits embeddings_mode.splits)
qed

subsection \<open>Properties\<close>

text \<open>
  What the content rows are derived from: everything of the file but its directory, its
  corpus, its times.
\<close>

definition derived_inputs ::
  "prepared_file \<Rightarrow> string \<times> string \<times> string \<times> string list \<times> string option \<times> prepared_chunk list" where
  "derived_inputs f = (content_hash f, file_name (pf_file_ref f), pf_summary f, pf_keywords f,
     pf_frontmatter f, pf_chunks f)"

definition file_fits :: "prepared_file \<Rightarrow> bool" where
  "file_fits f \<longleftrightarrow> str_ok (content_hash f) \<and> str_ok (file_name (pf_file_ref f)) \<and>
     str_ok (pf_summary f) \<and> each_ok str_ok (pf_keywords f) \<and> opt_ok (pf_frontmatter f) \<and>
     each_ok chunk_ok (pf_chunks f)"

lemma key_preimage_inj:
  assumes "file_fits f" "file_fits g" "str_ok fp" "str_ok fp'" "key_preimage f fp = key_preimage g fp'"
  shows "derived_inputs f = derived_inputs g \<and> fp = fp'"
proof -
  from assms(5) have "key_preimage f fp @ [] = key_preimage g fp' @ []" by simp
  with assms(1-4) show ?thesis
    by (simp only: key_preimage_def append_assoc file_fits_def str.inj_iff strs.inj_iff opt.inj_iff
        chunks.inj_iff derived_inputs_def prod.inject)
qed

text \<open>
  C17. Two files share content rows exactly when everything the rows are derived from is
  equal: content hash, file name, summary, keywords, frontmatter, every field of every
  chunk, and the embedding model, quantization, embeddings mode and schema version. The
  directory, the corpus and the times play no part. The hash is assumed not to collide on
  the two inputs; sizes are those of a 64-bit machine.
\<close>

theorem content_key_identity:
  assumes no_collision: "blake3_hex (key_preimage f (derivation_fingerprint m q e v)) =
      blake3_hex (key_preimage g (derivation_fingerprint m' q' e' v')) \<Longrightarrow>
      key_preimage f (derivation_fingerprint m q e v) = key_preimage g (derivation_fingerprint m' q' e' v')"
    and fits: "file_fits f" "file_fits g" "str_ok (derivation_fingerprint m q e v)"
      "str_ok (derivation_fingerprint m' q' e' v')"
  shows "derive blake3_hex f (derivation_fingerprint m q e v) =
      derive blake3_hex g (derivation_fingerprint m' q' e' v') \<longleftrightarrow>
    derived_inputs f = derived_inputs g \<and> (m, q, e, v) = (m', q', e', v')"
proof
  assume "derive blake3_hex f (derivation_fingerprint m q e v) =
      derive blake3_hex g (derivation_fingerprint m' q' e' v')"
  then have "key_preimage f (derivation_fingerprint m q e v) =
      key_preimage g (derivation_fingerprint m' q' e' v')"
    using no_collision by (simp add: derive_def)
  from key_preimage_inj [OF fits this]
  show "derived_inputs f = derived_inputs g \<and> (m, q, e, v) = (m', q', e', v')"
    using derivation_fingerprint_inj by blast
qed (auto simp: derive_def key_preimage_def derived_inputs_def)

definition sample_chunk :: prepared_chunk where
  "sample_chunk = \<lparr>pc_ord = 0, heading_path = [''A''], line_start = 1, line_end = 2, pc_text = ''b'',
     search_text = ''A b'', claim_marks = None,
     pc_structure = Some \<lparr>cs_title = Some ''A'', cs_headings = [(1, ''A'')], generated_navigation = False\<rparr>,
     overlap_bytes = 0\<rparr>"

definition sample_file :: "string \<Rightarrow> prepared_file" where
  "sample_file p = \<lparr>pf_file_ref = p, pf_corpus_key = \<lparr>ck_name = ''docs'', canonical_root = [RootDir]\<rparr>,
     pf_mtime_ms = 5, content_hash = ''abc'', pf_summary = ''s'', pf_keywords = [''k''],
     pf_frontmatter = None, indexed_at_ms = 6, pf_chunks = [sample_chunk]\<rparr>"

lemma sample_file_names: "file_name ''/x/a.md'' = ''a.md''" "file_name ''/y/z/a.md'' = ''a.md''"
    "file_name ''/x/b.md'' = ''b.md''"
  by code_simp+

theorem content_key_identity_witness:
  "derive (\<lambda>s. s) (sample_file ''/x/a.md'') (derivation_fingerprint ''m'' Full Enabled 7) =
     derive (\<lambda>s. s) (sample_file ''/y/z/a.md'') (derivation_fingerprint ''m'' Full Enabled 7) \<and>
   derive (\<lambda>s. s) (sample_file ''/x/a.md'') (derivation_fingerprint ''m'' Full Enabled 7) \<noteq>
     derive (\<lambda>s. s) (sample_file ''/x/b.md'') (derivation_fingerprint ''m'' Full Enabled 7)"
proof -
  let ?fp = "derivation_fingerprint ''m'' Full Enabled 7"
  have ff: "file_fits (sample_file p)" if "fits (length (file_name p))" for p
    using that by (simp add: file_fits_def sample_file_def sample_chunk_def) (simp add: fits_def)
  have a: "file_fits (sample_file ''/x/a.md'')" "file_fits (sample_file ''/y/z/a.md'')"
      "file_fits (sample_file ''/x/b.md'')"
    by (rule ff, simp add: sample_file_names, simp add: fits_def)+
  have fp: "str_ok ?fp"
    by (simp add: derivation_fingerprint_def show_bool_def show_nat.simps) (simp add: fits_def)
  show ?thesis
    using content_key_identity [of "\<lambda>s. s" "sample_file ''/x/a.md''" "''m''" Full Enabled 7
        "sample_file ''/y/z/a.md''" "''m''" Full Enabled 7, OF _ a(1) a(2) fp fp]
      content_key_identity [of "\<lambda>s. s" "sample_file ''/x/a.md''" "''m''" Full Enabled 7
        "sample_file ''/x/b.md''" "''m''" Full Enabled 7, OF _ a(1) a(3) fp fp]
    by (simp add: derived_inputs_def sample_file_def sample_file_names)
qed

end
