(* ===== verification/Effects.thy ===== *)
theory Effects
  imports Common
begin

text \<open>
  Stateful, fallible operations: a function from a state to the state after it and a
  result. An error keeps the state reached so far, as a Rust function that returns early
  with \<open>?\<close> does. \<open>hoare P m Q E\<close> says what holds after a return and after an error.
\<close>

type_synonym ('s, 'a) op = "'s \<Rightarrow> 's \<times> 'a hall_result"

definition ret :: "'a \<Rightarrow> ('s, 'a) op" where
  "ret a s = (s, Ok a)"

definition fail :: "hall_error \<Rightarrow> ('s, 'a) op" where
  "fail e s = (s, Err e)"

definition bind_op :: "('s, 'a) op \<Rightarrow> ('a \<Rightarrow> ('s, 'b) op) \<Rightarrow> ('s, 'b) op" where
  "bind_op m f s = (case m s of (s', Err e) \<Rightarrow> (s', Err e) | (s', Ok a) \<Rightarrow> f a s')"

text \<open>A pure fallible step.\<close>

definition of_result :: "'a hall_result \<Rightarrow> ('s, 'a) op" where
  "of_result r s = (s, r)"

text \<open>A \<open>match\<close> on the result, where the error does not leave the function.\<close>

definition try_op :: "('s, 'a) op \<Rightarrow> ('s, 'a hall_result) op" where
  "try_op m s = (case m s of (s', r) \<Rightarrow> (s', Ok r))"

fun for_each :: "('a \<Rightarrow> 'acc \<Rightarrow> ('s, 'acc) op) \<Rightarrow> 'a list \<Rightarrow> 'acc \<Rightarrow> ('s, 'acc) op" where
  "for_each body [] acc = ret acc"
| "for_each body (x # xs) acc = bind_op (body x acc) (for_each body xs)"

text \<open>\<open>slice.chunks(n)\<close>, for \<open>0 < n\<close>.\<close>

function chunks_of :: "nat \<Rightarrow> 'a list \<Rightarrow> 'a list list" where
  "chunks_of n xs = (if xs = [] \<or> n = 0 then [] else take n xs # chunks_of n (drop n xs))"
  by pat_completeness auto

termination
  by (relation "measure (\<lambda>(_, xs). length xs)") (auto simp: length_greater_0_conv)

declare chunks_of.simps [simp del]

lemma chunks_of_Nil [simp]: "chunks_of n [] = []"
  by (simp add: chunks_of.simps)

lemma concat_chunks_of: "0 < n \<Longrightarrow> concat (chunks_of n xs) = xs"
proof (induction n xs rule: chunks_of.induct)
  case (1 n xs)
  then show ?case by (subst chunks_of.simps) auto
qed

lemma chunks_of_subset: "g \<in> set (chunks_of n xs) \<Longrightarrow> set g \<subseteq> set xs \<and> g \<noteq> []"
proof (induction n xs rule: chunks_of.induct)
  case (1 n xs)
  from 1(2) have ne: "xs \<noteq> []" "n \<noteq> 0" and g: "g = take n xs \<or> g \<in> set (chunks_of n (drop n xs))"
    using chunks_of.simps [of n xs] by (auto split: if_splits)
  then show ?case using 1(1) set_take_subset [of n xs] set_drop_subset [of n xs] by fastforce
qed

subsection \<open>Triples\<close>

definition hoare ::
  "('s \<Rightarrow> bool) \<Rightarrow> ('s, 'a) op \<Rightarrow> ('a \<Rightarrow> 's \<Rightarrow> bool) \<Rightarrow> ('s \<Rightarrow> bool) \<Rightarrow> bool" where
  "hoare P m Q E \<longleftrightarrow>
     (\<forall>s. P s \<longrightarrow> (case m s of (s', Ok a) \<Rightarrow> Q a s' | (s', Err e) \<Rightarrow> E s'))"

lemma hoareI:
  assumes "\<And>s s' a. P s \<Longrightarrow> m s = (s', Ok a) \<Longrightarrow> Q a s'"
    and "\<And>s s' e. P s \<Longrightarrow> m s = (s', Err e) \<Longrightarrow> E s'"
  shows "hoare P m Q E"
  using assms by (auto simp: hoare_def split: prod.splits sum.splits)

lemma hoareD: "hoare P m Q E \<Longrightarrow> P s \<Longrightarrow> m s = (s', Ok a) \<Longrightarrow> Q a s'"
  by (auto simp: hoare_def dest: spec [of _ s])

lemma hoareE: "hoare P m Q E \<Longrightarrow> P s \<Longrightarrow> m s = (s', Err e) \<Longrightarrow> E s'"
  by (auto simp: hoare_def dest: spec [of _ s])

lemma hoare_bind:
  assumes "hoare P m R E" "\<And>a. hoare (R a) (f a) Q E"
  shows "hoare P (bind_op m f) Q E"
proof (rule hoareI)
  fix s s' a assume P: "P s" and run: "bind_op m f s = (s', Ok a)"
  then obtain s1 b where "m s = (s1, Ok b)" "f b s1 = (s', Ok a)"
    by (auto simp: bind_op_def split: prod.splits sum.splits)
  then show "Q a s'" using assms P by (metis hoareD)
next
  fix s s' e assume P: "P s" and run: "bind_op m f s = (s', Err e)"
  then consider "m s = (s', Err e)" | s1 b where "m s = (s1, Ok b)" "f b s1 = (s', Err e)"
    by (auto simp: bind_op_def split: prod.splits sum.splits)
  then show "E s'" using assms P by cases (metis hoareD hoareE)+
qed

lemma hoare_ret: "(\<And>s. P s \<Longrightarrow> Q a s) \<Longrightarrow> hoare P (ret a) Q E"
  by (auto simp: hoare_def ret_def)

lemma hoare_fail: "(\<And>s. P s \<Longrightarrow> E s) \<Longrightarrow> hoare P (fail e) Q E"
  by (auto simp: hoare_def fail_def)

lemma hoare_of_result:
  "(\<And>s a. P s \<Longrightarrow> r = Ok a \<Longrightarrow> Q a s) \<Longrightarrow> (\<And>s e. P s \<Longrightarrow> r = Err e \<Longrightarrow> E s) \<Longrightarrow>
   hoare P (of_result r) Q E"
  by (auto simp: hoare_def of_result_def split: sum.splits)

lemma hoare_try:
  "hoare P m (\<lambda>a. Q (Ok a)) (\<lambda>s. \<forall>e. Q (Err e) s) \<Longrightarrow> hoare P (try_op m) Q E"
  by (auto simp: hoare_def try_op_def split: prod.splits sum.splits) (metis surj_pair obj_sumE)+

lemma hoare_conseq:
  assumes "hoare P' m Q' E'" "\<And>s. P s \<Longrightarrow> P' s" "\<And>a s. Q' a s \<Longrightarrow> Q a s" "\<And>s. E' s \<Longrightarrow> E s"
  shows "hoare P m Q E"
  using assms by (intro hoareI) (blast dest: hoareD hoareE)+

lemma hoare_if:
  "(b \<Longrightarrow> hoare P m Q E) \<Longrightarrow> (\<not> b \<Longrightarrow> hoare P n Q E) \<Longrightarrow> hoare P (if b then m else n) Q E"
  by simp

text \<open>A loop: \<open>I done acc\<close> holds after the elements \<open>done\<close>.\<close>

lemma hoare_for_each:
  assumes "\<And>done x rest acc. xs = done @ x # rest \<Longrightarrow>
      hoare (I done acc) (body x acc) (I (done @ [x])) E"
  shows "hoare (I [] acc) (for_each body xs acc) (I xs) E"
proof -
  have "hoare (I d acc) (for_each body r acc) (I xs) E" if "xs = d @ r" for d r acc
    using that
  proof (induction r arbitrary: d acc)
    case Nil
    then show ?case by (auto intro: hoare_ret)
  next
    case (Cons x r)
    show ?case unfolding for_each.simps
      by (rule hoare_bind [where R = "I (d @ [x])"]) (use Cons assms in \<open>auto\<close>)
  qed
  from this [of "[]" xs acc] show ?thesis by simp
qed

text \<open>The same with an invariant that does not look at the elements.\<close>

lemma hoare_for_each_inv:
  assumes "\<And>x acc. x \<in> set xs \<Longrightarrow> hoare I (body x acc) (\<lambda>_. I) E"
  shows "hoare I (for_each body xs acc) (\<lambda>_. I) E"
  using assms by (intro hoare_for_each [where I = "\<lambda>_ _. I"]) auto

lemma bind_op_Ok_iff:
  "bind_op m f s = (s', Ok b) \<longleftrightarrow> (\<exists>s1 a. m s = (s1, Ok a) \<and> f a s1 = (s', Ok b))"
  by (auto simp: bind_op_def split: prod.splits sum.splits)

lemma bind_op_simps [simp]:
  "bind_op (ret a) f = f a"
  "bind_op (of_result (Ok a)) f = f a"
  "bind_op (of_result (Err e)) f = fail e"
  "bind_op (fail e) f = fail e"
  by (simp_all add: fun_eq_iff bind_op_def ret_def of_result_def fail_def)

lemma of_result_simps [simp]: "of_result (Ok a) = ret a" "of_result (Err e) = fail e"
  by (simp_all add: fun_eq_iff of_result_def ret_def fail_def)

end
