(* ===== verification/Index_Plan.thy ===== *)
theory Index_Plan
  imports Effects "HOL-Library.Multiset"
begin

text \<open>
  \<open>indexer/plan.rs\<close>: the difference between the files on disk and the files indexed. A
  \<open>FileRef\<close> is its path string; the walker gives canonical paths, so equal paths are equal
  strings. A hash map is an association list with distinct keys in its iteration order;
  the order of the map of disk files is the argument \<open>hash_order\<close>, a permutation.
  \<open>blake3_file\<close> reads the disk: the argument \<open>hash_file\<close>. The lemmas show which of the
  files lands in which part of the plan, and that no file lands in two.
\<close>

subsection \<open>Data\<close>

record scanned_file =
  sf_corpus_key :: corpus_key
  sf_file :: string
  sf_mtime :: int

record file_snapshot =
  fs_file_ref :: string
  fs_corpus_key :: corpus_key
  fs_mtime_ms :: int
  fs_content_hash :: string

record upsert =
  up_file :: string
  up_mtime :: int
  up_corpus_key :: "corpus_key option"

record mtime_candidate =
  mc_file :: string
  mc_snap :: file_snapshot
  mc_new_mtime :: int
  mc_known_hash :: "string option"

record index_plan =
  upserts :: "upsert list"
  mtime_touches :: "mtime_candidate list"
  deletes :: "file_snapshot list"

type_synonym plan_input = "string \<times> int \<times> corpus_key option"

definition scanned_plan_parts :: "scanned_file \<Rightarrow> plan_input" where
  "scanned_plan_parts sf = (sf_file sf, sf_mtime sf, Some (sf_corpus_key sf))"

definition pair_plan_parts :: "string \<times> int \<Rightarrow> plan_input" where
  "pair_plan_parts p = (fst p, snd p, None)"

definition empty_plan :: index_plan where
  "empty_plan = \<lparr>upserts = [], mtime_touches = [], deletes = []\<rparr>"

type_synonym disk_map = "(string \<times> int \<times> corpus_key option) list"
type_synonym db_map = "(string \<times> file_snapshot) list"

subsection \<open>The plan\<close>

text \<open>\<open>HashMap::insert\<close> on an association list.\<close>

fun hm_insert :: "'k \<Rightarrow> 'v \<Rightarrow> ('k \<times> 'v) list \<Rightarrow> ('k \<times> 'v) list" where
  "hm_insert k v [] = [(k, v)]"
| "hm_insert k v ((k', v') # m) = (if k = k' then (k, v) # m else (k', v') # hm_insert k v m)"

definition disk_by_file :: "plan_input list \<Rightarrow> disk_map" where
  "disk_by_file disk = foldl (\<lambda>m (f, v). hm_insert f v m) [] disk"

definition plan_step ::
  "(string \<Rightarrow> string hall_result) \<Rightarrow> db_map \<Rightarrow> index_plan \<Rightarrow> plan_input \<Rightarrow> index_plan" where
  "plan_step hash_file db out entry =
     (case entry of (f, mtime, ck) \<Rightarrow>
       (case map_of db f of
          None \<Rightarrow> out\<lparr>upserts := upserts out @ [\<lparr>up_file = f, up_mtime = mtime, up_corpus_key = ck\<rparr>]\<rparr>
        | Some snap \<Rightarrow>
            (if fs_mtime_ms snap = mtime
             then (case hash_file f of
                     Ok h \<Rightarrow>
                       (if h = fs_content_hash snap then out
                        else out\<lparr>mtime_touches := mtime_touches out
                               @ [\<lparr>mc_file = f, mc_snap = snap, mc_new_mtime = mtime,
                                   mc_known_hash = Some h\<rparr>]\<rparr>)
                   | Err _ \<Rightarrow> out)
             else out\<lparr>mtime_touches := mtime_touches out
                    @ [\<lparr>mc_file = f, mc_snap = snap, mc_new_mtime = mtime,
                        mc_known_hash = None\<rparr>]\<rparr>)))"

text \<open>
  Each key of the disk map is removed from \<open>db\<close> once, so a lookup in the whole \<open>db\<close> finds
  what \<open>remove\<close> returns, and the entries left are those of no file on disk.
\<close>

definition plan ::
  "(disk_map \<Rightarrow> disk_map) \<Rightarrow> (string \<Rightarrow> string hall_result) \<Rightarrow> plan_input list \<Rightarrow> db_map
   \<Rightarrow> index_plan" where
  "plan hash_order hash_file disk db =
     (let files = hash_order (disk_by_file disk);
          out = foldl (plan_step hash_file db) empty_plan files;
          leftover = map snd (filter (\<lambda>e. fst e \<notin> fst ` set files) db)
      in out\<lparr>deletes := sort_key fs_file_ref leftover\<rparr>)"

subsection \<open>Facts\<close>

definition permutes_maps :: "(disk_map \<Rightarrow> disk_map) \<Rightarrow> bool" where
  "permutes_maps hash_order \<longleftrightarrow> (\<forall>m. mset (hash_order m) = mset m)"

lemma hm_insert_keys: "fst ` set (hm_insert k v m) = insert k (fst ` set m)"
  by (induction k v m rule: hm_insert.induct) auto

lemma hm_insert_distinct: "distinct (map fst m) \<Longrightarrow> distinct (map fst (hm_insert k v m))"
proof (induction k v m rule: hm_insert.induct)
  case (2 k v k' v' m)
  then show ?case using hm_insert_keys [of k v m] by auto
qed simp

lemma map_of_hm_insert: "map_of (hm_insert k v m) = (map_of m)(k \<mapsto> v)"
  by (induction k v m rule: hm_insert.induct) (auto simp: fun_eq_iff)

lemma disk_by_file_distinct: "distinct (map fst (disk_by_file disk))"
proof -
  have "distinct (map fst m) \<Longrightarrow> distinct (map fst (foldl (\<lambda>m (f, v). hm_insert f v m) m disk))" for m
    by (induction disk arbitrary: m) (auto simp: hm_insert_distinct split: prod.splits)
  then show ?thesis by (simp add: disk_by_file_def)
qed

lemma map_of_disk_by_file: "map_of (disk_by_file disk) = map_of (rev disk)"
proof -
  have "map_of (foldl (\<lambda>m (f, v). hm_insert f v m) m disk) = map_of m ++ map_of (rev disk)" for m
    by (induction disk arbitrary: m) (auto simp: map_of_hm_insert split: prod.splits)
  then show ?thesis by (simp add: disk_by_file_def)
qed

lemma disk_by_file_keys: "fst ` set (disk_by_file disk) = fst ` set disk"
  using map_of_disk_by_file [of disk] by (metis dom_map_of_conv_image_fst set_rev)

lemma disk_by_file_id: "distinct (map fst disk) \<Longrightarrow> disk_by_file disk = disk"
proof -
  have "distinct (map fst (m @ disk)) \<Longrightarrow> foldl (\<lambda>m (f, v). hm_insert f v m) m disk = m @ disk" for m
  proof (induction disk arbitrary: m)
    case (Cons e disk)
    obtain f v where e: "e = (f, v)" by (cases e)
    have "hm_insert f v m = m @ [(f, v)]" if "f \<notin> fst ` set m" for m :: disk_map
      using that by (induction m) auto
    with Cons e show ?case by simp
  qed simp
  then show "distinct (map fst disk) \<Longrightarrow> disk_by_file disk = disk" by (simp add: disk_by_file_def)
qed

text \<open>Where one disk file goes.\<close>

definition as_upsert :: "db_map \<Rightarrow> plan_input \<Rightarrow> upsert option" where
  "as_upsert db e =
     (case e of (f, mtime, ck) \<Rightarrow>
       if map_of db f = None then Some \<lparr>up_file = f, up_mtime = mtime, up_corpus_key = ck\<rparr> else None)"

definition as_touch :: "(string \<Rightarrow> string hall_result) \<Rightarrow> db_map \<Rightarrow> plan_input \<Rightarrow> mtime_candidate option" where
  "as_touch hash_file db e =
     (case e of (f, mtime, ck) \<Rightarrow>
       (case map_of db f of
          None \<Rightarrow> None
        | Some snap \<Rightarrow>
            (if fs_mtime_ms snap = mtime
             then (case hash_file f of
                     Ok h \<Rightarrow>
                       (if h = fs_content_hash snap then None
                        else Some \<lparr>mc_file = f, mc_snap = snap, mc_new_mtime = mtime,
                                   mc_known_hash = Some h\<rparr>)
                   | Err _ \<Rightarrow> None)
             else Some \<lparr>mc_file = f, mc_snap = snap, mc_new_mtime = mtime, mc_known_hash = None\<rparr>)))"

lemma foldl_plan_step:
  "upserts (foldl (plan_step hash_file db) out es) = upserts out @ List.map_filter (as_upsert db) es \<and>
   mtime_touches (foldl (plan_step hash_file db) out es) =
     mtime_touches out @ List.map_filter (as_touch hash_file db) es"
  by (induction es arbitrary: out)
     (auto simp: plan_step_def as_upsert_def as_touch_def map_filter_simps
       split: option.splits sum.splits prod.splits)

lemma plan_upserts:
  "upserts (plan hash_order hash_file disk db) =
     List.map_filter (as_upsert db) (hash_order (disk_by_file disk))"
  by (simp add: plan_def Let_def foldl_plan_step empty_plan_def)

lemma plan_touches:
  "mtime_touches (plan hash_order hash_file disk db) =
     List.map_filter (as_touch hash_file db) (hash_order (disk_by_file disk))"
  by (simp add: plan_def Let_def foldl_plan_step empty_plan_def)

lemma plan_deletes:
  "permutes_maps hash_order \<Longrightarrow>
   set (deletes (plan hash_order hash_file disk db)) = {s. \<exists>f. (f, s) \<in> set db \<and> f \<notin> fst ` set disk}"
proof -
  assume "permutes_maps hash_order"
  then have "set (hash_order (disk_by_file disk)) = set (disk_by_file disk)"
    unfolding permutes_maps_def by (metis mset_eq_setD)
  then have "fst ` set (hash_order (disk_by_file disk)) = fst ` set disk"
    by (metis disk_by_file_keys)
  then have "set (deletes (plan hash_order hash_file disk db)) = snd ` {e \<in> set db. fst e \<notin> fst ` set disk}"
    by (simp add: plan_def Let_def)
  then show ?thesis by (simp add: set_eq_iff image_iff Bex_def)
qed

lemma image_map_filter:
  "(\<And>e x. f e = Some x \<Longrightarrow> g x = h e) \<Longrightarrow>
   g ` set (List.map_filter f es) = h ` {e \<in> set es. f e \<noteq> None}"
  by (induction es) (auto simp: map_filter_simps split: option.splits)

lemma as_upsert_Some:
  "as_upsert db e = Some u \<Longrightarrow> up_file u = fst e"
  "as_upsert db e \<noteq> None \<longleftrightarrow> fst e \<notin> fst ` set db"
  by (auto simp: as_upsert_def map_of_eq_None_iff split: prod.splits if_splits)

lemma as_touch_Some: "as_touch hash_file db e = Some t \<Longrightarrow> mc_file t = fst e"
  by (auto simp: as_touch_def split: prod.splits if_splits option.splits sum.splits)

lemma plan_order_set:
  "permutes_maps hash_order \<Longrightarrow> set (hash_order m) = set m"
  unfolding permutes_maps_def by (metis mset_eq_setD)

lemma plan_partition:
  assumes order: "permutes_maps hash_order" and db: "distinct (map fst db)"
    and keyed: "\<forall>(f, s) \<in> set db. fs_file_ref s = f"
  shows "up_file ` set (upserts (plan hash_order hash_file disk db)) = fst ` set disk - fst ` set db \<and>
    fs_file_ref ` set (deletes (plan hash_order hash_file disk db)) = fst ` set db - fst ` set disk \<and>
    mc_file ` set (mtime_touches (plan hash_order hash_file disk db)) =
      {f. \<exists>s m ck. map_of db f = Some s \<and> map_of (rev disk) f = Some (m, ck) \<and>
         (fs_mtime_ms s \<noteq> m \<or> (\<exists>h. hash_file f = Ok h \<and> h \<noteq> fs_content_hash s))} \<and>
    distinct (map up_file (upserts (plan hash_order hash_file disk db))) \<and>
    distinct (map mc_file (mtime_touches (plan hash_order hash_file disk db))) \<and>
    distinct (map fs_file_ref (deletes (plan hash_order hash_file disk db)))"
proof -
  let ?files = "hash_order (disk_by_file disk)"
  have fs: "set ?files = set (disk_by_file disk)" by (rule plan_order_set [OF order])
  have dist: "distinct (map fst ?files)"
  proof -
    have "mset (map fst ?files) = mset (map fst (disk_by_file disk))"
      using order by (simp add: permutes_maps_def)
    then show ?thesis using disk_by_file_distinct mset_eq_imp_distinct_iff by blast
  qed
  have sub: "distinct (map g (List.map_filter f es))"
    if "distinct (map fst es)" "\<And>e x. f e = Some x \<Longrightarrow> g x = fst e" for f :: "plan_input \<Rightarrow> 'x option" and g es
    using that(1)
  proof (induction es)
    case (Cons e es)
    have "g ` set (List.map_filter f es) \<subseteq> fst ` set es"
      using image_map_filter [of f g fst es, OF that(2)] by auto
    with Cons that(2) [of e] show ?case by (auto simp: map_filter_simps split: option.splits)
  qed (simp add: map_filter_simps)
  have "up_file ` set (upserts (plan hash_order hash_file disk db)) = fst ` set disk - fst ` set db"
  proof -
    have "up_file ` set (upserts (plan hash_order hash_file disk db)) =
        fst ` {e \<in> set (disk_by_file disk). fst e \<notin> fst ` set db}"
      unfolding plan_upserts
      by (subst image_map_filter [where h = fst]) (rule as_upsert_Some(1), simp, simp only: as_upsert_Some(2) fs)
    also have "\<dots> = fst ` set (disk_by_file disk) - fst ` set db" by (rule image_filter_diff)
    finally show ?thesis by (simp add: disk_by_file_keys)
  qed
  moreover have "fs_file_ref ` set (deletes (plan hash_order hash_file disk db)) = fst ` set db - fst ` set disk"
  proof -
    have "fs_file_ref ` {s. \<exists>f. (f, s) \<in> set db \<and> f \<notin> fst ` set disk} = fst ` {e \<in> set db. fst e \<notin> fst ` set disk}"
      using keyed by (auto simp: image_iff) fastforce+
    also have "\<dots> = fst ` set db - fst ` set disk" by (rule image_filter_diff)
    finally show ?thesis by (simp add: plan_deletes [OF order])
  qed
  moreover have "mc_file ` set (mtime_touches (plan hash_order hash_file disk db)) =
      {f. \<exists>s m ck. map_of db f = Some s \<and> map_of (rev disk) f = Some (m, ck) \<and>
         (fs_mtime_ms s \<noteq> m \<or> (\<exists>h. hash_file f = Ok h \<and> h \<noteq> fs_content_hash s))}" (is "?A = ?B")
  proof -
    have mem: "(f, m, ck) \<in> set ?files \<longleftrightarrow> map_of (rev disk) f = Some (m, ck)" for f m ck
      by (metis fs disk_by_file_distinct map_of_disk_by_file map_of_eq_Some_iff)
    have "?A = fst ` {e \<in> set ?files. as_touch hash_file db e \<noteq> None}"
      unfolding plan_touches by (rule image_map_filter) (rule as_touch_Some)
    then have "f \<in> ?A \<longleftrightarrow> (\<exists>m ck. (f, m, ck) \<in> set ?files \<and> as_touch hash_file db (f, m, ck) \<noteq> None)" for f
      by (auto simp: image_iff Bex_def)
    moreover have "as_touch hash_file db (f, m, ck) \<noteq> None \<longleftrightarrow> (\<exists>s. map_of db f = Some s \<and>
        (fs_mtime_ms s \<noteq> m \<or> (\<exists>h. hash_file f = Ok h \<and> h \<noteq> fs_content_hash s)))" for f m ck
      by (cases "map_of db f"; cases "hash_file f") (simp_all add: as_touch_def)
    ultimately have "f \<in> ?A \<longleftrightarrow> f \<in> ?B" for f unfolding mem by (simp only: mem_Collect_eq) blast
    then show ?thesis by blast
  qed
  moreover have "distinct (map up_file (upserts (plan hash_order hash_file disk db)))"
    unfolding plan_upserts by (rule sub [OF dist]) (rule as_upsert_Some)
  moreover have "distinct (map mc_file (mtime_touches (plan hash_order hash_file disk db)))"
    unfolding plan_touches
    by (rule sub [OF dist]) (rule as_touch_Some)
  moreover have "distinct (map fs_file_ref (deletes (plan hash_order hash_file disk db)))"
  proof -
    have "map fs_file_ref (map snd (filter P db)) = map fst (filter P db)" for P
      using keyed by (induction db) auto
    then have "distinct (map fs_file_ref (map snd (filter P db)))" for P
      using distinct_map_filter [OF db] by metis
    moreover have "mset (map fs_file_ref (sort_key fs_file_ref ys)) = mset (map fs_file_ref ys)" for ys
      by simp
    ultimately have "distinct (map fs_file_ref (sort_key fs_file_ref (map snd (filter P db))))" for P
      by (metis mset_eq_imp_distinct_iff)
    moreover obtain P where "deletes (plan hash_order hash_file disk db) =
        sort_key fs_file_ref (map snd (filter P db))" by (simp add: plan_def Let_def)
    ultimately show ?thesis by metis
  qed
  ultimately show ?thesis by blast
qed

subsection \<open>Properties\<close>

text \<open>
  C18. The plan sorts every file exactly once: a file is planned for a write iff it is on
  disk and not indexed, for a delete iff it is indexed and not on disk, and as a candidate
  iff it is both and its mtime moved or its content hash can be read and differs. A file on
  disk that cannot be read keeps its entry. The three parts name each file at most once.
\<close>

theorem plan_partitions_files:
  assumes order: "permutes_maps hash_order" and db: "distinct (map fst db)"
    and keyed: "\<forall>(f, s) \<in> set db. fs_file_ref s = f"
  shows "up_file ` set (upserts (plan hash_order hash_file disk db)) = fst ` set disk - fst ` set db \<and>
    fs_file_ref ` set (deletes (plan hash_order hash_file disk db)) = fst ` set db - fst ` set disk \<and>
    mc_file ` set (mtime_touches (plan hash_order hash_file disk db)) =
      {f. \<exists>s m ck. map_of db f = Some s \<and> map_of (rev disk) f = Some (m, ck) \<and>
         (fs_mtime_ms s \<noteq> m \<or> (\<exists>h. hash_file f = Ok h \<and> h \<noteq> fs_content_hash s))} \<and>
    distinct (map up_file (upserts (plan hash_order hash_file disk db))) \<and>
    distinct (map mc_file (mtime_touches (plan hash_order hash_file disk db))) \<and>
    distinct (map fs_file_ref (deletes (plan hash_order hash_file disk db)))"
  by (rule plan_partition [OF assms])

text \<open>A disk with a new file and a changed one, an index that also holds a vanished file.\<close>

definition sample_key :: corpus_key where
  "sample_key = \<lparr>ck_name = ''docs'', canonical_root = [RootDir, Normal ''d'']\<rparr>"

definition sample_snapshot :: "string \<Rightarrow> file_snapshot" where
  "sample_snapshot f = \<lparr>fs_file_ref = f, fs_corpus_key = sample_key, fs_mtime_ms = 1, fs_content_hash = ''h''\<rparr>"

theorem plan_partitions_files_witness:
  "up_file ` set (upserts (plan (\<lambda>m. m) (\<lambda>f. Ok ''h2'')
       [(''a'', 1, Some sample_key), (''b'', 1, Some sample_key)]
       [(''b'', sample_snapshot ''b''), (''c'', sample_snapshot ''c'')])) = {''a''} \<and>
   fs_file_ref ` set (deletes (plan (\<lambda>m. m) (\<lambda>f. Ok ''h2'')
       [(''a'', 1, Some sample_key), (''b'', 1, Some sample_key)]
       [(''b'', sample_snapshot ''b''), (''c'', sample_snapshot ''c'')])) = {''c''}"
proof -
  let ?db = "[(''b'', sample_snapshot ''b''), (''c'', sample_snapshot ''c'')]"
  have "permutes_maps (\<lambda>m. m)" by (simp add: permutes_maps_def)
  moreover have "distinct (map fst ?db)" by simp
  moreover have "\<forall>(f, s) \<in> set ?db. fs_file_ref s = f" by (simp add: sample_snapshot_def)
  ultimately show ?thesis
    using plan_partitions_files [of "\<lambda>m. m" ?db "\<lambda>f. Ok ''h2''"
        "[(''a'', 1, Some sample_key), (''b'', 1, Some sample_key)]"] by auto
qed

end
