(* ===== verification/Writer.thy ===== *)
theory Writer
  imports Content_Key Index_Plan
begin

text \<open>
  \<open>indexer/writer.rs\<close> and the format detection of \<open>indexer/format.rs\<close>: how one file on disk
  becomes a prepared file or a skip. The format handlers are trait objects: the argument
  \<open>handler\<close>, whose outcome may be a panic. \<open>fs::read\<close>, the hash, the magic-byte sniff
  (\<open>file-format\<close>) and the rendering of foreign errors are fields of the environment. A
  path is printed as its bytes.
\<close>

subsection \<open>Formats\<close>

datatype format = Markdown | PlainText | Rst | Spreadsheet | Pdf | Json | Jsonl

definition format_from_extension :: "string \<Rightarrow> format option option" where
  "format_from_extension path =
     (case Option.bind (extension_of path) to_str of
        None \<Rightarrow> None
      | Some ext0 \<Rightarrow>
          (let ext = to_ascii_lowercase ext0
           in Some (if ext \<in> set [''md'', ''markdown''] then Some Markdown
                    else if ext \<in> set [''txt'', ''text'', ''adoc'', ''asciidoc'', ''org'']
                    then Some PlainText
                    else if ext = ''rst'' then Some Rst
                    else if ext \<in> set [''csv'', ''xlsx'', ''xls'', ''ods''] then Some Spreadsheet
                    else if ext = ''pdf'' then Some Pdf
                    else if ext = ''json'' then Some Json
                    else if ext = ''jsonl'' then Some Jsonl
                    else None)))"

datatype sniffed =
    OfficeOpenXmlSpreadsheet
  | MicrosoftExcelSpreadsheet
  | OpendocumentSpreadsheet
  | SniffedPlainText
  | PortableDocumentFormat
  | SniffedOther

definition detect_by_magic :: "(string \<Rightarrow> sniffed) \<Rightarrow> string \<Rightarrow> format option" where
  "detect_by_magic sniff bytes =
     (case sniff bytes of
        OfficeOpenXmlSpreadsheet \<Rightarrow> Some Spreadsheet
      | MicrosoftExcelSpreadsheet \<Rightarrow> Some Spreadsheet
      | OpendocumentSpreadsheet \<Rightarrow> Some Spreadsheet
      | SniffedPlainText \<Rightarrow> Some PlainText
      | PortableDocumentFormat \<Rightarrow> Some Pdf
      | SniffedOther \<Rightarrow> None)"

definition detect_format :: "(string \<Rightarrow> sniffed) \<Rightarrow> string \<Rightarrow> string \<Rightarrow> format option" where
  "detect_format sniff path bytes =
     (case format_from_extension path of
        Some ext_format \<Rightarrow> ext_format
      | None \<Rightarrow> detect_by_magic sniff bytes)"

subsection \<open>Handlers\<close>

record prepare_ctx =
  pctx_corpus_key :: corpus_key
  pctx_file :: string
  pctx_mtime :: int
  pctx_bytes :: string
  pctx_content_hash :: string
  pctx_indexed_at_ms :: int

datatype panic_payload = PanicStr string | PanicString string | PanicOther

datatype handler_outcome =
    HandlerOk prepared_file
  | HandlerErr hall_error
  | HandlerPanic panic_payload

type_synonym handler_registry = "format \<Rightarrow> prepare_ctx \<Rightarrow> handler_outcome"

record disk_env =
  read_file :: "string \<Rightarrow> (io_kind, string) result"
  blake3_hex :: "string \<Rightarrow> string"
  sniff_bytes :: "string \<Rightarrow> sniffed"
  error_text :: "hall_error \<Rightarrow> string"
  registry :: handler_registry

definition blake3_file :: "disk_env \<Rightarrow> string \<Rightarrow> string hall_result" where
  "blake3_file env path =
     (case read_file env path of Ok b \<Rightarrow> Ok (blake3_hex env b) | Err k \<Rightarrow> Err (EIo k))"

subsection \<open>Preparing a file\<close>

record write_request =
  wr_corpus_key :: corpus_key
  wr_file :: string
  wr_mtime :: int

datatype skip_reason = UnsupportedFormat | ExtractionFailed string

datatype prepared = PreparedFile prepared_file | Skipped skip_reason

definition file_ref_string :: "string \<Rightarrow> string hall_result" where
  "file_ref_string f =
     (case to_str f of
        Some s \<Rightarrow> Ok s
      | None \<Rightarrow> Err (EIndexer (''non-utf8 path cannot be stored: '' @ f)))"

definition panic_message :: "panic_payload \<Rightarrow> string" where
  "panic_message payload =
     (case payload of
        PanicStr m \<Rightarrow> m
      | PanicString m \<Rightarrow> m
      | PanicOther \<Rightarrow> ''unknown panic payload'')"

definition extract_err :: "string \<Rightarrow> string \<Rightarrow> hall_error" where
  "extract_err path msg = EIndexer (''extract '' @ path @ '': '' @ msg)"

definition extraction_cause :: "disk_env \<Rightarrow> string \<Rightarrow> hall_error \<Rightarrow> string" where
  "extraction_cause env path e =
     (case e of
        EIndexer message \<Rightarrow>
          (let cause = (case strip_prefix_str (''extract '' @ path @ '': '') message of
                          Some c \<Rightarrow> c | None \<Rightarrow> message)
           in replace_str ('' '' @ path @ '':'') '':'' cause)
      | _ \<Rightarrow> error_text env e)"

text \<open>\<open>catch_unwind\<close> turns a panic of the handler into an extraction error.\<close>

definition run_handler :: "disk_env \<Rightarrow> format \<Rightarrow> prepare_ctx \<Rightarrow> prepared_file hall_result" where
  "run_handler env fmt ctx =
     (case registry env fmt ctx of
        HandlerOk pf \<Rightarrow> Ok pf
      | HandlerErr e \<Rightarrow> Err e
      | HandlerPanic payload \<Rightarrow>
          Err (extract_err (pctx_file ctx) (''extraction panicked: '' @ panic_message payload)))"

definition prepare_file ::
  "disk_env \<Rightarrow> write_request \<Rightarrow> int \<Rightarrow> string option \<Rightarrow> prepared hall_result" where
  "prepare_file env req at bytes_override =
     (let path = wr_file req
      in if format_from_extension path = Some None then Ok (Skipped UnsupportedFormat)
         else case (case bytes_override of Some b \<Rightarrow> Ok b | None \<Rightarrow> read_file env path) of
                Err k \<Rightarrow> Err (EIo k)
              | Ok bytes \<Rightarrow>
                  (let content_hash = blake3_hex env bytes
                   in case detect_format (sniff_bytes env) path bytes of
                        None \<Rightarrow> Ok (Skipped UnsupportedFormat)
                      | Some fmt \<Rightarrow>
                          (let ctx = \<lparr>pctx_corpus_key = wr_corpus_key req, pctx_file = path,
                                      pctx_mtime = wr_mtime req, pctx_bytes = bytes,
                                      pctx_content_hash = content_hash, pctx_indexed_at_ms = at\<rparr>
                           in case run_handler env fmt ctx of
                                Ok pf \<Rightarrow> Ok (PreparedFile pf)
                              | Err e \<Rightarrow>
                                  Ok (Skipped (ExtractionFailed (extraction_cause env path e))))))"

subsection \<open>What a handler promises\<close>

text \<open>A prepared file carries the identity it was asked for.\<close>

definition handlers_ok :: "handler_registry \<Rightarrow> bool" where
  "handlers_ok reg \<longleftrightarrow> (\<forall>fmt ctx pf. reg fmt ctx = HandlerOk pf \<longrightarrow>
     pf_file_ref pf = pctx_file ctx \<and> pf_corpus_key pf = pctx_corpus_key ctx \<and>
     pf_mtime_ms pf = pctx_mtime ctx \<and> content_hash pf = pctx_content_hash ctx)"

lemma prepare_file_from_handler:
  assumes "prepare_file env req at ov = Ok (PreparedFile pf)"
  obtains fmt ctx where "registry env fmt ctx = HandlerOk pf"
  using assms
  by (auto simp: prepare_file_def run_handler_def Let_def
      split: if_splits sum.splits option.splits handler_outcome.splits)

lemma prepare_file_identity:
  assumes "handlers_ok (registry env)" "prepare_file env req at ov = Ok (PreparedFile pf)"
  shows "pf_file_ref pf = wr_file req \<and> pf_corpus_key pf = wr_corpus_key req \<and>
    pf_mtime_ms pf = wr_mtime req \<and>
    (\<exists>b. (case ov of Some b \<Rightarrow> Ok b | None \<Rightarrow> read_file env (wr_file req)) = Ok b \<and>
       content_hash pf = blake3_hex env b)"
proof -
  obtain b fmt where b: "(case ov of Some b \<Rightarrow> Ok b | None \<Rightarrow> read_file env (wr_file req)) = Ok b"
    and h: "registry env fmt \<lparr>pctx_corpus_key = wr_corpus_key req, pctx_file = wr_file req,
        pctx_mtime = wr_mtime req, pctx_bytes = b, pctx_content_hash = blake3_hex env b,
        pctx_indexed_at_ms = at\<rparr> = HandlerOk pf"
    using assms(2)
    by (auto simp: prepare_file_def run_handler_def Let_def
        split: if_splits sum.splits option.splits handler_outcome.splits)
  from assms(1) h have "pf_file_ref pf = wr_file req \<and> pf_corpus_key pf = wr_corpus_key req \<and>
      pf_mtime_ms pf = wr_mtime req \<and> content_hash pf = blake3_hex env b"
    unfolding handlers_ok_def by (metis prepare_ctx.select_convs)
  with b show ?thesis by blast
qed

subsection \<open>Properties\<close>

text \<open>
  One bad file never aborts a run: preparing a file fails only when the file has to
  be read and the read fails. An unsupported type, a handler error and a handler panic
  are skips. A known unsupported extension is skipped without reading the file.
\<close>

theorem prepare_file_error_iff_read_error:
  "prepare_file env req at ov = Err e \<longleftrightarrow>
     format_from_extension (wr_file req) \<noteq> Some None \<and> ov = None \<and>
     (\<exists>k. read_file env (wr_file req) = Err k \<and> e = EIo k)"
  by (cases "read_file env (wr_file req)"; cases ov)
     (auto simp: prepare_file_def Let_def split: option.splits sum.splits)

end
