(* ===== verification/Chunk_Store.thy ===== *)
theory Chunk_Store
  imports Writer
begin

text \<open>
  \<open>indexer/store.rs\<close>: the port the indexer writes through. The operations are the fields of
  a record, each an operation on the state \<open>'w\<close> of the store; \<open>'b\<close> is the opaque prepared
  batch. What the port promises is the locale \<open>chunk_store_laws\<close>: the effect of each
  operation on the set of indexed files, on success and on failure. An indexed file is its
  identity, corpus name, root and path, with its recorded mtime and content hash.
\<close>

subsection \<open>The port\<close>

record batch_write_stats =
  chunks_written :: nat
  embeddings_written :: nat

record ('w, 'b) chunk_store =
  list_files :: "corpus_key \<Rightarrow> ('w, file_snapshot list) op"
  touch_mtime :: "corpus_key \<Rightarrow> string \<Rightarrow> int \<Rightarrow> ('w, unit) op"
  delete_file :: "corpus_key \<Rightarrow> string \<Rightarrow> ('w, unit) op"
  prepare_batch :: "prepared_file list \<Rightarrow> ('w, 'b option) op"
  commit_batch :: "prepared_file list \<Rightarrow> 'b option \<Rightarrow> ('w, batch_write_stats) op"

type_synonym file_id = "string \<times> string \<times> string"

definition file_id_of :: "corpus_key \<Rightarrow> string \<Rightarrow> file_id" where
  "file_id_of k f = (ck_name k, path_string (canonical_root k), f)"

type_synonym indexed = "(file_id \<times> int \<times> string) set"

subsection \<open>Changes of the indexed files\<close>

text \<open>A change puts a file with its mtime and hash, or removes it.\<close>

type_synonym change = "file_id \<times> (int \<times> string) option"

definition effect :: "('i \<times> 'v option) set \<Rightarrow> ('i \<times> 'v) set \<Rightarrow> ('i \<times> 'v) set" where
  "effect cs S = {x \<in> S. fst x \<notin> fst ` cs} \<union> {(i, v) | i v. (i, Some v) \<in> cs}"

definition touched :: "'i \<Rightarrow> 'm \<Rightarrow> ('i \<times> 'm \<times> 'h) set \<Rightarrow> ('i \<times> 'm \<times> 'h) set" where
  "touched i m S = (\<lambda>(j, m', h). (j, if j = i then m else m', h)) ` S"

definition put_change :: "prepared_file \<Rightarrow> change" where
  "put_change pf = (file_id_of (pf_corpus_key pf) (pf_file_ref pf), Some (pf_mtime_ms pf, content_hash pf))"

lemma effect_mem: "(i, v) \<in> effect cs S \<longleftrightarrow> (i, v) \<in> S \<and> i \<notin> fst ` cs \<or> (i, Some v) \<in> cs"
  by (auto simp: effect_def)

lemma effect_eqI:
  "(\<And>i v. (i, v) \<in> T \<longleftrightarrow> (i, v) \<in> S \<and> i \<notin> fst ` cs \<or> (i, Some v) \<in> cs) \<Longrightarrow> T = effect cs S"
  by (auto simp: effect_mem)

lemma effect_empty [simp]: "effect {} S = S"
  by (simp add: effect_def)

lemma effect_effect:
  assumes "fst ` cs \<inter> fst ` ds = {}"
  shows "effect ds (effect cs S) = effect (cs \<union> ds) S"
proof (rule effect_eqI)
  fix i v
  have "(i, Some v) \<in> cs \<Longrightarrow> i \<notin> fst ` ds" using assms by force
  then show "(i, v) \<in> effect ds (effect cs S) \<longleftrightarrow>
      (i, v) \<in> S \<and> i \<notin> fst ` (cs \<union> ds) \<or> (i, Some v) \<in> cs \<union> ds"
    by (simp add: effect_mem image_Un) blast
qed

lemma some_changes:
  "X = T \<Longrightarrow> \<exists>cs \<subseteq> C. X = effect cs T"
  "X = effect C T \<Longrightarrow> \<exists>cs \<subseteq> C. X = effect cs T"
  by (auto intro: exI [of _ "{}"])

definition single_valued_ids :: "('i \<times> 'v) set \<Rightarrow> bool" where
  "single_valued_ids S \<longleftrightarrow> (\<forall>i v w. (i, v) \<in> S \<longrightarrow> (i, w) \<in> S \<longrightarrow> v = w)"

lemma touched_mem:
  "(j, m', h) \<in> touched i m S \<longleftrightarrow> (if j = i then m' = m \<and> (\<exists>m0. (i, m0, h) \<in> S) else (j, m', h) \<in> S)"
  by (force simp: touched_def image_iff)

lemma touched_effect:
  assumes "single_valued_ids S" "(i, m0, h) \<in> S"
  shows "touched i m S = effect {(i, Some (m, h))} S"
proof (rule effect_eqI)
  fix j v
  have "(i, m1, h') \<in> S \<Longrightarrow> h' = h" for m1 h'
    using assms unfolding single_valued_ids_def by blast
  then have "(\<exists>m1. (i, m1, h') \<in> S) \<longleftrightarrow> h' = h" for h'
    using assms(2) by blast
  then show "(j, v) \<in> touched i m S \<longleftrightarrow>
      (j, v) \<in> S \<and> j \<notin> fst ` {(i, Some (m, h))} \<or> (j, Some v) \<in> {(i, Some (m, h))}"
    by (cases v) (simp add: touched_mem)
qed

subsection \<open>What the port promises\<close>

text \<open>
  \<open>indexed_files\<close> reads the indexed files off a state, \<open>inv\<close> is the store's own invariant and
  \<open>file_ok\<close> what it needs of a file of a batch. A failed commit may have written the batch (the
  indexes are refreshed after the rows).
\<close>

locale chunk_store_laws =
  fixes store :: "('w, 'b) chunk_store"
    and inv :: "'w \<Rightarrow> bool"
    and indexed_files :: "'w \<Rightarrow> indexed"
    and file_ok :: "prepared_file \<Rightarrow> bool"
  assumes single: "inv w \<Longrightarrow> single_valued_ids (indexed_files w)"
    and list_law: "hoare (\<lambda>w. inv w \<and> indexed_files w = S) (list_files store k)
      (\<lambda>ss w. inv w \<and> indexed_files w = S \<and> distinct (map fs_file_ref ss) \<and>
         (\<forall>s \<in> set ss. fs_corpus_key s = k) \<and>
         (\<forall>f m h. (file_id_of k f, m, h) \<in> S \<longleftrightarrow>
            (\<exists>s \<in> set ss. fs_file_ref s = f \<and> fs_mtime_ms s = m \<and> fs_content_hash s = h)))
      (\<lambda>w. inv w \<and> indexed_files w = S)"
    and touch_law: "hoare (\<lambda>w. inv w \<and> indexed_files w = S) (touch_mtime store k f m)
      (\<lambda>_ w. inv w \<and> indexed_files w = touched (file_id_of k f) m S)
      (\<lambda>w. inv w \<and> indexed_files w = S)"
    and delete_law: "hoare (\<lambda>w. inv w \<and> indexed_files w = S) (delete_file store k f)
      (\<lambda>_ w. inv w \<and> indexed_files w = effect {(file_id_of k f, None)} S)
      (\<lambda>w. inv w \<and> indexed_files w = S)"
    and prepare_law: "hoare (\<lambda>w. inv w \<and> indexed_files w = S) (prepare_batch store fs)
      (\<lambda>_ w. inv w \<and> indexed_files w = S) (\<lambda>w. inv w \<and> indexed_files w = S)"
    and commit_law: "list_all file_ok fs \<Longrightarrow> distinct (map (fst \<circ> put_change) fs) \<Longrightarrow>
      hoare (\<lambda>w. inv w \<and> indexed_files w = S) (commit_batch store fs b)
        (\<lambda>_ w. inv w \<and> indexed_files w = effect (put_change ` set fs) S)
        (\<lambda>w. inv w \<and> (indexed_files w = S \<or> indexed_files w = effect (put_change ` set fs) S))"
begin

text \<open>
  \<open>performs A m C R\<close>: from indexed files \<open>T\<close> with \<open>A T\<close>, a successful run of \<open>m\<close> has made
  exactly the changes \<open>C\<close> and returns a value with \<open>R\<close>; a failed run has made some of them
  and nothing else. The invariant holds either way.
\<close>

definition performs :: "(indexed \<Rightarrow> bool) \<Rightarrow> ('w, 'a) op \<Rightarrow> change set \<Rightarrow> ('a \<Rightarrow> bool) \<Rightarrow> bool" where
  "performs A m C R \<longleftrightarrow> (\<forall>T. A T \<longrightarrow>
     hoare (\<lambda>w. inv w \<and> indexed_files w = T) m
       (\<lambda>a w. R a \<and> inv w \<and> indexed_files w = effect C T)
       (\<lambda>w. inv w \<and> (\<exists>cs \<subseteq> C. indexed_files w = effect cs T)))"

lemma performs_ret: "R a \<Longrightarrow> performs A (ret a) {} R"
  by (auto simp: performs_def intro: hoare_ret)

lemma performs_fail: "performs A (fail e) C R"
  unfolding performs_def by (intro allI impI hoare_fail) (simp add: some_changes(1))

lemma performs_of_result:
  "(\<And>a. r = Ok a \<Longrightarrow> R a) \<Longrightarrow> performs A (of_result r) {} R"
  by (auto simp: performs_def intro!: hoare_of_result)

lemma performs_bind:
  assumes m: "performs A m C R" and f: "\<And>a. R a \<Longrightarrow> performs B (f a) D Q"
    and dis: "fst ` C \<inter> fst ` D = {}" and AB: "\<And>T. A T \<Longrightarrow> B (effect C T)"
  shows "performs A (bind_op m f) (C \<union> D) Q"
  unfolding performs_def
proof (intro allI impI)
  fix T assume T: "A T"
  have part: "\<exists>cs' \<subseteq> C \<union> D. X = effect cs' T" if "cs \<subseteq> D" "X = effect cs (effect C T)" for cs X
    using that dis by (intro exI [of _ "C \<union> cs"]) (subst effect_effect [symmetric], blast+)
  show "hoare (\<lambda>w. inv w \<and> indexed_files w = T) (bind_op m f)
      (\<lambda>a w. Q a \<and> inv w \<and> indexed_files w = effect (C \<union> D) T)
      (\<lambda>w. inv w \<and> (\<exists>cs \<subseteq> C \<union> D. indexed_files w = effect cs T))"
  proof (rule hoare_bind)
    show "hoare (\<lambda>w. inv w \<and> indexed_files w = T) m
        (\<lambda>a w. R a \<and> inv w \<and> indexed_files w = effect C T)
        (\<lambda>w. inv w \<and> (\<exists>cs \<subseteq> C \<union> D. indexed_files w = effect cs T))"
    proof -
      from m T have "hoare (\<lambda>w. inv w \<and> indexed_files w = T) m
          (\<lambda>a w. R a \<and> inv w \<and> indexed_files w = effect C T)
          (\<lambda>w. inv w \<and> (\<exists>cs \<subseteq> C. indexed_files w = effect cs T))" by (simp add: performs_def)
      then show ?thesis by (rule hoare_conseq) blast+
    qed
    show "hoare (\<lambda>w. R a \<and> inv w \<and> indexed_files w = effect C T) (f a)
        (\<lambda>a w. Q a \<and> inv w \<and> indexed_files w = effect (C \<union> D) T)
        (\<lambda>w. inv w \<and> (\<exists>cs \<subseteq> C \<union> D. indexed_files w = effect cs T))" for a
    proof (cases "R a")
      case True
      from f [OF True] AB [OF T] have
        "hoare (\<lambda>w. inv w \<and> indexed_files w = effect C T) (f a)
          (\<lambda>a w. Q a \<and> inv w \<and> indexed_files w = effect D (effect C T))
          (\<lambda>w. inv w \<and> (\<exists>cs \<subseteq> D. indexed_files w = effect cs (effect C T)))"
        by (simp add: performs_def)
      then show ?thesis by (rule hoare_conseq) (use part effect_effect [OF dis] in \<open>auto\<close>)
    qed (simp add: hoare_def)
  qed
qed

lemma performs_conseq:
  "performs A m C R \<Longrightarrow> (\<And>T. A' T \<Longrightarrow> A T) \<Longrightarrow> (\<And>a. R a \<Longrightarrow> R' a) \<Longrightarrow> performs A' m C R'"
  unfolding performs_def
proof (intro allI impI)
  fix T assume ih: "\<forall>T. A T \<longrightarrow> hoare (\<lambda>w. inv w \<and> indexed_files w = T) m
      (\<lambda>a w. R a \<and> inv w \<and> indexed_files w = effect C T)
      (\<lambda>w. inv w \<and> (\<exists>cs \<subseteq> C. indexed_files w = effect cs T))"
    and A: "\<And>T. A' T \<Longrightarrow> A T" and R: "\<And>a. R a \<Longrightarrow> R' a" and T: "A' T"
  from ih A [OF T] have "hoare (\<lambda>w. inv w \<and> indexed_files w = T) m
      (\<lambda>a w. R a \<and> inv w \<and> indexed_files w = effect C T)
      (\<lambda>w. inv w \<and> (\<exists>cs \<subseteq> C. indexed_files w = effect cs T))" by blast
  then show "hoare (\<lambda>w. inv w \<and> indexed_files w = T) m
      (\<lambda>a w. R' a \<and> inv w \<and> indexed_files w = effect C T)
      (\<lambda>w. inv w \<and> (\<exists>cs \<subseteq> C. indexed_files w = effect cs T))"
    by (rule hoare_conseq) (use R in auto)
qed

lemma performs_if:
  "(b \<Longrightarrow> performs A m C R) \<Longrightarrow> (\<not> b \<Longrightarrow> performs A n C R) \<Longrightarrow> performs A (if b then m else n) C R"
  by simp

text \<open>A loop whose steps change different files. \<open>N xs\<close> is what the remaining steps need.\<close>

lemma performs_for_each:
  assumes step: "\<And>done x rest acc. xs = done @ x # rest \<Longrightarrow> R done acc \<Longrightarrow>
      performs (A x) (body x acc) (C x) (R (done @ [x]))"
    and stable: "\<And>x y T. x \<in> set xs \<Longrightarrow> y \<in> set xs \<Longrightarrow> fst ` C x \<inter> fst ` C y = {} \<Longrightarrow>
      A y T \<Longrightarrow> A y (effect (C x) T)"
    and dis: "\<And>a x b. xs = a @ x # b \<Longrightarrow> fst ` C x \<inter> fst ` (\<Union>(C ` set b)) = {}"
    and init: "R [] acc"
  shows "performs (\<lambda>T. \<forall>x \<in> set xs. A x T) (for_each body xs acc) (\<Union>(C ` set xs)) (R xs)"
proof -
  have "performs (\<lambda>T. \<forall>x \<in> set r. A x T) (for_each body r acc) (\<Union>(C ` set r)) (R xs)"
    if "xs = d @ r" "R d acc" for d r acc
    using that
  proof (induction r arbitrary: d acc)
    case Nil
    then show ?case by (simp add: performs_ret)
  next
    case (Cons x r)
    have d: "fst ` C x \<inter> fst ` (\<Union>(C ` set r)) = {}" using dis [OF Cons.prems(1)] .
    have "performs (\<lambda>T. \<forall>y \<in> set (x # r). A y T) (bind_op (body x acc) (for_each body r))
        (C x \<union> \<Union>(C ` set r)) (R xs)"
    proof (rule performs_bind [where R = "R (d @ [x])" and B = "\<lambda>T. \<forall>y \<in> set r. A y T"])
      show "performs (\<lambda>T. \<forall>y \<in> set (x # r). A y T) (body x acc) (C x) (R (d @ [x]))"
        by (rule performs_conseq [OF step [OF Cons.prems]]) simp_all
      show "performs (\<lambda>T. \<forall>y \<in> set r. A y T) (for_each body r a) (\<Union>(C ` set r)) (R xs)"
        if "R (d @ [x]) a" for a
        using Cons.IH [of "d @ [x]" a] Cons.prems that by simp
      show "\<forall>y \<in> set r. A y (effect (C x) T)" if "\<forall>y \<in> set (x # r). A y T" for T
      proof
        fix y assume y: "y \<in> set r"
        then have "fst ` C x \<inter> fst ` C y = {}" using d by blast
        then show "A y (effect (C x) T)" using that y stable [of x y T] Cons.prems(1) by simp
      qed
    qed (rule d)
    then show ?case by simp
  qed
  from this [of "[]" xs acc] init show ?thesis by simp
qed

lemma performs_delete: "performs A (delete_file store k f) {(file_id_of k f, None)} (\<lambda>_. True)"
  unfolding performs_def
proof (intro allI impI)
  fix T show "hoare (\<lambda>w. inv w \<and> indexed_files w = T) (delete_file store k f)
      (\<lambda>a w. True \<and> inv w \<and> indexed_files w = effect {(file_id_of k f, None)} T)
      (\<lambda>w. inv w \<and> (\<exists>cs \<subseteq> {(file_id_of k f, None)}. indexed_files w = effect cs T))"
    by (rule hoare_conseq [OF delete_law [of T]]) (iprover intro: some_changes(1))+
qed

lemma performs_touch:
  "performs (\<lambda>T. single_valued_ids T \<longrightarrow> (\<exists>m0. (file_id_of k f, m0, h) \<in> T)) (touch_mtime store k f m)
     {(file_id_of k f, Some (m, h))} (\<lambda>_. True)"
  unfolding performs_def
proof (intro allI impI)
  fix T :: indexed assume A: "single_valued_ids T \<longrightarrow> (\<exists>m0. (file_id_of k f, m0, h) \<in> T)"
  have sv: "single_valued_ids T" if "inv w" "indexed_files w = T" for w
    using single that by blast
  have eq: "touched (file_id_of k f) m T = effect {(file_id_of k f, Some (m, h))} T" if "single_valued_ids T"
  proof -
    from A that obtain m0 where "(file_id_of k f, m0, h) \<in> T" by iprover
    with that show ?thesis by (rule touched_effect)
  qed
  show "hoare (\<lambda>w. inv w \<and> indexed_files w = T) (touch_mtime store k f m)
      (\<lambda>a w. True \<and> inv w \<and> indexed_files w = effect {(file_id_of k f, Some (m, h))} T)
      (\<lambda>w. inv w \<and> (\<exists>cs \<subseteq> {(file_id_of k f, Some (m, h))}. indexed_files w = effect cs T))"
  proof (cases "single_valued_ids T")
    case True
    show ?thesis
      by (rule hoare_conseq [OF touch_law [of T]]) (iprover intro: some_changes(1) eq [OF True] trans)+
  next
    case False
    then show ?thesis using sv by (auto simp: hoare_def)
  qed
qed

lemma performs_prepare: "performs A (prepare_batch store fs) {} (\<lambda>_. True)"
  unfolding performs_def
proof (intro allI impI)
  fix T show "hoare (\<lambda>w. inv w \<and> indexed_files w = T) (prepare_batch store fs)
      (\<lambda>a w. True \<and> inv w \<and> indexed_files w = effect {} T)
      (\<lambda>w. inv w \<and> (\<exists>cs \<subseteq> {}. indexed_files w = effect cs T))"
    by (rule hoare_conseq [OF prepare_law [of T]]) auto
qed

lemma performs_commit:
  "list_all file_ok fs \<Longrightarrow> distinct (map (fst \<circ> put_change) fs) \<Longrightarrow>
   performs A (commit_batch store fs b) (put_change ` set fs) (\<lambda>_. True)"
  unfolding performs_def
proof (intro allI impI)
  fix T assume fs: "list_all file_ok fs" "distinct (map (fst \<circ> put_change) fs)"
  show "hoare (\<lambda>w. inv w \<and> indexed_files w = T) (commit_batch store fs b)
      (\<lambda>a w. True \<and> inv w \<and> indexed_files w = effect (put_change ` set fs) T)
      (\<lambda>w. inv w \<and> (\<exists>cs \<subseteq> put_change ` set fs. indexed_files w = effect cs T))"
    by (rule hoare_conseq [OF commit_law [OF fs, of T]]) (simp, simp, metis some_changes)
qed

end

end
