(* ===== verification/Index_Apply.thy ===== *)
theory Index_Apply
  imports Chunk_Store "HOL-Library.Product_Lexorder"
begin

text \<open>
  \<open>indexer/apply.rs\<close> and \<open>indexer/index.rs\<close>: performing a plan through the store port. The
  lane is an optional operation on the same state. The clock is read once per run: the
  argument \<open>at\<close>. The walker's \<open>scan\<close> is an argument of \<open>index_corpus\<close>.
\<close>

subsection \<open>Statistics\<close>

definition MAX_REPORTED_SKIPS :: nat where
  "MAX_REPORTED_SKIPS = 100"

record skipped_file =
  sk_file :: string
  sk_reason :: skip_reason

record apply_stats =
  files_upserted :: nat
  files_touched :: nat
  files_deleted :: nat
  files_skipped_empty :: nat
  files_skipped_unreadable :: nat
  skipped_unreadable :: "skipped_file list"
  chunks_inserted :: nat
  embeddings_inserted :: nat

definition stats_default :: apply_stats where
  "stats_default = \<lparr>files_upserted = 0, files_touched = 0, files_deleted = 0,
     files_skipped_empty = 0, files_skipped_unreadable = 0, skipped_unreadable = [],
     chunks_inserted = 0, embeddings_inserted = 0\<rparr>"

definition record_unreadable :: "skipped_file \<Rightarrow> apply_stats \<Rightarrow> apply_stats" where
  "record_unreadable skipped st =
     (let st' = st\<lparr>files_skipped_unreadable := files_skipped_unreadable st + 1\<rparr>
      in if length (skipped_unreadable st') < MAX_REPORTED_SKIPS
         then st'\<lparr>skipped_unreadable := skipped_unreadable st' @ [skipped]\<rparr>
         else st')"

fun push_skips :: "skipped_file list \<Rightarrow> skipped_file list \<Rightarrow> skipped_file list" where
  "push_skips mine [] = mine"
| "push_skips mine (f # fs) =
     (if MAX_REPORTED_SKIPS \<le> length mine then mine else push_skips (mine @ [f]) fs)"

definition merge_stats :: "apply_stats \<Rightarrow> apply_stats \<Rightarrow> apply_stats" where
  "merge_stats self other =
     \<lparr>files_upserted = files_upserted self + files_upserted other,
      files_touched = files_touched self + files_touched other,
      files_deleted = files_deleted self + files_deleted other,
      files_skipped_empty = files_skipped_empty self + files_skipped_empty other,
      files_skipped_unreadable = files_skipped_unreadable self + files_skipped_unreadable other,
      skipped_unreadable = push_skips (skipped_unreadable self) (skipped_unreadable other),
      chunks_inserted = chunks_inserted self + chunks_inserted other,
      embeddings_inserted = embeddings_inserted self + embeddings_inserted other\<rparr>"

subsection \<open>One run\<close>

datatype empty_file_policy = Retain | Evict

record ('w, 'b) run_ctx =
  rc_store :: "('w, 'b) chunk_store"
  rc_env :: disk_env
  rc_indexed_at_ms :: int
  rc_batch_size :: nat
  rc_lane :: "('w, unit) op option"

definition DEFAULT_BATCH_SIZE :: nat where
  "DEFAULT_BATCH_SIZE = 16"

definition smudge_racy_mtime :: "int \<Rightarrow> int \<Rightarrow> int" where
  "smudge_racy_mtime mtime now_ms = (if now_ms \<le> mtime then mtime - 1 else mtime)"

fun owner_of :: "path \<Rightarrow> corpus_key option \<Rightarrow> corpus_key list \<Rightarrow> corpus_key option" where
  "owner_of f owner [] = owner"
| "owner_of f owner (key # keys) =
     (if \<not> starts_with (canonical_root key) f then owner_of f owner keys
      else case owner of
             None \<Rightarrow> owner_of f (Some key) keys
           | Some current \<Rightarrow>
               (if length (canonical_root current) < length (canonical_root key)
                then owner_of f (Some key) keys else owner_of f owner keys))"

definition corpus_key_for_file ::
  "canonicalizer \<Rightarrow> (string \<Rightarrow> string) \<Rightarrow> corpus_config \<Rightarrow> string \<Rightarrow> corpus_key hall_result" where
  "corpus_key_for_file canon tilde corpus f =
     (let file = canonicalize_or_passthrough canon (components f)
      in case owner_of file None (corpus_keys canon tilde corpus) of
           Some k \<Rightarrow> Ok k
         | None \<Rightarrow> Err (EIndexer (''file is outside configured corpus roots: '' @ path_string file)))"

definition acquire_lane :: "('w, unit) op option \<Rightarrow> ('w, unit) op" where
  "acquire_lane lane = (case lane of Some acquire \<Rightarrow> acquire | None \<Rightarrow> ret ())"

definition bytes_override :: "(string \<times> string) list \<Rightarrow> string \<Rightarrow> string option" where
  "bytes_override precomputed f = map_of precomputed f"

subsection \<open>Batches\<close>

definition prepare_step ::
  "('w, 'b) run_ctx \<Rightarrow> empty_file_policy \<Rightarrow> (string \<times> string) list \<Rightarrow> write_request
   \<Rightarrow> apply_stats \<times> prepared_file list \<Rightarrow> ('w, apply_stats \<times> prepared_file list) op" where
  "prepare_step run policy precomputed req acc =
     (case acc of (stats, prepared) \<Rightarrow>
       bind_op (of_result (prepare_file (rc_env run) req (rc_indexed_at_ms run)
                  (bytes_override precomputed (wr_file req))))
         (\<lambda>p. case p of
            Skipped reason \<Rightarrow>
              ret (record_unreadable \<lparr>sk_file = wr_file req, sk_reason = reason\<rparr> stats, prepared)
          | PreparedFile pf \<Rightarrow>
              (if pf_chunks pf = []
               then (let stats' = stats\<lparr>files_skipped_empty := files_skipped_empty stats + 1\<rparr>
                     in if policy = Evict
                        then bind_op (of_result (file_ref_string (wr_file req))) (\<lambda>file_ref.
                             bind_op (acquire_lane (rc_lane run)) (\<lambda>_.
                             bind_op (delete_file (rc_store run) (wr_corpus_key req) file_ref) (\<lambda>_.
                             ret (stats'\<lparr>files_deleted := files_deleted stats' + 1\<rparr>, prepared))))
                        else ret (stats', prepared))
               else ret (stats, prepared @ [pf]))))"

definition run_batch ::
  "('w, 'b) run_ctx \<Rightarrow> empty_file_policy \<Rightarrow> (string \<times> string) list \<Rightarrow> write_request list
   \<Rightarrow> apply_stats \<Rightarrow> ('w, apply_stats) op" where
  "run_batch run policy precomputed reqs stats =
     bind_op (for_each (prepare_step run policy precomputed) reqs (stats, [])) (\<lambda>(stats, prepared).
       if prepared = [] then ret stats
       else bind_op (prepare_batch (rc_store run) prepared) (\<lambda>prepared_batch.
            bind_op (acquire_lane (rc_lane run)) (\<lambda>_.
            bind_op (commit_batch (rc_store run) prepared prepared_batch) (\<lambda>ws.
            ret (stats\<lparr>chunks_inserted := chunks_inserted stats + chunks_written ws,
                       embeddings_inserted := embeddings_inserted stats + embeddings_written ws,
                       files_upserted := files_upserted stats + length prepared\<rparr>)))))"

text \<open>The \<open>BTreeMap\<close> of the requests: the keys in order, each with its requests in order.\<close>

definition key_order :: "corpus_key \<Rightarrow> string \<times> path" where
  "key_order k = (ck_name k, canonical_root k)"

definition by_key :: "write_request list \<Rightarrow> write_request list list" where
  "by_key reqs =
     map (\<lambda>k. filter (\<lambda>r. wr_corpus_key r = k) reqs)
       (remdups (sort_key key_order (map wr_corpus_key reqs)))"

definition run_in_batches ::
  "('w, 'b) run_ctx \<Rightarrow> empty_file_policy \<Rightarrow> (string \<times> string) list \<Rightarrow> write_request list
   \<Rightarrow> apply_stats \<Rightarrow> ('w, apply_stats) op" where
  "run_in_batches run policy precomputed reqs stats =
     for_each (\<lambda>key_reqs. for_each (run_batch run policy precomputed)
                            (chunks_of (rc_batch_size run) key_reqs))
       (by_key reqs) stats"

subsection \<open>Applying a plan\<close>

fun upsert_reqs ::
  "(string \<Rightarrow> corpus_key hall_result) \<Rightarrow> int \<Rightarrow> upsert list \<Rightarrow> write_request list hall_result" where
  "upsert_reqs resolve at [] = Ok []"
| "upsert_reqs resolve at (u # us) =
     result_bind (case up_corpus_key u of Some key \<Rightarrow> Ok key | None \<Rightarrow> resolve (up_file u)) (\<lambda>key.
     result_bind (upsert_reqs resolve at us) (\<lambda>reqs.
       Ok (\<lparr>wr_corpus_key = key, wr_file = up_file u,
            wr_mtime = smudge_racy_mtime (up_mtime u) at\<rparr> # reqs)))"

definition touch_step ::
  "('w, 'b) run_ctx \<Rightarrow> mtime_candidate \<Rightarrow> apply_stats \<times> mtime_candidate list
   \<Rightarrow> ('w, apply_stats \<times> mtime_candidate list) op" where
  "touch_step run c acc =
     (case acc of (stats, fallthrough) \<Rightarrow>
       bind_op (of_result (case mc_known_hash c of
                             Some h \<Rightarrow> Ok h | None \<Rightarrow> blake3_file (rc_env run) (mc_file c)))
         (\<lambda>new_hash.
            if new_hash = fs_content_hash (mc_snap c)
            then bind_op (acquire_lane (rc_lane run)) (\<lambda>_.
                 bind_op (touch_mtime (rc_store run) (fs_corpus_key (mc_snap c)) (fs_file_ref (mc_snap c))
                            (smudge_racy_mtime (mc_new_mtime c) (rc_indexed_at_ms run))) (\<lambda>_.
                 ret (stats\<lparr>files_touched := files_touched stats + 1\<rparr>, fallthrough)))
            else ret (stats, fallthrough @ [c])))"

definition fallthrough_req :: "int \<Rightarrow> mtime_candidate \<Rightarrow> write_request" where
  "fallthrough_req at c =
     \<lparr>wr_corpus_key = fs_corpus_key (mc_snap c), wr_file = mc_file c,
      wr_mtime = smudge_racy_mtime (mc_new_mtime c) at\<rparr>"

definition delete_step ::
  "('w, 'b) run_ctx \<Rightarrow> corpus_key list \<Rightarrow> file_snapshot \<Rightarrow> apply_stats \<Rightarrow> ('w, apply_stats) op" where
  "delete_step run configured_keys snapshot stats =
     (if fs_corpus_key snapshot \<in> set configured_keys
      then bind_op (acquire_lane (rc_lane run)) (\<lambda>_.
           bind_op (delete_file (rc_store run) (fs_corpus_key snapshot) (fs_file_ref snapshot)) (\<lambda>_.
           ret (stats\<lparr>files_deleted := files_deleted stats + 1\<rparr>)))
      else ret stats)"

definition apply_with_lane ::
  "('w, 'b) run_ctx \<Rightarrow> (string \<Rightarrow> corpus_key hall_result) \<Rightarrow> corpus_key list
   \<Rightarrow> (string \<times> string) list \<Rightarrow> index_plan \<Rightarrow> ('w, apply_stats) op" where
  "apply_with_lane run0 resolve configured_keys precomputed p =
     (let run = run0\<lparr>rc_batch_size := max (rc_batch_size run0) 1\<rparr>
      in bind_op (of_result (upsert_reqs resolve (rc_indexed_at_ms run) (upserts p))) (\<lambda>reqs.
         bind_op (run_in_batches run Retain precomputed reqs stats_default) (\<lambda>stats.
         bind_op (for_each (touch_step run) (mtime_touches p) (stats, [])) (\<lambda>(stats, fallthrough).
         bind_op (run_in_batches run Evict precomputed
                    (map (fallthrough_req (rc_indexed_at_ms run)) fallthrough) stats)
           (for_each (delete_step run configured_keys) (deletes p))))))"

text \<open>The configuration gives the resolver and the configured keys.\<close>

definition apply_plan ::
  "canonicalizer \<Rightarrow> (string \<Rightarrow> string) \<Rightarrow> corpus_config \<Rightarrow> ('w, 'b) run_ctx
   \<Rightarrow> (string \<times> string) list \<Rightarrow> index_plan \<Rightarrow> ('w, apply_stats) op" where
  "apply_plan canon tilde corpus run precomputed p =
     apply_with_lane run (corpus_key_for_file canon tilde corpus) (corpus_keys canon tilde corpus)
       precomputed p"

definition append_plan :: "index_plan \<Rightarrow> index_plan \<Rightarrow> index_plan" where
  "append_plan a b =
     \<lparr>upserts = upserts a @ upserts b, mtime_touches = mtime_touches a @ mtime_touches b,
      deletes = deletes a @ deletes b\<rparr>"

definition root_plan ::
  "(disk_map \<Rightarrow> disk_map) \<Rightarrow> ('w, 'b) run_ctx \<Rightarrow> scanned_file list \<Rightarrow> corpus_key \<Rightarrow> index_plan
   \<Rightarrow> ('w, index_plan) op" where
  "root_plan hash_order run scanned key combined =
     (let disk = map scanned_plan_parts (filter (\<lambda>sf. sf_corpus_key sf = key) scanned)
      in bind_op (list_files (rc_store run) key) (\<lambda>snapshots.
           let db = foldl (\<lambda>m s. hm_insert (fs_file_ref s) s m) [] snapshots
           in ret (append_plan combined (plan hash_order (blake3_file (rc_env run)) disk db))))"

definition index_corpus ::
  "(disk_map \<Rightarrow> disk_map) \<Rightarrow> canonicalizer \<Rightarrow> (string \<Rightarrow> string) \<Rightarrow> scanned_file list hall_result
   \<Rightarrow> corpus_config \<Rightarrow> ('w, 'b) chunk_store \<Rightarrow> disk_env \<Rightarrow> int \<Rightarrow> ('w, apply_stats) op" where
  "index_corpus hash_order canon tilde scan corpus store env at =
     (let run = \<lparr>rc_store = store, rc_env = env, rc_indexed_at_ms = at,
                 rc_batch_size = DEFAULT_BATCH_SIZE, rc_lane = None\<rparr>
      in bind_op (of_result scan) (\<lambda>scanned.
         bind_op (for_each (root_plan hash_order run scanned) (corpus_keys canon tilde corpus) empty_plan)
           (apply_plan canon tilde corpus run [])))"

subsection \<open>What a request changes\<close>

abbreviation req_id :: "write_request \<Rightarrow> file_id" where
  "req_id r \<equiv> file_id_of (wr_corpus_key r) (wr_file r)"

definition prepared_of ::
  "('w, 'b) run_ctx \<Rightarrow> (string \<times> string) list \<Rightarrow> write_request \<Rightarrow> prepared hall_result" where
  "prepared_of run precomputed r =
     prepare_file (rc_env run) r (rc_indexed_at_ms run) (bytes_override precomputed (wr_file r))"

definition file_to_write ::
  "('w, 'b) run_ctx \<Rightarrow> (string \<times> string) list \<Rightarrow> write_request \<Rightarrow> prepared_file option" where
  "file_to_write run precomputed r =
     (case prepared_of run precomputed r of
        Ok (PreparedFile pf) \<Rightarrow> if pf_chunks pf = [] then None else Some pf
      | _ \<Rightarrow> None)"

definition eviction ::
  "('w, 'b) run_ctx \<Rightarrow> empty_file_policy \<Rightarrow> (string \<times> string) list \<Rightarrow> write_request \<Rightarrow> change set" where
  "eviction run policy precomputed r =
     (case prepared_of run precomputed r of
        Ok (PreparedFile pf) \<Rightarrow> if pf_chunks pf = [] \<and> policy = Evict then {(req_id r, None)} else {}
      | _ \<Rightarrow> {})"

definition request_changes ::
  "('w, 'b) run_ctx \<Rightarrow> empty_file_policy \<Rightarrow> (string \<times> string) list \<Rightarrow> write_request \<Rightarrow> change set" where
  "request_changes run policy precomputed r =
     eviction run policy precomputed r \<union> put_change ` set_option (file_to_write run precomputed r)"

lemma eviction_ids: "fst ` eviction run policy pre r \<subseteq> {req_id r}"
  by (auto simp: eviction_def split: sum.splits prepared.splits)

lemma file_to_write_identity:
  assumes "handlers_ok (registry (rc_env run))" "file_to_write run pre r = Some pf"
  shows "put_change pf = (req_id r, Some (wr_mtime r, content_hash pf))"
proof -
  from assms(2) have "prepare_file (rc_env run) r (rc_indexed_at_ms run) (bytes_override pre (wr_file r))
      = Ok (PreparedFile pf)"
    by (auto simp: file_to_write_def prepared_of_def split: sum.splits prepared.splits if_splits)
  from prepare_file_identity [OF assms(1) this] show ?thesis by (simp add: put_change_def)
qed

lemma request_changes_ids:
  "handlers_ok (registry (rc_env run)) \<Longrightarrow> fst ` request_changes run policy pre r \<subseteq> {req_id r}"
  using eviction_ids [of run policy pre r] file_to_write_identity [of run pre r]
  by (auto simp: request_changes_def)

lemma distinct_ids_disjoint:
  assumes "distinct (map f xs)" "xs = a @ x # b" and ids: "\<And>y. fst ` C y \<subseteq> {f y}"
  shows "fst ` C x \<inter> fst ` (\<Union>(C ` set b)) = {}"
proof (rule equals0I)
  fix i assume i: "i \<in> fst ` C x \<inter> fst ` (\<Union>(C ` set b))"
  then have "i = f x" using ids [of x] by (meson IntD1 singletonD subsetD)
  from i have "i \<in> fst ` (\<Union>(C ` set b))" by simp
  then obtain c y where y: "y \<in> set b" "c \<in> C y" "i = fst c" by (meson UN_E imageE)
  then have "i = f y" using ids [of y] by (meson imageI singletonD subsetD)
  with \<open>i = f x\<close> y(1) have "f x \<in> f ` set b" by (metis imageI)
  with assms(1,2) show False by simp
qed

subsection \<open>What a plan changes\<close>

abbreviation snap_id :: "file_snapshot \<Rightarrow> file_id" where
  "snap_id s \<equiv> file_id_of (fs_corpus_key s) (fs_file_ref s)"

abbreviation cand_id :: "mtime_candidate \<Rightarrow> file_id" where
  "cand_id c \<equiv> snap_id (mc_snap c)"

definition cand_hash :: "('w, 'b) run_ctx \<Rightarrow> mtime_candidate \<Rightarrow> string hall_result" where
  "cand_hash run c =
     (case mc_known_hash c of Some h \<Rightarrow> Ok h | None \<Rightarrow> blake3_file (rc_env run) (mc_file c))"

definition touch_changes :: "('w, 'b) run_ctx \<Rightarrow> mtime_candidate \<Rightarrow> change set" where
  "touch_changes run c =
     (if cand_hash run c = Ok (fs_content_hash (mc_snap c))
      then {(cand_id c, Some (smudge_racy_mtime (mc_new_mtime c) (rc_indexed_at_ms run),
               fs_content_hash (mc_snap c)))}
      else {})"

definition falls_through :: "('w, 'b) run_ctx \<Rightarrow> mtime_candidate \<Rightarrow> bool" where
  "falls_through run c =
     (case cand_hash run c of Ok h \<Rightarrow> h \<noteq> fs_content_hash (mc_snap c) | Err _ \<Rightarrow> False)"

abbreviation fallthrough_reqs :: "('w, 'b) run_ctx \<Rightarrow> index_plan \<Rightarrow> write_request list" where
  "fallthrough_reqs run p \<equiv>
     map (fallthrough_req (rc_indexed_at_ms run)) (filter (falls_through run) (mtime_touches p))"

definition delete_changes :: "corpus_key list \<Rightarrow> file_snapshot \<Rightarrow> change set" where
  "delete_changes keys s = (if fs_corpus_key s \<in> set keys then {(snap_id s, None)} else {})"

definition plan_changes ::
  "('w, 'b) run_ctx \<Rightarrow> corpus_key list \<Rightarrow> (string \<times> string) list \<Rightarrow> write_request list
   \<Rightarrow> index_plan \<Rightarrow> change set" where
  "plan_changes run keys pre reqs p =
     \<Union>(request_changes run Retain pre ` set reqs) \<union> (\<Union>(touch_changes run ` set (mtime_touches p)) \<union>
     (\<Union>(request_changes run Evict pre ` set (fallthrough_reqs run p)) \<union>
      \<Union>(delete_changes keys ` set (deletes p))))"

text \<open>The plan names every file at most once, and a candidate is the file of its snapshot.\<close>

definition plan_ok :: "write_request list \<Rightarrow> index_plan \<Rightarrow> bool" where
  "plan_ok reqs p \<longleftrightarrow>
     distinct (map req_id reqs @ map cand_id (mtime_touches p) @ map snap_id (deletes p)) \<and>
     list_all (\<lambda>c. mc_file c = fs_file_ref (mc_snap c)) (mtime_touches p)"

lemma touch_changes_ids: "fst ` touch_changes run c \<subseteq> {cand_id c}"
  by (simp add: touch_changes_def)

lemma delete_changes_ids: "fst ` delete_changes keys s \<subseteq> {snap_id s}"
  by (simp add: delete_changes_def)

lemma fst_UN_subset: "(\<And>x. fst ` C x \<subseteq> {f x}) \<Longrightarrow> fst ` \<Union>(C ` X) \<subseteq> f ` X"
proof
  fix i assume C: "\<And>x. fst ` C x \<subseteq> {f x}" and "i \<in> fst ` \<Union>(C ` X)"
  then obtain x c where "x \<in> X" "c \<in> C x" "i = fst c" by (meson UN_E imageE)
  then show "i \<in> f ` X" using C [of x] by (metis imageI singletonD subsetD)
qed

context chunk_store_laws
begin

definition lane_ok :: "('w, unit) op option \<Rightarrow> bool" where
  "lane_ok lane \<longleftrightarrow> (\<forall>A. performs A (acquire_lane lane) {} (\<lambda>_. True))"

lemma lane_none: "lane_ok None"
  by (simp add: lane_ok_def acquire_lane_def performs_ret)

definition run_ok :: "('w, 'b) run_ctx \<Rightarrow> bool" where
  "run_ok run \<longleftrightarrow> rc_store run = store \<and> lane_ok (rc_lane run) \<and> 0 < rc_batch_size run \<and>
     handlers_ok (registry (rc_env run)) \<and>
     (\<forall>fmt ctx pf. registry (rc_env run) fmt ctx = HandlerOk pf \<longrightarrow> file_ok pf)"

lemma performs_then:
  assumes "performs A m {} (\<lambda>_. True)" "\<And>a. performs A (f a) D Q"
  shows "performs A (bind_op m f) D Q"
  using performs_bind [of A m "{}" "\<lambda>_. True" A f D Q] assms by simp

lemma performs_before:
  assumes "performs A m C (\<lambda>_. True)" "\<And>a. Q (g a)"
  shows "performs A (bind_op m (\<lambda>a. ret (g a))) C Q"
  using performs_bind [of A m C "\<lambda>_. True" "\<lambda>_. True" "\<lambda>a. ret (g a)" "{}" Q] assms
  by (simp add: performs_ret)

lemma performs_evict:
  assumes run: "run_ok run"
  shows "performs A (bind_op (of_result (file_ref_string (wr_file r))) (\<lambda>file_ref.
      bind_op (acquire_lane (rc_lane run)) (\<lambda>_.
      bind_op (delete_file (rc_store run) (wr_corpus_key r) file_ref) (\<lambda>_. ret (g, prepared)))))
      {(req_id r, None)} (\<lambda>(_, p). p = prepared)"
proof (cases "file_ref_string (wr_file r)")
  case (Inr file_ref)
  then have eq: "file_ref = wr_file r"
    by (auto simp: file_ref_string_def to_str_def split: if_splits)
  have "performs A (bind_op (delete_file store (wr_corpus_key r) (wr_file r)) (\<lambda>_. ret (g, prepared)))
      {(req_id r, None)} (\<lambda>(_, p). p = prepared)"
    by (rule performs_before [OF performs_delete]) simp
  with run Inr eq show ?thesis
    unfolding run_ok_def lane_ok_def by (simp add: performs_then)
qed (simp add: performs_fail)

lemma performs_prepare_step:
  assumes run: "run_ok run"
  shows "performs A (prepare_step run policy pre r (stats, prepared)) (eviction run policy pre r)
    (\<lambda>(_, p). p = prepared @ (case file_to_write run pre r of Some pf \<Rightarrow> [pf] | None \<Rightarrow> []))"
proof (cases "prepared_of run pre r")
  case (Inl e)
  then show ?thesis
    by (simp add: prepare_step_def prepared_of_def [symmetric] performs_fail)
next
  case (Inr p)
  then show ?thesis
    by (cases p) (simp_all add: prepare_step_def prepared_of_def [symmetric] eviction_def
        file_to_write_def performs_ret performs_evict [OF run] Let_def)
qed

lemma map_filter_ids:
  assumes "distinct (map f xs)" "\<And>x y. g x = Some y \<Longrightarrow> h y = f x"
  shows "distinct (map h (List.map_filter g xs))"
  using assms(1)
proof (induction xs)
  case (Cons x xs)
  have "h ` set (List.map_filter g xs) \<subseteq> f ` set xs"
    using image_map_filter [of g h f xs, OF assms(2)] by auto
  with Cons assms(2) [of x] show ?case by (auto simp: map_filter_simps split: option.splits)
qed (simp add: map_filter_simps)

lemma performs_prepare_loop:
  assumes run: "run_ok run" and dist: "distinct (map req_id reqs)"
  shows "performs A (for_each (prepare_step run policy pre) reqs (stats, []))
    (\<Union>(eviction run policy pre ` set reqs)) (\<lambda>acc. snd acc = List.map_filter (file_to_write run pre) reqs)"
proof -
  let ?ev = "eviction run policy pre" and ?fw = "file_to_write run pre"
  have "performs (\<lambda>T. \<forall>x \<in> set reqs. True) (for_each (prepare_step run policy pre) reqs (stats, []))
      (\<Union>(?ev ` set reqs)) (\<lambda>acc. snd acc = List.map_filter ?fw reqs)"
  proof (rule performs_for_each [where R = "\<lambda>d acc. snd acc = List.map_filter ?fw d" and A = "\<lambda>_ _. True"])
    fix d x rest and acc :: "apply_stats \<times> prepared_file list"
    assume d: "snd acc = List.map_filter ?fw d"
    obtain st p where acc: "acc = (st, p)" by (cases acc)
    show "performs (\<lambda>_. True) (prepare_step run policy pre x acc) (?ev x)
        (\<lambda>acc. snd acc = List.map_filter ?fw (d @ [x]))"
      unfolding acc
      by (rule performs_conseq [OF performs_prepare_step [OF run]])
         (use d acc in \<open>auto simp: map_filter_def split: option.splits\<close>)
  next
    fix a x b assume "reqs = a @ x # b"
    then show "fst ` ?ev x \<inter> fst ` (\<Union>(?ev ` set b)) = {}"
      by (rule distinct_ids_disjoint [OF dist _ eviction_ids])
  qed (simp_all add: map_filter_simps)
  then show ?thesis by (rule performs_conseq) simp_all
qed

lemma performs_run_batch:
  assumes run: "run_ok run" and dist: "distinct (map req_id reqs)"
  shows "performs A (run_batch run policy pre reqs stats)
    (\<Union>(request_changes run policy pre ` set reqs)) (\<lambda>_. True)"
proof -
  let ?ev = "eviction run policy pre" and ?fw = "file_to_write run pre"
  let ?puts = "List.map_filter ?fw reqs"
  have hok: "handlers_ok (registry (rc_env run))" using run by (simp add: run_ok_def)
  have ok: "list_all file_ok ?puts"
  proof -
    have "file_ok pf" if "?fw r = Some pf" for r pf
    proof -
      from that have "prepare_file (rc_env run) r (rc_indexed_at_ms run) (bytes_override pre (wr_file r))
          = Ok (PreparedFile pf)"
        by (auto simp: file_to_write_def prepared_of_def split: sum.splits prepared.splits if_splits)
      then obtain fmt ctx where "registry (rc_env run) fmt ctx = HandlerOk pf"
        by (rule prepare_file_from_handler)
      with run show ?thesis by (auto simp: run_ok_def)
    qed
    then show ?thesis by (auto simp: list_all_iff set_map_filter)
  qed
  have dp: "distinct (map (fst \<circ> put_change) ?puts)"
    by (rule map_filter_ids [OF dist]) (simp add: file_to_write_identity [OF hok])
  have changes: "\<Union>(request_changes run policy pre ` set reqs) = \<Union>(?ev ` set reqs) \<union> put_change ` set ?puts"
    by (auto simp: request_changes_def set_map_filter)
  have commit: "performs (\<lambda>_. True) (bind_op (prepare_batch (rc_store run) ?puts) (\<lambda>b.
      bind_op (acquire_lane (rc_lane run)) (\<lambda>_.
      bind_op (commit_batch (rc_store run) ?puts b) (\<lambda>ws. ret (g ws)))))
      (put_change ` set ?puts) (\<lambda>_. True)" for g :: "batch_write_stats \<Rightarrow> apply_stats"
  proof -
    have st: "rc_store run = store" and lane: "performs (\<lambda>_. True) (acquire_lane (rc_lane run)) {} (\<lambda>_. True)"
      using run by (simp_all add: run_ok_def lane_ok_def)
    show ?thesis unfolding st
      by (intro performs_then [OF performs_prepare] performs_then [OF lane]
          performs_before [OF performs_commit [OF ok dp]]) simp
  qed
  have disj: "fst ` \<Union>(?ev ` set reqs) \<inter> fst ` put_change ` set ?puts = {}"
  proof -
    have False if "r \<in> set reqs" "q \<in> set reqs" "c \<in> ?ev r" "?fw q = Some pf" "fst c = fst (put_change pf)"
      for r q c pf
    proof -
      have "req_id r = req_id q"
      proof -
        have "fst c = req_id r" using that(3) by (auto simp: eviction_def split: sum.splits prepared.splits if_splits)
        moreover have "fst (put_change pf) = req_id q" using that(4) by (simp add: file_to_write_identity [OF hok])
        ultimately show ?thesis using that(5) by simp
      qed
      with dist that have "r = q" by (auto simp: distinct_map dest: inj_onD)
      with that show False
        by (auto simp: eviction_def file_to_write_def split: sum.splits prepared.splits if_splits)
    qed
    then show ?thesis unfolding set_map_filter by (intro equals0I) (elim IntE imageE UN_E, blast)
  qed
  show ?thesis unfolding changes run_batch_def
  proof (rule performs_bind [OF performs_prepare_loop [OF run dist] _ disj])
    show "performs (\<lambda>_. True) ((\<lambda>(stats, prepared). if prepared = [] then ret stats
       else bind_op (prepare_batch (rc_store run) prepared) (\<lambda>prepared_batch.
            bind_op (acquire_lane (rc_lane run)) (\<lambda>_.
            bind_op (commit_batch (rc_store run) prepared prepared_batch) (\<lambda>ws.
            ret (stats\<lparr>chunks_inserted := chunks_inserted stats + chunks_written ws,
                       embeddings_inserted := embeddings_inserted stats + embeddings_written ws,
                       files_upserted := files_upserted stats + length prepared\<rparr>))))) acc)
       (put_change ` set ?puts) (\<lambda>_. True)" if "snd acc = ?puts" for acc :: "apply_stats \<times> prepared_file list"
      using that commit by (cases acc) (simp add: performs_ret)
  qed simp
qed

text \<open>A loop over parts with different files makes the changes of all parts.\<close>

lemma performs_parts:
  assumes body: "\<And>g acc. g \<in> set gs \<Longrightarrow> performs (\<lambda>_. True) (body g acc) (\<Union>(C ` set g)) (\<lambda>_. True)"
    and ids: "\<And>x. fst ` C x \<subseteq> {f x}" and dist: "distinct (map f (concat gs))"
  shows "performs A (for_each body gs acc) (\<Union>(C ` set (concat gs))) (\<lambda>_. True)"
proof -
  have "performs (\<lambda>T. \<forall>g \<in> set gs. True) (for_each body gs acc)
      (\<Union>((\<lambda>g. \<Union>(C ` set g)) ` set gs)) (\<lambda>_. True)"
  proof (rule performs_for_each [where R = "\<lambda>_ _. True" and A = "\<lambda>_ _. True"])
    fix a g b assume gs: "gs = a @ g # b"
    have sub: "fst ` (\<Union>(C ` X)) \<subseteq> f ` X" for X by (rule fst_UN_subset [OF ids])
    have "f ` set g \<inter> f ` set (concat b) = {}" using dist by (simp add: gs)
    moreover have "\<Union>((\<lambda>g. \<Union>(C ` set g)) ` set b) = \<Union>(C ` set (concat b))" by auto
    ultimately show "fst ` (\<Union>(C ` set g)) \<inter> fst ` \<Union>((\<lambda>g. \<Union>(C ` set g)) ` set b) = {}"
      using sub [of "set g"] sub [of "set (concat b)"] by (metis inf_mono subset_empty)
  qed (use body in auto)
  moreover have "\<Union>((\<lambda>g. \<Union>(C ` set g)) ` set gs) = \<Union>(C ` set (concat gs))" by auto
  ultimately show ?thesis by (metis performs_conseq)
qed

lemma by_key_mset: "mset (concat (by_key reqs)) = mset reqs"
proof -
  have "mset (concat (map (\<lambda>k. filter (\<lambda>r. g r = k) xs) ks)) = mset (filter (\<lambda>r. g r \<in> set ks) xs)"
    if "distinct ks" for g :: "write_request \<Rightarrow> corpus_key" and ks xs
    using that
  proof (induction ks)
    case (Cons k ks)
    have "mset (filter (\<lambda>r. g r \<in> set (k # ks)) xs) =
        mset (filter (\<lambda>r. g r = k) xs) + mset (filter (\<lambda>r. g r \<in> set ks) xs)"
      using Cons.prems by (induction xs) auto
    with Cons show ?case by simp
  qed simp
  from this [of "remdups (sort_key key_order (map wr_corpus_key reqs))" wr_corpus_key reqs]
  have "mset (concat (by_key reqs)) = mset (filter (\<lambda>r. wr_corpus_key r \<in> wr_corpus_key ` set reqs) reqs)"
    by (simp add: by_key_def)
  also have "filter (\<lambda>r. wr_corpus_key r \<in> wr_corpus_key ` set reqs) reqs = reqs"
    by (rule filter_True) simp
  finally show ?thesis .
qed

lemma performs_run_in_batches:
  assumes run: "run_ok run" and dist: "distinct (map req_id reqs)"
  shows "performs A (run_in_batches run policy pre reqs stats)
    (\<Union>(request_changes run policy pre ` set reqs)) (\<lambda>_. True)"
proof -
  let ?C = "request_changes run policy pre"
  have ids: "fst ` ?C r \<subseteq> {req_id r}" for r
    using run by (intro request_changes_ids) (simp add: run_ok_def)
  have sz: "0 < rc_batch_size run" using run by (simp add: run_ok_def)
  have dall: "distinct (map req_id (concat (by_key reqs)))"
    using dist by (metis by_key_mset mset_map mset_eq_imp_distinct_iff)
  have part: "distinct (map req_id g)" if "g \<in> set gs" "distinct (map req_id (concat gs))" for g gs
    using that by (induction gs) auto
  have "performs A (run_in_batches run policy pre reqs stats) (\<Union>(?C ` set (concat (by_key reqs)))) (\<lambda>_. True)"
    unfolding run_in_batches_def
  proof (rule performs_parts [OF _ ids dall])
    fix g acc assume g: "g \<in> set (by_key reqs)"
    have cc: "concat (chunks_of (rc_batch_size run) g) = g" by (rule concat_chunks_of [OF sz])
    have dg: "distinct (map req_id (concat (chunks_of (rc_batch_size run) g)))"
      unfolding cc by (rule part [OF g dall])
    have "performs (\<lambda>_. True) (for_each (run_batch run policy pre) (chunks_of (rc_batch_size run) g) acc)
        (\<Union>(?C ` set (concat (chunks_of (rc_batch_size run) g)))) (\<lambda>_. True)"
      by (rule performs_parts [OF performs_run_batch [OF run] ids dg]) (rule part [OF _ dg])
    then show "performs (\<lambda>_. True) (for_each (run_batch run policy pre) (chunks_of (rc_batch_size run) g) acc)
        (\<Union>(?C ` set g)) (\<lambda>_. True)" by (simp only: cc)
  qed
  then show ?thesis by (metis by_key_mset set_mset_mset)
qed

definition touch_ready :: "('w, 'b) run_ctx \<Rightarrow> mtime_candidate \<Rightarrow> indexed \<Rightarrow> bool" where
  "touch_ready run c T \<longleftrightarrow> (touch_changes run c \<noteq> {} \<longrightarrow>
     (\<exists>m0. (cand_id c, m0, fs_content_hash (mc_snap c)) \<in> T))"

lemma touch_ready_effect:
  assumes "touch_ready run c T" "touch_changes run c \<noteq> {} \<Longrightarrow> cand_id c \<notin> fst ` C"
  shows "touch_ready run c (effect C T)"
  using assms unfolding touch_ready_def effect_mem by blast

lemma performs_touch_step:
  assumes run: "run_ok run"
  shows "performs (touch_ready run c) (touch_step run c acc) (touch_changes run c)
    (\<lambda>acc'. snd acc' = snd acc @ (if falls_through run c then [c] else []))"
proof (cases "cand_hash run c")
  case (Inl e)
  then show ?thesis
    by (cases acc) (simp add: touch_step_def cand_hash_def [symmetric] performs_fail)
next
  case (Inr h)
  show ?thesis
  proof (cases "h = fs_content_hash (mc_snap c)")
    case False
    with Inr show ?thesis
      by (cases acc) (simp add: touch_step_def cand_hash_def [symmetric] touch_changes_def
          falls_through_def performs_ret)
  next
    case True
    let ?k = "fs_corpus_key (mc_snap c)" and ?f = "fs_file_ref (mc_snap c)"
    let ?m = "smudge_racy_mtime (mc_new_mtime c) (rc_indexed_at_ms run)"
    have st: "rc_store run = store" and lane: "\<And>A. performs A (acquire_lane (rc_lane run)) {} (\<lambda>_. True)"
      using run by (simp_all add: run_ok_def lane_ok_def)
    have C: "touch_changes run c = {(cand_id c, Some (?m, h))}"
      using Inr True by (simp add: touch_changes_def)
    have touch: "performs (touch_ready run c) (touch_mtime store ?k ?f ?m) {(cand_id c, Some (?m, h))} (\<lambda>_. True)"
      by (rule performs_conseq [OF performs_touch [of ?k ?f h]])
         (use True C in \<open>auto simp: touch_ready_def\<close>)
    have "performs (touch_ready run c) (bind_op (acquire_lane (rc_lane run)) (\<lambda>_.
        bind_op (touch_mtime store ?k ?f ?m) (\<lambda>_. ret (g, snd acc)))) {(cand_id c, Some (?m, h))}
        (\<lambda>acc'. snd acc' = snd acc)" for g :: apply_stats
      by (intro performs_then [OF lane] performs_before [OF touch]) simp
    with Inr True C st show ?thesis
      by (cases acc) (simp add: touch_step_def cand_hash_def [symmetric] falls_through_def)
  qed
qed

lemma performs_touch_loop:
  assumes run: "run_ok run" and dist: "distinct (map cand_id cs)"
  shows "performs (\<lambda>T. \<forall>c \<in> set cs. touch_ready run c T) (for_each (touch_step run) cs (stats, []))
    (\<Union>(touch_changes run ` set cs)) (\<lambda>acc. snd acc = filter (falls_through run) cs)"
proof (rule performs_for_each [where R = "\<lambda>d acc. snd acc = filter (falls_through run) d"])
  fix d c rest and acc :: "apply_stats \<times> mtime_candidate list"
  assume "snd acc = filter (falls_through run) d"
  then show "performs (touch_ready run c) (touch_step run c acc) (touch_changes run c)
      (\<lambda>acc. snd acc = filter (falls_through run) (d @ [c]))"
    using performs_touch_step [OF run, of c acc] by (auto elim: performs_conseq)
next
  fix x y T assume "fst ` touch_changes run x \<inter> fst ` touch_changes run y = {}" "touch_ready run y T"
  then show "touch_ready run y (effect (touch_changes run x) T)"
    by (intro touch_ready_effect) (auto simp: touch_changes_def split: if_splits)
next
  fix a c b assume "cs = a @ c # b"
  then show "fst ` touch_changes run c \<inter> fst ` \<Union>(touch_changes run ` set b) = {}"
    by (rule distinct_ids_disjoint [OF dist _ touch_changes_ids])
qed simp

lemma performs_delete_loop:
  assumes run: "run_ok run" and dist: "distinct (map snap_id ss)"
  shows "performs A (for_each (delete_step run keys) ss stats) (\<Union>(delete_changes keys ` set ss)) (\<lambda>_. True)"
proof -
  have st: "rc_store run = store" and lane: "\<And>A. performs A (acquire_lane (rc_lane run)) {} (\<lambda>_. True)"
    using run by (simp_all add: run_ok_def lane_ok_def)
  have "performs (\<lambda>T. \<forall>s \<in> set ss. True) (for_each (delete_step run keys) ss stats)
      (\<Union>(delete_changes keys ` set ss)) (\<lambda>_. True)"
  proof (rule performs_for_each [where R = "\<lambda>_ _. True" and A = "\<lambda>_ _. True"])
    fix d s rest acc
    have "performs (\<lambda>_. True) (bind_op (acquire_lane (rc_lane run)) (\<lambda>_.
        bind_op (delete_file store (fs_corpus_key s) (fs_file_ref s)) (\<lambda>_. ret g))) {(snap_id s, None)}
        (\<lambda>_. True)" for g :: apply_stats
      by (intro performs_then [OF lane] performs_before [OF performs_delete]) simp
    then show "performs (\<lambda>_. True) (delete_step run keys s acc) (delete_changes keys s) (\<lambda>_. True)"
      by (simp add: delete_step_def delete_changes_def st performs_ret)
  next
    fix a s b assume "ss = a @ s # b"
    then show "fst ` delete_changes keys s \<inter> fst ` \<Union>(delete_changes keys ` set b) = {}"
      by (rule distinct_ids_disjoint [OF dist _ delete_changes_ids])
  qed simp_all
  then show ?thesis by (rule performs_conseq) simp_all
qed

lemma plan_changes_disjoint:
  assumes run: "run_ok run" and p: "plan_ok reqs p"
  shows "fst ` \<Union>(request_changes run Retain pre ` set reqs) \<subseteq> req_id ` set reqs"
    and "fst ` \<Union>(touch_changes run ` set (mtime_touches p)) \<subseteq>
      cand_id ` {c \<in> set (mtime_touches p). \<not> falls_through run c}"
    and "fst ` \<Union>(request_changes run Evict pre ` set (fallthrough_reqs run p)) \<subseteq>
      cand_id ` {c \<in> set (mtime_touches p). falls_through run c}"
    and "fst ` \<Union>(delete_changes keys ` set (deletes p)) \<subseteq> snap_id ` set (deletes p)"
    and "req_id ` set reqs \<inter> cand_id ` set (mtime_touches p) = {}"
    and "req_id ` set reqs \<inter> snap_id ` set (deletes p) = {}"
    and "cand_id ` set (mtime_touches p) \<inter> snap_id ` set (deletes p) = {}"
    and "cand_id ` {c \<in> set (mtime_touches p). \<not> falls_through run c} \<inter>
      cand_id ` {c \<in> set (mtime_touches p). falls_through run c} = {}"
proof -
  have ids: "fst ` request_changes run policy pre r \<subseteq> {req_id r}" for policy r
    using run by (intro request_changes_ids) (simp add: run_ok_def)
  show "fst ` \<Union>(request_changes run Retain pre ` set reqs) \<subseteq> req_id ` set reqs"
    by (rule fst_UN_subset [OF ids])
  have "\<Union>(touch_changes run ` set (mtime_touches p)) =
      \<Union>(touch_changes run ` {c \<in> set (mtime_touches p). \<not> falls_through run c})"
    by (auto simp: touch_changes_def falls_through_def split: if_splits)
  then show "fst ` \<Union>(touch_changes run ` set (mtime_touches p)) \<subseteq>
      cand_id ` {c \<in> set (mtime_touches p). \<not> falls_through run c}"
    by (simp only: fst_UN_subset [OF touch_changes_ids])
  have "req_id ` set (fallthrough_reqs run p) = cand_id ` {c \<in> set (mtime_touches p). falls_through run c}"
  proof -
    have "req_id (fallthrough_req at c) = cand_id c" if "c \<in> set (mtime_touches p)" for at c
      using p that by (simp add: plan_ok_def list_all_iff fallthrough_req_def)
    then show ?thesis by (simp add: image_image)
  qed
  then show "fst ` \<Union>(request_changes run Evict pre ` set (fallthrough_reqs run p)) \<subseteq>
      cand_id ` {c \<in> set (mtime_touches p). falls_through run c}"
    using fst_UN_subset [where C = "request_changes run Evict pre" and f = req_id and
        X = "set (fallthrough_reqs run p)", OF ids] by (simp only:)
  show "fst ` \<Union>(delete_changes keys ` set (deletes p)) \<subseteq> snap_id ` set (deletes p)"
    by (rule fst_UN_subset [OF delete_changes_ids])
  have d: "distinct (map req_id reqs @ map cand_id (mtime_touches p) @ map snap_id (deletes p))"
    using p by (simp only: plan_ok_def)
  then show "req_id ` set reqs \<inter> cand_id ` set (mtime_touches p) = {}"
    "req_id ` set reqs \<inter> snap_id ` set (deletes p) = {}"
    "cand_id ` set (mtime_touches p) \<inter> snap_id ` set (deletes p) = {}"
    by (simp_all add: Int_Un_distrib)
  have "inj_on cand_id (set (mtime_touches p))" using d by (simp add: distinct_map)
  then show "cand_id ` {c \<in> set (mtime_touches p). \<not> falls_through run c} \<inter>
      cand_id ` {c \<in> set (mtime_touches p). falls_through run c} = {}"
    by (simp add: inj_on_image_Int [symmetric]) blast
qed

lemma disjoint_sub: "A \<subseteq> X \<Longrightarrow> B \<subseteq> Y \<Longrightarrow> X \<inter> Y = {} \<Longrightarrow> A \<inter> B = {}"
  by blast

lemma fallthrough_distinct:
  assumes "plan_ok reqs p"
  shows "distinct (map req_id (fallthrough_reqs run p))"
proof -
  have "map req_id (fallthrough_reqs run p) = map cand_id (filter (falls_through run) (mtime_touches p))"
  proof -
    have "req_id (fallthrough_req at c) = cand_id c" if "c \<in> set (mtime_touches p)" for at c
      using assms that by (simp add: plan_ok_def list_all_iff fallthrough_req_def)
    then show ?thesis by simp
  qed
  moreover have "distinct (map cand_id (mtime_touches p))" using assms by (simp add: plan_ok_def)
  then have "distinct (map cand_id (filter (falls_through run) (mtime_touches p)))"
    by (rule distinct_map_filter)
  ultimately show ?thesis by (simp only:)
qed

lemma performs_apply_run:
  assumes run: "run_ok run" and p: "plan_ok reqs p"
  shows "performs (\<lambda>T. \<forall>c \<in> set (mtime_touches p). touch_ready run c T)
    (bind_op (run_in_batches run Retain pre reqs stats_default) (\<lambda>stats.
     bind_op (for_each (touch_step run) (mtime_touches p) (stats, [])) (\<lambda>(stats, fallthrough).
     bind_op (run_in_batches run Evict pre (map (fallthrough_req (rc_indexed_at_ms run)) fallthrough) stats)
       (for_each (delete_step run keys) (deletes p)))))
    (plan_changes run keys pre reqs p) (\<lambda>_. True)"
proof -
  note ids = plan_changes_disjoint [OF run p]
  have d1: "distinct (map req_id reqs)" "distinct (map cand_id (mtime_touches p))"
      "distinct (map snap_id (deletes p))" using p by (simp_all add: plan_ok_def)
  let ?C1 = "\<Union>(request_changes run Retain pre ` set reqs)"
  let ?C2 = "\<Union>(touch_changes run ` set (mtime_touches p))"
  let ?C3 = "\<Union>(request_changes run Evict pre ` set (fallthrough_reqs run p))"
  let ?C4 = "\<Union>(delete_changes keys ` set (deletes p))"
  have sub: "cand_id ` {c \<in> set (mtime_touches p). P c} \<subseteq> cand_id ` set (mtime_touches p)" for P by blast
  have i2: "fst ` ?C2 \<subseteq> cand_id ` set (mtime_touches p)" and i3: "fst ` ?C3 \<subseteq> cand_id ` set (mtime_touches p)"
    by (rule subset_trans [OF ids(2) sub], rule subset_trans [OF ids(3) sub])
  have n12: "fst ` ?C1 \<inter> fst ` ?C2 = {}" and n13: "fst ` ?C1 \<inter> fst ` ?C3 = {}"
    by (rule disjoint_sub [OF ids(1) i2 ids(5)], rule disjoint_sub [OF ids(1) i3 ids(5)])
  have n14: "fst ` ?C1 \<inter> fst ` ?C4 = {}" by (rule disjoint_sub [OF ids(1) ids(4) ids(6)])
  have n23: "fst ` ?C2 \<inter> fst ` ?C3 = {}" by (rule disjoint_sub [OF ids(2) ids(3) ids(8)])
  have n24: "fst ` ?C2 \<inter> fst ` ?C4 = {}" and n34: "fst ` ?C3 \<inter> fst ` ?C4 = {}"
    by (rule disjoint_sub [OF i2 ids(4) ids(7)], rule disjoint_sub [OF i3 ids(4) ids(7)])
  have tail: "performs (\<lambda>_. True) (bind_op (run_in_batches run Evict pre (fallthrough_reqs run p) st)
      (for_each (delete_step run keys) (deletes p))) (?C3 \<union> ?C4) (\<lambda>_. True)" for st
    by (rule performs_bind [OF performs_run_in_batches [OF run fallthrough_distinct [OF p]]
          performs_delete_loop [OF run d1(3)] n34]) simp
  have mid: "performs (\<lambda>T. \<forall>c \<in> set (mtime_touches p). touch_ready run c T)
      (bind_op (for_each (touch_step run) (mtime_touches p) (stats, [])) (\<lambda>(stats, fallthrough).
       bind_op (run_in_batches run Evict pre (map (fallthrough_req (rc_indexed_at_ms run)) fallthrough) stats)
         (for_each (delete_step run keys) (deletes p)))) (?C2 \<union> (?C3 \<union> ?C4)) (\<lambda>_. True)" for stats
  proof (rule performs_bind [OF performs_touch_loop [OF run d1(2)]])
    show "performs (\<lambda>_. True) ((\<lambda>(stats, fallthrough).
       bind_op (run_in_batches run Evict pre (map (fallthrough_req (rc_indexed_at_ms run)) fallthrough) stats)
         (for_each (delete_step run keys) (deletes p))) acc) (?C3 \<union> ?C4) (\<lambda>_. True)"
      if "snd acc = filter (falls_through run) (mtime_touches p)" for acc :: "apply_stats \<times> mtime_candidate list"
      using that tail by (cases acc) simp
    show "fst ` ?C2 \<inter> fst ` (?C3 \<union> ?C4) = {}" using n23 n24 by (simp add: image_Un Int_Un_distrib)
  qed simp
  have "performs (\<lambda>T. \<forall>c \<in> set (mtime_touches p). touch_ready run c T)
    (bind_op (run_in_batches run Retain pre reqs stats_default) (\<lambda>stats.
     bind_op (for_each (touch_step run) (mtime_touches p) (stats, [])) (\<lambda>(stats, fallthrough).
     bind_op (run_in_batches run Evict pre (map (fallthrough_req (rc_indexed_at_ms run)) fallthrough) stats)
       (for_each (delete_step run keys) (deletes p)))))
    (?C1 \<union> (?C2 \<union> (?C3 \<union> ?C4))) (\<lambda>_. True)"
  proof (rule performs_bind [OF performs_run_in_batches [OF run d1(1)] mid])
    show "fst ` ?C1 \<inter> fst ` (?C2 \<union> (?C3 \<union> ?C4)) = {}"
      using n12 n13 n14 by (simp add: image_Un Int_Un_distrib)
    fix T assume T: "\<forall>c \<in> set (mtime_touches p). touch_ready run c T"
    show "\<forall>c \<in> set (mtime_touches p). touch_ready run c (effect ?C1 T)"
    proof
      fix c assume c: "c \<in> set (mtime_touches p)"
      then have "cand_id c \<notin> fst ` ?C1" using ids(5) subsetD [OF ids(1)] by blast
      then show "touch_ready run c (effect ?C1 T)" using T c by (intro touch_ready_effect) auto
    qed
  qed
  then show ?thesis by (simp only: plan_changes_def)
qed

end

end
