(* ===== verification/Index_Sync.thy ===== *)
theory Index_Sync
  imports Index_Apply
begin

text \<open>
  What indexing a corpus achieves, through the store port: the scan, the plan of every
  root and the apply, put together.
\<close>

subsection \<open>The plan of one root\<close>

lemma foldl_hm_insert:
  assumes "distinct (map g ss)"
  shows "foldl (\<lambda>m s. hm_insert (g s) s m) [] ss = map (\<lambda>s. (g s, s)) ss"
proof -
  have "distinct (map fst m @ map g ss) \<Longrightarrow> foldl (\<lambda>m s. hm_insert (g s) s m) m ss = m @ map (\<lambda>s. (g s, s)) ss" for m
  proof (induction ss arbitrary: m)
    case (Cons s ss)
    have "hm_insert (g s) s m = m @ [(g s, s)]" if "g s \<notin> fst ` set m" for m
      using that by (induction m) auto
    with Cons show ?case by simp
  qed simp
  from this [of "[]"] assms show ?thesis by simp
qed

text \<open>
  \<open>db\<close> is what the index knows of the root \<open>k\<close>, \<open>disk\<close> what is on disk; \<open>root_planned\<close> says that
  \<open>p\<close> is the plan of the two.
\<close>

definition knows :: "indexed \<Rightarrow> corpus_key \<Rightarrow> db_map \<Rightarrow> bool" where
  "knows S k db \<longleftrightarrow> distinct (map fst db) \<and>
     (\<forall>(f, s) \<in> set db. fs_file_ref s = f \<and> fs_corpus_key s = k) \<and>
     (\<forall>f m h. (file_id_of k f, m, h) \<in> S \<longleftrightarrow>
        (\<exists>s. map_of db f = Some s \<and> fs_mtime_ms s = m \<and> fs_content_hash s = h))"

abbreviation disk_of :: "scanned_file list \<Rightarrow> corpus_key \<Rightarrow> plan_input list" where
  "disk_of scanned k \<equiv> map scanned_plan_parts (filter (\<lambda>sf. sf_corpus_key sf = k) scanned)"

lemma disk_of_key: "(f, m, ck) \<in> set (disk_of scanned k) \<Longrightarrow> ck = Some k"
  by (auto simp: scanned_plan_parts_def)

text \<open>What the entry of one file on disk changes, and what a file gone from disk changes.\<close>

definition entry_req :: "int \<Rightarrow> corpus_key \<Rightarrow> plan_input \<Rightarrow> write_request" where
  "entry_req at k e = \<lparr>wr_corpus_key = k, wr_file = fst e, wr_mtime = smudge_racy_mtime (fst (snd e)) at\<rparr>"

definition entry_changes ::
  "('w, 'b) run_ctx \<Rightarrow> corpus_key \<Rightarrow> db_map \<Rightarrow> plan_input \<Rightarrow> change set" where
  "entry_changes run k db e =
     (if map_of db (fst e) = None
      then request_changes run Retain [] (entry_req (rc_indexed_at_ms run) k e)
      else case as_touch (blake3_file (rc_env run)) db e of
             None \<Rightarrow> {}
           | Some c \<Rightarrow> if falls_through run c
                       then request_changes run Evict [] (entry_req (rc_indexed_at_ms run) k e)
                       else touch_changes run c)"

definition root_changes ::
  "('w, 'b) run_ctx \<Rightarrow> corpus_key \<Rightarrow> db_map \<Rightarrow> plan_input list \<Rightarrow> change set" where
  "root_changes run k db disk =
     \<Union>(entry_changes run k db ` set (disk_by_file disk)) \<union>
     (\<lambda>d. (file_id_of k (fst d), None)) ` {d \<in> set db. fst d \<notin> fst ` set disk}"

lemma as_touch_snap:
  assumes "knows S k db" "as_touch h db e = Some c"
  shows "map_of db (fst e) = Some (mc_snap c) \<and> mc_file c = fst e \<and> mc_new_mtime c = fst (snd e) \<and>
    fs_file_ref (mc_snap c) = fst e \<and> fs_corpus_key (mc_snap c) = k"
proof -
  have "map_of db (fst e) = Some (mc_snap c) \<and> mc_file c = fst e \<and> mc_new_mtime c = fst (snd e)"
    using assms(2) by (auto simp: as_touch_def split: prod.splits option.splits sum.splits if_splits)
  moreover from this have "(fst e, mc_snap c) \<in> set db" by (simp add: map_of_SomeD)
  ultimately show ?thesis using assms(1) by (auto simp: knows_def)
qed

lemma falls_through_req:
  assumes "knows S k db" "as_touch h db e = Some c"
  shows "fallthrough_req at c = entry_req at k e"
  using as_touch_snap [OF assms] by (simp add: fallthrough_req_def entry_req_def)

lemma entry_changes_ids:
  assumes "handlers_ok (registry (rc_env run))" "knows S k db"
  shows "fst ` entry_changes run k db e \<subseteq> {file_id_of k (fst e)}"
proof -
  have r: "fst ` request_changes run policy [] (entry_req at k e) \<subseteq> {file_id_of k (fst e)}" for policy at
    using request_changes_ids [OF assms(1), of policy "[]" "entry_req at k e"] by (simp add: entry_req_def)
  have t: "fst ` touch_changes run c \<subseteq> {file_id_of k (fst e)}" if "as_touch h db e = Some c" for h c
    using touch_changes_ids [of run c] as_touch_snap [OF assms(2) that] by simp
  show ?thesis using r t by (auto simp: entry_changes_def split: option.splits)
qed

lemma upsert_reqs_resolved:
  assumes "\<forall>u \<in> set us. up_corpus_key u = Some (g u)"
  shows "upsert_reqs resolve at us = Ok (map (\<lambda>u. \<lparr>wr_corpus_key = g u, wr_file = up_file u,
     wr_mtime = smudge_racy_mtime (up_mtime u) at\<rparr>) us)"
  using assms by (induction us) auto

lemma as_upsert_eq:
  "as_upsert db e = Some u \<longleftrightarrow> map_of db (fst e) = None \<and>
     u = \<lparr>up_file = fst e, up_mtime = fst (snd e), up_corpus_key = snd (snd e)\<rparr>"
  by (auto simp: as_upsert_def split: prod.splits)

definition plan_reqs :: "int \<Rightarrow> corpus_key \<Rightarrow> index_plan \<Rightarrow> write_request list" where
  "plan_reqs at k p = map (\<lambda>u. \<lparr>wr_corpus_key = k, wr_file = up_file u,
     wr_mtime = smudge_racy_mtime (up_mtime u) at\<rparr>) (upserts p)"

text \<open>
  \<open>p\<close> is the plan of the root \<open>k\<close>, whose files on disk are \<open>disk\<close> and whose indexed files, all of
  \<open>S\<close> at that root, are \<open>db\<close>.
\<close>

definition root_planned ::
  "(disk_map \<Rightarrow> disk_map) \<Rightarrow> ('w, 'b) run_ctx \<Rightarrow> indexed \<Rightarrow> corpus_key \<Rightarrow> db_map \<Rightarrow> plan_input list
   \<Rightarrow> index_plan \<Rightarrow> bool" where
  "root_planned hash_order run S k db disk p \<longleftrightarrow> permutes_maps hash_order \<and> knows S k db \<and>
     (\<forall>e \<in> set disk. snd (snd e) = Some k) \<and> p = plan hash_order (blake3_file (rc_env run)) disk db"

lemma disk_by_file_subset: "e \<in> set (disk_by_file disk) \<Longrightarrow> e \<in> set disk"
proof -
  assume e: "e \<in> set (disk_by_file disk)"
  obtain f v where fv: "e = (f, v)" by (cases e)
  from e have "map_of (disk_by_file disk) f = Some v"
    by (simp add: fv disk_by_file_distinct)
  then show ?thesis by (metis fv map_of_disk_by_file map_of_SomeD set_rev)
qed

lemma root_planned_parts:
  assumes "root_planned hash_order run S k db disk p"
  shows "set (upserts p) = {u. \<exists>e \<in> set (disk_by_file disk). as_upsert db e = Some u}"
    and "set (mtime_touches p) =
      {c. \<exists>e \<in> set (disk_by_file disk). as_touch (blake3_file (rc_env run)) db e = Some c}"
    and "set (deletes p) = snd ` {d \<in> set db. fst d \<notin> fst ` set disk}"
proof -
  have fs: "set (hash_order (disk_by_file disk)) = set (disk_by_file disk)"
    using assms by (intro plan_order_set) (simp add: root_planned_def)
  have p: "p = plan hash_order (blake3_file (rc_env run)) disk db" using assms by (simp add: root_planned_def)
  show "set (upserts p) = {u. \<exists>e \<in> set (disk_by_file disk). as_upsert db e = Some u}"
    by (simp add: p plan_upserts set_map_filter fs)
  show "set (mtime_touches p) =
      {c. \<exists>e \<in> set (disk_by_file disk). as_touch (blake3_file (rc_env run)) db e = Some c}"
    by (simp add: p plan_touches set_map_filter fs)
  show "set (deletes p) = snd ` {d \<in> set db. fst d \<notin> fst ` set disk}"
    by (simp add: p plan_def Let_def fs disk_by_file_keys)
qed

lemma root_planned_upsert_key:
  assumes "root_planned hash_order run S k db disk p" "u \<in> set (upserts p)"
  shows "up_corpus_key u = Some k"
proof -
  from assms(2) obtain e where "e \<in> set (disk_by_file disk)" "up_corpus_key u = snd (snd e)"
    unfolding root_planned_parts(1) [OF assms(1)] by (auto simp: as_upsert_eq)
  with disk_by_file_subset [of e disk] assms(1) show ?thesis by (simp add: root_planned_def)
qed

lemma root_planned_reqs:
  assumes "root_planned hash_order run S k db disk p"
  shows "set (plan_reqs at k p) = entry_req at k ` {e \<in> set (disk_by_file disk). map_of db (fst e) = None}"
proof -
  have "set (plan_reqs at k p) = entry_req at k ` {e \<in> set (disk_by_file disk). as_upsert db e \<noteq> None}"
    unfolding plan_reqs_def set_map root_planned_parts(1) [OF assms]
    by (rule image_option_image) (simp add: as_upsert_eq entry_req_def)
  then show ?thesis by (simp only: as_upsert_Some(2) map_of_eq_None_iff)
qed

lemma root_planned_changes:
  assumes rp: "root_planned hash_order run S k db disk p" and k: "k \<in> set keys"
  shows "plan_changes run keys [] (plan_reqs (rc_indexed_at_ms run) k p) p = root_changes run k db disk"
proof -
  let ?at = "rc_indexed_at_ms run" and ?D = "set (disk_by_file disk)"
  let ?touch = "as_touch (blake3_file (rc_env run)) db"
  let ?R = "\<lambda>policy e. request_changes run policy [] (entry_req ?at k e)"
  have kn: "knows S k db" using rp by (simp add: root_planned_def)
  have up: "\<Union>(request_changes run Retain [] ` set (plan_reqs ?at k p)) =
      \<Union>((\<lambda>e. if map_of db (fst e) = None then ?R Retain e else {}) ` ?D)"
    unfolding root_planned_reqs [OF rp] by auto
  have tch: "\<Union>(touch_changes run ` set (mtime_touches p)) =
      \<Union>((\<lambda>e. case ?touch e of None \<Rightarrow> {} | Some c \<Rightarrow> touch_changes run c) ` ?D)"
    unfolding root_planned_parts(2) [OF rp] by (rule UN_option_image)
  have "\<Union>(request_changes run Evict [] ` set (fallthrough_reqs run p)) =
      \<Union>((\<lambda>c. if falls_through run c then request_changes run Evict [] (fallthrough_req ?at c) else {})
        ` set (mtime_touches p))"
    by auto
  also have "\<dots> = \<Union>((\<lambda>e. case ?touch e of None \<Rightarrow> {} | Some c \<Rightarrow>
      if falls_through run c then request_changes run Evict [] (fallthrough_req ?at c) else {}) ` ?D)"
    unfolding root_planned_parts(2) [OF rp] by (rule UN_option_image)
  also have "\<dots> = \<Union>((\<lambda>e. case ?touch e of None \<Rightarrow> {} | Some c \<Rightarrow>
      if falls_through run c then ?R Evict e else {}) ` ?D)"
    by (intro arg_cong [where f = Union] image_cong refl) (simp add: falls_through_req [OF kn] split: option.splits)
  finally have fall: "\<Union>(request_changes run Evict [] ` set (fallthrough_reqs run p)) =
      \<Union>((\<lambda>e. case ?touch e of None \<Rightarrow> {} | Some c \<Rightarrow> if falls_through run c then ?R Evict e else {}) ` ?D)" .
  have "delete_changes keys (snd d) = {(file_id_of k (fst d), None)}" if "d \<in> set db" for d
    using kn that k by (cases d) (auto simp: knows_def delete_changes_def)
  then have "\<Union>(delete_changes keys ` snd ` {d \<in> set db. fst d \<notin> fst ` set disk}) =
      (\<lambda>d. (file_id_of k (fst d), None)) ` {d \<in> set db. fst d \<notin> fst ` set disk}" by auto
  then have del: "\<Union>(delete_changes keys ` set (deletes p)) =
      (\<lambda>d. (file_id_of k (fst d), None)) ` {d \<in> set db. fst d \<notin> fst ` set disk}"
    by (simp only: root_planned_parts(3) [OF rp])
  have one: "(if map_of db (fst e) = None then ?R Retain e else {}) \<union>
      ((case ?touch e of None \<Rightarrow> {} | Some c \<Rightarrow> touch_changes run c) \<union>
       (case ?touch e of None \<Rightarrow> {} | Some c \<Rightarrow> if falls_through run c then ?R Evict e else {})) =
      entry_changes run k db e" for e
  proof (cases "?touch e")
    case None
    then show ?thesis by (simp add: entry_changes_def)
  next
    case (Some c)
    then have "map_of db (fst e) = Some (mc_snap c)" using as_touch_snap [OF kn Some] by simp
    moreover have "touch_changes run c = {}" if "falls_through run c"
      using that by (auto simp: falls_through_def touch_changes_def split: sum.splits)
    ultimately show ?thesis using Some by (simp add: entry_changes_def)
  qed
  show ?thesis
    unfolding plan_changes_def up tch fall del root_changes_def one [symmetric] UN_Un_distrib Un_assoc ..
qed

subsection \<open>The plan of all roots\<close>

lemma append_plans:
  "upserts (foldl append_plan p ps) = upserts p @ concat (map upserts ps)"
  "mtime_touches (foldl append_plan p ps) = mtime_touches p @ concat (map mtime_touches ps)"
  "deletes (foldl append_plan p ps) = deletes p @ concat (map deletes ps)"
  by (induction ps arbitrary: p) (simp_all add: append_plan_def)

lemma distinct_concat_keys:
  assumes "distinct keys" "\<And>k. k \<in> set keys \<Longrightarrow> distinct (map h (L k))"
    and "\<And>k x. k \<in> set keys \<Longrightarrow> x \<in> set (L k) \<Longrightarrow> h x \<in> ID k"
    and "\<And>k k'. k \<in> set keys \<Longrightarrow> k' \<in> set keys \<Longrightarrow> k \<noteq> k' \<Longrightarrow> ID k \<inter> ID k' = {}"
  shows "distinct (map h (concat (map L keys)))"
  using assms
proof (induction keys)
  case (Cons k keys)
  have "h ` set (L k) \<inter> h ` (\<Union>x \<in> set keys. set (L x)) = {}"
  proof (rule equals0I)
    fix i assume "i \<in> h ` set (L k) \<inter> h ` (\<Union>x \<in> set keys. set (L x))"
    then obtain x y k' where "x \<in> set (L k)" "i = h x" "k' \<in> set keys" "y \<in> set (L k')" "i = h y"
      by (elim IntE imageE UN_E) blast
    moreover from this have "h x \<in> ID k" "h y \<in> ID k'"
      using Cons.prems(3) [of k x] Cons.prems(3) [of k' y] by (metis list.set_intros)+
    moreover have "ID k \<inter> ID k' = {}" using Cons.prems(1,4) \<open>k' \<in> set keys\<close> by auto
    ultimately show False by (simp add: disjoint_iff)
  qed
  with Cons show ?case by simp
qed simp

definition roots_ok :: "corpus_key list \<Rightarrow> bool" where
  "roots_ok keys \<longleftrightarrow> distinct keys \<and>
     (\<forall>k \<in> set keys. absolute_path (canonical_root k)) \<and>
     (\<forall>k \<in> set keys. \<forall>k' \<in> set keys. ck_name k = ck_name k')"

lemma file_id_inj:
  assumes "roots_ok keys" "k \<in> set keys" "k' \<in> set keys" "file_id_of k f = file_id_of k' f'"
  shows "k = k' \<and> f = f'"
proof -
  from assms(4) have "path_string (canonical_root k) = path_string (canonical_root k')" "f = f'" "ck_name k = ck_name k'"
    by (simp_all add: file_id_of_def)
  moreover have "absolute_path (canonical_root k)" "absolute_path (canonical_root k')"
    using assms(1-3) by (simp_all add: roots_ok_def)
  ultimately have "canonical_root k = canonical_root k'" by (simp add: path_string_inj)
  with \<open>ck_name k = ck_name k'\<close> \<open>f = f'\<close> show ?thesis by (simp add: corpus_key.equality)
qed

lemma file_id_inj_file: "file_id_of k f = file_id_of k f' \<longleftrightarrow> f = f'"
  by (simp add: file_id_of_def)

lemma root_ids_disjoint:
  "roots_ok keys \<Longrightarrow> k \<in> set keys \<Longrightarrow> k' \<in> set keys \<Longrightarrow> k \<noteq> k' \<Longrightarrow>
   range (file_id_of k) \<inter> range (file_id_of k') = {}"
proof (rule equals0I)
  fix i assume "roots_ok keys" "k \<in> set keys" "k' \<in> set keys" "k \<noteq> k'"
    and "i \<in> range (file_id_of k) \<inter> range (file_id_of k')"
  then show False by (elim IntE rangeE) (metis file_id_inj)
qed

lemma knows_db:
  assumes "knows S k db"
  shows "distinct (map fst db)" "\<forall>(f, s) \<in> set db. fs_file_ref s = f" "\<And>f s. (f, s) \<in> set db \<Longrightarrow> fs_corpus_key s = k"
  using assms by (auto simp: knows_def)

lemma knows_mem:
  assumes "knows S k db"
  shows "(file_id_of k f, m, h) \<in> S \<longleftrightarrow>
    (\<exists>s. map_of db f = Some s \<and> fs_mtime_ms s = m \<and> fs_content_hash s = h)"
  using assms unfolding knows_def by blast

lemma root_planned_ids:
  assumes rp: "root_planned hash_order run S k db disk p"
  shows "map req_id (plan_reqs at k p) = map (\<lambda>u. file_id_of k (up_file u)) (upserts p)"
    and "map cand_id (mtime_touches p) = map (\<lambda>c. file_id_of k (mc_file c)) (mtime_touches p)"
    and "map snap_id (deletes p) = map (\<lambda>s. file_id_of k (fs_file_ref s)) (deletes p)"
    and "list_all (\<lambda>c. mc_file c = fs_file_ref (mc_snap c)) (mtime_touches p)"
proof -
  have kn: "knows S k db" using rp by (simp add: root_planned_def)
  have c: "mc_file c = fs_file_ref (mc_snap c) \<and> fs_corpus_key (mc_snap c) = k" if "c \<in> set (mtime_touches p)" for c
  proof -
    from that obtain e where "as_touch (blake3_file (rc_env run)) db e = Some c"
      unfolding root_planned_parts(2) [OF rp] by blast
    from as_touch_snap [OF kn this] show ?thesis by simp
  qed
  show "map req_id (plan_reqs at k p) = map (\<lambda>u. file_id_of k (up_file u)) (upserts p)"
    by (simp add: plan_reqs_def)
  show "map cand_id (mtime_touches p) = map (\<lambda>c. file_id_of k (mc_file c)) (mtime_touches p)"
    "list_all (\<lambda>c. mc_file c = fs_file_ref (mc_snap c)) (mtime_touches p)"
    using c by (simp_all add: list_all_iff)
  have "fs_corpus_key s = k" if "s \<in> set (deletes p)" for s
    using that knows_db(3) [OF kn] unfolding root_planned_parts(3) [OF rp] by auto
  then show "map snap_id (deletes p) = map (\<lambda>s. file_id_of k (fs_file_ref s)) (deletes p)" by simp
qed

lemma root_planned_distinct:
  assumes rp: "root_planned hash_order run S k db disk p"
  shows "distinct (map req_id (plan_reqs at k p))" "distinct (map cand_id (mtime_touches p))"
    "distinct (map snap_id (deletes p))"
    "req_id ` set (plan_reqs at k p) \<inter> cand_id ` set (mtime_touches p) = {}"
    "req_id ` set (plan_reqs at k p) \<inter> snap_id ` set (deletes p) = {}"
    "cand_id ` set (mtime_touches p) \<inter> snap_id ` set (deletes p) = {}"
proof -
  have kn: "knows S k db" and p: "p = plan hash_order (blake3_file (rc_env run)) disk db"
    and ord: "permutes_maps hash_order" using rp by (simp_all add: root_planned_def)
  note part = plan_partition [OF ord knows_db(1) [OF kn] knows_db(2) [OF kn], of "blake3_file (rc_env run)" disk,
      folded p]
  note ids = root_planned_ids [OF rp]
  have i: "req_id ` set (plan_reqs at k p) = file_id_of k ` (up_file ` set (upserts p))"
      "cand_id ` set (mtime_touches p) = file_id_of k ` (mc_file ` set (mtime_touches p))"
      "snap_id ` set (deletes p) = file_id_of k ` (fs_file_ref ` set (deletes p))"
    using arg_cong [OF ids(1) [of at], of set] arg_cong [OF ids(2), of set] arg_cong [OF ids(3), of set]
    by (simp_all add: image_image)
  have inj: "inj (file_id_of k)" by (simp add: inj_def file_id_inj_file)
  have dm: "distinct (map (\<lambda>x. file_id_of k (g x)) xs)" if "distinct (map g xs)" for g :: "'x \<Rightarrow> string" and xs
    using that inj by (simp add: distinct_map inj_on_def file_id_inj_file)
  show "distinct (map req_id (plan_reqs at k p))" "distinct (map cand_id (mtime_touches p))"
    "distinct (map snap_id (deletes p))"
    unfolding ids(1) ids(2) ids(3) using part by (simp_all add: dm)
  have dk: "\<And>f. f \<in> mc_file ` set (mtime_touches p) \<Longrightarrow> f \<in> fst ` set db \<and> f \<in> fst ` set disk"
  proof -
    fix f assume "f \<in> mc_file ` set (mtime_touches p)"
    with part obtain s v where "map_of db f = Some s" "map_of (rev disk) f = Some v" by auto
    then show "f \<in> fst ` set db \<and> f \<in> fst ` set disk" by (metis domI dom_map_of_conv_image_fst set_rev)
  qed
  let ?U = "up_file ` set (upserts p)" and ?C = "mc_file ` set (mtime_touches p)"
    and ?D = "fs_file_ref ` set (deletes p)"
  have u: "?U = fst ` set disk - fst ` set db" and d: "?D = fst ` set db - fst ` set disk"
    using part by (rule conjunct1, elim conjE)
  have "?U \<inter> ?C = {}" unfolding u disjoint_iff using dk by (metis DiffD2)
  moreover have "?C \<inter> ?D = {}" unfolding d disjoint_iff using dk by (metis DiffD2)
  moreover have "?U \<inter> ?D = {}" unfolding u d disjoint_iff by (metis DiffD1 DiffD2)
  ultimately show "req_id ` set (plan_reqs at k p) \<inter> cand_id ` set (mtime_touches p) = {}"
    "req_id ` set (plan_reqs at k p) \<inter> snap_id ` set (deletes p) = {}"
    "cand_id ` set (mtime_touches p) \<inter> snap_id ` set (deletes p) = {}"
    unfolding i image_Int [OF inj, symmetric] image_is_empty by simp_all
qed

text \<open>The plan of every root in turn, with what the index knows of each.\<close>

definition all_planned ::
  "(disk_map \<Rightarrow> disk_map) \<Rightarrow> ('w, 'b) run_ctx \<Rightarrow> indexed \<Rightarrow> scanned_file list \<Rightarrow> corpus_key list
   \<Rightarrow> (corpus_key \<Rightarrow> db_map) \<Rightarrow> index_plan \<Rightarrow> bool" where
  "all_planned hash_order run S scanned keys db p \<longleftrightarrow> (\<forall>k \<in> set keys. knows S k (db k)) \<and>
     p = foldl append_plan empty_plan
       (map (\<lambda>k. plan hash_order (blake3_file (rc_env run)) (disk_of scanned k) (db k)) keys)"

abbreviation key_plan ::
  "(disk_map \<Rightarrow> disk_map) \<Rightarrow> ('w, 'b) run_ctx \<Rightarrow> scanned_file list \<Rightarrow> (corpus_key \<Rightarrow> db_map)
   \<Rightarrow> corpus_key \<Rightarrow> index_plan" where
  "key_plan hash_order run scanned db k \<equiv>
     plan hash_order (blake3_file (rc_env run)) (disk_of scanned k) (db k)"

lemma all_planned_root:
  assumes "permutes_maps hash_order" "all_planned hash_order run S scanned keys db p" "k \<in> set keys"
  shows "root_planned hash_order run S k (db k) (disk_of scanned k) (key_plan hash_order run scanned db k)"
  using assms by (auto simp: root_planned_def all_planned_def scanned_plan_parts_def)

lemma all_planned_parts:
  assumes "all_planned hash_order run S scanned keys db p"
  shows "upserts p = concat (map (\<lambda>k. upserts (key_plan hash_order run scanned db k)) keys)"
    "mtime_touches p = concat (map (\<lambda>k. mtime_touches (key_plan hash_order run scanned db k)) keys)"
    "deletes p = concat (map (\<lambda>k. deletes (key_plan hash_order run scanned db k)) keys)"
  using assms by (simp_all add: all_planned_def append_plans empty_plan_def comp_def)

definition all_reqs ::
  "(disk_map \<Rightarrow> disk_map) \<Rightarrow> ('w, 'b) run_ctx \<Rightarrow> scanned_file list \<Rightarrow> (corpus_key \<Rightarrow> db_map)
   \<Rightarrow> corpus_key list \<Rightarrow> write_request list" where
  "all_reqs hash_order run scanned db keys =
     concat (map (\<lambda>k. plan_reqs (rc_indexed_at_ms run) k (key_plan hash_order run scanned db k)) keys)"

lemma all_planned_upsert_reqs:
  assumes ord: "permutes_maps hash_order" and p: "all_planned hash_order run S scanned keys db p"
  shows "upsert_reqs resolve (rc_indexed_at_ms run) (upserts p) = Ok (all_reqs hash_order run scanned db keys)"
proof -
  have key: "up_corpus_key u = Some k"
    if "k \<in> set keys" "u \<in> set (upserts (key_plan hash_order run scanned db k))" for k u
    by (rule root_planned_upsert_key [OF all_planned_root [OF ord p that(1)] that(2)])
  let ?req = "\<lambda>u. \<lparr>wr_corpus_key = the (up_corpus_key u), wr_file = up_file u,
      wr_mtime = smudge_racy_mtime (up_mtime u) (rc_indexed_at_ms run)\<rparr>"
  have "\<forall>u \<in> set (upserts p). up_corpus_key u = Some (the (up_corpus_key u))"
    using key by (auto simp: all_planned_parts(1) [OF p])
  from upsert_reqs_resolved [OF this]
  have "upsert_reqs resolve (rc_indexed_at_ms run) (upserts p) = Ok (map ?req (upserts p))" .
  moreover have "map ?req (upserts (key_plan hash_order run scanned db k)) =
      plan_reqs (rc_indexed_at_ms run) k (key_plan hash_order run scanned db k)" if "k \<in> set keys" for k
    using key [OF that] by (simp add: plan_reqs_def)
  then have "map ?req (upserts p) = all_reqs hash_order run scanned db keys"
    by (simp add: all_reqs_def all_planned_parts(1) [OF p] map_concat comp_def cong: map_cong)
  ultimately show ?thesis by simp
qed

lemma all_planned_changes:
  assumes ord: "permutes_maps hash_order" and p: "all_planned hash_order run S scanned keys db p"
  shows "plan_changes run keys [] (all_reqs hash_order run scanned db keys) p =
    (\<Union>k \<in> set keys. root_changes run k (db k) (disk_of scanned k))"
proof -
  have "root_changes run k (db k) (disk_of scanned k) =
      plan_changes run keys [] (plan_reqs (rc_indexed_at_ms run) k (key_plan hash_order run scanned db k))
        (key_plan hash_order run scanned db k)" if "k \<in> set keys" for k
    by (rule root_planned_changes [OF all_planned_root [OF ord p that] that, symmetric])
  then have "(\<Union>k \<in> set keys. root_changes run k (db k) (disk_of scanned k)) =
      (\<Union>k \<in> set keys. plan_changes run keys [] (plan_reqs (rc_indexed_at_ms run) k
        (key_plan hash_order run scanned db k)) (key_plan hash_order run scanned db k))"
    by (rule SUP_cong [OF refl])
  also have "\<dots> = plan_changes run keys [] (all_reqs hash_order run scanned db keys) p"
    unfolding plan_changes_def all_reqs_def all_planned_parts [OF p] by auto
  finally show ?thesis ..
qed

lemma all_planned_ok:
  assumes ord: "permutes_maps hash_order" and p: "all_planned hash_order run S scanned keys db p"
    and roots: "roots_ok keys"
  shows "plan_ok (all_reqs hash_order run scanned db keys) p"
proof -
  let ?at = "rc_indexed_at_ms run" and ?P = "key_plan hash_order run scanned db"
  let ?L = "\<lambda>k. map req_id (plan_reqs ?at k (?P k)) @ map cand_id (mtime_touches (?P k)) @ map snap_id (deletes (?P k))"
  note rp = all_planned_root [OF ord p]
  have d: "distinct (map (\<lambda>i. i) (concat (map ?L keys)))"
  proof (rule distinct_concat_keys [where ID = "\<lambda>k. range (file_id_of k)"])
    show "distinct keys" using roots by (simp add: roots_ok_def)
    show "distinct (map (\<lambda>i. i) (?L k))" if "k \<in> set keys" for k
      using root_planned_distinct [OF rp [OF that]] by (simp add: Int_Un_distrib)
    show "i \<in> range (file_id_of k)" if "k \<in> set keys" "i \<in> set (?L k)" for k i
    proof -
      from that(2) have "i \<in> set (map (\<lambda>u. file_id_of k (up_file u)) (upserts (?P k))) \<or>
          i \<in> set (map (\<lambda>c. file_id_of k (mc_file c)) (mtime_touches (?P k))) \<or>
          i \<in> set (map (\<lambda>s. file_id_of k (fs_file_ref s)) (deletes (?P k)))"
        unfolding root_planned_ids(1,2,3) [OF rp [OF that(1)]] by simp
      then show ?thesis by (elim disjE) (simp_all only: set_map, (elim imageE, simp)+)
    qed
    show "range (file_id_of k) \<inter> range (file_id_of k') = {}"
      if "k \<in> set keys" "k' \<in> set keys" "k \<noteq> k'" for k k'
      by (rule root_ids_disjoint [OF roots that])
  qed
  have m: "mset (concat (map ?L ks)) = mset (map req_id (all_reqs hash_order run scanned db ks) @
      map cand_id (concat (map (\<lambda>k. mtime_touches (?P k)) ks)) @
      map snap_id (concat (map (\<lambda>k. deletes (?P k)) ks)))" for ks
    by (induction ks) (simp_all add: all_reqs_def)
  have "distinct (map req_id (all_reqs hash_order run scanned db keys) @ map cand_id (mtime_touches p) @
      map snap_id (deletes p))"
    unfolding all_planned_parts [OF p]
    by (rule iffD1 [OF mset_eq_imp_distinct_iff [OF m] d [unfolded list.map_ident]])
  moreover have "list_all (\<lambda>c. mc_file c = fs_file_ref (mc_snap c)) (mtime_touches p)"
    using root_planned_ids(4) [OF rp] unfolding all_planned_parts [OF p] by (auto simp: list_all_iff)
  ultimately show ?thesis by (simp only: plan_ok_def)
qed

subsection \<open>Planning and applying through the port\<close>

lemma knows_listed:
  assumes d: "distinct (map fs_file_ref ss)" and k: "\<forall>s \<in> set ss. fs_corpus_key s = k"
    and S: "\<forall>f m h. (file_id_of k f, m, h) \<in> S \<longleftrightarrow>
      (\<exists>s \<in> set ss. fs_file_ref s = f \<and> fs_mtime_ms s = m \<and> fs_content_hash s = h)"
  shows "knows S k (map (\<lambda>s. (fs_file_ref s, s)) ss)"
proof -
  have "map_of (map (\<lambda>s. (fs_file_ref s, s)) ss) f = Some s \<longleftrightarrow> s \<in> set ss \<and> fs_file_ref s = f" for f s
    using d by (subst map_of_eq_Some_iff) (auto simp: comp_def)
  then show ?thesis using d k S by (auto simp: knows_def comp_def)
qed

lemma all_planned_snoc:
  assumes "all_planned hash_order run S scanned ks db p" "k \<notin> set ks" "knows S k d"
  shows "all_planned hash_order run S scanned (ks @ [k]) (db(k := d))
    (append_plan p (plan hash_order (blake3_file (rc_env run)) (disk_of scanned k) d))"
proof -
  have "map (\<lambda>x. key_plan hash_order run scanned (db(k := d)) x) ks = map (key_plan hash_order run scanned db) ks"
    using assms(2) by (intro map_cong) auto
  moreover have "\<forall>x \<in> set (ks @ [k]). knows S x ((db(k := d)) x)"
    using assms by (simp add: all_planned_def)
  moreover have "p = foldl append_plan empty_plan (map (key_plan hash_order run scanned db) ks)"
    using assms(1) by (simp add: all_planned_def)
  ultimately show ?thesis
    unfolding all_planned_def map_append foldl_append by (simp cong: map_cong del: map_eq_conv)
qed

text \<open>The run context of \<open>index_corpus\<close>.\<close>

abbreviation corpus_run :: "('w, 'b) chunk_store \<Rightarrow> disk_env \<Rightarrow> int \<Rightarrow> ('w, 'b) run_ctx" where
  "corpus_run store env at \<equiv> \<lparr>rc_store = store, rc_env = env, rc_indexed_at_ms = at,
     rc_batch_size = DEFAULT_BATCH_SIZE, rc_lane = None\<rparr>"

text \<open>What indexing the corpus changes, for what the index knows of each root.\<close>

definition corpus_changes ::
  "('w, 'b) run_ctx \<Rightarrow> corpus_key list \<Rightarrow> (corpus_key \<Rightarrow> db_map) \<Rightarrow> scanned_file list \<Rightarrow> change set" where
  "corpus_changes run keys db scanned = (\<Union>k \<in> set keys. root_changes run k (db k) (disk_of scanned k))"

context chunk_store_laws
begin

lemma hoare_planning:
  assumes dist: "distinct keys" and st: "rc_store run = store"
  shows "hoare (\<lambda>w. inv w \<and> indexed_files w = S) (for_each (root_plan hash_order run scanned) keys empty_plan)
    (\<lambda>p w. inv w \<and> indexed_files w = S \<and> (\<exists>db. all_planned hash_order run S scanned keys db p))
    (\<lambda>w. inv w \<and> indexed_files w = S)"
proof -
  let ?I = "\<lambda>d p w. inv w \<and> indexed_files w = S \<and> (\<exists>db. all_planned hash_order run S scanned d db p)"
  have "hoare (?I [] empty_plan) (for_each (root_plan hash_order run scanned) keys empty_plan) (?I keys)
      (\<lambda>w. inv w \<and> indexed_files w = S)"
  proof (rule hoare_for_each)
    fix d k rest and p :: index_plan assume keys: "keys = d @ k # rest"
    show "hoare (?I d p) (root_plan hash_order run scanned k p) (?I (d @ [k])) (\<lambda>w. inv w \<and> indexed_files w = S)"
    proof (cases "\<exists>db. all_planned hash_order run S scanned d db p")
      case True
      then obtain db where db: "all_planned hash_order run S scanned d db p" by blast
      have kd: "k \<notin> set d" using dist keys by simp
      show ?thesis unfolding root_plan_def Let_def st
      proof (rule hoare_bind)
        show "hoare (?I d p) (list_files store k) (\<lambda>ss w. inv w \<and> indexed_files w = S \<and> distinct (map fs_file_ref ss) \<and>
           (\<forall>s \<in> set ss. fs_corpus_key s = k) \<and> (\<forall>f m h. (file_id_of k f, m, h) \<in> S \<longleftrightarrow>
              (\<exists>s \<in> set ss. fs_file_ref s = f \<and> fs_mtime_ms s = m \<and> fs_content_hash s = h)))
          (\<lambda>w. inv w \<and> indexed_files w = S)"
          by (rule hoare_conseq [OF list_law [of S k]]) iprover+
        fix ss
        show "hoare (\<lambda>w. inv w \<and> indexed_files w = S \<and> distinct (map fs_file_ref ss) \<and>
           (\<forall>s \<in> set ss. fs_corpus_key s = k) \<and> (\<forall>f m h. (file_id_of k f, m, h) \<in> S \<longleftrightarrow>
              (\<exists>s \<in> set ss. fs_file_ref s = f \<and> fs_mtime_ms s = m \<and> fs_content_hash s = h)))
          (ret (append_plan p (plan hash_order (blake3_file (rc_env run)) (disk_of scanned k)
             (foldl (\<lambda>m s. hm_insert (fs_file_ref s) s m) [] ss)))) (?I (d @ [k]))
          (\<lambda>w. inv w \<and> indexed_files w = S)"
          by (rule hoare_ret) (use all_planned_snoc [OF db kd] knows_listed [of ss k S] foldl_hm_insert
              [of fs_file_ref ss] in auto)
      qed
    qed (simp add: hoare_def)
  qed
  then show ?thesis
    by (rule hoare_conseq) (auto simp: all_planned_def)
qed

lemma touch_ready_planned:
  assumes ord: "permutes_maps hash_order" and p: "all_planned hash_order run S scanned keys db p"
  shows "\<forall>c \<in> set (mtime_touches p). touch_ready run c S"
proof
  fix c assume "c \<in> set (mtime_touches p)"
  then obtain k where k: "k \<in> set keys" and c: "c \<in> set (mtime_touches (key_plan hash_order run scanned db k))"
    by (auto simp: all_planned_parts [OF p])
  note rp = all_planned_root [OF ord p k]
  from c obtain e where e: "as_touch (blake3_file (rc_env run)) (db k) e = Some c"
    unfolding root_planned_parts(2) [OF rp] by blast
  have kn: "knows S k (db k)" using p k by (simp add: all_planned_def)
  from as_touch_snap [OF kn e] have "map_of (db k) (fst e) = Some (mc_snap c)" "cand_id c = file_id_of k (fst e)"
    by simp_all
  with kn show "touch_ready run c S" by (auto simp: touch_ready_def knows_def)
qed

text \<open>Indexing a corpus makes the changes of its roots, for what the index knew of them.\<close>

lemma hoare_apply_planned:
  assumes ord: "permutes_maps hash_order" and roots: "roots_ok keys" and run: "run_ok run"
    and p: "all_planned hash_order run S scanned keys db p"
  shows "hoare (\<lambda>w. inv w \<and> indexed_files w = S) (apply_with_lane run resolve keys [] p)
    (\<lambda>_ w. inv w \<and> indexed_files w = effect (corpus_changes run keys db scanned) S)
    (\<lambda>w. inv w \<and> (\<exists>cs \<subseteq> corpus_changes run keys db scanned. indexed_files w = effect cs S))"
proof -
  have "performs (\<lambda>T. \<forall>c \<in> set (mtime_touches p). touch_ready run c T)
      (bind_op (run_in_batches run Retain [] (all_reqs hash_order run scanned db keys) stats_default) (\<lambda>stats.
       bind_op (for_each (touch_step run) (mtime_touches p) (stats, [])) (\<lambda>(stats, fallthrough).
       bind_op (run_in_batches run Evict [] (map (fallthrough_req (rc_indexed_at_ms run)) fallthrough) stats)
         (for_each (delete_step run keys) (deletes p)))))
      (corpus_changes run keys db scanned) (\<lambda>_. True)"
    using performs_apply_run [where keys = keys and pre = "[]", OF run all_planned_ok [OF ord p roots]]
    by (simp only: all_planned_changes [OF ord p] corpus_changes_def)
  then have "hoare (\<lambda>w. inv w \<and> indexed_files w = S)
      (bind_op (run_in_batches run Retain [] (all_reqs hash_order run scanned db keys) stats_default) (\<lambda>stats.
       bind_op (for_each (touch_step run) (mtime_touches p) (stats, [])) (\<lambda>(stats, fallthrough).
       bind_op (run_in_batches run Evict [] (map (fallthrough_req (rc_indexed_at_ms run)) fallthrough) stats)
         (for_each (delete_step run keys) (deletes p)))))
      (\<lambda>_ w. inv w \<and> indexed_files w = effect (corpus_changes run keys db scanned) S)
      (\<lambda>w. inv w \<and> (\<exists>cs \<subseteq> corpus_changes run keys db scanned. indexed_files w = effect cs S))"
    using touch_ready_planned [OF ord p] by (simp add: performs_def)
  moreover have "run\<lparr>rc_batch_size := max (rc_batch_size run) (Suc 0)\<rparr> = run"
  proof -
    have "max (rc_batch_size run) (Suc 0) = rc_batch_size run" using run by (simp add: run_ok_def max_def)
    then show ?thesis by simp
  qed
  ultimately show ?thesis
    by (simp add: apply_with_lane_def Let_def all_planned_upsert_reqs [OF ord p])
qed

lemma hoare_index_corpus:
  assumes ord: "permutes_maps hash_order" and roots: "roots_ok (corpus_keys canon tilde corpus)"
    and run: "run_ok (corpus_run store env at)"
  shows "hoare (\<lambda>w. inv w \<and> indexed_files w = S) (index_corpus hash_order canon tilde (Ok scanned) corpus store env at)
    (\<lambda>_ w. inv w \<and> (\<exists>db. (\<forall>k \<in> set (corpus_keys canon tilde corpus). knows S k (db k)) \<and>
       indexed_files w = effect (corpus_changes (corpus_run store env at) (corpus_keys canon tilde corpus) db scanned) S))
    (\<lambda>w. inv w \<and> (indexed_files w = S \<or> (\<exists>db cs. (\<forall>k \<in> set (corpus_keys canon tilde corpus). knows S k (db k)) \<and>
       cs \<subseteq> corpus_changes (corpus_run store env at) (corpus_keys canon tilde corpus) db scanned \<and>
       indexed_files w = effect cs S)))"
proof -
  let ?run = "corpus_run store env at" and ?keys = "corpus_keys canon tilde corpus"
  have dist: "distinct ?keys" using roots by (simp add: roots_ok_def)
  show ?thesis unfolding index_corpus_def Let_def bind_op_simps apply_plan_def
  proof (rule hoare_bind)
    show "hoare (\<lambda>w. inv w \<and> indexed_files w = S) (for_each (root_plan hash_order ?run scanned) ?keys empty_plan)
      (\<lambda>p w. inv w \<and> indexed_files w = S \<and> (\<exists>db. all_planned hash_order ?run S scanned ?keys db p))
      (\<lambda>w. inv w \<and> (indexed_files w = S \<or> (\<exists>db cs. (\<forall>k \<in> set ?keys. knows S k (db k)) \<and>
         cs \<subseteq> corpus_changes ?run ?keys db scanned \<and> indexed_files w = effect cs S)))"
      by (rule hoare_conseq [OF hoare_planning [OF dist, of ?run S]]) (simp, iprover+)
    fix p
    show "hoare (\<lambda>w. inv w \<and> indexed_files w = S \<and> (\<exists>db. all_planned hash_order ?run S scanned ?keys db p))
      (apply_with_lane ?run (corpus_key_for_file canon tilde corpus) ?keys [] p)
      (\<lambda>_ w. inv w \<and> (\<exists>db. (\<forall>k \<in> set ?keys. knows S k (db k)) \<and>
         indexed_files w = effect (corpus_changes ?run ?keys db scanned) S))
      (\<lambda>w. inv w \<and> (indexed_files w = S \<or> (\<exists>db cs. (\<forall>k \<in> set ?keys. knows S k (db k)) \<and>
         cs \<subseteq> corpus_changes ?run ?keys db scanned \<and> indexed_files w = effect cs S)))"
    proof (cases "\<exists>db. all_planned hash_order ?run S scanned ?keys db p")
      case True
      then obtain db where db: "all_planned hash_order ?run S scanned ?keys db p" by blast
      then have "\<forall>k \<in> set ?keys. knows S k (db k)" by (simp add: all_planned_def)
      then show ?thesis
        by (intro hoare_conseq [OF hoare_apply_planned [OF ord roots run db]]) blast+
    qed (simp add: hoare_def)
  qed
qed

end

subsection \<open>What becomes of each file\<close>

text \<open>The file reads as \<open>b\<close> and its handler makes chunks of it; the file is skipped.\<close>

definition indexable :: "disk_env \<Rightarrow> int \<Rightarrow> corpus_key \<Rightarrow> string \<Rightarrow> string \<Rightarrow> bool" where
  "indexable env at k f b \<longleftrightarrow> read_file env f = Ok b \<and>
     (\<forall>m. \<exists>pf. prepare_file env \<lparr>wr_corpus_key = k, wr_file = f, wr_mtime = m\<rparr> at None = Ok (PreparedFile pf) \<and>
        pf_chunks pf \<noteq> [])"

definition skipped :: "disk_env \<Rightarrow> int \<Rightarrow> corpus_key \<Rightarrow> string \<Rightarrow> bool" where
  "skipped env at k f \<longleftrightarrow>
     (\<forall>m. \<exists>r. prepare_file env \<lparr>wr_corpus_key = k, wr_file = f, wr_mtime = m\<rparr> at None = Ok (Skipped r))"

lemma request_changes_indexable:
  assumes hok: "handlers_ok (registry (rc_env run))" and ix: "indexable (rc_env run) (rc_indexed_at_ms run) k (fst e) b"
  shows "\<exists>m. request_changes run policy [] (entry_req (rc_indexed_at_ms run) k e) =
    {(file_id_of k (fst e), Some (m, blake3_hex (rc_env run) b))}"
proof -
  let ?r = "entry_req (rc_indexed_at_ms run) k e"
  from ix obtain pf where pf: "prepare_file (rc_env run) ?r (rc_indexed_at_ms run) None = Ok (PreparedFile pf)"
    "pf_chunks pf \<noteq> []" by (auto simp: indexable_def entry_req_def)
  then have fw: "file_to_write run [] ?r = Some pf" "eviction run policy [] ?r = {}"
    by (simp_all add: file_to_write_def eviction_def prepared_of_def bytes_override_def)
  from prepare_file_identity [OF hok pf(1)] ix have "content_hash pf = blake3_hex (rc_env run) b"
    by (simp add: indexable_def entry_req_def)
  moreover have "put_change pf = (file_id_of k (fst e), Some (wr_mtime ?r, content_hash pf))"
    using file_to_write_identity [OF hok fw(1)] by (simp add: entry_req_def)
  ultimately show ?thesis using fw by (auto simp: request_changes_def)
qed

lemma request_changes_skipped:
  assumes "skipped (rc_env run) (rc_indexed_at_ms run) k (fst e)"
  shows "request_changes run policy [] (entry_req (rc_indexed_at_ms run) k e) = {}"
proof -
  from assms obtain r where "prepare_file (rc_env run) (entry_req (rc_indexed_at_ms run) k e) (rc_indexed_at_ms run) None
      = Ok (Skipped r)" by (auto simp: skipped_def entry_req_def)
  then show ?thesis
    by (simp add: request_changes_def file_to_write_def eviction_def prepared_of_def bytes_override_def)
qed

lemma entry_changes_indexable:
  assumes hok: "handlers_ok (registry (rc_env run))" and kn: "knows S k db"
    and ix: "indexable (rc_env run) (rc_indexed_at_ms run) k (fst e) b"
  shows "(\<exists>m. entry_changes run k db e = {(file_id_of k (fst e), Some (m, blake3_hex (rc_env run) b))}) \<or>
    entry_changes run k db e = {} \<and> (\<exists>m. (file_id_of k (fst e), m, blake3_hex (rc_env run) b) \<in> S)"
proof (cases "map_of db (fst e)")
  case None
  then show ?thesis using request_changes_indexable [OF hok ix] by (simp add: entry_changes_def)
next
  case (Some s)
  have h: "blake3_file (rc_env run) (fst e) = Ok (blake3_hex (rc_env run) b)"
    using ix by (simp add: blake3_file_def indexable_def)
  show ?thesis
  proof (cases "as_touch (blake3_file (rc_env run)) db e")
    case None
    with Some h have "fs_content_hash s = blake3_hex (rc_env run) b"
      by (auto simp: as_touch_def split: prod.splits if_splits)
    with Some kn have "\<exists>m. (file_id_of k (fst e), m, blake3_hex (rc_env run) b) \<in> S" by (auto simp: knows_def)
    with None Some show ?thesis by (simp add: entry_changes_def)
  next
    case (Some c)
    note c = as_touch_snap [OF kn Some]
    have ch: "cand_hash run c = Ok (blake3_hex (rc_env run) b)"
      using Some h by (auto simp: as_touch_def cand_hash_def split: prod.splits option.splits if_splits)
    show ?thesis
    proof (cases "falls_through run c")
      case True
      with Some c show ?thesis using request_changes_indexable [OF hok ix] by (simp add: entry_changes_def)
    next
      case False
      with ch have "fs_content_hash (mc_snap c) = blake3_hex (rc_env run) b" by (simp add: falls_through_def)
      with False Some c ch show ?thesis by (simp add: entry_changes_def touch_changes_def)
    qed
  qed
qed

lemma entry_changes_skipped:
  assumes kn: "knows S k db" and sk: "skipped (rc_env run) (rc_indexed_at_ms run) k (fst e)"
    and S: "(file_id_of k (fst e), m, h) \<in> S"
  shows "(\<exists>m'. entry_changes run k db e = {(file_id_of k (fst e), Some (m', h))}) \<or> entry_changes run k db e = {}"
proof -
  from kn S obtain s where s: "map_of db (fst e) = Some s" "fs_content_hash s = h" by (auto simp: knows_def)
  show ?thesis
  proof (cases "as_touch (blake3_file (rc_env run)) db e")
    case None
    with s show ?thesis by (simp add: entry_changes_def)
  next
    case (Some c)
    with as_touch_snap [OF kn Some] s request_changes_skipped [OF sk] show ?thesis
      by (simp add: entry_changes_def touch_changes_def)
  qed
qed

text \<open>The changes of one file are those of its own entry.\<close>

lemma corpus_changes_file:
  assumes roots: "roots_ok keys" and k: "k \<in> set keys" and kn: "\<forall>k \<in> set keys. knows S k (db k)"
    and hok: "handlers_ok (registry (rc_env run))"
  shows "(file_id_of k f, v) \<in> corpus_changes run keys db scanned \<longleftrightarrow>
    (\<exists>e \<in> set (disk_by_file (disk_of scanned k)). fst e = f \<and> (file_id_of k f, v) \<in> entry_changes run k (db k) e) \<or>
    v = None \<and> f \<in> fst ` set (db k) \<and> f \<notin> fst ` set (disk_of scanned k)" (is "?lhs \<longleftrightarrow> ?rhs")
proof
  assume ?lhs
  then obtain k' where k': "k' \<in> set keys" and c: "(file_id_of k f, v) \<in> root_changes run k' (db k') (disk_of scanned k')"
    by (auto simp: corpus_changes_def)
  from c consider e where "e \<in> set (disk_by_file (disk_of scanned k'))"
      "(file_id_of k f, v) \<in> entry_changes run k' (db k') e"
    | d where "d \<in> set (db k')" "fst d \<notin> fst ` set (disk_of scanned k')" "(file_id_of k f, v) = (file_id_of k' (fst d), None)"
    unfolding root_changes_def by blast
  then show ?rhs
  proof cases
    case 1
    have "file_id_of k f \<in> fst ` entry_changes run k' (db k') e" using 1(2) by (metis fst_conv image_eqI)
    with entry_changes_ids [OF hok bspec [OF kn k'], of e] have "file_id_of k f = file_id_of k' (fst e)" by blast
    from file_id_inj [OF roots k k' this] have eq: "k' = k" "fst e = f" by simp_all
    show ?thesis by (rule disjI1, rule bexI [of _ e]) (use 1 eq in simp_all)
  next
    case 2
    from 2(3) have "file_id_of k f = file_id_of k' (fst d)" and v: "v = None" by simp_all
    from file_id_inj [OF roots k k' this(1)] have eq: "k' = k" "f = fst d" by simp_all
    show ?thesis by (rule disjI2) (use 2(1,2) v eq in simp)
  qed
next
  assume ?rhs
  then consider e where "e \<in> set (disk_by_file (disk_of scanned k))" "(file_id_of k f, v) \<in> entry_changes run k (db k) e"
    | s where "v = None" "(f, s) \<in> set (db k)" "f \<notin> fst ` set (disk_of scanned k)" by auto
  then have "(file_id_of k f, v) \<in> root_changes run k (db k) (disk_of scanned k)"
  proof cases
    case 1
    then show ?thesis unfolding root_changes_def by (intro UnI1 UN_I)
  next
    case 2
    then show ?thesis unfolding root_changes_def by (intro UnI2 image_eqI [of _ _ "(f, s)"]) simp_all
  qed
  with k show ?lhs unfolding corpus_changes_def by (rule UN_I)
qed

text \<open>
  The index after an indexing run: what it says of each file of the corpus, and that it says
  the same as before of everything else.
\<close>

definition in_sync ::
  "disk_env \<Rightarrow> int \<Rightarrow> corpus_key list \<Rightarrow> scanned_file list \<Rightarrow> indexed \<Rightarrow> indexed \<Rightarrow> bool" where
  "in_sync env at keys scanned S X \<longleftrightarrow>
     (\<forall>k \<in> set keys. \<forall>f.
        (f \<notin> fst ` set (disk_of scanned k) \<longrightarrow> (\<forall>v. (file_id_of k f, v) \<notin> X)) \<and>
        (f \<in> fst ` set (disk_of scanned k) \<longrightarrow>
           (\<forall>b. indexable env at k f b \<longrightarrow>
              (\<forall>m h. (file_id_of k f, m, h) \<in> X \<longrightarrow> h = blake3_hex env b) \<and>
              (\<exists>m. (file_id_of k f, m, blake3_hex env b) \<in> X)) \<and>
           (skipped env at k f \<longrightarrow>
              (\<forall>m h. (file_id_of k f, m, h) \<in> S \<longrightarrow> (\<exists>m'. (file_id_of k f, m', h) \<in> X))))) \<and>
     (\<forall>i. i \<notin> (\<Union>k \<in> set keys. range (file_id_of k)) \<longrightarrow> (\<forall>v. (i, v) \<in> X \<longleftrightarrow> (i, v) \<in> S))"

lemma disk_entry_unique:
  "e \<in> set (disk_by_file disk) \<Longrightarrow> e' \<in> set (disk_by_file disk) \<Longrightarrow> fst e = fst e' \<Longrightarrow> e = e'"
  using disk_by_file_distinct [of disk] by (metis distinct_map inj_onD)

lemma disk_entry_iff: "f \<in> fst ` set disk \<longleftrightarrow> (\<exists>e \<in> set (disk_by_file disk). fst e = f)"
  unfolding disk_by_file_keys [of disk, symmetric] by auto

lemma corpus_changes_in_sync:
  assumes roots: "roots_ok keys" and kn: "\<forall>k \<in> set keys. knows S k (db k)"
    and hok: "handlers_ok (registry (rc_env run))"
  shows "in_sync (rc_env run) (rc_indexed_at_ms run) keys scanned S (effect (corpus_changes run keys db scanned) S)"
proof -
  let ?C = "corpus_changes run keys db scanned" and ?env = "rc_env run" and ?at = "rc_indexed_at_ms run"
  note fl = corpus_changes_file [OF roots _ kn hok, where scanned = scanned]
  have id: "i \<in> fst ` ?C \<longleftrightarrow> (\<exists>v. (i, v) \<in> ?C)" for i by force
  have gone: "(file_id_of k f, v) \<notin> effect ?C S" if k: "k \<in> set keys" and f: "f \<notin> fst ` set (disk_of scanned k)" for k f v
  proof -
    have none: "e \<notin> set (disk_by_file (disk_of scanned k))" if "fst e = f" for e
      using f that unfolding disk_entry_iff by blast
    have "(file_id_of k f, Some v) \<notin> ?C" unfolding fl [OF k] using none by blast
    moreover have "file_id_of k f \<in> fst ` ?C" if "(file_id_of k f, v) \<in> S"
    proof -
      obtain m h where "v = (m, h)" by (cases v)
      with that k kn obtain s where "map_of (db k) f = Some s" by (auto simp: knows_def)
      then have "f \<in> fst ` set (db k)" by (metis domI dom_map_of_conv_image_fst)
      then show ?thesis unfolding id fl [OF k] using f by blast
    qed
    ultimately show ?thesis unfolding effect_mem by blast
  qed
  have entry: "\<exists>e \<in> set (disk_by_file (disk_of scanned k)). fst e = f" if "f \<in> fst ` set (disk_of scanned k)" for k f
    using that unfolding disk_entry_iff .
  have own: "(file_id_of k f, v) \<in> ?C \<longleftrightarrow> (file_id_of k f, v) \<in> entry_changes run k (db k) e"
    if "k \<in> set keys" "e \<in> set (disk_by_file (disk_of scanned k))" "fst e = f" for k f e v
  proof -
    have "f \<in> fst ` set (disk_of scanned k)" using that(2,3) unfolding disk_entry_iff by blast
    then show ?thesis unfolding fl [OF that(1)] using that disk_entry_unique by metis
  qed
  have fresh: "(\<forall>m h. (file_id_of k f, m, h) \<in> effect ?C S \<longrightarrow> h = blake3_hex ?env b) \<and>
      (\<exists>m. (file_id_of k f, m, blake3_hex ?env b) \<in> effect ?C S)"
    if k: "k \<in> set keys" and f: "f \<in> fst ` set (disk_of scanned k)" and ix: "indexable ?env ?at k f b" for k f b
  proof -
    from entry [OF f] obtain e where e: "e \<in> set (disk_by_file (disk_of scanned k))" "fst e = f" by blast
    have knk: "knows S k (db k)" using kn k by blast
    from entry_changes_indexable [OF hok knk, of e b] ix e(2)
    consider m where "entry_changes run k (db k) e = {(file_id_of k f, Some (m, blake3_hex ?env b))}"
      | m where "entry_changes run k (db k) e = {}" "(file_id_of k f, m, blake3_hex ?env b) \<in> S" by auto
    then show ?thesis
    proof cases
      case 1
      then have "(file_id_of k f, v) \<in> ?C \<longleftrightarrow> v = Some (m, blake3_hex ?env b)" for v
        unfolding own [OF k e] by simp
      then have "(file_id_of k f, v) \<in> effect ?C S \<longleftrightarrow> v = (m, blake3_hex ?env b)" for v
        unfolding effect_mem id by simp
      then show ?thesis by simp
    next
      case 2
      then have no: "(file_id_of k f, v) \<notin> ?C" for v unfolding own [OF k e] by simp
      have "h = blake3_hex ?env b" if "(file_id_of k f, m', h) \<in> S" for m' h
        using that 2(2) unfolding knows_mem [OF knk] by force
      moreover have "(file_id_of k f, v) \<in> effect ?C S \<longleftrightarrow> (file_id_of k f, v) \<in> S" for v
        unfolding effect_mem id using no by simp
      ultimately show ?thesis using 2(2) by metis
    qed
  qed
  have kept: "\<exists>m'. (file_id_of k f, m', h) \<in> effect ?C S"
    if k: "k \<in> set keys" and f: "f \<in> fst ` set (disk_of scanned k)" and sk: "skipped ?env ?at k f"
      and S: "(file_id_of k f, m, h) \<in> S" for k f m h
  proof -
    from entry [OF f] obtain e where e: "e \<in> set (disk_by_file (disk_of scanned k))" "fst e = f" by blast
    have knk: "knows S k (db k)" using kn k by blast
    from entry_changes_skipped [OF knk, of run e m h] sk S e(2)
    consider m' where "entry_changes run k (db k) e = {(file_id_of k f, Some (m', h))}"
      | "entry_changes run k (db k) e = {}" by auto
    then show ?thesis
    proof cases
      case 1
      then have "(file_id_of k f, m', h) \<in> effect ?C S" unfolding effect_mem id own [OF k e] by simp
      then show ?thesis ..
    next
      case 2
      then have "(file_id_of k f, m, h) \<in> effect ?C S" unfolding effect_mem id own [OF k e] using S by simp
      then show ?thesis ..
    qed
  qed
  have other: "(i, v) \<in> effect ?C S \<longleftrightarrow> (i, v) \<in> S" if i: "i \<notin> (\<Union>k \<in> set keys. range (file_id_of k))" for i v
  proof -
    have "(i, v') \<notin> ?C" for v'
    proof
      assume "(i, v') \<in> ?C"
      then obtain k where k: "k \<in> set keys" and c: "(i, v') \<in> root_changes run k (db k) (disk_of scanned k)"
        by (auto simp: corpus_changes_def)
      have "i \<in> range (file_id_of k)"
      proof -
        have ids: "fst ` \<Union>(entry_changes run k (db k) ` D) \<subseteq> (\<lambda>e. file_id_of k (fst e)) ` D" for D
          by (rule fst_UN_subset) (rule entry_changes_ids [OF hok bspec [OF kn k]])
        from c consider "(i, v') \<in> \<Union>(entry_changes run k (db k) ` set (disk_by_file (disk_of scanned k)))"
          | d where "i = file_id_of k (fst d)" unfolding root_changes_def by auto
        then show ?thesis
        proof cases
          case 1
          then have "i \<in> fst ` \<Union>(entry_changes run k (db k) ` set (disk_by_file (disk_of scanned k)))"
            by (metis fst_conv image_eqI)
          with ids have "i \<in> (\<lambda>e. file_id_of k (fst e)) ` set (disk_by_file (disk_of scanned k))" by blast
          then show ?thesis by (elim imageE) simp
        qed (rule range_eqI)
      qed
      with k i show False by blast
    qed
    then show ?thesis unfolding effect_mem id by blast
  qed
  show ?thesis unfolding in_sync_def
    apply (intro conjI ballI allI impI)
    subgoal by (rule gone)
    subgoal by (rule fresh [THEN conjunct1, rule_format])
    subgoal by (rule fresh [THEN conjunct2])
    subgoal by (rule kept)
    subgoal by (rule other)
    done
qed

end
