(* ===== verification/Lance_Filter.thy ===== *)
theory Lance_Filter
  imports Content_Key
begin

text \<open>
  The row filters of \<open>adapters/lance.rs\<close>. The code hands LanceDB a predicate as SQL text,
  built from corpus names, roots, paths and content keys. \<open>row_filter\<close> is what such a text
  means and \<open>parse_filter\<close> reads the text back, so that no name, root or path can change
  which rows a filter selects.
\<close>

subsection \<open>The rows of the two tables\<close>

record map_row =
  mr_corpus :: string
  mr_root :: string
  mr_file_ref :: string
  mr_mtime_ms :: int
  mr_content_hash :: string
  mr_content_key :: string
  mr_chunk_count :: nat
  mr_indexed_at_ms :: int

record 'v content_row =
  cr_chunk_id :: string
  cr_content_key :: string
  cr_summary :: string
  cr_keywords :: "string list"
  cr_frontmatter :: "string option"
  cr_indexed_at_ms :: int
  cr_chunk :: prepared_chunk
  cr_embedding :: "'v option"

subsection \<open>Filter texts\<close>

abbreviation QUOTE :: char where "QUOTE \<equiv> CHR 0x27"

definition escape_sql_str :: "string \<Rightarrow> string" where
  "escape_sql_str s = concat (map (\<lambda>c. if c = QUOTE then [QUOTE, QUOTE] else [c]) s)"

definition sql_quote :: "string \<Rightarrow> string" where
  "sql_quote s = [QUOTE] @ escape_sql_str s @ [QUOTE]"

definition root_str :: "corpus_key \<Rightarrow> string option" where
  "root_str k = to_str (path_string (canonical_root k))"

definition not_utf8_root :: "corpus_key \<Rightarrow> hall_error" where
  "not_utf8_root k = EIndexer (''canonical corpus root is not valid UTF-8: '' @ path_string (canonical_root k))"

definition corpus_key_filter :: "corpus_key \<Rightarrow> string hall_result" where
  "corpus_key_filter k =
     (case root_str k of
        None \<Rightarrow> Err (not_utf8_root k)
      | Some root \<Rightarrow> Ok (''corpus = '' @ sql_quote (ck_name k) @ '' AND root = '' @ sql_quote root))"

definition file_map_filter :: "corpus_key \<Rightarrow> string \<Rightarrow> string hall_result" where
  "file_map_filter k file_ref =
     result_bind (corpus_key_filter k) (\<lambda>f. Ok (f @ '' AND file_ref = '' @ sql_quote file_ref))"

definition root_filter :: "string \<Rightarrow> string" where
  "root_filter root = ''root = '' @ sql_quote root"

definition content_key_in_filter :: "string list \<Rightarrow> string" where
  "content_key_in_filter keys = ''content_key IN ('' @ join_str '', '' (map sql_quote keys) @ '')''"

definition stored_key_filter :: "string list \<Rightarrow> string" where
  "stored_key_filter keys = content_key_in_filter keys @ '' AND ord = 0''"

definition first_chunk_filter :: string where
  "first_chunk_filter = ''ord = 0''"

subsection \<open>What a filter text means\<close>

datatype row_filter =
    CorpusRoot string string
  | CorpusFile string string string
  | RootOnly string
  | ContentKeys "string list"
  | StoredKeys "string list"
  | FirstChunks

fun filter_sql :: "row_filter \<Rightarrow> string" where
  "filter_sql (CorpusRoot name root) = ''corpus = '' @ sql_quote name @ '' AND root = '' @ sql_quote root"
| "filter_sql (CorpusFile name root f) =
     ''corpus = '' @ sql_quote name @ '' AND root = '' @ sql_quote root @ '' AND file_ref = '' @ sql_quote f"
| "filter_sql (RootOnly root) = root_filter root"
| "filter_sql (ContentKeys keys) = content_key_in_filter keys"
| "filter_sql (StoredKeys keys) = stored_key_filter keys"
| "filter_sql FirstChunks = first_chunk_filter"

fun map_matches :: "row_filter \<Rightarrow> map_row \<Rightarrow> bool" where
  "map_matches (CorpusRoot name root) r \<longleftrightarrow> mr_corpus r = name \<and> mr_root r = root"
| "map_matches (CorpusFile name root f) r \<longleftrightarrow> mr_corpus r = name \<and> mr_root r = root \<and> mr_file_ref r = f"
| "map_matches (RootOnly root) r \<longleftrightarrow> mr_root r = root"
| "map_matches (ContentKeys keys) r \<longleftrightarrow> mr_content_key r \<in> set keys"
| "map_matches (StoredKeys keys) r \<longleftrightarrow> False"
| "map_matches FirstChunks r \<longleftrightarrow> False"

fun content_matches :: "row_filter \<Rightarrow> 'v content_row \<Rightarrow> bool" where
  "content_matches (ContentKeys keys) r \<longleftrightarrow> cr_content_key r \<in> set keys"
| "content_matches (StoredKeys keys) r \<longleftrightarrow> cr_content_key r \<in> set keys \<and> pc_ord (cr_chunk r) = 0"
| "content_matches FirstChunks r \<longleftrightarrow> pc_ord (cr_chunk r) = 0"
| "content_matches _ r \<longleftrightarrow> False"

lemma corpus_key_filter_sql:
  "corpus_key_filter k = (case root_str k of None \<Rightarrow> Err (not_utf8_root k)
     | Some root \<Rightarrow> Ok (filter_sql (CorpusRoot (ck_name k) root)))"
  by (simp add: corpus_key_filter_def split: option.split)

lemma file_map_filter_sql:
  "file_map_filter k f = (case root_str k of None \<Rightarrow> Err (not_utf8_root k)
     | Some root \<Rightarrow> Ok (filter_sql (CorpusFile (ck_name k) root f)))"
  by (simp add: file_map_filter_def corpus_key_filter_def result_bind_def split: option.split)

subsection \<open>Reading a filter text back\<close>

text \<open>A standard SQL string literal: a doubled quote is a quote, a single one ends it.\<close>

fun scan_literal :: "string \<Rightarrow> (string \<times> string) option" where
  "scan_literal (c # d # s) =
     (if c = QUOTE then
        (if d = QUOTE then map_option (\<lambda>(l, rest). (QUOTE # l, rest)) (scan_literal s)
         else Some ([], d # s))
      else map_option (\<lambda>(l, rest). (c # l, rest)) (scan_literal (d # s)))"
| "scan_literal [c] = (if c = QUOTE then Some ([], []) else None)"
| "scan_literal [] = None"

fun parse_quoted :: "string \<Rightarrow> (string \<times> string) option" where
  "parse_quoted (c # s) = (if c = QUOTE then scan_literal s else None)"
| "parse_quoted [] = None"

lemma scan_literal_escape:
  assumes "rest = [] \<or> hd rest \<noteq> QUOTE"
  shows "scan_literal (escape_sql_str s @ QUOTE # rest) = Some (s, rest)"
proof (induction s)
  case Nil
  show ?case using assms by (cases rest) (auto simp: escape_sql_str_def)
next
  case (Cons c s)
  show ?case
  proof (cases "c = QUOTE")
    case False
    obtain d u where "escape_sql_str s @ QUOTE # rest = d # u"
      by (cases "escape_sql_str s @ QUOTE # rest") auto
    with Cons False show ?thesis by (simp add: escape_sql_str_def)
  qed (use Cons in \<open>simp add: escape_sql_str_def\<close>)
qed

lemma parse_quoted_sql [simp]:
  "rest = [] \<or> hd rest \<noteq> QUOTE \<Longrightarrow> parse_quoted (sql_quote s @ rest) = Some (s, rest)"
  using scan_literal_escape [of rest s] by (simp add: sql_quote_def)

lemma parse_quoted_sql_end [simp]: "parse_quoted (sql_quote s) = Some (s, [])"
  using parse_quoted_sql [of "[]" s] by simp

text \<open>The quoted keys of an \<open>IN\<close> list, with \<open>fuel\<close> for as many as the text can hold.\<close>

fun parse_keys :: "nat \<Rightarrow> string \<Rightarrow> (string list \<times> string) option" where
  "parse_keys 0 s = None"
| "parse_keys (Suc fuel) s =
     (case parse_quoted s of
        None \<Rightarrow> None
      | Some (k, rest) \<Rightarrow>
          (case strip_prefix_str '', '' rest of
             Some next_keys \<Rightarrow> map_option (\<lambda>(ks, r). (k # ks, r)) (parse_keys fuel next_keys)
           | None \<Rightarrow> Some ([k], rest)))"

definition parse_in :: "string \<Rightarrow> (string list \<times> string) option" where
  "parse_in s =
     (case strip_prefix_str '')'' s of
        Some rest \<Rightarrow> Some ([], rest)
      | None \<Rightarrow>
          (case parse_keys (length s) s of
             None \<Rightarrow> None
           | Some (ks, rest) \<Rightarrow> map_option (\<lambda>r. (ks, r)) (strip_prefix_str '')'' rest)))"

definition parse_corpus :: "string \<Rightarrow> row_filter option" where
  "parse_corpus s =
     (case parse_quoted s of None \<Rightarrow> None | Some (name, rest) \<Rightarrow>
       (case strip_prefix_str '' AND root = '' rest of None \<Rightarrow> None | Some rest \<Rightarrow>
         (case parse_quoted rest of None \<Rightarrow> None | Some (root, rest) \<Rightarrow>
           (if rest = [] then Some (CorpusRoot name root)
            else (case strip_prefix_str '' AND file_ref = '' rest of None \<Rightarrow> None | Some rest \<Rightarrow>
              (case parse_quoted rest of
                 Some (f, []) \<Rightarrow> Some (CorpusFile name root f)
               | _ \<Rightarrow> None))))))"

definition parse_filter :: "string \<Rightarrow> row_filter option" where
  "parse_filter s =
     (case strip_prefix_str ''corpus = '' s of Some rest \<Rightarrow> parse_corpus rest | None \<Rightarrow>
       (case strip_prefix_str ''root = '' s of
          Some rest \<Rightarrow> (case parse_quoted rest of Some (root, []) \<Rightarrow> Some (RootOnly root) | _ \<Rightarrow> None)
        | None \<Rightarrow>
            (case strip_prefix_str ''content_key IN ('' s of
               Some rest \<Rightarrow>
                 (case parse_in rest of
                    Some (keys, tail) \<Rightarrow>
                      (if tail = [] then Some (ContentKeys keys)
                       else if tail = '' AND ord = 0'' then Some (StoredKeys keys) else None)
                  | None \<Rightarrow> None)
             | None \<Rightarrow> (if s = ''ord = 0'' then Some FirstChunks else None))))"

lemma strip_prefix_str_simps [simp]:
  "strip_prefix_str [] s = Some s"
  "strip_prefix_str (p # ps) [] = None"
  "strip_prefix_str (p # ps) (c # s) = (if c = p then strip_prefix_str ps s else None)"
  by (auto simp: strip_prefix_str_def starts_with_def)

lemma sql_quote_not_nil [simp]: "sql_quote s \<noteq> []" "hd (sql_quote s @ t) = QUOTE" "hd (sql_quote s) = QUOTE"
  by (simp_all add: sql_quote_def)

lemma sql_quote_longer: "2 \<le> length (sql_quote s)"
  by (simp add: sql_quote_def)

lemma parse_keys_join:
  "length keys < fuel \<Longrightarrow>
   parse_keys fuel (join_str '', '' (map sql_quote (k # keys)) @ '')'' @ tail) = Some (k # keys, '')'' @ tail)"
proof (induction keys arbitrary: k fuel)
  case Nil
  then obtain f where "fuel = Suc f" by (cases fuel) auto
  then show ?case by simp
next
  case (Cons k' keys)
  then obtain f where f: "fuel = Suc f" "length keys < f" by (cases fuel) auto
  with Cons.IH [of f k'] show ?case by simp
qed

lemma join_length: "length keys \<le> length (join_str '', '' (map sql_quote keys))"
proof (induction keys)
  case (Cons k keys)
  then show ?case using sql_quote_longer [of k] by (cases keys) auto
qed simp

lemma parse_in_keys [simp]:
  "parse_in (join_str '', '' (map sql_quote keys) @ '')'' @ tail) = Some (keys, tail)"
proof (cases keys)
  case Nil
  then show ?thesis by (simp add: parse_in_def)
next
  case (Cons k ks)
  let ?s = "join_str '', '' (map sql_quote (k # ks)) @ '')'' @ tail"
  have "\<exists>u. ?s = QUOTE # u" by (cases ks) (simp_all add: sql_quote_def)
  then have "strip_prefix_str '')'' ?s = None" by auto
  moreover have "length ks < length ?s" using join_length [of "k # ks"] by simp
  ultimately show ?thesis using parse_keys_join [of ks "length ?s" k tail] Cons
    by (simp only: parse_in_def option.case prod.case map_option_case strip_prefix_str_simps append.simps if_True refl)
qed

lemma parse_corpus_root:
  "parse_corpus (sql_quote name @ '' AND root = '' @ sql_quote root) = Some (CorpusRoot name root)"
  by (simp add: parse_corpus_def)

lemmas parse_corpus_simps [simp] = parse_corpus_root [simplified]

lemma parse_corpus_file:
  "parse_corpus (sql_quote name @ '' AND root = '' @ sql_quote root @ '' AND file_ref = '' @ sql_quote f) =
     Some (CorpusFile name root f)"
  by (simp add: parse_corpus_def)

lemmas parse_corpus_file_simps [simp] = parse_corpus_file [simplified]

lemma parse_filter_text: "parse_filter (filter_sql f) = Some f"
proof (cases f)
  case (CorpusRoot name root)
  then show ?thesis by (simp add: parse_filter_def)
next
  case (CorpusFile name root fr)
  then show ?thesis by (simp add: parse_filter_def)
next
  case (RootOnly root)
  then show ?thesis by (simp add: parse_filter_def root_filter_def)
next
  case (ContentKeys keys)
  then show ?thesis using parse_in_keys [of keys "[]"]
    by (simp add: parse_filter_def content_key_in_filter_def)
next
  case (StoredKeys keys)
  then show ?thesis using parse_in_keys [of keys "'' AND ord = 0''"]
    by (simp add: parse_filter_def stored_key_filter_def content_key_in_filter_def)
next
  case FirstChunks
  then show ?thesis by (simp add: parse_filter_def first_chunk_filter_def)
qed

subsection \<open>Property\<close>

text \<open>
  C20. A filter text means what it was built from: reading it back as SQL gives the corpus
  name, root, path or keys it was built from, whatever quotes or SQL they contain. No name,
  root or path can widen a delete or a scan to other rows.
\<close>

theorem filter_text_roundtrip:
  "(case corpus_key_filter k of Ok s \<Rightarrow> parse_filter s | Err _ \<Rightarrow> None) =
     map_option (CorpusRoot (ck_name k)) (root_str k) \<and>
   (case file_map_filter k f of Ok s \<Rightarrow> parse_filter s | Err _ \<Rightarrow> None) =
     map_option (\<lambda>root. CorpusFile (ck_name k) root f) (root_str k) \<and>
   parse_filter (root_filter r) = Some (RootOnly r) \<and>
   parse_filter (content_key_in_filter keys) = Some (ContentKeys keys) \<and>
   parse_filter (stored_key_filter keys) = Some (StoredKeys keys)"
  using parse_filter_text [of "RootOnly r"] parse_filter_text [of "ContentKeys keys"]
    parse_filter_text [of "StoredKeys keys"]
  by (simp add: corpus_key_filter_sql file_map_filter_sql parse_filter_text del: filter_sql.simps(1,2)
      split: option.split)

end
