(* ===== verification/Lance_Store.thy ===== *)
theory Lance_Store
  imports Lance_Filter Chunk_Store
begin

text \<open>
  The write side of \<open>adapters/lance.rs\<close>: the content table of shared chunk rows and the file
  map that binds the files of every root to content keys. LanceDB is not part of the
  repository: its table operations are the fields of \<open>lance_db\<close>, an argument, on an opaque
  database state \<open>'d\<close>; \<open>'v\<close> is an embedding vector. A scan returns whole rows, of which the
  code decodes the columns it asked for. Hash sets are lists without repetitions and hash
  maps are maps; no operation here depends on their order.
\<close>

subsection \<open>The database\<close>

datatype lance_table = ContentTable | FilesTable

datatype index_type = IndexFTS | IndexFm | IndexBTree | IndexAuto | IndexOther

record index_config =
  ic_name :: string
  ic_type :: index_type
  ic_columns :: "string list"

record ('d, 'v) lance_db =
  scan_map :: "string option \<Rightarrow> nat option \<Rightarrow> ('d, map_row list) op"
  scan_content :: "string option \<Rightarrow> ('d, 'v content_row list) op"
  add_content :: "'v content_row list \<Rightarrow> ('d, unit) op"
  merge_map :: "map_row list \<Rightarrow> ('d, unit) op"
  update_mtime :: "string \<Rightarrow> int \<Rightarrow> ('d, unit) op"
  delete_map :: "string \<Rightarrow> ('d, nat) op"
  delete_content :: "string \<Rightarrow> ('d, nat) op"
  list_indices :: "lance_table \<Rightarrow> ('d, index_config list) op"
  optimize_indices :: "lance_table \<Rightarrow> string list \<Rightarrow> ('d, unit) op"
  create_index :: "lance_table \<Rightarrow> string \<Rightarrow> index_type \<Rightarrow> ('d, unit) op"
  index_stats :: "string \<Rightarrow> ('d, (u64 \<times> u64) option) op"
  count_rows :: "('d, nat) op"

text \<open>The two latches of the store are its own state; the rest does not change.\<close>

record 'd lance_state =
  ls_db :: 'd
  indexes_ensured :: bool
  text_index_present :: bool

record ('d, 'v) lance_store =
  st_db :: "('d, 'v) lance_db"
  st_blake3 :: "string \<Rightarrow> string"
  st_fingerprint :: string
  st_embeddings_enabled :: bool
  st_embedder :: "(string list \<Rightarrow> 'v list hall_result) option"

definition on_db :: "('d, 'a) op \<Rightarrow> ('d lance_state, 'a) op" where
  "on_db m s = (case m (ls_db s) of (d, r) \<Rightarrow> (s\<lparr>ls_db := d\<rparr>, r))"

definition set_latch :: "('d lance_state \<Rightarrow> 'd lance_state) \<Rightarrow> ('d lance_state, unit) op" where
  "set_latch f s = (f s, Ok ())"

definition read_latch :: "('d lance_state \<Rightarrow> bool) \<Rightarrow> ('d lance_state, bool) op" where
  "read_latch f s = (s, Ok (f s))"

subsection \<open>Building rows\<close>

definition chunk_id_for :: "(string \<Rightarrow> string) \<Rightarrow> string \<Rightarrow> nat \<Rightarrow> string" where
  "chunk_id_for blake3 file_ref ord = take 32 (blake3 (file_ref @ ''#'' @ show_nat ord))"

type_synonym 'v file_with_embeddings = "prepared_file \<times> string \<times> 'v list option"

definition content_row_of ::
  "(string \<Rightarrow> string) \<Rightarrow> prepared_file \<Rightarrow> string \<Rightarrow> prepared_chunk \<Rightarrow> 'v option \<Rightarrow> 'v content_row" where
  "content_row_of blake3 pf key c v =
     \<lparr>cr_chunk_id = chunk_id_for blake3 key (pc_ord c), cr_content_key = key,
      cr_summary = pf_summary pf, cr_keywords = pf_keywords pf, cr_frontmatter = pf_frontmatter pf,
      cr_indexed_at_ms = indexed_at_ms pf, cr_chunk = c, cr_embedding = v\<rparr>"

definition file_rows ::
  "(string \<Rightarrow> string) \<Rightarrow> 'v file_with_embeddings \<Rightarrow> 'v content_row list hall_result" where
  "file_rows blake3 fwe =
     (case fwe of (pf, key, embeddings) \<Rightarrow>
       (case embeddings of
          Some vs \<Rightarrow>
            if length (pf_chunks pf) \<noteq> length vs
            then Err (EIndexer (''prepared file '' @ debug_str (pf_file_ref pf) @ '': ''
                       @ show_nat (length (pf_chunks pf)) @ '' chunks but '' @ show_nat (length vs) @ '' embeddings''))
            else Ok (map (\<lambda>(c, v). content_row_of blake3 pf key c (Some v)) (zip (pf_chunks pf) vs))
        | None \<Rightarrow> Ok (map (\<lambda>c. content_row_of blake3 pf key c None) (pf_chunks pf))))"

fun build_record_batch ::
  "(string \<Rightarrow> string) \<Rightarrow> 'v file_with_embeddings list \<Rightarrow> 'v content_row list hall_result" where
  "build_record_batch blake3 [] = Ok []"
| "build_record_batch blake3 (fwe # batch) =
     result_bind (file_rows blake3 fwe) (\<lambda>rows.
     result_bind (build_record_batch blake3 batch) (\<lambda>rest. Ok (rows @ rest)))"

definition map_row_of :: "prepared_file \<Rightarrow> string \<Rightarrow> string \<Rightarrow> map_row" where
  "map_row_of pf key root =
     \<lparr>mr_corpus = ck_name (pf_corpus_key pf), mr_root = root, mr_file_ref = pf_file_ref pf,
      mr_mtime_ms = pf_mtime_ms pf, mr_content_hash = content_hash pf, mr_content_key = key,
      mr_chunk_count = length (pf_chunks pf), mr_indexed_at_ms = indexed_at_ms pf\<rparr>"

fun build_files_batch :: "(prepared_file \<times> string) list \<Rightarrow> map_row list hall_result" where
  "build_files_batch [] = Ok []"
| "build_files_batch ((pf, key) # batch) =
     (case root_str (pf_corpus_key pf) of
        None \<Rightarrow> Err (not_utf8_root (pf_corpus_key pf))
      | Some root \<Rightarrow>
          result_bind (build_files_batch batch) (\<lambda>rest. Ok (map_row_of pf key root # rest)))"

text \<open>One file per new content key that has chunks.\<close>

fun select_new_content_from ::
  "string set \<Rightarrow> string set \<Rightarrow> (prepared_file \<times> string) list \<Rightarrow> (prepared_file \<times> string) list" where
  "select_new_content_from stored queued [] = []"
| "select_new_content_from stored queued ((pf, key) # batch) =
     (if key \<in> stored \<or> pf_chunks pf = [] then select_new_content_from stored queued batch
      else if key \<in> queued then select_new_content_from stored queued batch
      else (pf, key) # select_new_content_from stored (insert key queued) batch)"

definition select_new_content ::
  "prepared_file list \<Rightarrow> string list \<Rightarrow> string set \<Rightarrow> (prepared_file \<times> string) list" where
  "select_new_content batch keys stored = select_new_content_from stored {} (zip batch keys)"

definition content_keys :: "('d, 'v) lance_store \<Rightarrow> prepared_file list \<Rightarrow> string list" where
  "content_keys st batch = map (\<lambda>f. derive (st_blake3 st) f (st_fingerprint st)) batch"

definition content_key_set :: "('r \<Rightarrow> string) \<Rightarrow> 'r list \<Rightarrow> string list" where
  "content_key_set col rows = remdups (map col rows)"

definition decode_snapshots :: "corpus_key \<Rightarrow> map_row list \<Rightarrow> file_snapshot list" where
  "decode_snapshots k rows = map (\<lambda>r. \<lparr>fs_file_ref = mr_file_ref r, fs_corpus_key = k,
     fs_mtime_ms = mr_mtime_ms r, fs_content_hash = mr_content_hash r\<rparr>) rows"

subsection \<open>Embedding\<close>

definition KEY_LOOKUP_CHUNK :: nat where
  "KEY_LOOKUP_CHUNK = 512"

definition stored_content_keys :: "('d, 'v) lance_store \<Rightarrow> string list \<Rightarrow> ('d lance_state, string set) op" where
  "stored_content_keys st keys =
     for_each (\<lambda>group stored.
         bind_op (on_db (scan_content (st_db st) (Some (stored_key_filter group)))) (\<lambda>rows.
         ret (stored \<union> set (map cr_content_key rows))))
       (chunks_of KEY_LOOKUP_CHUNK (remdups keys)) {}"

definition run_embedding_blocking :: "('d, 'v) lance_store \<Rightarrow> string list \<Rightarrow> 'v list hall_result" where
  "run_embedding_blocking st texts =
     (case st_embedder st of
        None \<Rightarrow> Err (EEmbed ''embeddings are enabled but the embedding model is unavailable; retry the request'')
      | Some embed_batch \<Rightarrow> embed_batch texts)"

type_synonym 'v embedded_content = "string \<rightharpoonup> 'v list"

fun assign_vectors ::
  "(prepared_file \<times> string) list \<Rightarrow> 'v list \<Rightarrow> 'v embedded_content \<Rightarrow> 'v embedded_content hall_result" where
  "assign_vectors [] vectors embedded = Ok embedded"
| "assign_vectors ((pf, key) # files) vectors embedded =
     (if length vectors < length (pf_chunks pf) then Err (EIndexer ''embedding count drained early'')
      else assign_vectors files (drop (length (pf_chunks pf)) vectors)
             (embedded(key \<mapsto> take (length (pf_chunks pf)) vectors)))"

definition embed_content ::
  "('d, 'v) lance_store \<Rightarrow> (prepared_file \<times> string) list \<Rightarrow> 'v embedded_content hall_result" where
  "embed_content st files =
     (if \<not> st_embeddings_enabled st \<or> files = [] then Ok Map.empty
      else let all_texts = concat (map (\<lambda>(pf, _). map search_text (pf_chunks pf)) files) in
        result_bind (run_embedding_blocking st all_texts) (\<lambda>vectors.
          if length vectors \<noteq> length all_texts
          then Err (EIndexer (''embedder returned '' @ show_nat (length vectors) @ '' vectors for ''
                     @ show_nat (length all_texts) @ '' chunks''))
          else assign_vectors files vectors Map.empty))"

subsection \<open>Writing\<close>

text \<open>The vectors of each new file are taken out of the prepared ones and counted.\<close>

fun take_embeddings ::
  "(prepared_file \<times> string) list \<Rightarrow> 'v embedded_content \<Rightarrow> nat \<Rightarrow> 'v file_with_embeddings list \<times> nat" where
  "take_embeddings [] prepared written = ([], written)"
| "take_embeddings ((pf, key) # files) prepared written =
     (let (paired, written') = take_embeddings files (prepared(key := None))
            (written + (case prepared key of Some vs \<Rightarrow> length vs | None \<Rightarrow> 0))
      in ((pf, key, prepared key) # paired, written'))"

definition write_content ::
  "('d, 'v) lance_store \<Rightarrow> (prepared_file \<times> string) list \<Rightarrow> 'v embedded_content \<Rightarrow> batch_write_stats \<Rightarrow>
     ('d lance_state, batch_write_stats) op" where
  "write_content st new_content prepared stats =
     bind_op (of_result (embed_content st (filter (\<lambda>(_, key). prepared key = None) new_content))) (\<lambda>embedded.
     let (paired, written) = take_embeddings new_content (prepared ++ embedded) (embeddings_written stats) in
     bind_op (of_result (build_record_batch (st_blake3 st) paired)) (\<lambda>rows.
     bind_op (on_db (add_content (st_db st) rows)) (\<lambda>_.
     ret (stats\<lparr>embeddings_written := written\<rparr>))))"

definition write_file_map ::
  "('d, 'v) lance_store \<Rightarrow> prepared_file list \<Rightarrow> string list \<Rightarrow> ('d lance_state, unit) op" where
  "write_file_map st batch keys =
     bind_op (of_result (build_files_batch (zip batch keys))) (\<lambda>rows.
     on_db (merge_map (st_db st) rows))"

subsection \<open>Indexes\<close>

definition refresh_file_indexes :: "('d, 'v) lance_store \<Rightarrow> ('d lance_state, unit) op" where
  "refresh_file_indexes st =
     bind_op (on_db (list_indices (st_db st) FilesTable)) (\<lambda>existing.
     let names = map ic_name existing in
     if names = [] then ret () else on_db (optimize_indices (st_db st) FilesTable names))"

fun refreshed_per_batch :: "index_type \<Rightarrow> bool" where
  "refreshed_per_batch IndexFTS = False"
| "refreshed_per_batch IndexFm = False"
| "refreshed_per_batch IndexBTree = True"
| "refreshed_per_batch IndexAuto = True"
| "refreshed_per_batch IndexOther = True"

definition FTS_REFRESH_DIVISOR :: u64 where
  "FTS_REFRESH_DIVISOR = 10"

definition fts_refresh_due :: "('d, 'v) lance_store \<Rightarrow> string \<Rightarrow> ('d lance_state, bool) op" where
  "fts_refresh_due st fts_index =
     bind_op (try_op (on_db (index_stats (st_db st) fts_index))) (\<lambda>r.
     ret (case r of
            Ok (Some (num_unindexed_rows, num_indexed_rows)) \<Rightarrow>
              0 < num_unindexed_rows \<and>
              num_indexed_rows \<le> saturating_mul num_unindexed_rows FTS_REFRESH_DIVISOR
          | Ok None \<Rightarrow> False
          | Err _ \<Rightarrow> False))"

text \<open>The last full-text index listed is the one the loop keeps.\<close>

definition sort_indexes :: "index_config list \<Rightarrow> string list \<times> string option" where
  "sort_indexes existing =
     (map ic_name (filter (\<lambda>i. refreshed_per_batch (ic_type i)) existing),
      foldl (\<lambda>acc i. if ic_type i = IndexFTS then Some (ic_name i) else acc) None existing)"

datatype index_coverage = Complete | Incomplete

definition SCALAR_INDEXES :: "string list" where
  "SCALAR_INDEXES = [''content_key'']"

definition FILE_SCALAR_INDEXES :: "string list" where
  "FILE_SCALAR_INDEXES = [''corpus'', ''root'', ''content_key'']"

definition ensure_scalar_indexes ::
  "('d, 'v) lance_store \<Rightarrow> lance_table \<Rightarrow> string list \<Rightarrow> index_config list \<Rightarrow>
     ('d lance_state, index_coverage) op" where
  "ensure_scalar_indexes st table indexes existing =
     for_each (\<lambda>column coverage.
         if list_ex (\<lambda>i. ic_type i = IndexBTree \<and> column \<in> set (ic_columns i)) existing then ret coverage
         else bind_op (try_op (on_db (create_index (st_db st) table column IndexBTree))) (\<lambda>r.
              ret (case r of Ok _ \<Rightarrow> coverage | Err _ \<Rightarrow> Incomplete)))
       indexes Complete"

fun latch_indexes_ensured :: "index_coverage \<Rightarrow> ('d lance_state, unit) op" where
  "latch_indexes_ensured Complete = set_latch (indexes_ensured_update (\<lambda>_. True))"
| "latch_indexes_ensured Incomplete = ret ()"

definition has_index :: "index_type \<Rightarrow> index_config list \<Rightarrow> bool" where
  "has_index ty existing = list_ex (\<lambda>i. ic_type i = ty \<and> ''search_text'' \<in> set (ic_columns i)) existing"

definition ensure_text_indexes :: "('d, 'v) lance_store \<Rightarrow> index_config list \<Rightarrow> ('d lance_state, unit) op" where
  "ensure_text_indexes st existing =
     bind_op (if has_index IndexFTS existing then ret ()
              else on_db (create_index (st_db st) ContentTable ''search_text'' IndexFTS)) (\<lambda>_.
     bind_op (if has_index IndexFm existing then ret ()
              else on_db (create_index (st_db st) ContentTable ''search_text'' IndexFm)) (\<lambda>_.
     set_latch (text_index_present_update (\<lambda>_. True))))"

definition ensure_vector_index ::
  "('d, 'v) lance_store \<Rightarrow> index_config list \<Rightarrow> index_coverage \<Rightarrow> ('d lance_state, unit) op" where
  "ensure_vector_index st existing scalar_coverage =
     (if \<not> st_embeddings_enabled st then latch_indexes_ensured scalar_coverage
      else if list_ex (\<lambda>i. ''embedding'' \<in> set (ic_columns i)) existing then latch_indexes_ensured scalar_coverage
      else bind_op (on_db (count_rows (st_db st))) (\<lambda>rows.
        if 256 \<le> rows then
          bind_op (try_op (on_db (create_index (st_db st) ContentTable ''embedding'' IndexAuto))) (\<lambda>r.
            case r of Ok _ \<Rightarrow> latch_indexes_ensured scalar_coverage | Err _ \<Rightarrow> ret ())
        else ret ()))"

definition ensure_search_indexes :: "('d, 'v) lance_store \<Rightarrow> ('d lance_state, unit) op" where
  "ensure_search_indexes st =
     bind_op (read_latch indexes_ensured) (\<lambda>ensured.
     if ensured then ret () else
       bind_op (on_db (list_indices (st_db st) ContentTable)) (\<lambda>existing.
       bind_op (ensure_text_indexes st existing) (\<lambda>_.
       bind_op (ensure_scalar_indexes st ContentTable SCALAR_INDEXES existing) (\<lambda>content_coverage.
       bind_op (on_db (list_indices (st_db st) FilesTable)) (\<lambda>files_existing.
       bind_op (ensure_scalar_indexes st FilesTable FILE_SCALAR_INDEXES files_existing) (\<lambda>files_coverage.
       ensure_vector_index st existing
         (if content_coverage = Complete \<and> files_coverage = Complete then Complete else Incomplete)))))))"

definition refresh_indexes :: "('d, 'v) lance_store \<Rightarrow> ('d lance_state, unit) op" where
  "refresh_indexes st =
     bind_op (on_db (list_indices (st_db st) ContentTable)) (\<lambda>existing.
     let (refreshed, fts_index) = sort_indexes existing in
     bind_op (case fts_index of
                None \<Rightarrow> ret refreshed
              | Some fts \<Rightarrow> bind_op (fts_refresh_due st fts) (\<lambda>due. ret (if due then refreshed @ [fts] else refreshed)))
       (\<lambda>names.
     bind_op (if names = [] then ret () else on_db (optimize_indices (st_db st) ContentTable names)) (\<lambda>_.
     ensure_search_indexes st)))"

definition has_text_index :: "('d, 'v) lance_store \<Rightarrow> ('d lance_state, bool) op" where
  "has_text_index st =
     bind_op (read_latch text_index_present) (\<lambda>present.
     if present then ret True else
       bind_op (on_db (list_indices (st_db st) ContentTable)) (\<lambda>existing.
       if has_index IndexFTS existing
       then bind_op (set_latch (text_index_present_update (\<lambda>_. True))) (\<lambda>_. ret True)
       else ret False))"

subsection \<open>The operations of the port\<close>

definition lance_prepare_batch ::
  "('d, 'v) lance_store \<Rightarrow> prepared_file list \<Rightarrow> ('d lance_state, 'v embedded_content) op" where
  "lance_prepare_batch st batch =
     (let keys = content_keys st batch in
      bind_op (stored_content_keys st keys) (\<lambda>precheck.
      of_result (embed_content st (select_new_content batch keys precheck))))"

text \<open>
  \<open>commit_locked\<close> is the part of \<open>commit_batch\<close> that runs under the write gate: the content of
  the new keys, then the map rows and the indexes.
\<close>

definition commit_content ::
  "('d, 'v) lance_store \<Rightarrow> prepared_file list \<Rightarrow> 'v embedded_content \<Rightarrow>
     ('d lance_state, batch_write_stats \<times> bool) op" where
  "commit_content st batch embedded =
     (let keys = content_keys st batch in
      bind_op (stored_content_keys st keys) (\<lambda>stored.
      let new_content = select_new_content batch keys stored;
          stats = \<lparr>chunks_written = sum_list (map (\<lambda>f. length (pf_chunks f)) batch), embeddings_written = 0\<rparr> in
      bind_op (if new_content = [] then ret stats else write_content st new_content embedded stats) (\<lambda>stats.
      ret (stats, new_content = []))))"

definition commit_map ::
  "('d, 'v) lance_store \<Rightarrow> prepared_file list \<Rightarrow> batch_write_stats \<times> bool \<Rightarrow> ('d lance_state, batch_write_stats) op" where
  "commit_map st batch r =
     bind_op (write_file_map st batch (content_keys st batch)) (\<lambda>_.
     bind_op (refresh_file_indexes st) (\<lambda>_.
     bind_op (if snd r then ret () else refresh_indexes st) (\<lambda>_.
     ret (fst r))))"

definition commit_locked ::
  "('d, 'v) lance_store \<Rightarrow> prepared_file list \<Rightarrow> 'v embedded_content \<Rightarrow> ('d lance_state, batch_write_stats) op" where
  "commit_locked st batch embedded = bind_op (commit_content st batch embedded) (commit_map st batch)"

definition lance_commit_batch ::
  "('d, 'v) lance_store \<Rightarrow> prepared_file list \<Rightarrow> 'v embedded_content \<Rightarrow> ('d lance_state, batch_write_stats) op" where
  "lance_commit_batch st batch embedded =
     (case batch of
        [] \<Rightarrow> ret \<lparr>chunks_written = 0, embeddings_written = 0\<rparr>
      | f # _ \<Rightarrow>
          if list_ex (\<lambda>g. pf_corpus_key g \<noteq> pf_corpus_key f) batch
          then fail (EIndexer ''apply_batch: all PreparedFiles in a batch must share the same corpus key'')
          else commit_locked st batch embedded)"

definition apply_batch ::
  "('d, 'v) lance_store \<Rightarrow> prepared_file list \<Rightarrow> ('d lance_state, batch_write_stats) op" where
  "apply_batch st batch = bind_op (lance_prepare_batch st batch) (lance_commit_batch st batch)"

definition lance_touch_mtime :: "('d, 'v) lance_store \<Rightarrow> corpus_key \<Rightarrow> string \<Rightarrow> int \<Rightarrow> ('d lance_state, unit) op" where
  "lance_touch_mtime st k file_ref new_mtime_ms =
     bind_op (of_result (file_map_filter k file_ref)) (\<lambda>predicate.
     on_db (update_mtime (st_db st) predicate new_mtime_ms))"

definition lance_delete_file :: "('d, 'v) lance_store \<Rightarrow> corpus_key \<Rightarrow> string \<Rightarrow> ('d lance_state, unit) op" where
  "lance_delete_file st k file_ref =
     bind_op (of_result (file_map_filter k file_ref)) (\<lambda>predicate.
     bind_op (on_db (delete_map (st_db st) predicate)) (\<lambda>_. ret ()))"

definition distinct_roots :: "('d, 'v) lance_store \<Rightarrow> ('d lance_state, string list) op" where
  "distinct_roots st = bind_op (on_db (scan_map (st_db st) None None)) (\<lambda>rows. ret (remdups (map mr_root rows)))"

definition delete_root :: "('d, 'v) lance_store \<Rightarrow> path \<Rightarrow> ('d lance_state, nat) op" where
  "delete_root st root =
     (case to_str (path_string root) of
        None \<Rightarrow> fail (EIndexer (''root is not valid UTF-8: '' @ path_string root))
      | Some r \<Rightarrow> on_db (delete_map (st_db st) (root_filter r)))"

text \<open>
  \<open>delete_orphan_content\<close>: the candidates are found without the write gate, \<open>collect_orphans\<close>
  runs under it.
\<close>

definition orphan_candidates :: "('d, 'v) lance_store \<Rightarrow> ('d lance_state, string list) op" where
  "orphan_candidates st =
     bind_op (on_db (scan_content (st_db st) (Some first_chunk_filter))) (\<lambda>stored.
     bind_op (on_db (scan_map (st_db st) None None)) (\<lambda>referenced.
     ret (filter (\<lambda>key. key \<notin> set (content_key_set mr_content_key referenced))
            (content_key_set cr_content_key stored))))"

definition recheck :: "('d, 'v) lance_store \<Rightarrow> string list \<Rightarrow> ('d lance_state, string list) op" where
  "recheck st candidates =
     bind_op (on_db (scan_map (st_db st) (Some (content_key_in_filter candidates)) None)) (\<lambda>rechecked.
     ret (filter (\<lambda>key. key \<notin> set (content_key_set mr_content_key rechecked)) candidates))"

definition drop_orphans :: "('d, 'v) lance_store \<Rightarrow> string list \<Rightarrow> ('d lance_state, nat) op" where
  "drop_orphans st orphans =
     (if orphans = [] then ret 0 else on_db (delete_content (st_db st) (content_key_in_filter orphans)))"

definition collect_group :: "('d, 'v) lance_store \<Rightarrow> string list \<Rightarrow> nat \<Rightarrow> ('d lance_state, nat) op" where
  "collect_group st candidates removed =
     bind_op (recheck st candidates) (\<lambda>orphans.
     bind_op (drop_orphans st orphans) (\<lambda>n. ret (removed + n)))"

definition collect_orphans :: "('d, 'v) lance_store \<Rightarrow> string list \<Rightarrow> ('d lance_state, nat) op" where
  "collect_orphans st candidates = for_each (collect_group st) (chunks_of KEY_LOOKUP_CHUNK candidates) 0"

definition delete_orphan_content :: "('d, 'v) lance_store \<Rightarrow> ('d lance_state, nat) op" where
  "delete_orphan_content st =
     bind_op (orphan_candidates st) (\<lambda>candidates.
     if candidates = [] then ret 0 else collect_orphans st candidates)"

definition get_file_snapshot ::
  "('d, 'v) lance_store \<Rightarrow> corpus_key \<Rightarrow> string \<Rightarrow> ('d lance_state, file_snapshot option) op" where
  "get_file_snapshot st k file_ref =
     bind_op (of_result (file_map_filter k file_ref)) (\<lambda>predicate.
     bind_op (on_db (scan_map (st_db st) (Some predicate) (Some 1))) (\<lambda>rows.
     ret (case decode_snapshots k rows of [] \<Rightarrow> None | s # _ \<Rightarrow> Some s)))"

definition lance_list_files :: "('d, 'v) lance_store \<Rightarrow> corpus_key \<Rightarrow> ('d lance_state, file_snapshot list) op" where
  "lance_list_files st k =
     bind_op (of_result (corpus_key_filter k)) (\<lambda>predicate.
     bind_op (on_db (scan_map (st_db st) (Some predicate) None)) (\<lambda>rows.
     ret (decode_snapshots k rows)))"

record corpus_chunk_stats =
  indexed_file_count :: u64
  total_chunks :: u64
  last_indexed_ms :: "int option"

definition corpus_chunk_stats_of :: "map_row list \<Rightarrow> corpus_chunk_stats" where
  "corpus_chunk_stats_of rows = foldl (\<lambda>acc r.
     \<lparr>indexed_file_count = indexed_file_count acc + 1,
      total_chunks = total_chunks acc + of_nat (mr_chunk_count r),
      last_indexed_ms = Some (case last_indexed_ms acc of None \<Rightarrow> mr_indexed_at_ms r
                                | Some cur \<Rightarrow> max cur (mr_indexed_at_ms r))\<rparr>)
     \<lparr>indexed_file_count = 0, total_chunks = 0, last_indexed_ms = None\<rparr> rows"

definition corpus_chunk_stats_op ::
  "('d, 'v) lance_store \<Rightarrow> corpus_key \<Rightarrow> ('d lance_state, corpus_chunk_stats) op" where
  "corpus_chunk_stats_op st k =
     bind_op (of_result (corpus_key_filter k)) (\<lambda>predicate.
     bind_op (on_db (scan_map (st_db st) (Some predicate) None)) (\<lambda>rows.
     ret (corpus_chunk_stats_of rows)))"

definition lance_chunk_store :: "('d, 'v) lance_store \<Rightarrow> ('d lance_state, 'v embedded_content) chunk_store" where
  "lance_chunk_store st =
     \<lparr>list_files = lance_list_files st, touch_mtime = lance_touch_mtime st, delete_file = lance_delete_file st,
      prepare_batch = (\<lambda>files. bind_op (lance_prepare_batch st files) (\<lambda>embedded. ret (Some embedded))),
      commit_batch = (\<lambda>files prepared.
        lance_commit_batch st files (case prepared of Some e \<Rightarrow> e | None \<Rightarrow> Map.empty))\<rparr>"

end
