(* ===== verification/Lance_Laws.thy ===== *)
theory Lance_Laws
  imports Lance_Store
begin

text \<open>
  What the Lance store promises. \<open>lance_laws\<close> states the documented behaviour of the table
  operations of LanceDB on the rows of the two tables: a scan returns the rows its filter
  selects, a write has its effect or fails without one, and index operations change no row.
  From these laws follow the laws of the store port, with an invariant of the two tables
  that every operation keeps, on success and on failure.
\<close>

subsection \<open>Multisets without two elements of one key\<close>

definition unique_by :: "('a \<Rightarrow> 'b) \<Rightarrow> 'a multiset \<Rightarrow> bool" where
  "unique_by f M \<longleftrightarrow> (\<forall>i. count (image_mset f M) i \<le> 1)"

lemma unique_by_mset: "unique_by f (mset xs) \<longleftrightarrow> distinct (map f xs)"
proof -
  have "(\<forall>i. count (mset ys) i \<le> 1) \<longleftrightarrow> distinct ys" for ys :: "'b list"
    by (induction ys) (auto simp: Suc_le_eq not_less_eq_eq le_Suc_eq count_eq_zero_iff split: if_splits)
  then show ?thesis by (simp add: unique_by_def flip: mset_map)
qed

lemma unique_by_inj:
  assumes "unique_by f M" "x \<in># M" "y \<in># M" "f x = f y"
  shows "x = y"
proof -
  obtain xs where "mset xs = M" using ex_mset by blast
  with assms show ?thesis by (auto simp: unique_by_mset distinct_map dest: inj_onD)
qed

lemma unique_by_filter: "unique_by f M \<Longrightarrow> unique_by f (filter_mset P M)"
proof -
  assume u: "unique_by f M"
  obtain xs where "M = mset xs" using ex_mset by metis
  with u show ?thesis by (simp add: unique_by_mset distinct_map_filter flip: mset_filter)
qed

lemma unique_by_image:
  assumes "unique_by f M" "\<And>x. f (g x) = f x"
  shows "unique_by f (image_mset g M)"
  using assms by (simp add: unique_by_def multiset.map_comp comp_def)

lemma unique_by_add:
  assumes "unique_by f M" "distinct (map f xs)"
  shows "unique_by f (filter_mset (\<lambda>x. f x \<notin> f ` set xs) M + mset xs)"
proof -
  obtain ys where "M = mset ys" using ex_mset by metis
  with assms show ?thesis
    by (auto simp: unique_by_mset distinct_map_filter simp flip: mset_filter mset_append)
qed

subsection \<open>The tables\<close>

type_synonym 'v tables = "map_row multiset \<times> 'v content_row multiset"

definition row_id :: "map_row \<Rightarrow> file_id" where
  "row_id r = (mr_corpus r, mr_root r, mr_file_ref r)"

definition row_entry :: "map_row \<Rightarrow> file_id \<times> int \<times> string" where
  "row_entry r = (row_id r, mr_mtime_ms r, mr_content_hash r)"

definition merged :: "map_row list \<Rightarrow> map_row multiset \<Rightarrow> map_row multiset" where
  "merged rows M = filter_mset (\<lambda>r. row_id r \<notin> row_id ` set rows) M + mset rows"

abbreviation unique_ids :: "map_row multiset \<Rightarrow> bool" where
  "unique_ids M \<equiv> unique_by row_id M"

definition key_group :: "string \<Rightarrow> 'v content_row multiset \<Rightarrow> 'v content_row multiset" where
  "key_group key C = filter_mset (\<lambda>r. cr_content_key r = key) C"

text \<open>A batch file with chunks numbers one of them zero, as every format handler does.\<close>

definition file_ok :: "prepared_file \<Rightarrow> bool" where
  "file_ok pf \<longleftrightarrow> pf_chunks pf = [] \<or> 0 \<in> pc_ord ` set (pf_chunks pf)"

text \<open>
  The invariant: one map row per file; the content rows of a key are the rows of one file with
  that key, all of them; a map row with chunks has its content rows.
\<close>

definition whole :: "('d, 'v) lance_store \<Rightarrow> 'v content_row multiset \<Rightarrow> bool" where
  "whole st C \<longleftrightarrow> (\<forall>key. key_group key C \<noteq> {#} \<longrightarrow>
     (\<exists>pf emb rows. file_ok pf \<and> derive (st_blake3 st) pf (st_fingerprint st) = key \<and>
        file_rows (st_blake3 st) (pf, key, emb) = Ok rows \<and> key_group key C = mset rows))"

definition backed :: "'v tables \<Rightarrow> bool" where
  "backed T \<longleftrightarrow> (\<forall>r. r \<in># fst T \<longrightarrow> 0 < mr_chunk_count r \<longrightarrow> key_group (mr_content_key r) (snd T) \<noteq> {#})"

definition tables_ok :: "('d, 'v) lance_store \<Rightarrow> 'v tables \<Rightarrow> bool" where
  "tables_ok st T \<longleftrightarrow> unique_ids (fst T) \<and> whole st (snd T) \<and> backed T"

definition entries_of :: "'v tables \<Rightarrow> indexed" where
  "entries_of T = row_entry ` set_mset (fst T)"

lemma key_group_plus [simp]: "key_group key (A + B) = key_group key A + key_group key B"
  by (simp add: key_group_def)

lemma key_group_empty_iff: "key_group key C = {#} \<longleftrightarrow> (\<forall>r. r \<in># C \<longrightarrow> cr_content_key r \<noteq> key)"
  by (induction C) (auto simp: key_group_def)

subsection \<open>Rows of new content\<close>

lemma file_rows_Ok:
  assumes "file_rows b (pf, key, emb) = Ok rows"
  shows "map cr_chunk rows = pf_chunks pf" "\<forall>r \<in> set rows. cr_content_key r = key"
  using assms
  by (auto simp: file_rows_def content_row_of_def comp_def case_prod_beta split: option.splits if_splits dest: in_set_zipE)

lemma key_group_own:
  "\<forall>r \<in> set rows. cr_content_key r = key \<Longrightarrow> key_group key' (mset rows) = (if key' = key then mset rows else {#})"
  by (induction rows) (auto simp: key_group_def)

lemma key_group_rows:
  assumes "file_rows b (pf, key, emb) = Ok rows"
  shows "key_group key' (mset rows) = (if key' = key then mset rows else {#})"
  using key_group_own file_rows_Ok(2) [OF assms] by blast

lemma build_record_batch_group:
  assumes "build_record_batch b paired = Ok rows" "distinct (map (fst \<circ> snd) paired)"
  shows "(\<exists>pf emb rs. (pf, key, emb) \<in> set paired \<and> file_rows b (pf, key, emb) = Ok rs \<and>
           key_group key (mset rows) = mset rs) \<or>
         key \<notin> set (map (fst \<circ> snd) paired) \<and> key_group key (mset rows) = {#}"
  using assms
proof (induction paired arbitrary: rows)
  case Nil
  then show ?case by (simp add: key_group_def)
next
  case (Cons fwe paired)
  obtain pf k emb where fwe: "fwe = (pf, k, emb)" by (cases fwe)
  from Cons.prems(1) fwe obtain rs rest where rs: "file_rows b (pf, k, emb) = Ok rs"
    and rest: "build_record_batch b paired = Ok rest" and rows: "rows = rs @ rest"
    by (auto simp: result_bind_def split: sum.splits)
  have IH: "(\<exists>pf emb rs. (pf, key, emb) \<in> set paired \<and> file_rows b (pf, key, emb) = Ok rs \<and>
           key_group key (mset rest) = mset rs) \<or>
         key \<notin> set (map (fst \<circ> snd) paired) \<and> key_group key (mset rest) = {#}"
    using Cons.IH [OF rest] Cons.prems(2) by simp
  show ?case
  proof (cases "key = k")
    case True
    with Cons.prems(2) fwe have "key \<notin> set (map (fst \<circ> snd) paired)" by simp
    moreover have "(pf', key, emb') \<in> set paired \<Longrightarrow> key \<in> set (map (fst \<circ> snd) paired)" for pf' emb'
      by force
    ultimately have "key_group key (mset rest) = {#}" using IH by blast
    then have "key_group key (mset rows) = mset rs" using True by (simp add: rows key_group_rows [OF rs])
    then show ?thesis using rs True fwe by auto
  next
    case False
    then have "key_group key (mset rows) = key_group key (mset rest)" by (simp add: rows key_group_rows [OF rs])
    then show ?thesis using IH False fwe by auto
  qed
qed

lemma take_embeddings_files: "map (\<lambda>(pf, key, _). (pf, key)) (fst (take_embeddings files prepared n)) = files"
  by (induction files prepared n rule: take_embeddings.induct) (simp_all add: Let_def case_prod_beta fun_upd_def)

lemma select_new_content_from_spec:
  "(\<forall>(pf, key) \<in> set (select_new_content_from stored queued xs).
      (pf, key) \<in> set xs \<and> key \<notin> stored \<and> key \<notin> queued \<and> pf_chunks pf \<noteq> []) \<and>
   distinct (map snd (select_new_content_from stored queued xs)) \<and>
   (\<forall>(pf, key) \<in> set xs. pf_chunks pf \<noteq> [] \<longrightarrow>
      key \<in> stored \<or> key \<in> queued \<or> key \<in> snd ` set (select_new_content_from stored queued xs))"
proof (induction stored queued xs rule: select_new_content_from.induct)
  case (2 stored queued pf key batch)
  then show ?case by (cases "key \<in> stored \<or> pf_chunks pf = []"; cases "key \<in> queued") (auto simp: case_prod_beta)
qed simp

lemma whole_add:
  assumes C: "whole st C" and rows: "build_record_batch (st_blake3 st) paired = Ok rows"
    and new: "map (\<lambda>(pf, key, _). (pf, key)) paired = new" "distinct (map snd new)"
    and ok: "\<forall>(pf, key) \<in> set new. file_ok pf \<and> derive (st_blake3 st) pf (st_fingerprint st) = key \<and> key_group key C = {#}"
  shows "whole st (C + mset rows)"
  unfolding whole_def
proof (intro allI impI)
  fix key assume ne: "key_group key (C + mset rows) \<noteq> {#}"
  have "map (fst \<circ> snd) paired = map snd new" by (auto simp: new(1) [symmetric])
  then have dist: "distinct (map (fst \<circ> snd) paired)" using new(2) by simp
  from build_record_batch_group [OF rows dist, of key]
  show "\<exists>pf emb rs. file_ok pf \<and> derive (st_blake3 st) pf (st_fingerprint st) = key \<and>
      file_rows (st_blake3 st) (pf, key, emb) = Ok rs \<and> key_group key (C + mset rows) = mset rs"
  proof (elim disjE exE conjE)
    fix pf emb rs assume "(pf, key, emb) \<in> set paired" and rs: "file_rows (st_blake3 st) (pf, key, emb) = Ok rs"
      "key_group key (mset rows) = mset rs"
    then have "(pf, key) \<in> set new" by (force simp: new(1) [symmetric])
    with ok rs show ?thesis by (intro exI [of _ pf] exI [of _ emb] exI [of _ rs]) auto
  next
    assume "key_group key (mset rows) = {#}"
    with ne C show ?thesis by (simp add: whole_def)
  qed
qed

text \<open>Under the invariant, a key is stored exactly when it has a first chunk.\<close>

lemma whole_first_chunk:
  assumes "whole st C" "key_group key C \<noteq> {#}"
  shows "\<exists>r. r \<in># C \<and> cr_content_key r = key \<and> pc_ord (cr_chunk r) = 0"
proof -
  from assms obtain pf emb rows where pf: "file_ok pf" "file_rows (st_blake3 st) (pf, key, emb) = Ok rows"
    and g: "key_group key C = mset rows" unfolding whole_def by blast
  from g assms(2) have "rows \<noteq> []" by auto
  with pf file_rows_Ok(1) [OF pf(2)] have "0 \<in> pc_ord ` set (map cr_chunk rows)" by (auto simp: file_ok_def)
  then obtain r where "r \<in> set rows" "pc_ord (cr_chunk r) = 0" by auto
  moreover from this(1) g have "r \<in># key_group key C" by simp
  ultimately show ?thesis by (auto simp: key_group_def)
qed

subsection \<open>Rows of the file map\<close>

lemma root_str_Some: "root_str k = Some root \<Longrightarrow> root = path_string (canonical_root k)"
  by (simp add: root_str_def to_str_def split: if_splits)

lemma build_files_batch_rows:
  "build_files_batch xs = Ok rows \<Longrightarrow>
   rows = map (\<lambda>(pf, key). map_row_of pf key (path_string (canonical_root (pf_corpus_key pf)))) xs"
  by (induction xs arbitrary: rows rule: build_files_batch.induct)
     (auto simp: result_bind_def dest: root_str_Some split: option.splits sum.splits)

lemma map_row_of_entry:
  "row_id (map_row_of pf key (path_string (canonical_root (pf_corpus_key pf)))) = fst (put_change pf)"
  "row_entry (map_row_of pf key (path_string (canonical_root (pf_corpus_key pf)))) =
     (fst (put_change pf), the (snd (put_change pf)))"
  by (simp_all add: row_entry_def row_id_def map_row_of_def put_change_def file_id_of_def)

lemma build_files_batch_ids:
  assumes "build_files_batch (zip batch keys) = Ok rows" "length keys = length batch"
  shows "map row_id rows = map (fst \<circ> put_change) batch"
    "map row_entry rows = map (\<lambda>pf. (fst (put_change pf), the (snd (put_change pf)))) batch"
proof -
  have "map (\<lambda>x. f (fst x)) (zip batch keys) = map f batch" for f :: "prepared_file \<Rightarrow> 'x"
    using assms(2) by (induction keys batch rule: list_induct2) simp_all
  note fst_map = this
  show "map row_id rows = map (fst \<circ> put_change) batch"
    using fst_map [of "fst \<circ> put_change"]
    by (simp add: build_files_batch_rows [OF assms(1)] comp_def case_prod_beta map_row_of_entry)
  show "map row_entry rows = map (\<lambda>pf. (fst (put_change pf), the (snd (put_change pf)))) batch"
    using fst_map [of "\<lambda>pf. (fst (put_change pf), the (snd (put_change pf)))"]
    by (simp add: build_files_batch_rows [OF assms(1)] comp_def case_prod_beta map_row_of_entry)
qed

lemma entries_merged:
  assumes "build_files_batch (zip batch keys) = Ok rows" "length keys = length batch"
  shows "entries_of (merged rows M, C') = effect (put_change ` set batch) (entries_of (M, C))"
proof (rule effect_eqI)
  fix i v
  note ids = build_files_batch_ids [OF assms]
  have ids_set: "row_id ` set rows = fst ` put_change ` set batch"
    using arg_cong [OF ids(1), of set] by (simp add: image_comp)
  have some: "put_change pf = (fst (put_change pf), Some (the (snd (put_change pf))))" for pf
    by (simp add: put_change_def)
  have "(i, v) \<in> row_entry ` set rows \<longleftrightarrow> (i, v) \<in> (\<lambda>pf. (fst (put_change pf), the (snd (put_change pf)))) ` set batch"
    using arg_cong [OF ids(2), of set] by simp
  also have "\<dots> \<longleftrightarrow> (i, Some v) \<in> put_change ` set batch"
    by (simp add: put_change_def image_iff)
  finally have new: "(i, v) \<in> row_entry ` set rows \<longleftrightarrow> (i, Some v) \<in> put_change ` set batch" .
  have old: "(i, v) \<in> row_entry ` {r. r \<in># M \<and> row_id r \<notin> X} \<longleftrightarrow> (i, v) \<in> row_entry ` set_mset M \<and> i \<notin> X" for X
    by (auto simp: row_entry_def image_iff)
  show "(i, v) \<in> entries_of (merged rows M, C') \<longleftrightarrow>
      (i, v) \<in> entries_of (M, C) \<and> i \<notin> fst ` put_change ` set batch \<or> (i, Some v) \<in> put_change ` set batch"
    unfolding entries_of_def merged_def fst_conv set_mset_union image_Un Un_iff set_mset_mset new
      set_mset_filter old ids_set by simp
qed

lemma tables_ok_merged:
  assumes ok: "tables_ok st (M, C)" and rows: "build_files_batch (zip batch keys) = Ok rows" "length keys = length batch"
    and dist: "distinct (map (fst \<circ> put_change) batch)"
    and stored: "\<forall>(pf, key) \<in> set (zip batch keys). pf_chunks pf \<noteq> [] \<longrightarrow> key_group key C \<noteq> {#}"
  shows "tables_ok st (merged rows M, C)"
proof -
  have "unique_ids (merged rows M)" unfolding merged_def
    using ok dist build_files_batch_ids(1) [OF rows] by (intro unique_by_add) (simp_all add: tables_ok_def)
  moreover have "key_group (mr_content_key r) C \<noteq> {#}" if "r \<in> set rows" "0 < mr_chunk_count r" for r
  proof -
    from that(1) obtain pf key where "(pf, key) \<in> set (zip batch keys)"
      and r: "r = map_row_of pf key (path_string (canonical_root (pf_corpus_key pf)))"
      unfolding build_files_batch_rows [OF rows(1)] by auto
    with stored that(2) show ?thesis by (auto simp: map_row_of_def)
  qed
  ultimately show ?thesis using ok by (auto simp: tables_ok_def backed_def merged_def)
qed

subsection \<open>A batch and its content\<close>

definition batch_ok :: "prepared_file list \<Rightarrow> bool" where
  "batch_ok batch \<longleftrightarrow> list_all file_ok batch \<and> distinct (map (fst \<circ> put_change) batch)"

definition stored_for :: "('d, 'v) lance_store \<Rightarrow> prepared_file list \<Rightarrow> 'v content_row multiset \<Rightarrow> bool" where
  "stored_for st batch C \<longleftrightarrow>
     (\<forall>(pf, key) \<in> set (zip batch (content_keys st batch)). pf_chunks pf \<noteq> [] \<longrightarrow> key_group key C \<noteq> {#})"

subsection \<open>Removing content\<close>

definition referenced :: "map_row multiset \<Rightarrow> string set" where
  "referenced M = mr_content_key ` set_mset M"

definition without_keys :: "string set \<Rightarrow> 'v content_row multiset \<Rightarrow> 'v content_row multiset" where
  "without_keys X C = filter_mset (\<lambda>r. cr_content_key r \<notin> X) C"

lemma key_group_without: "key_group key (without_keys X C) = (if key \<in> X then {#} else key_group key C)"
  by (induction C) (auto simp: key_group_def without_keys_def)

lemma without_keys_twice: "without_keys Y (without_keys X C) = without_keys (X \<union> Y) C"
  by (induction C) (auto simp: without_keys_def)

lemma without_no_keys [simp]: "without_keys {} C = C"
  by (simp add: without_keys_def)

lemma size_without_keys:
  "size (filter_mset (\<lambda>r. cr_content_key r \<in> X) C) + size (without_keys X C) = size C"
  by (induction C) (auto simp: without_keys_def)

lemma tables_ok_without:
  assumes "tables_ok st (M, C)" "X \<inter> referenced M = {}"
  shows "tables_ok st (M, without_keys X C)"
proof -
  have "mr_content_key r \<notin> X" if "r \<in># M" for r using assms(2) that by (auto simp: referenced_def)
  with assms(1) show ?thesis by (auto simp: tables_ok_def whole_def backed_def key_group_without)
qed

subsection \<open>What LanceDB promises\<close>

definition keeps :: "('d \<Rightarrow> 't) \<Rightarrow> ('d, 'a) op \<Rightarrow> bool" where
  "keeps view m \<longleftrightarrow> (\<forall>T. hoare (\<lambda>d. view d = T) m (\<lambda>_ d. view d = T) (\<lambda>d. view d = T))"

named_theorems keeps_intros

lemma keeps_ret [keeps_intros]: "keeps view (ret a)"
  by (simp add: keeps_def hoare_ret)

lemma keeps_fail [keeps_intros]: "keeps view (fail e)"
  by (simp add: keeps_def hoare_fail)

lemma keeps_of_result [keeps_intros]: "keeps view (of_result r)"
  by (simp add: keeps_def hoare_of_result)

lemma keeps_bind [keeps_intros]: "keeps view m \<Longrightarrow> (\<And>a. keeps view (f a)) \<Longrightarrow> keeps view (bind_op m f)"
  unfolding keeps_def by (blast intro: hoare_bind)

lemma keeps_try [keeps_intros]: "keeps view m \<Longrightarrow> keeps view (try_op m)"
  unfolding keeps_def by (intro allI hoare_try) simp

lemma keeps_for_each [keeps_intros]:
  "(\<And>x acc. keeps view (body x acc)) \<Longrightarrow> keeps view (for_each body xs acc)"
  by (induction xs arbitrary: acc) (auto intro: keeps_intros)

lemma keeps_set_latch [keeps_intros]: "(\<And>s. ls_db (f s) = ls_db s) \<Longrightarrow> keeps (\<lambda>s. t (ls_db s)) (set_latch f)"
  by (simp add: keeps_def hoare_def set_latch_def)

lemma keeps_read_latch [keeps_intros]: "keeps view (read_latch f)"
  by (simp add: keeps_def hoare_def read_latch_def)

lemma hoare_on_db:
  "hoare P m Q E \<Longrightarrow> hoare (\<lambda>s. P (ls_db s)) (on_db m) (\<lambda>a s. Q a (ls_db s)) (\<lambda>s. E (ls_db s))"
  by (rule hoareI) (auto simp: on_db_def split: prod.splits dest: hoareD hoareE)

lemma keeps_on_db [keeps_intros]: "keeps t m \<Longrightarrow> keeps (\<lambda>s. t (ls_db s)) (on_db m)"
  unfolding keeps_def using hoare_on_db [where m = m] by fast

lemma keeps_latch_indexes_ensured [keeps_intros]: "keeps (\<lambda>s. t (ls_db s)) (latch_indexes_ensured c)"
  by (cases c) (auto intro!: keeps_intros)

lemma keepsD: "keeps view m \<Longrightarrow> hoare (\<lambda>s. view s = T) m (\<lambda>_ s. view s = T) (\<lambda>s. view s = T)"
  by (simp add: keeps_def)

locale lance_laws =
  fixes db :: "('d, 'v) lance_db"
    and tables :: "'d \<Rightarrow> 'v tables"
  assumes scan_map_all_law: "hoare (\<lambda>d. tables d = (M, C)) (scan_map db None None)
      (\<lambda>rows d. tables d = (M, C) \<and> mset rows = M) (\<lambda>d. tables d = (M, C))"
    and scan_map_law: "hoare (\<lambda>d. tables d = (M, C)) (scan_map db (Some (filter_sql f)) None)
      (\<lambda>rows d. tables d = (M, C) \<and> mset rows = filter_mset (map_matches f) M) (\<lambda>d. tables d = (M, C))"
    and scan_map_limit_law: "hoare (\<lambda>d. tables d = (M, C)) (scan_map db (Some (filter_sql f)) (Some n))
      (\<lambda>rows d. tables d = (M, C) \<and> mset rows \<subseteq># filter_mset (map_matches f) M \<and>
         length rows = min n (size (filter_mset (map_matches f) M))) (\<lambda>d. tables d = (M, C))"
    and scan_content_law: "hoare (\<lambda>d. tables d = (M, C)) (scan_content db (Some (filter_sql f)))
      (\<lambda>rows d. tables d = (M, C) \<and> mset rows = filter_mset (content_matches f) C) (\<lambda>d. tables d = (M, C))"
    and add_law: "hoare (\<lambda>d. tables d = (M, C)) (add_content db rows)
      (\<lambda>_ d. tables d = (M, C + mset rows)) (\<lambda>d. tables d = (M, C))"
    and merge_law: "distinct (map row_id new) \<Longrightarrow> hoare (\<lambda>d. tables d = (M, C)) (merge_map db new)
      (\<lambda>_ d. tables d = (merged new M, C)) (\<lambda>d. tables d = (M, C))"
    and update_law: "hoare (\<lambda>d. tables d = (M, C)) (update_mtime db (filter_sql f) t)
      (\<lambda>_ d. tables d = (image_mset (\<lambda>r. if map_matches f r then r\<lparr>mr_mtime_ms := t\<rparr> else r) M, C))
      (\<lambda>d. tables d = (M, C))"
    and delete_map_law: "hoare (\<lambda>d. tables d = (M, C)) (delete_map db (filter_sql f))
      (\<lambda>n d. tables d = (filter_mset (\<lambda>r. \<not> map_matches f r) M, C) \<and> n = size (filter_mset (map_matches f) M))
      (\<lambda>d. tables d = (M, C))"
    and delete_content_law: "hoare (\<lambda>d. tables d = (M, C)) (delete_content db (filter_sql f))
      (\<lambda>n d. tables d = (M, filter_mset (\<lambda>r. \<not> content_matches f r) C) \<and> n = size (filter_mset (content_matches f) C))
      (\<lambda>d. tables d = (M, C))"
    and index_laws: "keeps tables (list_indices db tb)" "keeps tables (optimize_indices db tb names)"
      "keeps tables (create_index db tb column ty)" "keeps tables (index_stats db name)" "keeps tables (count_rows db)"

text \<open>The same for the database of a store.\<close>

locale lance_store_laws = lance_laws "st_db st" tables
  for st :: "('d, 'v) lance_store" and tables :: "'d \<Rightarrow> 'v tables"
begin

definition view :: "'d lance_state \<Rightarrow> 'v tables" where
  "view s = tables (ls_db s)"

lemma keeps_view: "keeps tables m \<Longrightarrow> keeps view (on_db m)"
  using keeps_on_db [of tables m] by (simp add: view_def [abs_def])

lemma keeps_view_latch:
  "keeps view (latch_indexes_ensured c)"
  "(\<And>s. ls_db (f s) = ls_db s) \<Longrightarrow> keeps view (set_latch f)"
  using keeps_latch_indexes_ensured [of tables c] keeps_set_latch [of f tables]
  by (simp_all add: view_def [abs_def])

lemmas keeps_db = index_laws [THEN keeps_view] keeps_view_latch

lemma keeps_refresh_file_indexes: "keeps view (refresh_file_indexes st)"
  unfolding refresh_file_indexes_def Let_def by (auto intro!: keeps_intros keeps_db)

lemma keeps_ensure_scalar_indexes: "keeps view (ensure_scalar_indexes st t cols existing)"
  unfolding ensure_scalar_indexes_def by (auto intro!: keeps_intros keeps_db)

lemma keeps_ensure_search_indexes: "keeps view (ensure_search_indexes st)"
  unfolding ensure_search_indexes_def ensure_text_indexes_def ensure_vector_index_def
  by (auto intro!: keeps_intros keeps_db keeps_ensure_scalar_indexes split: sum.split)

lemma keeps_refresh_indexes: "keeps view (refresh_indexes st)"
  unfolding refresh_indexes_def fts_refresh_due_def Let_def case_prod_beta
  by (auto intro!: keeps_intros keeps_db keeps_ensure_search_indexes split: option.split)

lemmas scan_map_all_view = scan_map_all_law [THEN hoare_on_db, folded view_def]
  and scan_map_view = scan_map_law [THEN hoare_on_db, folded view_def]
  and scan_map_limit_view = scan_map_limit_law [THEN hoare_on_db, folded view_def]
  and scan_content_view = scan_content_law [THEN hoare_on_db, folded view_def]
  and add_view = add_law [THEN hoare_on_db, folded view_def]
  and merge_view = merge_law [THEN hoare_on_db, folded view_def]
  and update_view = update_law [THEN hoare_on_db, folded view_def]
  and delete_map_view = delete_map_law [THEN hoare_on_db, folded view_def]
  and delete_content_view = delete_content_law [THEN hoare_on_db, folded view_def]

subsection \<open>Reads\<close>

definition first_keys :: "'v content_row multiset \<Rightarrow> string set" where
  "first_keys C = {key. \<exists>r. r \<in># C \<and> cr_content_key r = key \<and> pc_ord (cr_chunk r) = 0}"

lemma first_keys_iff: "whole st C \<Longrightarrow> key \<in> first_keys C \<longleftrightarrow> key_group key C \<noteq> {#}"
  using whole_first_chunk [of st C key] unfolding first_keys_def key_group_empty_iff by blast

lemma hoare_stored_content_keys:
  "hoare (\<lambda>s. view s = (M, C)) (stored_content_keys st keys)
     (\<lambda>stored s. view s = (M, C) \<and> stored = set keys \<inter> first_keys C) (\<lambda>s. view s = (M, C))"
proof -
  let ?groups = "chunks_of KEY_LOOKUP_CHUNK (remdups keys)"
  let ?I = "\<lambda>d stored s. view s = (M, C) \<and> stored = set (concat d) \<inter> first_keys C"
  have loop: "hoare (?I [] {}) (stored_content_keys st keys) (?I ?groups) (\<lambda>s. view s = (M, C))"
    unfolding stored_content_keys_def
  proof (rule hoare_for_each, rule hoare_bind)
    fix d g and rest :: "string list list" and stored
    show "hoare (?I d stored) (on_db (scan_content (st_db st) (Some (stored_key_filter g))))
       (\<lambda>rows s. ?I d stored s \<and> mset rows = filter_mset (content_matches (StoredKeys g)) C) (\<lambda>s. view s = (M, C))"
      using scan_content_view [of M C "StoredKeys g"] by (auto intro: hoareI dest: hoareD hoareE)
    show "hoare (\<lambda>s. ?I d stored s \<and> mset rows = filter_mset (content_matches (StoredKeys g)) C)
       (ret (stored \<union> set (map cr_content_key rows))) (?I (d @ [g])) (\<lambda>s. view s = (M, C))" for rows
    proof (rule hoare_ret)
      fix s assume s: "?I d stored s \<and> mset rows = filter_mset (content_matches (StoredKeys g)) C"
      then have "set rows = set_mset (filter_mset (content_matches (StoredKeys g)) C)" by (metis set_mset_mset)
      then have "set (map cr_content_key rows) = set g \<inter> first_keys C" by (auto simp: first_keys_def)
      with s show "?I (d @ [g]) (stored \<union> set (map cr_content_key rows)) s" by (simp add: Int_Un_distrib2)
    qed
  qed
  have "concat ?groups = remdups keys" by (simp add: concat_chunks_of KEY_LOOKUP_CHUNK_def)
  then have "set (concat ?groups) = set keys" by (metis set_remdups)
  with loop show ?thesis by simp
qed

lemma keeps_stored_content_keys: "keeps view (stored_content_keys st keys)"
  unfolding keeps_def
  by (intro allI) (rule hoare_conseq [OF hoare_stored_content_keys [of "fst T" "snd T" for T]], auto)

lemma keeps_lance_prepare_batch: "keeps view (lance_prepare_batch st batch)"
  unfolding lance_prepare_batch_def Let_def by (intro keeps_intros keeps_stored_content_keys)

subsection \<open>Writing a batch\<close>

lemma hoare_write_content:
  assumes ok: "tables_ok st (M, C)" and new: "distinct (map snd new)"
    "\<forall>(pf, key) \<in> set new. file_ok pf \<and> derive (st_blake3 st) pf (st_fingerprint st) = key \<and> key_group key C = {#} \<and> pf_chunks pf \<noteq> []"
  shows "hoare (\<lambda>s. view s = (M, C)) (write_content st new embedded stats)
    (\<lambda>_ s. \<exists>C'. view s = (M, C') \<and> tables_ok st (M, C') \<and> (\<forall>key. key_group key C \<noteq> {#} \<or> key \<in> snd ` set new \<longrightarrow> key_group key C' \<noteq> {#}))
    (\<lambda>s. view s = (M, C))"
proof -
  have add: "\<exists>C'. (M, C + mset rows) = (M, C') \<and> tables_ok st (M, C') \<and>
      (\<forall>key. key_group key C \<noteq> {#} \<or> key \<in> snd ` set new \<longrightarrow> key_group key C' \<noteq> {#})"
    if rows: "build_record_batch (st_blake3 st) paired = Ok rows"
      and p: "map (\<lambda>(pf, key, _). (pf, key)) paired = new" for rows paired
  proof (rule exI [of _ "C + mset rows"], intro conjI)
    show "(M, C + mset rows) = (M, C + mset rows)" by (rule refl)
    have "whole st (C + mset rows)"
      by (rule whole_add [OF _ rows p new(1)]) (use ok new(2) in \<open>auto simp: tables_ok_def\<close>)
    with ok show "tables_ok st (M, C + mset rows)" by (auto simp: tables_ok_def backed_def)
    have keys: "map (fst \<circ> snd) paired = map snd new" by (auto simp: p [symmetric])
    then have dist: "distinct (map (fst \<circ> snd) paired)" using new(1) by simp
    have "key_group key (mset rows) \<noteq> {#}" if key: "key \<in> snd ` set new" for key
    proof -
      have "key \<in> set (map (fst \<circ> snd) paired)" unfolding keys using key by simp
      with build_record_batch_group [OF rows dist, of key] obtain pf emb rs
        where pf: "(pf, key, emb) \<in> set paired" "file_rows (st_blake3 st) (pf, key, emb) = Ok rs"
          and g: "key_group key (mset rows) = mset rs" by blast
      from pf(1) have "(pf, key) \<in> set new" by (force simp: p [symmetric])
      then have "pf_chunks pf \<noteq> []" using new(2) by blast
      then have "rs \<noteq> []" using file_rows_Ok(1) [OF pf(2)] by auto
      with g show ?thesis by simp
    qed
    then show "\<forall>key. key_group key C \<noteq> {#} \<or> key \<in> snd ` set new \<longrightarrow> key_group key (C + mset rows) \<noteq> {#}"
      by auto
  qed
  show ?thesis unfolding write_content_def Let_def case_prod_beta
  proof (rule hoare_bind [where R = "\<lambda>_ s. view s = (M, C)"])
    fix e
    let ?paired = "fst (take_embeddings new (embedded ++ e) (embeddings_written stats))"
    show "hoare (\<lambda>s. view s = (M, C)) (bind_op (of_result (build_record_batch (st_blake3 st) ?paired)) (\<lambda>rows.
       bind_op (on_db (add_content (st_db st) rows)) (\<lambda>_. ret (stats\<lparr>embeddings_written := snd (take_embeddings new (embedded ++ e) (embeddings_written stats))\<rparr>))))
       (\<lambda>_ s. \<exists>C'. view s = (M, C') \<and> tables_ok st (M, C') \<and> (\<forall>key. key_group key C \<noteq> {#} \<or> key \<in> snd ` set new \<longrightarrow> key_group key C' \<noteq> {#}))
       (\<lambda>s. view s = (M, C))"
    proof (rule hoare_bind [where R = "\<lambda>rows s. view s = (M, C) \<and> build_record_batch (st_blake3 st) ?paired = Ok rows"])
      fix rows
      show "hoare (\<lambda>s. view s = (M, C) \<and> build_record_batch (st_blake3 st) ?paired = Ok rows)
         (bind_op (on_db (add_content (st_db st) rows)) (\<lambda>_. ret (stats\<lparr>embeddings_written := snd (take_embeddings new (embedded ++ e) (embeddings_written stats))\<rparr>)))
         (\<lambda>_ s. \<exists>C'. view s = (M, C') \<and> tables_ok st (M, C') \<and> (\<forall>key. key_group key C \<noteq> {#} \<or> key \<in> snd ` set new \<longrightarrow> key_group key C' \<noteq> {#}))
         (\<lambda>s. view s = (M, C))"
      proof (cases "build_record_batch (st_blake3 st) ?paired = Ok rows")
        case True
        show ?thesis
          by (rule hoare_bind [OF hoare_conseq [OF add_view [of M C rows]] hoare_ret [where P = "\<lambda>s. view s = (M, C + mset rows)"]])
             (use add [OF True take_embeddings_files] in auto)
      qed (simp add: hoare_def)
    qed (auto intro: hoare_of_result)
  qed (auto intro: hoare_of_result)
qed

lemma hoare_write_file_map:
  assumes ok: "tables_ok st (M, C)" and len: "length keys = length batch"
    and dist: "distinct (map (fst \<circ> put_change) batch)"
    and stored: "\<forall>(pf, key) \<in> set (zip batch keys). pf_chunks pf \<noteq> [] \<longrightarrow> key_group key C \<noteq> {#}"
  shows "hoare (\<lambda>s. view s = (M, C)) (write_file_map st batch keys)
    (\<lambda>_ s. tables_ok st (view s) \<and> entries_of (view s) = effect (put_change ` set batch) (entries_of (M, C)))
    (\<lambda>s. view s = (M, C))"
proof (cases "build_files_batch (zip batch keys)")
  case (Inl e)
  then show ?thesis unfolding write_file_map_def by (auto intro: hoare_fail)
next
  case (Inr rows)
  have "distinct (map row_id rows)" using dist build_files_batch_ids(1) [OF Inr len] by simp
  then have "hoare (\<lambda>s. view s = (M, C)) (on_db (merge_map (st_db st) rows))
      (\<lambda>_ s. view s = (merged rows M, C)) (\<lambda>s. view s = (M, C))" by (rule merge_view)
  then have "hoare (\<lambda>s. view s = (M, C)) (on_db (merge_map (st_db st) rows))
      (\<lambda>_ s. tables_ok st (view s) \<and> entries_of (view s) = effect (put_change ` set batch) (entries_of (M, C)))
      (\<lambda>s. view s = (M, C))"
  proof (rule hoare_conseq)
    fix s :: "'d lance_state" assume "view s = (merged rows M, C)"
    then show "tables_ok st (view s) \<and> entries_of (view s) = effect (put_change ` set batch) (entries_of (M, C))"
      using tables_ok_merged [OF ok Inr len dist stored] entries_merged [OF Inr len, of M C C] by (simp only:)
  qed
  then show ?thesis unfolding write_file_map_def Inr by simp
qed

text \<open>Index work after the rows are written keeps what the rows gave.\<close>

lemma hoare_then_keeps:
  assumes "hoare P m (\<lambda>a s. Q (view s)) E" "\<And>a. keeps view (f a)" "\<And>s. Q (view s) \<Longrightarrow> E s"
  shows "hoare P (bind_op m f) (\<lambda>_ s. Q (view s)) E"
proof (rule hoare_bind [OF assms(1)])
  fix a
  show "hoare (\<lambda>s. Q (view s)) (f a) (\<lambda>_ s. Q (view s)) E"
  proof (rule hoareI)
    fix s s' b assume "Q (view s)" "f a s = (s', Ok b)"
    with hoareD [OF keepsD [OF assms(2) [of a], of "view s"]] show "Q (view s')" by metis
  next
    fix s s' e assume "Q (view s)" "f a s = (s', Err e)"
    with hoareE [OF keepsD [OF assms(2) [of a], of "view s"]] show "E s'" using assms(3) by metis
  qed
qed

lemma hoare_commit_content:
  assumes ok: "tables_ok st (M, C)" and files: "list_all file_ok batch"
  shows "hoare (\<lambda>s. view s = (M, C)) (commit_content st batch embedded)
    (\<lambda>_ s. \<exists>C'. view s = (M, C') \<and> tables_ok st (M, C') \<and> stored_for st batch C') (\<lambda>s. view s = (M, C))"
    (is "hoare ?P _ (\<lambda>_. ?R) ?P")
proof -
  let ?keys = "content_keys st batch" and ?zipped = "zip batch (content_keys st batch)"
  have zipped: "file_ok pf \<and> derive (st_blake3 st) pf (st_fingerprint st) = key" if "(pf, key) \<in> set ?zipped" for pf key
    using that files by (auto simp: content_keys_def in_set_zip list_all_length)
  have keys: "key \<in> set ?keys" if "(pf, key) \<in> set ?zipped" for pf key using that by (rule set_zip_rightD)
  let ?stored = "set ?keys \<inter> first_keys C"
  define new where "new = select_new_content batch ?keys ?stored"
  note sel = select_new_content_from_spec [of ?stored "{}" ?zipped, folded select_new_content_def, folded new_def]
  have new_ok: "\<forall>(pf, key) \<in> set new. file_ok pf \<and> derive (st_blake3 st) pf (st_fingerprint st) = key \<and>
      key_group key C = {#} \<and> pf_chunks pf \<noteq> []"
  proof (clarify)
    fix pf key assume "(pf, key) \<in> set new"
    with sel have z: "(pf, key) \<in> set ?zipped" and "key \<notin> ?stored" "pf_chunks pf \<noteq> []" by blast+
    with zipped [OF z] keys [OF z] first_keys_iff [of C key] ok
    show "file_ok pf \<and> derive (st_blake3 st) pf (st_fingerprint st) = key \<and> key_group key C = {#} \<and> pf_chunks pf \<noteq> []"
      by (auto simp: tables_ok_def)
  qed
  have dist: "distinct (map snd new)" using sel by blast
  have cover: "key_group key C \<noteq> {#} \<or> key \<in> snd ` set new" if "(pf, key) \<in> set ?zipped" "pf_chunks pf \<noteq> []" for pf key
    using sel that first_keys_iff [of C key] ok by (auto simp: tables_ok_def)
  have content: "hoare ?P (if new = [] then ret stats else write_content st new embedded stats) (\<lambda>_. ?R) ?P" for stats
  proof (cases "new = []")
    case True
    with cover ok show ?thesis by (auto intro!: hoare_ret simp: stored_for_def)
  next
    case False
    from hoare_write_content [OF ok dist new_ok, of embedded stats]
    have "hoare ?P (write_content st new embedded stats) (\<lambda>_. ?R) ?P"
    proof (rule hoare_conseq)
      fix s :: "'d lance_state"
      assume "\<exists>C'. view s = (M, C') \<and> tables_ok st (M, C') \<and>
        (\<forall>key. key_group key C \<noteq> {#} \<or> key \<in> snd ` set new \<longrightarrow> key_group key C' \<noteq> {#})"
      then obtain C' where C': "view s = (M, C')" "tables_ok st (M, C')"
        and k: "\<And>key. key_group key C \<noteq> {#} \<or> key \<in> snd ` set new \<Longrightarrow> key_group key C' \<noteq> {#}" by blast
      have "stored_for st batch C'" unfolding stored_for_def using cover k by blast
      with C' show "?R s" by blast
    qed
    with False show ?thesis by simp
  qed
  show ?thesis unfolding commit_content_def Let_def
  proof (rule hoare_bind [OF hoare_stored_content_keys [of M C ?keys]])
    fix stored
    let ?new = "select_new_content batch ?keys stored"
    let ?stats = "\<lparr>chunks_written = sum_list (map (\<lambda>f. length (pf_chunks f)) batch), embeddings_written = 0\<rparr>"
    show "hoare (\<lambda>s. view s = (M, C) \<and> stored = ?stored)
       (bind_op (if ?new = [] then ret ?stats else write_content st ?new embedded ?stats) (\<lambda>stats.
        ret (stats, ?new = []))) (\<lambda>_. ?R) ?P"
    proof (cases "stored = ?stored")
      case True
      show ?thesis unfolding True new_def [symmetric] simp_thms by (rule hoare_bind [OF content]) (rule hoare_ret)
    qed (simp add: hoare_def)
  qed
qed

lemma hoare_commit_map:
  assumes ok: "tables_ok st (M, C)" and dist: "distinct (map (fst \<circ> put_change) batch)" and stored: "stored_for st batch C"
  shows "hoare (\<lambda>s. view s = (M, C)) (commit_map st batch r)
    (\<lambda>_ s. tables_ok st (view s) \<and> entries_of (view s) = effect (put_change ` set batch) (entries_of (M, C)))
    (\<lambda>s. tables_ok st (view s) \<and> (entries_of (view s) = entries_of (M, C) \<or>
        entries_of (view s) = effect (put_change ` set batch) (entries_of (M, C))))"
    (is "hoare ?P _ (\<lambda>_ s. ?Q (view s)) ?E")
proof -
  have len: "length (content_keys st batch) = length batch" by (simp add: content_keys_def)
  have "hoare ?P (write_file_map st batch (content_keys st batch)) (\<lambda>_ s. ?Q (view s)) ?E"
    by (rule hoare_conseq [OF hoare_write_file_map [OF ok len dist stored [unfolded stored_for_def]]])
       (use ok in auto)
  then show ?thesis unfolding commit_map_def
    by (rule hoare_then_keeps) (auto intro!: keeps_intros keeps_refresh_file_indexes keeps_refresh_indexes)
qed

lemma hoare_commit_locked:
  assumes ok: "tables_ok st (M, C)" and batch: "batch_ok batch"
  shows "hoare (\<lambda>s. view s = (M, C)) (commit_locked st batch embedded)
    (\<lambda>_ s. tables_ok st (view s) \<and> entries_of (view s) = effect (put_change ` set batch) (entries_of (M, C)))
    (\<lambda>s. tables_ok st (view s) \<and> (entries_of (view s) = entries_of (M, C) \<or>
        entries_of (view s) = effect (put_change ` set batch) (entries_of (M, C))))"
    (is "hoare ?P _ ?Q ?E")
  unfolding commit_locked_def
proof (rule hoare_bind)
  let ?R = "\<lambda>s. \<exists>C'. view s = (M, C') \<and> tables_ok st (M, C') \<and> stored_for st batch C'"
  from batch have files: "list_all file_ok batch" "distinct (map (fst \<circ> put_change) batch)" by (simp_all add: batch_ok_def)
  show "hoare ?P (commit_content st batch embedded) (\<lambda>_. ?R) ?E"
    by (rule hoare_conseq [OF hoare_commit_content [OF ok files(1)]]) (use ok in auto)
  fix r
  show "hoare ?R (commit_map st batch r) ?Q ?E"
  proof (rule hoareI)
    fix s s' a assume "?R s" and run: "commit_map st batch r s = (s', Ok a)"
    then obtain C' where s: "view s = (M, C')" "tables_ok st (M, C')" "stored_for st batch C'" by blast
    from hoareD [OF hoare_commit_map [OF s(2) files(2) s(3)] s(1) run] show "?Q a s'" by (simp add: entries_of_def)
  next
    fix s s' e assume "?R s" and run: "commit_map st batch r s = (s', Err e)"
    then obtain C' where s: "view s = (M, C')" "tables_ok st (M, C')" "stored_for st batch C'" by blast
    from hoareE [OF hoare_commit_map [OF s(2) files(2) s(3)] s(1) run] show "?E s'" by (simp add: entries_of_def)
  qed
qed

definition store_inv :: "'d lance_state \<Rightarrow> bool" where
  "store_inv s \<longleftrightarrow> tables_ok st (view s)"

definition store_files :: "'d lance_state \<Rightarrow> indexed" where
  "store_files s = entries_of (view s)"

text \<open>A triple for every content of the tables is a triple for the invariant.\<close>

lemma hoare_store:
  assumes "\<And>M C. tables_ok st (M, C) \<Longrightarrow> entries_of (M, C) = S \<Longrightarrow> hoare (\<lambda>s. view s = (M, C)) m Q E"
  shows "hoare (\<lambda>s. store_inv s \<and> store_files s = S) m Q E"
proof (rule hoareI)
  fix s s' a assume "store_inv s \<and> store_files s = S" "m s = (s', Ok a)"
  with hoareD [OF assms [of "fst (view s)" "snd (view s)"], of s s' a] show "Q a s'"
    by (simp add: store_inv_def store_files_def)
next
  fix s s' e assume "store_inv s \<and> store_files s = S" "m s = (s', Err e)"
  with hoareE [OF assms [of "fst (view s)" "snd (view s)"], of s s' e] show "E s'"
    by (simp add: store_inv_def store_files_def)
qed

lemma hoare_keeps_store:
  assumes "keeps view m"
  shows "hoare (\<lambda>s. store_inv s \<and> store_files s = S) m (\<lambda>_ s. store_inv s \<and> store_files s = S)
    (\<lambda>s. store_inv s \<and> store_files s = S)"
proof (rule hoare_store)
  fix M and C :: "'v content_row multiset" assume "tables_ok st (M, C)" "entries_of (M, C) = S"
  then show "hoare (\<lambda>s. view s = (M, C)) m (\<lambda>_ s. store_inv s \<and> store_files s = S) (\<lambda>s. store_inv s \<and> store_files s = S)"
    by (intro hoare_conseq [OF keepsD [OF assms, of "(M, C)"]]) (simp_all add: store_inv_def store_files_def)
qed

lemma file_row_iff:
  assumes "root_str k = Some root"
  shows "map_matches (CorpusFile (ck_name k) root f) r \<longleftrightarrow> row_id r = file_id_of k f"
  using root_str_Some [OF assms] by (simp add: row_id_def file_id_of_def)

lemma hoare_touch_mtime:
  "hoare (\<lambda>s. store_inv s \<and> store_files s = S) (lance_touch_mtime st k f m)
     (\<lambda>_ s. store_inv s \<and> store_files s = touched (file_id_of k f) m S) (\<lambda>s. store_inv s \<and> store_files s = S)"
proof (cases "root_str k")
  case None
  then show ?thesis by (simp add: lance_touch_mtime_def file_map_filter_sql hoare_fail)
next
  case (Some root)
  let ?F = "CorpusFile (ck_name k) root f" and ?id = "file_id_of k f"
  let ?up = "\<lambda>r. if row_id r = ?id then r\<lparr>mr_mtime_ms := m\<rparr> else r"
  show ?thesis unfolding lance_touch_mtime_def file_map_filter_sql Some option.case bind_op_simps
  proof (rule hoare_store)
    fix M and C :: "'v content_row multiset" assume ok: "tables_ok st (M, C)" and S: "entries_of (M, C) = S"
    have "tables_ok st (image_mset ?up M, C)"
      using ok unique_by_image [of row_id M ?up] by (auto simp: tables_ok_def backed_def row_id_def)
    moreover have "row_entry (?up r) = (\<lambda>(j, m', h). (j, if j = ?id then m else m', h)) (row_entry r)" for r
      by (simp add: row_entry_def row_id_def)
    then have "entries_of (image_mset ?up M, C) = touched ?id m S"
      unfolding S [symmetric] entries_of_def touched_def fst_conv set_image_mset image_image by (rule image_cong [OF refl])
    ultimately show "hoare (\<lambda>s. view s = (M, C)) (on_db (update_mtime (st_db st) (filter_sql ?F) m))
       (\<lambda>_ s. store_inv s \<and> store_files s = touched ?id m S) (\<lambda>s. store_inv s \<and> store_files s = S)"
      using update_view [of M C ?F m] ok S unfolding file_row_iff [OF Some]
      by (elim hoare_conseq) (simp_all add: store_inv_def store_files_def)
  qed
qed

lemma tables_ok_delete_map: "tables_ok st (M, C) \<Longrightarrow> tables_ok st (filter_mset P M, C)"
  by (auto simp: tables_ok_def backed_def unique_by_filter)

lemma hoare_delete_file:
  "hoare (\<lambda>s. store_inv s \<and> store_files s = S) (lance_delete_file st k f)
     (\<lambda>_ s. store_inv s \<and> store_files s = effect {(file_id_of k f, None)} S) (\<lambda>s. store_inv s \<and> store_files s = S)"
proof (cases "root_str k")
  case None
  then show ?thesis by (simp add: lance_delete_file_def file_map_filter_sql hoare_fail)
next
  case (Some root)
  let ?F = "CorpusFile (ck_name k) root f" and ?id = "file_id_of k f"
  show ?thesis unfolding lance_delete_file_def file_map_filter_sql Some option.case bind_op_simps
  proof (rule hoare_store)
    fix M and C :: "'v content_row multiset" assume ok: "tables_ok st (M, C)" and S: "entries_of (M, C) = S"
    have "entries_of (filter_mset (\<lambda>r. row_id r \<noteq> ?id) M, C) = effect {(?id, None)} S"
      by (auto simp: entries_of_def effect_def row_entry_def S [symmetric])
    moreover note tables_ok_delete_map [OF ok, of "\<lambda>r. row_id r \<noteq> ?id"]
    ultimately have "hoare (\<lambda>s. view s = (M, C)) (on_db (delete_map (st_db st) (filter_sql ?F)))
       (\<lambda>_ s. store_inv s \<and> store_files s = effect {(?id, None)} S) (\<lambda>s. store_inv s \<and> store_files s = S)"
      using delete_map_view [of M C ?F] ok S unfolding file_row_iff [OF Some]
      by (elim hoare_conseq) (simp_all add: store_inv_def store_files_def)
    then show "hoare (\<lambda>s. view s = (M, C)) (bind_op (on_db (delete_map (st_db st) (filter_sql ?F))) (\<lambda>_. ret ()))
       (\<lambda>_ s. store_inv s \<and> store_files s = effect {(?id, None)} S) (\<lambda>s. store_inv s \<and> store_files s = S)"
      by (rule hoare_bind) (rule hoare_ret)
  qed
qed

lemma listed_snapshots:
  assumes u: "unique_ids M" and root: "root_str k = Some root"
    and rows: "mset rows = filter_mset (map_matches (CorpusRoot (ck_name k) root)) M"
  shows "distinct (map fs_file_ref (decode_snapshots k rows))"
    "\<forall>s \<in> set (decode_snapshots k rows). fs_corpus_key s = k"
    "(file_id_of k f, m, h) \<in> entries_of (M, C) \<longleftrightarrow>
      (\<exists>s \<in> set (decode_snapshots k rows). fs_file_ref s = f \<and> fs_mtime_ms s = m \<and> fs_content_hash s = h)"
proof -
  have r: "root = path_string (canonical_root k)" by (rule root_str_Some [OF root])
  have set_rows: "r \<in> set rows \<longleftrightarrow> r \<in># M \<and> mr_corpus r = ck_name k \<and> mr_root r = root" for r
    using arg_cong [OF rows, of set_mset] by auto
  have "distinct (map row_id rows)"
    using unique_by_filter [OF u, of "map_matches (CorpusRoot (ck_name k) root)"] unfolding rows [symmetric] unique_by_mset .
  moreover have "map row_id rows = map (\<lambda>f. (ck_name k, root, f)) (map mr_file_ref rows)"
    by (simp add: row_id_def set_rows)
  ultimately have "distinct (map mr_file_ref rows)" by (metis distinct_map)
  then show "distinct (map fs_file_ref (decode_snapshots k rows))" by (simp add: decode_snapshots_def comp_def)
  show "\<forall>s \<in> set (decode_snapshots k rows). fs_corpus_key s = k" by (auto simp: decode_snapshots_def)
  have "(file_id_of k f, m, h) \<in> entries_of (M, C) \<longleftrightarrow>
      (\<exists>r. r \<in> set rows \<and> mr_file_ref r = f \<and> mr_mtime_ms r = m \<and> mr_content_hash r = h)"
    unfolding set_rows entries_of_def row_entry_def row_id_def file_id_of_def r image_iff fst_conv prod.inject by metis
  then show "(file_id_of k f, m, h) \<in> entries_of (M, C) \<longleftrightarrow>
      (\<exists>s \<in> set (decode_snapshots k rows). fs_file_ref s = f \<and> fs_mtime_ms s = m \<and> fs_content_hash s = h)"
    by (auto simp: decode_snapshots_def)
qed

lemma hoare_list_files:
  "hoare (\<lambda>s. store_inv s \<and> store_files s = S) (lance_list_files st k)
     (\<lambda>ss s. store_inv s \<and> store_files s = S \<and> distinct (map fs_file_ref ss) \<and>
         (\<forall>sn \<in> set ss. fs_corpus_key sn = k) \<and>
         (\<forall>f m h. (file_id_of k f, m, h) \<in> S \<longleftrightarrow>
            (\<exists>sn \<in> set ss. fs_file_ref sn = f \<and> fs_mtime_ms sn = m \<and> fs_content_hash sn = h)))
     (\<lambda>s. store_inv s \<and> store_files s = S)" (is "hoare ?P _ ?Q ?P")
proof (cases "root_str k")
  case None
  then show ?thesis by (simp add: lance_list_files_def corpus_key_filter_sql hoare_fail)
next
  case (Some root)
  let ?F = "CorpusRoot (ck_name k) root"
  show ?thesis unfolding lance_list_files_def corpus_key_filter_sql Some option.case bind_op_simps
  proof (rule hoare_store, rule hoare_bind)
    fix M and C :: "'v content_row multiset" assume ok: "tables_ok st (M, C)" and S: "entries_of (M, C) = S"
    have inv: "?P s" if "view s = (M, C)" for s using that ok S by (simp add: store_inv_def store_files_def)
    show "hoare (\<lambda>s. view s = (M, C)) (on_db (scan_map (st_db st) (Some (filter_sql ?F)) None))
       (\<lambda>rows s. ?P s \<and> mset rows = filter_mset (map_matches ?F) M) ?P"
      by (rule hoare_conseq [OF scan_map_view [of M C ?F]]) (use inv in simp_all)
    fix rows
    show "hoare (\<lambda>s. ?P s \<and> mset rows = filter_mset (map_matches ?F) M) (ret (decode_snapshots k rows)) ?Q ?P"
    proof (rule hoare_ret)
      fix s assume s: "?P s \<and> mset rows = filter_mset (map_matches ?F) M"
      have u: "unique_ids M" using ok by (simp add: tables_ok_def)
      note ls = listed_snapshots [OF u Some conjunct2 [OF s]]
      have "\<forall>f m h. (file_id_of k f, m, h) \<in> S \<longleftrightarrow>
          (\<exists>sn \<in> set (decode_snapshots k rows). fs_file_ref sn = f \<and> fs_mtime_ms sn = m \<and> fs_content_hash sn = h)"
        unfolding S [symmetric] using ls(3) [of _ _ _ C] by iprover
      with ls(1,2) s show "?Q (decode_snapshots k rows) s" by iprover
    qed
  qed
qed

lemma hoare_commit_batch:
  assumes "list_all file_ok fs" "distinct (map (fst \<circ> put_change) fs)"
  shows "hoare (\<lambda>s. store_inv s \<and> store_files s = S) (lance_commit_batch st fs embedded)
    (\<lambda>_ s. store_inv s \<and> store_files s = effect (put_change ` set fs) S)
    (\<lambda>s. store_inv s \<and> (store_files s = S \<or> store_files s = effect (put_change ` set fs) S))"
proof (cases fs)
  case Nil
  then show ?thesis by (simp add: lance_commit_batch_def hoare_ret)
next
  case (Cons f fs')
  have "hoare (\<lambda>s. store_inv s \<and> store_files s = S) (commit_locked st fs embedded)
    (\<lambda>_ s. store_inv s \<and> store_files s = effect (put_change ` set fs) S)
    (\<lambda>s. store_inv s \<and> (store_files s = S \<or> store_files s = effect (put_change ` set fs) S))"
  proof (rule hoare_store)
    fix M and C :: "'v content_row multiset" assume ok: "tables_ok st (M, C)" and S: "entries_of (M, C) = S"
    show "hoare (\<lambda>s. view s = (M, C)) (commit_locked st fs embedded)
      (\<lambda>_ s. store_inv s \<and> store_files s = effect (put_change ` set fs) S)
      (\<lambda>s. store_inv s \<and> (store_files s = S \<or> store_files s = effect (put_change ` set fs) S))"
      using hoare_commit_locked [OF ok, of fs embedded] assms unfolding batch_ok_def store_inv_def store_files_def S by blast
  qed
  then show ?thesis unfolding Cons lance_commit_batch_def list.case by (intro hoare_if hoare_fail) simp_all
qed

subsection \<open>Collecting content no file refers to\<close>

lemma hoare_recheck:
  "hoare (\<lambda>s. view s = (M, C)) (recheck st g)
     (\<lambda>orphans s. view s = (M, C) \<and> set orphans = set g - referenced M) (\<lambda>s. view s = (M, C))"
  unfolding recheck_def
proof (rule hoare_bind)
  show "hoare (\<lambda>s. view s = (M, C)) (on_db (scan_map (st_db st) (Some (content_key_in_filter g)) None))
      (\<lambda>rows s. view s = (M, C) \<and> mset rows = filter_mset (map_matches (ContentKeys g)) M) (\<lambda>s. view s = (M, C))"
    using scan_map_view [of M C "ContentKeys g"] by simp
  fix rows :: "map_row list"
  let ?orphans = "filter (\<lambda>key. key \<notin> set (content_key_set mr_content_key rows)) g"
  have "set ?orphans = set g - referenced M" if eq: "mset rows = filter_mset (map_matches (ContentKeys g)) M"
  proof -
    have "set rows = {r. r \<in># M \<and> mr_content_key r \<in> set g}" using arg_cong [OF eq, of set_mset] by simp
    then show ?thesis by (auto simp: content_key_set_def referenced_def)
  qed
  then show "hoare (\<lambda>s. view s = (M, C) \<and> mset rows = filter_mset (map_matches (ContentKeys g)) M) (ret ?orphans)
      (\<lambda>orphans s. view s = (M, C) \<and> set orphans = set g - referenced M) (\<lambda>s. view s = (M, C))"
    by (intro hoare_ret) blast
qed

lemma hoare_drop_orphans:
  "hoare (\<lambda>s. view s = (M, C)) (drop_orphans st orphans)
     (\<lambda>n s. view s = (M, without_keys (set orphans) C) \<and> n + size (without_keys (set orphans) C) = size C)
     (\<lambda>s. view s = (M, C))"
  unfolding drop_orphans_def
proof (rule hoare_if)
  assume "orphans = []"
  then show "hoare (\<lambda>s. view s = (M, C)) (ret 0)
     (\<lambda>n s. view s = (M, without_keys (set orphans) C) \<and> n + size (without_keys (set orphans) C) = size C)
     (\<lambda>s. view s = (M, C))" by (intro hoare_ret) simp
next
  have "content_matches (ContentKeys orphans) = (\<lambda>r :: 'v content_row. cr_content_key r \<in> set orphans)" by (simp add: fun_eq_iff)
  from delete_content_view [of M C "ContentKeys orphans", unfolded this]
  have "hoare (\<lambda>s. view s = (M, C)) (on_db (delete_content (st_db st) (content_key_in_filter orphans)))
      (\<lambda>m s. view s = (M, without_keys (set orphans) C) \<and> m = size (filter_mset (\<lambda>r. cr_content_key r \<in> set orphans) C))
      (\<lambda>s. view s = (M, C))"
    unfolding without_keys_def by simp
  then show "hoare (\<lambda>s. view s = (M, C)) (on_db (delete_content (st_db st) (content_key_in_filter orphans)))
     (\<lambda>n s. view s = (M, without_keys (set orphans) C) \<and> n + size (without_keys (set orphans) C) = size C)
     (\<lambda>s. view s = (M, C))"
    by (rule hoare_conseq) (use size_without_keys [of "set orphans" C] in auto)
qed

lemma hoare_collect_group:
  "hoare (\<lambda>s. view s = (M, C)) (collect_group st g n)
     (\<lambda>n' s. view s = (M, without_keys (set g - referenced M) C) \<and>
        n' + size (without_keys (set g - referenced M) C) = n + size C) (\<lambda>s. view s = (M, C))"
  unfolding collect_group_def
proof (rule hoare_bind [OF hoare_recheck])
  fix orphans
  let ?C = "without_keys (set g - referenced M) C"
  show "hoare (\<lambda>s. view s = (M, C) \<and> set orphans = set g - referenced M)
      (bind_op (drop_orphans st orphans) (\<lambda>m. ret (n + m)))
      (\<lambda>n' s. view s = (M, ?C) \<and> n' + size ?C = n + size C) (\<lambda>s. view s = (M, C))"
  proof (cases "set orphans = set g - referenced M")
    case True
    show ?thesis unfolding True [symmetric] simp_thms
      by (rule hoare_bind [OF hoare_drop_orphans [of M C orphans]], rule hoare_ret) simp
  qed (simp add: hoare_def)
qed

text \<open>Whatever the candidates are, only rows of keys no file refers to are removed.\<close>

lemma hoare_collect_orphans:
  "hoare (\<lambda>s. view s = (M, C)) (collect_orphans st candidates)
     (\<lambda>n s. view s = (M, without_keys (set candidates - referenced M) C) \<and>
        n + size (without_keys (set candidates - referenced M) C) = size C)
     (\<lambda>s. \<exists>X \<subseteq> set candidates - referenced M. view s = (M, without_keys X C))"
proof -
  let ?groups = "chunks_of KEY_LOOKUP_CHUNK candidates"
  let ?left = "\<lambda>d. without_keys (set (concat d) - referenced M) C"
  let ?I = "\<lambda>d n s. view s = (M, ?left d) \<and> n + size (?left d) = size C"
  let ?E = "\<lambda>s. \<exists>X \<subseteq> set candidates - referenced M. view s = (M, without_keys X C)"
  have all: "set (concat ?groups) = set candidates" by (simp add: concat_chunks_of KEY_LOOKUP_CHUNK_def del: set_concat)
  have "hoare (?I [] 0) (collect_orphans st candidates) (?I ?groups) ?E" unfolding collect_orphans_def
  proof (rule hoare_for_each)
    fix d g rest and n :: nat assume gs: "?groups = d @ g # rest"
    have more: "without_keys (set g - referenced M) (?left d) = ?left (d @ [g])"
      unfolding without_keys_twice by (rule arg_cong [of _ _ "\<lambda>X. without_keys X C"]) auto
    have sub: "set (concat d) \<subseteq> set candidates" using all gs by auto
    have "hoare (\<lambda>s. view s = (M, ?left d)) (collect_group st g n)
        (\<lambda>n' s. view s = (M, ?left (d @ [g])) \<and> n' + size (?left (d @ [g])) = n + size (?left d))
        (\<lambda>s. view s = (M, ?left d))"
      using hoare_collect_group [of M "?left d" g n] unfolding more .
    then show "hoare (?I d n) (collect_group st g n) (?I (d @ [g])) ?E"
    proof (cases "n + size (?left d) = size C")
      case True
      assume h: "hoare (\<lambda>s. view s = (M, ?left d)) (collect_group st g n)
        (\<lambda>n' s. view s = (M, ?left (d @ [g])) \<and> n' + size (?left (d @ [g])) = n + size (?left d))
        (\<lambda>s. view s = (M, ?left d))"
      from h show ?thesis
      proof (rule hoare_conseq)
        fix s assume "view s = (M, ?left d)"
        then show "?E s" using sub by (intro exI [of _ "set (concat d) - referenced M"]) blast
      qed (use True in simp_all)
    qed (simp add: hoare_def)
  qed
  then show ?thesis unfolding all by simp
qed

lemma hoare_delete_orphan_content:
  assumes "whole st C"
  shows "hoare (\<lambda>s. view s = (M, C)) (delete_orphan_content st)
     (\<lambda>n s. view s = (M, filter_mset (\<lambda>r. cr_content_key r \<in> referenced M) C) \<and>
        n = size (filter_mset (\<lambda>r. cr_content_key r \<notin> referenced M) C))
     (\<lambda>s. \<exists>X. X \<inter> referenced M = {} \<and> view s = (M, without_keys X C))"
proof -
  let ?E = "\<lambda>s. \<exists>X. X \<inter> referenced M = {} \<and> view s = (M, without_keys X C)"
  let ?C = "filter_mset (\<lambda>r. cr_content_key r \<in> referenced M) C"
  have E0: "?E s" if "view s = (M, C)" for s using that by (intro exI [of _ "{}"]) simp
  have left: "without_keys (cr_content_key ` set_mset C - referenced M) C = ?C"
    unfolding without_keys_def by (rule filter_mset_cong0) auto
  have split: "size (filter_mset (\<lambda>r. cr_content_key r \<notin> referenced M) C) + size ?C = size C"
    by (induction C) auto
  have keys: "first_keys C = cr_content_key ` set_mset C"
    using first_keys_iff [OF assms] by (auto simp: key_group_empty_iff)
  have "hoare (\<lambda>s. view s = (M, C)) (orphan_candidates st)
      (\<lambda>cs s. view s = (M, C) \<and> set cs = cr_content_key ` set_mset C - referenced M) (\<lambda>s. view s = (M, C))"
    unfolding orphan_candidates_def
  proof (rule hoare_bind)
    show "hoare (\<lambda>s. view s = (M, C)) (on_db (scan_content (st_db st) (Some first_chunk_filter)))
        (\<lambda>rows s. view s = (M, C) \<and> mset rows = filter_mset (content_matches FirstChunks) C) (\<lambda>s. view s = (M, C))"
      using scan_content_view [of M C FirstChunks] by simp
    fix stored :: "'v content_row list"
    show "hoare (\<lambda>s. view s = (M, C) \<and> mset stored = filter_mset (content_matches FirstChunks) C)
        (bind_op (on_db (scan_map (st_db st) None None)) (\<lambda>referenced.
           ret (filter (\<lambda>key. key \<notin> set (content_key_set mr_content_key referenced)) (content_key_set cr_content_key stored))))
        (\<lambda>cs s. view s = (M, C) \<and> set cs = cr_content_key ` set_mset C - referenced M) (\<lambda>s. view s = (M, C))"
    proof (cases "mset stored = filter_mset (content_matches FirstChunks) C")
      case True
      have "set stored = {r. r \<in># C \<and> pc_ord (cr_chunk r) = 0}"
        using arg_cong [OF True, of set_mset] by simp
      then have "cr_content_key ` set stored = first_keys C" by (simp add: first_keys_def) blast
      then have st: "cr_content_key ` set stored = cr_content_key ` set_mset C" unfolding keys .
      have "hoare (\<lambda>s. view s = (M, C)) (bind_op (on_db (scan_map (st_db st) None None)) (\<lambda>referenced.
           ret (filter (\<lambda>key. key \<notin> set (content_key_set mr_content_key referenced)) (content_key_set cr_content_key stored))))
        (\<lambda>cs s. view s = (M, C) \<and> set cs = cr_content_key ` set_mset C - referenced M) (\<lambda>s. view s = (M, C))"
      proof (rule hoare_bind [OF scan_map_all_view [of M C]], rule hoare_ret)
        fix rows s assume rows: "view s = (M, C) \<and> mset rows = M"
        then have "mr_content_key ` set rows = referenced M" by (metis referenced_def set_mset_mset)
        with rows st show "view s = (M, C) \<and> set (filter (\<lambda>key. key \<notin> set (content_key_set mr_content_key rows))
            (content_key_set cr_content_key stored)) = cr_content_key ` set_mset C - referenced M"
          by (simp add: content_key_set_def set_diff_eq)
      qed
      with True show ?thesis by simp
    qed (simp add: hoare_def)
  qed
  note cands = this
  show ?thesis unfolding delete_orphan_content_def
  proof (rule hoare_bind [where R = "\<lambda>cs s. view s = (M, C) \<and> set cs = cr_content_key ` set_mset C - referenced M"])
    show "hoare (\<lambda>s. view s = (M, C)) (orphan_candidates st)
        (\<lambda>cs s. view s = (M, C) \<and> set cs = cr_content_key ` set_mset C - referenced M) ?E"
      by (rule hoare_conseq [OF cands]) (use E0 in simp_all)
    fix cs
    let ?step = "if cs = [] then ret 0 else collect_orphans st cs"
    let ?Q = "\<lambda>n s. view s = (M, ?C) \<and> n = size (filter_mset (\<lambda>r. cr_content_key r \<notin> referenced M) C)"
    show "hoare (\<lambda>s. view s = (M, C) \<and> set cs = cr_content_key ` set_mset C - referenced M) ?step ?Q ?E"
    proof (cases "set cs = cr_content_key ` set_mset C - referenced M")
      case True
      then have cs: "without_keys (set cs - referenced M) C = ?C" using left by (simp add: Diff_idemp)
      have "hoare (\<lambda>s. view s = (M, C)) ?step ?Q ?E"
      proof (rule hoare_if)
        assume "cs = []"
        with cs have "?C = C" by simp
        with split show "hoare (\<lambda>s. view s = (M, C)) (ret 0) ?Q ?E" by (intro hoare_ret) simp
      next
        show "hoare (\<lambda>s. view s = (M, C)) (collect_orphans st cs) ?Q ?E"
          by (rule hoare_conseq [OF hoare_collect_orphans [of M C cs]]) (use cs split in auto)
      qed
      with True show ?thesis by simp
    qed (simp add: hoare_def)
  qed
qed

lemma hoare_delete_root:
  "hoare (\<lambda>s. view s = (M, C)) (delete_root st root)
     (\<lambda>n s. view s = (filter_mset (\<lambda>r. mr_root r \<noteq> path_string root) M, C) \<and>
        n = size (filter_mset (\<lambda>r. mr_root r = path_string root) M)) (\<lambda>s. view s = (M, C))"
proof (cases "to_str (path_string root)")
  case None
  then show ?thesis by (simp add: delete_root_def hoare_fail)
next
  case (Some r)
  then have "r = path_string root" by (simp add: to_str_def split: if_splits)
  moreover have "map_matches (RootOnly r) = (\<lambda>x. mr_root x = r)" by (simp add: fun_eq_iff)
  ultimately show ?thesis using Some delete_map_view [of M C "RootOnly r"] by (simp add: delete_root_def)
qed

lemma single_store_files: "store_inv s \<Longrightarrow> single_valued_ids (store_files s)"
  unfolding store_inv_def tables_ok_def store_files_def entries_of_def single_valued_ids_def row_entry_def
  by (auto dest: unique_by_inj)

end

text \<open>The Lance store provides the store port.\<close>

sublocale lance_store_laws \<subseteq> port: chunk_store_laws "lance_chunk_store st" store_inv store_files file_ok
proof unfold_locales
  fix w S k f m fs b
  show "store_inv w \<Longrightarrow> single_valued_ids (store_files w)" by (rule single_store_files)
  show "hoare (\<lambda>w. store_inv w \<and> store_files w = S) (list_files (lance_chunk_store st) k)
      (\<lambda>ss w. store_inv w \<and> store_files w = S \<and> distinct (map fs_file_ref ss) \<and>
         (\<forall>s \<in> set ss. fs_corpus_key s = k) \<and>
         (\<forall>f m h. (file_id_of k f, m, h) \<in> S \<longleftrightarrow>
            (\<exists>s \<in> set ss. fs_file_ref s = f \<and> fs_mtime_ms s = m \<and> fs_content_hash s = h)))
      (\<lambda>w. store_inv w \<and> store_files w = S)"
    using hoare_list_files [of S k] by (simp add: lance_chunk_store_def)
  show "hoare (\<lambda>w. store_inv w \<and> store_files w = S) (touch_mtime (lance_chunk_store st) k f m)
      (\<lambda>_ w. store_inv w \<and> store_files w = touched (file_id_of k f) m S) (\<lambda>w. store_inv w \<and> store_files w = S)"
    using hoare_touch_mtime [of S k f m] by (simp add: lance_chunk_store_def)
  show "hoare (\<lambda>w. store_inv w \<and> store_files w = S) (delete_file (lance_chunk_store st) k f)
      (\<lambda>_ w. store_inv w \<and> store_files w = effect {(file_id_of k f, None)} S) (\<lambda>w. store_inv w \<and> store_files w = S)"
    using hoare_delete_file [of S k f] by (simp add: lance_chunk_store_def)
  show "hoare (\<lambda>w. store_inv w \<and> store_files w = S) (prepare_batch (lance_chunk_store st) fs)
      (\<lambda>_ w. store_inv w \<and> store_files w = S) (\<lambda>w. store_inv w \<and> store_files w = S)"
    by (simp add: lance_chunk_store_def hoare_keeps_store keeps_intros keeps_lance_prepare_batch)
  show "list_all file_ok fs \<Longrightarrow> distinct (map (fst \<circ> put_change) fs) \<Longrightarrow>
      hoare (\<lambda>w. store_inv w \<and> store_files w = S) (commit_batch (lance_chunk_store st) fs b)
        (\<lambda>_ w. store_inv w \<and> store_files w = effect (put_change ` set fs) S)
        (\<lambda>w. store_inv w \<and> (store_files w = S \<or> store_files w = effect (put_change ` set fs) S))"
    using hoare_commit_batch [of fs S] by (simp add: lance_chunk_store_def)
qed

end
