(* ===== verification/Lance_Memory.thy ===== *)
theory Lance_Memory
  imports Lance_Laws
begin

text \<open>
  A database that keeps the laws of LanceDB: the two tables are lists of rows in memory. It
  shows that the laws can hold together, filters as SQL text included, and runs the store on
  concrete inputs.
\<close>

record 'v mem_db =
  mem_map :: "map_row list"
  mem_content :: "'v content_row list"
  mem_indices :: "(lance_table \<times> index_config) list"

definition mem_tables :: "'v mem_db \<Rightarrow> 'v tables" where
  "mem_tables d = (mset (mem_map d), mset (mem_content d))"

definition with_filter ::
  "string \<Rightarrow> (row_filter \<Rightarrow> ('v mem_db, 'a) op) \<Rightarrow> ('v mem_db, 'a) op" where
  "with_filter p k =
     (case parse_filter p of None \<Rightarrow> fail (EDb ''lance: bad predicate'') | Some f \<Rightarrow> k f)"

lemma with_filter_sql [simp]: "with_filter (filter_sql f) k = k f"
  by (simp add: with_filter_def parse_filter_text)

definition mem_ops :: "('v mem_db, 'v) lance_db" where
  "mem_ops =
     \<lparr>scan_map = (\<lambda>p n d.
        let cut = (case n of None \<Rightarrow> (\<lambda>rows. rows) | Some n \<Rightarrow> take n) in
        (case p of None \<Rightarrow> (d, Ok (cut (mem_map d)))
         | Some p \<Rightarrow> with_filter p (\<lambda>f d. (d, Ok (cut (filter (map_matches f) (mem_map d))))) d)),
      scan_content = (\<lambda>p d.
        case p of None \<Rightarrow> (d, Ok (mem_content d))
        | Some p \<Rightarrow> with_filter p (\<lambda>f d. (d, Ok (filter (content_matches f) (mem_content d)))) d),
      add_content = (\<lambda>rows d. (d\<lparr>mem_content := mem_content d @ rows\<rparr>, Ok ())),
      merge_map = (\<lambda>rows d. (d\<lparr>mem_map := filter (\<lambda>r. row_id r \<notin> row_id ` set rows) (mem_map d) @ rows\<rparr>, Ok ())),
      update_mtime = (\<lambda>p t. with_filter p (\<lambda>f d.
        (d\<lparr>mem_map := map (\<lambda>r. if map_matches f r then r\<lparr>mr_mtime_ms := t\<rparr> else r) (mem_map d)\<rparr>, Ok ()))),
      delete_map = (\<lambda>p. with_filter p (\<lambda>f d.
        (d\<lparr>mem_map := filter (\<lambda>r. \<not> map_matches f r) (mem_map d)\<rparr>, Ok (length (filter (map_matches f) (mem_map d)))))),
      delete_content = (\<lambda>p. with_filter p (\<lambda>f d.
        (d\<lparr>mem_content := filter (\<lambda>r. \<not> content_matches f r) (mem_content d)\<rparr>,
         Ok (length (filter (content_matches f) (mem_content d)))))),
      list_indices = (\<lambda>t d. (d, Ok (map snd (filter (\<lambda>(t', _). t' = t) (mem_indices d))))),
      optimize_indices = (\<lambda>_ _ d. (d, Ok ())),
      create_index = (\<lambda>t column ty d.
        (d\<lparr>mem_indices := (t, \<lparr>ic_name = column @ ''_idx'', ic_type = ty, ic_columns = [column]\<rparr>) # mem_indices d\<rparr>, Ok ())),
      index_stats = (\<lambda>_ d. (d, Ok None)),
      count_rows = (\<lambda>d. (d, Ok (length (mem_content d))))\<rparr>"

lemma hoare_pure:
  "(\<And>s. P s \<Longrightarrow> Q (r s) (f s)) \<Longrightarrow> hoare P (\<lambda>s. (f s, Ok (r s))) Q E"
  by (simp add: hoare_def)

lemma mset_filter_size: "length (filter P xs) = size (filter_mset P (mset xs))"
  by (metis mset_filter size_mset)

interpretation mem: lance_laws mem_ops mem_tables
proof unfold_locales
  fix M and C :: "'v content_row multiset" and f n new rows t tb names column ty name
  show "hoare (\<lambda>d. mem_tables d = (M, C)) (scan_map mem_ops None None)
      (\<lambda>rows d. mem_tables d = (M, C) \<and> mset rows = M) (\<lambda>d. mem_tables d = (M, C))"
    by (simp add: mem_ops_def hoare_def mem_tables_def)
  show "hoare (\<lambda>d. mem_tables d = (M, C)) (scan_map mem_ops (Some (filter_sql f)) None)
      (\<lambda>rows d. mem_tables d = (M, C) \<and> mset rows = filter_mset (map_matches f) M) (\<lambda>d. mem_tables d = (M, C))"
    by (simp add: mem_ops_def hoare_def mem_tables_def del: filter_sql.simps)
  show "hoare (\<lambda>d. mem_tables d = (M, C)) (scan_map mem_ops (Some (filter_sql f)) (Some n))
      (\<lambda>rows d. mem_tables d = (M, C) \<and> mset rows \<subseteq># filter_mset (map_matches f) M \<and>
         length rows = min n (size (filter_mset (map_matches f) M))) (\<lambda>d. mem_tables d = (M, C))"
  proof -
    have "mset (take n xs) \<subseteq># mset xs" for xs :: "map_row list"
      by (metis append_take_drop_id mset_append mset_subset_eq_add_left)
    then show ?thesis
      by (auto simp: mem_ops_def hoare_def mem_tables_def min.commute simp flip: mset_filter
          simp del: filter_sql.simps)
  qed
  show "hoare (\<lambda>d. mem_tables d = (M, C)) (scan_content mem_ops (Some (filter_sql f)))
      (\<lambda>rows d. mem_tables d = (M, C) \<and> mset rows = filter_mset (content_matches f) C) (\<lambda>d. mem_tables d = (M, C))"
    by (simp add: mem_ops_def hoare_def mem_tables_def del: filter_sql.simps)
  show "hoare (\<lambda>d. mem_tables d = (M, C)) (add_content mem_ops rows)
      (\<lambda>_ d. mem_tables d = (M, C + mset rows)) (\<lambda>d. mem_tables d = (M, C))"
    by (simp add: mem_ops_def hoare_def mem_tables_def)
  show "hoare (\<lambda>d. mem_tables d = (M, C)) (merge_map mem_ops new)
      (\<lambda>_ d. mem_tables d = (merged new M, C)) (\<lambda>d. mem_tables d = (M, C))"
    by (auto simp: mem_ops_def hoare_def mem_tables_def merged_def)
  show "hoare (\<lambda>d. mem_tables d = (M, C)) (update_mtime mem_ops (filter_sql f) t)
      (\<lambda>_ d. mem_tables d = (image_mset (\<lambda>r. if map_matches f r then r\<lparr>mr_mtime_ms := t\<rparr> else r) M, C))
      (\<lambda>d. mem_tables d = (M, C))"
    by (auto simp: mem_ops_def hoare_def mem_tables_def simp del: filter_sql.simps)
  show "hoare (\<lambda>d. mem_tables d = (M, C)) (delete_map mem_ops (filter_sql f))
      (\<lambda>n d. mem_tables d = (filter_mset (\<lambda>r. \<not> map_matches f r) M, C) \<and> n = size (filter_mset (map_matches f) M))
      (\<lambda>d. mem_tables d = (M, C))"
    by (auto simp: mem_ops_def hoare_def mem_tables_def mset_filter_size simp del: filter_sql.simps)
  show "hoare (\<lambda>d. mem_tables d = (M, C)) (delete_content mem_ops (filter_sql f))
      (\<lambda>n d. mem_tables d = (M, filter_mset (\<lambda>r. \<not> content_matches f r) C) \<and> n = size (filter_mset (content_matches f) C))
      (\<lambda>d. mem_tables d = (M, C))"
    by (auto simp: mem_ops_def hoare_def mem_tables_def mset_filter_size simp del: filter_sql.simps)
  show "keeps mem_tables (list_indices mem_ops tb)" "keeps mem_tables (optimize_indices mem_ops tb names)"
    "keeps mem_tables (create_index mem_ops tb column ty)" "keeps mem_tables (index_stats mem_ops name)"
    "keeps mem_tables (count_rows mem_ops)"
    by (simp_all add: mem_ops_def keeps_def hoare_def mem_tables_def)
qed

definition mem_store ::
  "(string \<Rightarrow> string) \<Rightarrow> string \<Rightarrow> bool \<Rightarrow> (string list \<Rightarrow> 'v list hall_result) option \<Rightarrow> ('v mem_db, 'v) lance_store" where
  "mem_store blake3 fingerprint enabled embedder =
     \<lparr>st_db = mem_ops, st_blake3 = blake3, st_fingerprint = fingerprint, st_embeddings_enabled = enabled,
      st_embedder = embedder\<rparr>"

interpretation mem_lance: lance_store_laws "mem_store blake3 fingerprint enabled embedder" mem_tables
  for blake3 fingerprint enabled embedder
  unfolding lance_store_laws_def by (simp add: mem_store_def mem.lance_laws_axioms)

end
