(* ===== verification/Corpus_Index.thy ===== *)
theory Corpus_Index
  imports Index_Sync Lance_Memory
begin

text \<open>
  Indexing a corpus into the Lance store: \<open>index_corpus\<close> of \<open>indexer/index.rs\<close> run on the store
  port of \<open>adapters/lance.rs\<close>. A run that returns leaves an index in step with the disk; a run
  that fails has brought some files up to date and left the others alone.
\<close>

subsection \<open>One change per file\<close>

lemma corpus_changes_ids:
  assumes c: "(i, v) \<in> corpus_changes run keys db scanned" and kn: "\<forall>k \<in> set keys. knows S k (db k)"
    and hok: "handlers_ok (registry (rc_env run))"
  obtains k f where "k \<in> set keys" "i = file_id_of k f"
proof -
  from c obtain k where k: "k \<in> set keys" and c: "(i, v) \<in> root_changes run k (db k) (disk_of scanned k)"
    by (auto simp: corpus_changes_def)
  have ids: "fst ` \<Union>(entry_changes run k (db k) ` D) \<subseteq> (\<lambda>e. file_id_of k (fst e)) ` D" for D
    by (rule fst_UN_subset) (rule entry_changes_ids [OF hok bspec [OF kn k]])
  from c consider "(i, v) \<in> \<Union>(entry_changes run k (db k) ` set (disk_by_file (disk_of scanned k)))"
    | d where "i = file_id_of k (fst d)" unfolding root_changes_def by auto
  then show thesis
  proof cases
    case 1
    then have "i \<in> fst ` \<Union>(entry_changes run k (db k) ` set (disk_by_file (disk_of scanned k)))"
      by (metis fst_conv image_eqI)
    with ids have "i \<in> (\<lambda>e. file_id_of k (fst e)) ` set (disk_by_file (disk_of scanned k))" by blast
    then show thesis using that k by (elim imageE) simp
  qed (rule that [OF k])
qed

lemma entry_changes_single:
  assumes "(i, v) \<in> entry_changes run k db e" "(i, w) \<in> entry_changes run k db e"
  shows "v = w"
proof -
  have req: "v = w" if "(i, v) \<in> request_changes run p [] r" "(i, w) \<in> request_changes run p [] r" for p r
    using that by (auto simp: request_changes_def eviction_def file_to_write_def prepared_of_def put_change_def
        dest: sym split: sum.splits prepared.splits if_splits)
  from assms show ?thesis
    by (auto simp: entry_changes_def touch_changes_def split: if_splits option.splits dest: req)
qed

lemma corpus_changes_single:
  assumes roots: "roots_ok keys" and kn: "\<forall>k \<in> set keys. knows S k (db k)"
    and hok: "handlers_ok (registry (rc_env run))"
    and v: "(i, v) \<in> corpus_changes run keys db scanned" and w: "(i, w) \<in> corpus_changes run keys db scanned"
  shows "v = w"
proof -
  from corpus_changes_ids [OF v kn hok] obtain k f where k: "k \<in> set keys" and i: "i = file_id_of k f" .
  note fl = corpus_changes_file [OF roots k kn hok, where scanned = scanned and f = f, folded i]
  have same: "v' = w'" if "e \<in> set (disk_by_file (disk_of scanned k))" "fst e = f" "(i, v') \<in> entry_changes run k (db k) e"
      "e' \<in> set (disk_by_file (disk_of scanned k))" "fst e' = f" "(i, w') \<in> entry_changes run k (db k) e'" for e e' v' w'
  proof -
    have "e = e'" using disk_entry_unique [OF that(1,4)] that(2,5) by simp
    with that(3,6) show ?thesis using entry_changes_single by metis
  qed
  show ?thesis
  proof (cases "f \<in> fst ` set (disk_of scanned k)")
    case True
    with v w obtain e e' where "e \<in> set (disk_by_file (disk_of scanned k))" "fst e = f" "(i, v) \<in> entry_changes run k (db k) e"
      "e' \<in> set (disk_by_file (disk_of scanned k))" "fst e' = f" "(i, w) \<in> entry_changes run k (db k) e'"
      unfolding fl by blast
    then show ?thesis by (rule same)
  next
    case False
    with v w show ?thesis unfolding fl disk_entry_iff by metis
  qed
qed

text \<open>A part of a set of changes gives each file its old entry or its new one.\<close>

lemma effect_part:
  assumes "\<And>v w. (i, v) \<in> C \<Longrightarrow> (i, w) \<in> C \<Longrightarrow> v = w" "cs \<subseteq> C"
  shows "(\<forall>v. (i, v) \<in> effect cs S \<longleftrightarrow> (i, v) \<in> S) \<or> (\<forall>v. (i, v) \<in> effect cs S \<longleftrightarrow> (i, v) \<in> effect C S)"
proof (cases "i \<in> fst ` cs")
  case True
  then obtain c where c: "(i, c) \<in> cs" by auto
  with assms have same: "(i, v) \<in> cs \<longleftrightarrow> (i, v) \<in> C" for v by blast
  from True assms(2) have "i \<in> fst ` C" by blast
  with True show ?thesis by (simp add: effect_mem same)
next
  case False
  then have "(i, v) \<notin> cs" for v by force
  with False show ?thesis by (simp add: effect_mem)
qed

subsection \<open>Runs on the Lance store\<close>

context lance_store_laws
begin

lemma hoare_index_lance:
  assumes ord: "permutes_maps hash_order" and roots: "roots_ok (corpus_keys canon tilde corpus)"
    and hok: "handlers_ok (registry env)" and fok: "\<forall>fmt ctx pf. registry env fmt ctx = HandlerOk pf \<longrightarrow> file_ok pf"
  shows "hoare (\<lambda>w. store_inv w \<and> store_files w = S)
    (index_corpus hash_order canon tilde (Ok scanned) corpus (lance_chunk_store st) env at)
    (\<lambda>_ w. store_inv w \<and> in_sync env at (corpus_keys canon tilde corpus) scanned S (store_files w))
    (\<lambda>w. store_inv w \<and> (store_files w = S \<or> (\<exists>Y. in_sync env at (corpus_keys canon tilde corpus) scanned S Y \<and>
       (\<forall>i. (\<forall>v. (i, v) \<in> store_files w \<longleftrightarrow> (i, v) \<in> S) \<or> (\<forall>v. (i, v) \<in> store_files w \<longleftrightarrow> (i, v) \<in> Y)))))"
proof -
  let ?run = "corpus_run (lance_chunk_store st) env at" and ?keys = "corpus_keys canon tilde corpus"
  have run: "port.run_ok ?run"
    using hok fok port.lane_none by (simp add: port.run_ok_def DEFAULT_BATCH_SIZE_def)
  have sync: "in_sync env at ?keys scanned S (effect (corpus_changes ?run ?keys db scanned) S)"
    if "\<forall>k \<in> set ?keys. knows S k (db k)" for db
    using corpus_changes_in_sync [OF roots that, of ?run scanned] hok by simp
  have part: "\<exists>Y. in_sync env at ?keys scanned S Y \<and>
       (\<forall>i. (\<forall>v. (i, v) \<in> X \<longleftrightarrow> (i, v) \<in> S) \<or> (\<forall>v. (i, v) \<in> X \<longleftrightarrow> (i, v) \<in> Y))"
    if kn: "\<forall>k \<in> set ?keys. knows S k (db k)" and cs: "cs \<subseteq> corpus_changes ?run ?keys db scanned" "X = effect cs S" for db cs X
  proof (rule exI, rule conjI [OF sync [OF kn]], rule allI)
    fix i
    show "(\<forall>v. (i, v) \<in> X \<longleftrightarrow> (i, v) \<in> S) \<or>
        (\<forall>v. (i, v) \<in> X \<longleftrightarrow> (i, v) \<in> effect (corpus_changes ?run ?keys db scanned) S)"
      unfolding cs(2) by (rule effect_part [OF corpus_changes_single [OF roots kn] cs(1)]) (simp_all add: hok)
  qed
  show ?thesis
  proof (rule hoare_conseq [OF port.hoare_index_corpus [OF ord roots run, of S scanned]])
    fix w assume "store_inv w \<and> (\<exists>db. (\<forall>k \<in> set ?keys. knows S k (db k)) \<and>
        store_files w = effect (corpus_changes ?run ?keys db scanned) S)"
    then show "store_inv w \<and> in_sync env at ?keys scanned S (store_files w)" using sync by metis
  next
    fix w assume "store_inv w \<and> (store_files w = S \<or> (\<exists>db cs. (\<forall>k \<in> set ?keys. knows S k (db k)) \<and>
        cs \<subseteq> corpus_changes ?run ?keys db scanned \<and> store_files w = effect cs S))"
    then show "store_inv w \<and> (store_files w = S \<or> (\<exists>Y. in_sync env at ?keys scanned S Y \<and>
       (\<forall>i. (\<forall>v. (i, v) \<in> store_files w \<longleftrightarrow> (i, v) \<in> S) \<or> (\<forall>v. (i, v) \<in> store_files w \<longleftrightarrow> (i, v) \<in> Y))))"
      using part by metis
  qed
qed

end

subsection \<open>Properties\<close>

text \<open>
  C21. A run of \<open>index_corpus\<close> on the Lance store that returns leaves the index in step with
  the disk: of every configured root, a file that is gone has no entry, a file that can be
  prepared has exactly one, with the hash of its bytes, and a skipped file keeps what it had;
  every other root and corpus is untouched. The two tables stay consistent.
\<close>

theorem index_corpus_in_sync:
  assumes "lance_laws (st_db st) tables" "permutes_maps hash_order" "roots_ok (corpus_keys canon tilde corpus)"
    and "handlers_ok (registry env)" "\<forall>fmt ctx pf. registry env fmt ctx = HandlerOk pf \<longrightarrow> file_ok pf"
    and "tables_ok st (tables (ls_db w))"
    and "index_corpus hash_order canon tilde (Ok scanned) corpus (lance_chunk_store st) env at w = (w', Ok stats)"
  shows "tables_ok st (tables (ls_db w')) \<and>
    in_sync env at (corpus_keys canon tilde corpus) scanned (entries_of (tables (ls_db w))) (entries_of (tables (ls_db w')))"
proof -
  have L: "lance_store_laws st tables" using assms(1) by (simp add: lance_store_laws_def)
  note defs = lance_store_laws.store_inv_def [OF L] lance_store_laws.store_files_def [OF L] lance_store_laws.view_def [OF L]
  from hoareD [OF lance_store_laws.hoare_index_lance [OF L assms(2-5), unfolded defs] _ assms(7)] assms(6)
  show ?thesis by simp
qed

definition sample_env :: disk_env where
  "sample_env = \<lparr>read_file = (\<lambda>p. if p = ''/w/a.md'' then Ok ''hello'' else Err IoNotFound), blake3_hex = (\<lambda>b. ''h:'' @ b),
     sniff_bytes = (\<lambda>_. SniffedOther), error_text = (\<lambda>_. []),
     registry = (\<lambda>_ ctx. HandlerOk \<lparr>pf_file_ref = pctx_file ctx, pf_corpus_key = pctx_corpus_key ctx,
       pf_mtime_ms = pctx_mtime ctx, content_hash = pctx_content_hash ctx, pf_summary = ''s'', pf_keywords = [],
       pf_frontmatter = None, indexed_at_ms = pctx_indexed_at_ms ctx, pf_chunks = [sample_chunk]\<rparr>)\<rparr>"

definition sample_corpus :: corpus_config where
  "sample_corpus = \<lparr>cc_name = ''docs'', cc_paths = [''/w''], cc_globs = [], cc_exclude = [], cc_global = False\<rparr>"

definition sample_root :: corpus_key where
  "sample_root = \<lparr>ck_name = ''docs'', canonical_root = [RootDir, Normal ''w'']\<rparr>"

definition sample_scan :: "scanned_file list" where
  "sample_scan = [\<lparr>sf_corpus_key = sample_root, sf_file = ''/w/a.md'', sf_mtime = 5\<rparr>]"

definition sample_gone_row :: map_row where
  "sample_gone_row = \<lparr>mr_corpus = ''docs'', mr_root = ''/w'', mr_file_ref = ''/w/gone.md'', mr_mtime_ms = 1,
     mr_content_hash = ''x'', mr_content_key = ''k'', mr_chunk_count = 0, mr_indexed_at_ms = 1\<rparr>"

definition sample_state :: "nat mem_db lance_state" where
  "sample_state = \<lparr>ls_db = \<lparr>mem_map = [sample_gone_row], mem_content = [], mem_indices = []\<rparr>,
     indexes_ensured = False, text_index_present = False\<rparr>"

definition sample_store :: "(nat mem_db, nat) lance_store" where
  "sample_store = mem_store (\<lambda>s. ''key'') ''fp'' True (Some (\<lambda>texts. Ok (map length texts)))"

definition sample_run :: "nat mem_db lance_state \<times> apply_stats hall_result" where
  "sample_run = index_corpus (\<lambda>m. m) Ok (\<lambda>s. s) (Ok sample_scan) sample_corpus (lance_chunk_store sample_store)
     sample_env 100 sample_state"

lemma sample_run_eval:
  "(case snd sample_run of Ok s \<Rightarrow> Some (files_upserted s, files_deleted s) | Err _ \<Rightarrow> None) = Some (1, 1)"
  "map (\<lambda>r. (mr_file_ref r, mr_mtime_ms r, mr_content_hash r)) (mem_map (ls_db (fst sample_run))) = [(''/w/a.md'', 5, ''h:hello'')]"
  by code_simp+

lemma sample_laws: "lance_laws (st_db sample_store) mem_tables"
  by (simp add: sample_store_def mem_store_def mem.lance_laws_axioms)

lemma sample_order: "permutes_maps (\<lambda>m. m)"
  by (simp add: permutes_maps_def)

lemma sample_roots: "corpus_keys Ok (\<lambda>s. s) sample_corpus = [sample_root]"
  by code_simp

lemma sample_roots_ok: "roots_ok (corpus_keys Ok (\<lambda>s. s) sample_corpus)"
  unfolding sample_roots by (simp add: roots_ok_def sample_root_def absolute_path_def plain_component_def)

lemma sample_handlers:
  "handlers_ok (registry sample_env)" "\<forall>fmt ctx pf. registry sample_env fmt ctx = HandlerOk pf \<longrightarrow> file_ok pf"
  by (auto simp: sample_env_def handlers_ok_def file_ok_def sample_chunk_def)

lemma sample_tables: "tables_ok sample_store (mem_tables (ls_db sample_state))"
  by (simp add: tables_ok_def sample_state_def mem_tables_def unique_by_def whole_def backed_def key_group_def sample_gone_row_def)

lemma of_is_Ok:
  assumes "(case r of Ok a \<Rightarrow> Some (f a) | Err _ \<Rightarrow> None) = Some x"
  obtains a where "r = Ok a"
  using assms by (cases r) auto

theorem index_corpus_in_sync_witness:
  "tables_ok sample_store (mem_tables (ls_db (fst sample_run))) \<and>
   in_sync sample_env 100 [sample_root] sample_scan (entries_of (mem_tables (ls_db sample_state)))
     (entries_of (mem_tables (ls_db (fst sample_run)))) \<and>
   map (\<lambda>r. (mr_file_ref r, mr_mtime_ms r, mr_content_hash r)) (mem_map (ls_db (fst sample_run))) =
     [(''/w/a.md'', 5, ''h:hello'')]"
proof -
  obtain stats where "snd sample_run = Ok stats" using sample_run_eval(1) by (rule of_is_Ok)
  then have run: "index_corpus (\<lambda>m. m) Ok (\<lambda>s. s) (Ok sample_scan) sample_corpus (lance_chunk_store sample_store)
      sample_env 100 sample_state = (fst sample_run, Ok stats)"
    unfolding sample_run_def by (metis prod.collapse)
  from index_corpus_in_sync [OF sample_laws sample_order sample_roots_ok sample_handlers sample_tables run]
  show ?thesis using sample_run_eval(2) by (simp only: sample_roots)
qed

text \<open>
  C22. A run that fails partway has only moved towards that state: for some index in step with
  the disk, every file has either the entry it had before the run or the entry of that index.
  The two tables stay consistent, so the next run starts from them.
\<close>

theorem index_corpus_failure_partial:
  assumes "lance_laws (st_db st) tables" "permutes_maps hash_order" "roots_ok (corpus_keys canon tilde corpus)"
    and "handlers_ok (registry env)" "\<forall>fmt ctx pf. registry env fmt ctx = HandlerOk pf \<longrightarrow> file_ok pf"
    and "tables_ok st (tables (ls_db w))"
    and "index_corpus hash_order canon tilde (Ok scanned) corpus (lance_chunk_store st) env at w = (w', Err e)"
  shows "tables_ok st (tables (ls_db w')) \<and>
    (entries_of (tables (ls_db w')) = entries_of (tables (ls_db w)) \<or>
     (\<exists>Y. in_sync env at (corpus_keys canon tilde corpus) scanned (entries_of (tables (ls_db w))) Y \<and>
       (\<forall>i. (\<forall>v. (i, v) \<in> entries_of (tables (ls_db w')) \<longleftrightarrow> (i, v) \<in> entries_of (tables (ls_db w))) \<or>
            (\<forall>v. (i, v) \<in> entries_of (tables (ls_db w')) \<longleftrightarrow> (i, v) \<in> Y))))"
proof -
  have L: "lance_store_laws st tables" using assms(1) by (simp add: lance_store_laws_def)
  note defs = lance_store_laws.store_inv_def [OF L] lance_store_laws.store_files_def [OF L] lance_store_laws.view_def [OF L]
  from hoareE [OF lance_store_laws.hoare_index_lance [OF L assms(2-5), unfolded defs] _ assms(7)] assms(6)
  show ?thesis by simp
qed

definition sample_failing_run :: "nat mem_db lance_state \<times> apply_stats hall_result" where
  "sample_failing_run = index_corpus (\<lambda>m. m) Ok (\<lambda>s. s)
     (Ok (sample_scan @ [\<lparr>sf_corpus_key = sample_root, sf_file = ''/w/gone.md'', sf_mtime = 9\<rparr>])) sample_corpus
     (lance_chunk_store sample_store) sample_env 100 sample_state"

lemma sample_failing_run_eval:
  "snd sample_failing_run = Err (EIo IoNotFound)"
  "map mr_file_ref (mem_map (ls_db (fst sample_failing_run))) = [''/w/gone.md'', ''/w/a.md'']"
  by code_simp+

theorem index_corpus_failure_partial_witness:
  "tables_ok sample_store (mem_tables (ls_db (fst sample_failing_run))) \<and>
   map mr_file_ref (mem_map (ls_db (fst sample_failing_run))) = [''/w/gone.md'', ''/w/a.md'']"
proof -
  have run: "index_corpus (\<lambda>m. m) Ok (\<lambda>s. s)
     (Ok (sample_scan @ [\<lparr>sf_corpus_key = sample_root, sf_file = ''/w/gone.md'', sf_mtime = 9\<rparr>])) sample_corpus
     (lance_chunk_store sample_store) sample_env 100 sample_state = (fst sample_failing_run, Err (EIo IoNotFound))"
    using sample_failing_run_eval(1) unfolding sample_failing_run_def by (metis prod.collapse)
  from index_corpus_failure_partial [OF sample_laws sample_order sample_roots_ok sample_handlers sample_tables run]
  show ?thesis using sample_failing_run_eval(2) by blast
qed

end
