(* ===== verification/Write_Gate.thy ===== *)
theory Write_Gate
  imports Lance_Memory
begin

text \<open>
  The write gate of \<open>adapters/lance.rs\<close>. Batches and the removal of unreferenced content hold
  the gate; finding candidates for removal, touching, deleting a file and deleting a root do
  not. \<open>gate_step\<close> interleaves them: a batch writes its content and then its map rows, a removal
  rechecks a group of candidates and then deletes it, and between any two of these steps the
  operations without the gate may run. The candidates and the vectors prepared before the gate
  was taken are arbitrary, so that any earlier moment may have produced them.
\<close>

subsection \<open>The steps\<close>

datatype gate =
    GateFree
  | GateCommit "prepared_file list" "batch_write_stats \<times> bool"
  | GateCollect "string list list"
  | GateDelete "string list" "string list list"

inductive gate_step ::
  "('d, 'v) lance_store \<Rightarrow> 'd lance_state \<times> gate \<Rightarrow> 'd lance_state \<times> gate \<Rightarrow> bool" for st where
  commit_begin: "batch_ok batch \<Longrightarrow> commit_content st batch embedded w = (w', Ok r) \<Longrightarrow>
     gate_step st (w, GateFree) (w', GateCommit batch r)"
| commit_fails: "batch_ok batch \<Longrightarrow> commit_content st batch embedded w = (w', Err e) \<Longrightarrow>
     gate_step st (w, GateFree) (w', GateFree)"
| commit_ends: "commit_map st batch r w = (w', result) \<Longrightarrow> gate_step st (w, GateCommit batch r) (w', GateFree)"
| collect_begin: "gate_step st (w, GateFree) (w, GateCollect (chunks_of KEY_LOOKUP_CHUNK candidates))"
| collect_recheck: "recheck st g w = (w', Ok orphans) \<Longrightarrow>
     gate_step st (w, GateCollect (g # gs)) (w', GateDelete orphans gs)"
| collect_recheck_fails: "recheck st g w = (w', Err e) \<Longrightarrow> gate_step st (w, GateCollect (g # gs)) (w', GateFree)"
| collect_delete: "drop_orphans st orphans w = (w', Ok n) \<Longrightarrow>
     gate_step st (w, GateDelete orphans gs) (w', GateCollect gs)"
| collect_delete_fails: "drop_orphans st orphans w = (w', Err e) \<Longrightarrow>
     gate_step st (w, GateDelete orphans gs) (w', GateFree)"
| collect_ends: "gate_step st (w, GateCollect []) (w, GateFree)"
| touch: "lance_touch_mtime st k f m w = (w', result) \<Longrightarrow> gate_step st (w, g) (w', g)"
| remove_file: "lance_delete_file st k f w = (w', result) \<Longrightarrow> gate_step st (w, g) (w', g)"
| remove_root: "delete_root st root w = (w', result) \<Longrightarrow> gate_step st (w, g) (w', g)"

subsection \<open>The invariant\<close>

text \<open>
  While a batch holds the gate its content is stored; between the recheck and the delete no map
  row refers to a key about to go.
\<close>

fun gate_inv :: "('d, 'v) lance_store \<Rightarrow> 'v tables \<Rightarrow> gate \<Rightarrow> bool" where
  "gate_inv st T (GateCommit batch r) \<longleftrightarrow> tables_ok st T \<and> batch_ok batch \<and> stored_for st batch (snd T)"
| "gate_inv st T (GateDelete orphans gs) \<longleftrightarrow> tables_ok st T \<and> set orphans \<inter> referenced (fst T) = {}"
| "gate_inv st T g \<longleftrightarrow> tables_ok st T"

lemma gate_inv_tables: "gate_inv st T g \<Longrightarrow> tables_ok st T"
  by (cases g) auto

text \<open>Operations without the gate only remove map rows or change their mtime.\<close>

lemma gate_inv_fewer_rows:
  assumes "gate_inv st (M, C) g" "tables_ok st (M', C)" "referenced M' \<subseteq> referenced M"
  shows "gate_inv st (M', C) g"
  using assms by (cases g) auto

context lance_store_laws
begin

text \<open>What an operation without the gate leaves of the tables, whether it succeeds or fails.\<close>

definition ungated :: "('d lance_state, 'a) op \<Rightarrow> bool" where
  "ungated m \<longleftrightarrow> (\<forall>M C s s' r. view s = (M, C) \<longrightarrow> tables_ok st (M, C) \<longrightarrow> m s = (s', r) \<longrightarrow>
     (\<exists>M'. view s' = (M', C) \<and> tables_ok st (M', C) \<and> referenced M' \<subseteq> referenced M))"

lemma ungatedI:
  assumes "\<And>M C. hoare (\<lambda>s. view s = (M, C)) m (\<lambda>_ s. view s = (f M, C)) (\<lambda>s. view s = (M, C))"
    and "\<And>M C. tables_ok st (M, C) \<Longrightarrow> tables_ok st (f M, C)" "\<And>M. referenced (f M) \<subseteq> referenced M"
  shows "ungated m"
  unfolding ungated_def
proof (intro allI impI)
  fix M and C :: "'v content_row multiset" and s s' r
  assume "view s = (M, C)" "tables_ok st (M, C)" "m s = (s', r)"
  then show "\<exists>M'. view s' = (M', C) \<and> tables_ok st (M', C) \<and> referenced M' \<subseteq> referenced M"
    using hoareD [OF assms(1)] hoareE [OF assms(1)] assms(2,3) by (cases r) blast+
qed

lemma ungated_fail: "ungated (fail e)"
  by (auto simp: ungated_def fail_def)

lemma tables_ok_update:
  assumes "tables_ok st (M, C)"
  shows "tables_ok st (image_mset (\<lambda>r. if P r then r\<lparr>mr_mtime_ms := t\<rparr> else r) M, C)"
proof -
  let ?up = "\<lambda>r. if P r then r\<lparr>mr_mtime_ms := t\<rparr> else r"
  have "unique_ids (image_mset ?up M)"
    using assms by (intro unique_by_image) (simp_all add: tables_ok_def row_id_def)
  with assms show ?thesis by (auto simp: tables_ok_def backed_def)
qed

lemma ungated_touch: "ungated (lance_touch_mtime st k f t)"
proof (cases "root_str k")
  case None
  then show ?thesis by (simp add: lance_touch_mtime_def file_map_filter_sql ungated_fail)
next
  case (Some root)
  let ?F = "CorpusFile (ck_name k) root f"
  show ?thesis unfolding lance_touch_mtime_def file_map_filter_sql Some option.case bind_op_simps
    by (rule ungatedI [OF update_view]) (rule tables_ok_update, assumption, auto simp: referenced_def)
qed

lemma ungated_delete: "ungated (on_db (delete_map (st_db st) (filter_sql F)))"
proof (rule ungatedI [where f = "filter_mset (\<lambda>r. \<not> map_matches F r)"])
  fix M and C :: "'v content_row multiset"
  show "hoare (\<lambda>s. view s = (M, C)) (on_db (delete_map (st_db st) (filter_sql F)))
      (\<lambda>_ s. view s = (filter_mset (\<lambda>r. \<not> map_matches F r) M, C)) (\<lambda>s. view s = (M, C))"
    by (rule hoare_conseq [OF delete_map_view]) auto
qed (auto simp: referenced_def tables_ok_delete_map)

lemma ungated_bind_ret: "ungated m \<Longrightarrow> ungated (bind_op m (\<lambda>a. ret (g a)))"
  by (auto simp: ungated_def bind_op_def ret_def split: prod.splits sum.splits)

lemma ungated_delete_file: "ungated (lance_delete_file st k f)"
  by (cases "root_str k")
     (simp_all add: lance_delete_file_def file_map_filter_sql ungated_fail ungated_bind_ret ungated_delete
        del: filter_sql.simps)

lemma ungated_delete_root: "ungated (delete_root st root)"
  using ungated_delete [of "RootOnly (path_string root)"]
  by (auto simp: delete_root_def to_str_def ungated_fail)

lemma gate_inv_ungated:
  assumes "ungated m" "m w = (w', r)" "gate_inv st (view w) g"
  shows "gate_inv st (view w') g"
proof -
  obtain M C where w: "view w = (M, C)" by (cases "view w")
  with assms gate_inv_tables [OF assms(3)] obtain M' where
    "view w' = (M', C)" "tables_ok st (M', C)" "referenced M' \<subseteq> referenced M"
    unfolding ungated_def by metis
  with assms(3) w show ?thesis using gate_inv_fewer_rows by metis
qed

lemma gate_step_inv:
  assumes "gate_step st x y" "gate_inv st (view (fst x)) (snd x)"
  shows "gate_inv st (view (fst y)) (snd y)"
  using assms
proof (induction rule: gate_step.induct)
  case (commit_begin batch embedded w w' r)
  then have "list_all file_ok batch" "tables_ok st (fst (view w), snd (view w))" by (simp_all add: batch_ok_def)
  from hoareD [OF hoare_commit_content [OF this(2,1)] _ commit_begin(2)] obtain C'
    where "view w' = (fst (view w), C')" "tables_ok st (view w')" "stored_for st batch C'" by auto
  with commit_begin(1) show ?case by simp
next
  case (commit_fails batch embedded w w' e)
  then have "list_all file_ok batch" "tables_ok st (fst (view w), snd (view w))" by (simp_all add: batch_ok_def)
  from hoareE [OF hoare_commit_content [OF this(2,1)] _ commit_fails(2)] this(2) show ?case by simp
next
  case (commit_ends batch r w w' result)
  then have inv: "tables_ok st (fst (view w), snd (view w))" "distinct (map (fst \<circ> put_change) batch)"
    "stored_for st batch (snd (view w))" by (simp_all add: batch_ok_def)
  show ?case using hoareD [OF hoare_commit_map [OF inv]] hoareE [OF hoare_commit_map [OF inv]] commit_ends(1)
    by (cases result) auto
next
  case (collect_recheck g w w' orphans gs)
  then have "view w' = view w \<and> set orphans = set g - referenced (fst (view w))"
    using hoareD [OF hoare_recheck [of "fst (view w)" "snd (view w)" g] _ collect_recheck(1)] by simp
  with collect_recheck(2) show ?case by auto
next
  case (collect_recheck_fails g w w' e gs)
  then show ?case using hoareE [OF hoare_recheck [of "fst (view w)" "snd (view w)" g] _ collect_recheck_fails(1)] by simp
next
  case (collect_delete orphans w w' n gs)
  then have "view w' = (fst (view w), without_keys (set orphans) (snd (view w)))"
    using hoareD [OF hoare_drop_orphans [of "fst (view w)" "snd (view w)" orphans] _ collect_delete(1)] by simp
  with collect_delete(2) show ?case using tables_ok_without [of st "fst (view w)" "snd (view w)" "set orphans"] by simp
next
  case (collect_delete_fails orphans w w' e gs)
  then show ?case using hoareE [OF hoare_drop_orphans [of "fst (view w)" "snd (view w)" orphans] _ collect_delete_fails(1)] by simp
next
  case (touch k f m w w' result g)
  then show ?case using gate_inv_ungated [OF ungated_touch] by simp
next
  case (remove_file k f w w' result g)
  then show ?case using gate_inv_ungated [OF ungated_delete_file] by simp
next
  case (remove_root root w w' result g)
  then show ?case using gate_inv_ungated [OF ungated_delete_root] by simp
qed simp_all

lemma gate_reachable_inv:
  assumes "(gate_step st)\<^sup>*\<^sup>* x y" "gate_inv st (view (fst x)) (snd x)"
  shows "gate_inv st (view (fst y)) (snd y)"
  using assms by (induction rule: rtranclp_induct) (auto intro: gate_step_inv)

end

subsection \<open>Properties\<close>

text \<open>
  C23. Whatever the interleaving of batches, removals of unreferenced content, touches and
  deletes, with arbitrary stale candidates and prepared vectors and with failures at any step:
  every map row with chunks still has its content rows, the rows of a content key are all the
  rows of one file, and no file has two map rows.
\<close>

theorem gate_keeps_content:
  assumes "lance_laws (st_db st) tables" "tables_ok st (tables (ls_db w))"
    and "(gate_step st)\<^sup>*\<^sup>* (w, GateFree) (w', g)"
  shows "tables_ok st (tables (ls_db w'))"
proof -
  have L: "lance_store_laws st tables" using assms(1) by (simp add: lance_store_laws_def)
  from lance_store_laws.gate_reachable_inv [OF L assms(3)] assms(2)
  have "gate_inv st (tables (ls_db w')) g" by (simp add: lance_store_laws.view_def [OF L])
  then show ?thesis by (rule gate_inv_tables)
qed

definition gate_store :: "(unit mem_db, unit) lance_store" where
  "gate_store = mem_store (\<lambda>_. ''key'') ''fp'' False None"

definition gate_start :: "unit mem_db lance_state" where
  "gate_start = \<lparr>ls_db = \<lparr>mem_map = [], mem_content = [], mem_indices = []\<rparr>, indexes_ensured = False, text_index_present = False\<rparr>"

definition gate_batch :: "prepared_file list" where
  "gate_batch = [sample_file ''/x/a.md'']"

definition gate_mid :: "unit mem_db lance_state" where
  "gate_mid = fst (commit_content gate_store gate_batch Map.empty gate_start)"

definition gate_end :: "unit mem_db lance_state" where
  "gate_end = fst (commit_map gate_store gate_batch (\<lparr>chunks_written = 1, embeddings_written = 0\<rparr>, False) gate_mid)"

lemma gate_laws: "lance_laws (st_db gate_store) mem_tables"
  by (simp add: gate_store_def mem_store_def mem.lance_laws_axioms)

lemma gate_eval:
  "snd (commit_content gate_store gate_batch Map.empty gate_start) = Ok (\<lparr>chunks_written = 1, embeddings_written = 0\<rparr>, False)"
  "snd (recheck gate_store [''key''] gate_end) = Ok []"
  "map mr_content_key (mem_map (ls_db gate_end)) = [''key''] \<and> map cr_content_key (mem_content (ls_db gate_end)) = [''key'']"
  "chunks_of KEY_LOOKUP_CHUNK [''key''] = [[''key'']]"
  by code_simp+

theorem gate_keeps_content_witness:
  "tables_ok gate_store (mem_tables (ls_db (fst (recheck gate_store [''key''] gate_end)))) \<and>
   map mr_content_key (mem_map (ls_db gate_end)) = [''key''] \<and> map cr_content_key (mem_content (ls_db gate_end)) = [''key'']"
proof -
  let ?r = "(\<lparr>chunks_written = 1, embeddings_written = 0\<rparr>, False)"
  have "batch_ok gate_batch" by (simp add: batch_ok_def gate_batch_def file_ok_def sample_file_def sample_chunk_def)
  moreover have "commit_content gate_store gate_batch Map.empty gate_start = (gate_mid, Ok ?r)"
    using gate_eval(1) by (metis gate_mid_def prod.collapse)
  ultimately have s1: "gate_step gate_store (gate_start, GateFree) (gate_mid, GateCommit gate_batch ?r)"
    by (rule gate_step.commit_begin)
  have s2: "gate_step gate_store (gate_mid, GateCommit gate_batch ?r) (gate_end, GateFree)"
    unfolding gate_end_def by (rule gate_step.commit_ends) (rule prod.collapse [symmetric])
  have s3: "gate_step gate_store (gate_end, GateFree) (gate_end, GateCollect [[''key'']])"
    using gate_step.collect_begin [of gate_store gate_end "[''key'']"] by (simp only: gate_eval)
  have s4: "gate_step gate_store (gate_end, GateCollect [[''key'']])
      (fst (recheck gate_store [''key''] gate_end), GateDelete [] [])"
    by (rule gate_step.collect_recheck) (rule prod_eqI, simp_all only: fst_conv snd_conv gate_eval)
  have run: "(gate_step gate_store)\<^sup>*\<^sup>* (gate_start, GateFree)
      (fst (recheck gate_store [''key''] gate_end), GateDelete [] [])"
  proof -
    have "(gate_step gate_store)\<^sup>*\<^sup>* (gate_start, GateFree) (gate_mid, GateCommit gate_batch ?r)"
      using s1 by (rule r_into_rtranclp)
    then have "(gate_step gate_store)\<^sup>*\<^sup>* (gate_start, GateFree) (gate_end, GateFree)"
      using s2 by (rule rtranclp.rtrancl_into_rtrancl)
    then have "(gate_step gate_store)\<^sup>*\<^sup>* (gate_start, GateFree) (gate_end, GateCollect [[''key'']])"
      using s3 by (rule rtranclp.rtrancl_into_rtrancl)
    then show ?thesis using s4 by (rule rtranclp.rtrancl_into_rtrancl)
  qed
  have ok: "tables_ok gate_store (mem_tables (ls_db gate_start))"
    by (simp add: tables_ok_def gate_start_def mem_tables_def unique_by_def whole_def backed_def key_group_def)
  from gate_keeps_content [OF gate_laws ok run] gate_eval(3) show ?thesis by (rule conjI)
qed

text \<open>
  C24. Removing unreferenced content is exact: a pass that returns has removed the rows of every
  key no map row refers to and no other row, and returns their number. A pass that fails has
  removed rows of unreferenced keys only, whole keys at a time.
\<close>

theorem delete_orphan_content_exact:
  assumes "lance_laws (st_db st) tables" "tables_ok st (tables (ls_db w))"
  shows "case delete_orphan_content st w of
      (w', Ok n) \<Rightarrow>
        tables (ls_db w') = (fst (tables (ls_db w)),
          filter_mset (\<lambda>r. cr_content_key r \<in> referenced (fst (tables (ls_db w)))) (snd (tables (ls_db w)))) \<and>
        n = size (filter_mset (\<lambda>r. cr_content_key r \<notin> referenced (fst (tables (ls_db w)))) (snd (tables (ls_db w))))
    | (w', Err e) \<Rightarrow>
        \<exists>X. X \<inter> referenced (fst (tables (ls_db w))) = {} \<and>
          tables (ls_db w') = (fst (tables (ls_db w)), without_keys X (snd (tables (ls_db w))))"
proof -
  have L: "lance_store_laws st tables" using assms(1) by (simp add: lance_store_laws_def)
  have "whole st (snd (tables (ls_db w)))" using assms(2) by (simp add: tables_ok_def)
  from lance_store_laws.hoare_delete_orphan_content [OF L this, of "fst (tables (ls_db w))"]
  show ?thesis unfolding hoare_def lance_store_laws.view_def [OF L] by (auto dest: spec [of _ w])
qed

theorem delete_orphan_content_exact_witness:
  "tables_ok gate_store (mem_tables (ls_db gate_mid)) \<and>
   mem_tables (ls_db (fst (delete_orphan_content gate_store gate_mid))) = ({#}, {#})"
proof -
  have "batch_ok gate_batch" by (simp add: batch_ok_def gate_batch_def file_ok_def sample_file_def sample_chunk_def)
  then have files: "list_all file_ok gate_batch" by (simp add: batch_ok_def)
  have L: "lance_store_laws gate_store mem_tables" using gate_laws by (simp add: lance_store_laws_def)
  have start: "mem_tables (ls_db gate_start) = ({#}, {#})" by (simp add: gate_start_def mem_tables_def)
  have ok: "tables_ok gate_store ({#}, {#})" by (simp add: tables_ok_def unique_by_def whole_def backed_def key_group_def)
  have run: "commit_content gate_store gate_batch Map.empty gate_start = (gate_mid, Ok (\<lparr>chunks_written = 1, embeddings_written = 0\<rparr>, False))"
    using gate_eval(1) by (metis gate_mid_def prod.collapse)
  have mid: "tables_ok gate_store (mem_tables (ls_db gate_mid)) \<and> fst (mem_tables (ls_db gate_mid)) = {#}"
    using hoareD [OF lance_store_laws.hoare_commit_content [OF L ok files] _ run]
    by (auto simp: lance_store_laws.view_def [OF L] start)
  have ok: "(case delete_orphan_content gate_store gate_mid of (w', Ok n) \<Rightarrow> n = 1 | (w', Err e) \<Rightarrow> False)"
    by code_simp
  with delete_orphan_content_exact [OF gate_laws conjunct1 [OF mid]] mid
  show ?thesis by (auto simp: referenced_def split: prod.splits sum.splits)
qed

end
