(* ===== verification/Daemon_Health.thy ===== *)
theory Daemon_Health
  imports Common
begin

text \<open>
  The small parts of the daemon's supervision: the backoff curve (\<open>backoff.rs\<close>), the two-step
  ladder (\<open>ladder.rs\<close>), the churn tracker (\<open>churn.rs\<close>), the heartbeat registry
  (\<open>heartbeat.rs\<close>), the maintenance debt and its gate on mutations (\<open>debt.rs\<close>,
  \<open>backpressure.rs\<close>). Counters keep their width; an instant is the number of clock ticks since the process began, a duration a number
  of ticks.
\<close>

subsection \<open>The backoff curve\<close>

definition exponential_backoff_secs :: "u64 \<Rightarrow> u64 \<Rightarrow> u32 \<Rightarrow> u64" where
  "exponential_backoff_secs floor_secs cap steps =
     (if steps = 0 then 0
      else let exponent = min (steps - 1) 63
           in min (saturating_mul floor_secs (push_bit (unat exponent) 1)) cap)"

subsection \<open>The ladder\<close>

datatype task_name = Maintenance | CatchUp | WatcherPump | IdleExit | Signal

datatype ladder_action = ForceMaintenance | RestartTask task_name | WatchdogTrip

datatype 'a ladder_outcome = Nothing | Warn | Action 'a

record 'a ladder =
  warn_at :: u32
  act_at :: u32
  action :: 'a

definition evaluate :: "'a ladder \<Rightarrow> u32 \<Rightarrow> 'a ladder_outcome" where
  "evaluate l count =
     (if act_at l \<le> count then Action (action l)
      else if warn_at l \<le> count then Warn
      else Nothing)"

subsection \<open>Reindex churn\<close>

datatype reindex_effect = Upserted | NoOp

record churn_tracker =
  ct_ladder :: "ladder_action ladder"
  consecutive_noops :: u32
  action_armed :: bool

definition churn_new :: "u32 \<Rightarrow> u32 \<Rightarrow> churn_tracker" where
  "churn_new warn act =
     \<lparr>ct_ladder = \<lparr>warn_at = warn, act_at = act, action = ForceMaintenance\<rparr>,
      consecutive_noops = 0, action_armed = True\<rparr>"

definition record_reindex ::
  "reindex_effect \<Rightarrow> churn_tracker \<Rightarrow> churn_tracker \<times> ladder_action ladder_outcome" where
  "record_reindex effect t =
     (if effect = Upserted then (t\<lparr>consecutive_noops := 0, action_armed := True\<rparr>, Nothing)
      else let t = t\<lparr>consecutive_noops := saturating_add (consecutive_noops t) 1\<rparr>
           in case evaluate (ct_ladder t) (consecutive_noops t) of
                Nothing \<Rightarrow> (t, Nothing)
              | Warn \<Rightarrow> (t, Warn)
              | Action a \<Rightarrow>
                  (if action_armed t then (t\<lparr>action_armed := False\<rparr>, Action a) else (t, Warn)))"

text \<open>The outcomes of a sequence of passes, from the tracker on.\<close>

fun churn_run :: "churn_tracker \<Rightarrow> reindex_effect list \<Rightarrow> ladder_action ladder_outcome list" where
  "churn_run t [] = []"
| "churn_run t (e # es) = (case record_reindex e t of (t', out) \<Rightarrow> out # churn_run t' es)"

subsection \<open>Heartbeats\<close>

datatype task_status = Alive | Stalled

fun slot :: "task_name \<Rightarrow> nat" where
  "slot Maintenance = 0"
| "slot CatchUp = 1"
| "slot WatcherPump = 2"
| "slot IdleExit = 3"
| "slot Signal = 4"

definition TASK_COUNT :: nat where
  "TASK_COUNT = 5"

record heartbeat_registry =
  epochs :: "u64 list"

definition heartbeat_default :: heartbeat_registry where
  "heartbeat_default = \<lparr>epochs = replicate TASK_COUNT 0\<rparr>"

definition bump :: "task_name \<Rightarrow> heartbeat_registry \<Rightarrow> heartbeat_registry \<times> u64" where
  "bump task r =
     (let e = epochs r ! slot task + 1 in (r\<lparr>epochs := (epochs r)[slot task := e]\<rparr>, e))"

definition epoch :: "heartbeat_registry \<Rightarrow> task_name \<Rightarrow> u64" where
  "epoch r task = epochs r ! slot task"

definition compare_epochs :: "u64 \<Rightarrow> u64 \<Rightarrow> task_status" where
  "compare_epochs previous current = (if current = previous then Stalled else Alive)"

subsection \<open>Maintenance debt\<close>

record maintenance_debt =
  fragments :: u64
  stale_versions :: u64

record debt_thresholds =
  debt_soft_fragments :: u64
  debt_hard_fragments :: u64
  debt_soft_stale_versions :: u64
  debt_hard_stale_versions :: u64

datatype debt_level = DebtOk | Soft | Hard

definition classify_debt :: "maintenance_debt \<Rightarrow> debt_thresholds \<Rightarrow> debt_level" where
  "classify_debt debt cfg =
     (if debt_hard_fragments cfg \<le> fragments debt \<or> debt_hard_stale_versions cfg \<le> stale_versions debt
      then Hard
      else if debt_soft_fragments cfg \<le> fragments debt \<or> debt_soft_stale_versions cfg \<le> stale_versions debt
      then Soft
      else DebtOk)"

text \<open>The cache of the last classification.\<close>

record debt_cache =
  last_level :: "(debt_level \<times> nat) option"

definition debt_cache_new :: debt_cache where
  "debt_cache_new = \<lparr>last_level = None\<rparr>"

definition record_at :: "debt_level \<Rightarrow> nat \<Rightarrow> debt_cache \<Rightarrow> debt_cache" where
  "record_at l at c = c\<lparr>last_level := Some (l, at)\<rparr>"

definition fresh_level_at :: "nat \<Rightarrow> nat \<Rightarrow> debt_cache \<Rightarrow> debt_level option" where
  "fresh_level_at ttl now c =
     (case last_level c of
        None \<Rightarrow> None
      | Some (l, at) \<Rightarrow> if now - at < ttl then Some l else None)"

definition level :: "debt_cache \<Rightarrow> debt_level" where
  "level c = (case last_level c of None \<Rightarrow> DebtOk | Some (l, _) \<Rightarrow> l)"

text \<open>What the store reports: fragments and stale versions of the content table and of the map.\<close>

record lance_debt =
  ld_fragments :: u64
  ld_stale_versions :: u64
  ld_files_fragments :: u64
  ld_files_stale_versions :: u64

definition refresh_observed ::
  "debt_thresholds \<Rightarrow> lance_debt hall_result \<Rightarrow> nat \<Rightarrow> debt_cache \<Rightarrow> debt_cache \<times> debt_level" where
  "refresh_observed cfg store_debt now c =
     (case store_debt of
        Ok d \<Rightarrow>
          (let l = classify_debt \<lparr>fragments = ld_fragments d + ld_files_fragments d,
                      stale_versions = ld_stale_versions d + ld_files_stale_versions d\<rparr> cfg
           in (record_at l now c, l))
      | Err _ \<Rightarrow> (c, DebtOk))"

definition observed_level ::
  "debt_thresholds \<Rightarrow> nat \<Rightarrow> lance_debt hall_result \<Rightarrow> nat \<Rightarrow> debt_cache \<Rightarrow> debt_cache \<times> debt_level" where
  "observed_level cfg ttl store_debt now c =
     (case fresh_level_at ttl now c of
        Some l \<Rightarrow> (c, l)
      | None \<Rightarrow> refresh_observed cfg store_debt now c)"

definition probe_admitting_hard_debt_without_maintenance :: "bool \<Rightarrow> debt_level \<Rightarrow> debt_level" where
  "probe_admitting_hard_debt_without_maintenance maintenance_disabled l =
     (if l = Hard \<and> maintenance_disabled then Soft else l)"

subsection \<open>The gate on mutations\<close>

definition RETRYABLE_HARD_DEBT :: string where
  "RETRYABLE_HARD_DEBT =
     ''maintenance debt is Hard; mutation timed out waiting for maintenance -- retry shortly''"

text \<open>
  \<open>probe k\<close> is the level the \<open>k\<close>-th probe reads, \<open>late k\<close> how many ticks after the instant asked
  for the \<open>k\<close>-th sleep and its probe end; \<open>now\<close> is when the first probe returned. A run gives the result and the instant it was reached.
\<close>

partial_function (option) gate_loop ::
  "(nat \<Rightarrow> debt_level) \<Rightarrow> (nat \<Rightarrow> nat) \<Rightarrow> nat \<Rightarrow> nat \<Rightarrow> nat \<Rightarrow> nat \<Rightarrow> ((string, unit) result \<times> nat) option" where
  "gate_loop probe late poll deadline now k =
     (if deadline \<le> now then Some (Err RETRYABLE_HARD_DEBT, now)
      else let now = min (now + poll) deadline + late k
           in if probe k \<noteq> Hard then Some (Ok (), now)
              else gate_loop probe late poll deadline now (k + 1))"

definition gate ::
  "(nat \<Rightarrow> debt_level) \<Rightarrow> (nat \<Rightarrow> nat) \<Rightarrow> nat \<Rightarrow> nat \<Rightarrow> nat \<Rightarrow> nat \<Rightarrow> ((string, unit) result \<times> nat) option" where
  "gate probe late soft_delay hard_wait poll now =
     (case probe 0 of
        DebtOk \<Rightarrow> Some (Ok (), now)
      | Soft \<Rightarrow> Some (Ok (), now + soft_delay + late 0)
      | Hard \<Rightarrow> gate_loop probe late poll (now + hard_wait) now 1)"

record gate_config =
  maintenance_interval_secs :: nat
  debt_soft_delay :: nat
  hard_block_wait :: nat
  debt_cache_ttl_secs :: nat
  ticks_per_sec :: nat

definition await_debt_gate ::
  "gate_config \<Rightarrow> (nat \<Rightarrow> debt_level) \<Rightarrow> (nat \<Rightarrow> nat) \<Rightarrow> nat \<Rightarrow> ((string, unit) result \<times> nat) option" where
  "await_debt_gate cfg observed late now =
     gate (\<lambda>k. probe_admitting_hard_debt_without_maintenance (maintenance_interval_secs cfg = 0) (observed k)) late
       (debt_soft_delay cfg) (hard_block_wait cfg) (max (debt_cache_ttl_secs cfg) 1 * ticks_per_sec cfg) now"

subsection \<open>The curve without the machine arithmetic\<close>

lemma unat_backoff:
  "unat (exponential_backoff_secs floor_secs cap steps) =
     (if steps = 0 then 0
      else min (min (unat floor_secs * 2 ^ min (unat steps - 1) 63) (2 ^ 64 - 1)) (unat cap))"
proof (cases "steps = 0")
  case False
  then have "1 \<le> steps" by (simp add: word_le_nat_alt unat_gt_0 Suc_le_eq)
  then have "unat (min (steps - 1) 63) = min (unat steps - 1) 63" by (simp add: unat_min unat_sub)
  moreover have "unat (push_bit e (1 :: u64)) = 2 ^ e" if "e \<le> 63" for e
  proof -
    have "(2 :: nat) ^ e \<le> 2 ^ 63" using that by (rule power_increasing) simp
    then have "(2 :: nat) ^ e < 2 ^ 64" by simp
    then show ?thesis using that unfolding unsigned_push_bit_eq by (simp add: take_bit_nat_eq_self push_bit_eq_mult)
  qed
  ultimately show ?thesis using False
    by (simp add: exponential_backoff_secs_def Let_def unat_min unat_saturating_mul)
qed (simp add: exponential_backoff_secs_def)

subsection \<open>Streaks\<close>

definition streak :: "reindex_effect list \<Rightarrow> nat" where
  "streak es = length (takeWhile (\<lambda>e. e = NoOp) (rev es))"

text \<open>What a pass should report when it ends a streak of \<open>n\<close> passes without effect.\<close>

definition churn_outcome :: "u32 \<Rightarrow> u32 \<Rightarrow> nat \<Rightarrow> ladder_action ladder_outcome" where
  "churn_outcome warn act n =
     (if n = 0 then Nothing
      else if n = max 1 (unat act) then Action ForceMaintenance
      else if min (unat warn) (unat act) \<le> n then Warn
      else Nothing)"

definition churn_at :: "u32 \<Rightarrow> u32 \<Rightarrow> nat \<Rightarrow> churn_tracker" where
  "churn_at warn act n =
     \<lparr>ct_ladder = \<lparr>warn_at = warn, act_at = act, action = ForceMaintenance\<rparr>,
      consecutive_noops = of_nat (min n (2 ^ 32 - 1)), action_armed = (n < max 1 (unat act))\<rparr>"

lemma unat_of_nat_min: "unat (of_nat (min n (2 ^ 32 - 1)) :: u32) = min n (2 ^ 32 - 1)"
  by (simp add: unat_of_nat)

lemma record_reindex_upserted: "record_reindex Upserted (churn_at warn act n) = (churn_at warn act 0, Nothing)"
  by (simp add: record_reindex_def churn_at_def)

lemma record_reindex_noop_step:
  assumes "saturating_add c 1 = d"
  shows "record_reindex NoOp \<lparr>ct_ladder = l, consecutive_noops = c, action_armed = armed\<rparr> =
     (case evaluate l d of
        Nothing \<Rightarrow> (\<lparr>ct_ladder = l, consecutive_noops = d, action_armed = armed\<rparr>, Nothing)
      | Warn \<Rightarrow> (\<lparr>ct_ladder = l, consecutive_noops = d, action_armed = armed\<rparr>, Warn)
      | Action a \<Rightarrow> (\<lparr>ct_ladder = l, consecutive_noops = d, action_armed = False\<rparr>, if armed then Action a else Warn))"
  by (simp add: record_reindex_def Let_def assms split: ladder_outcome.splits)

lemma record_reindex_noop:
  "record_reindex NoOp (churn_at warn act n) = (churn_at warn act (Suc n), churn_outcome warn act (Suc n))"
proof -
  let ?l = "\<lparr>warn_at = warn, act_at = act, action = ForceMaintenance\<rparr>"
  define c d :: u32 where "c = of_nat (min n (2 ^ 32 - 1))" and "d = of_nat (min (Suc n) (2 ^ 32 - 1))"
  have c: "unat c = min n (2 ^ 32 - 1)" and d: "unat d = min (Suc n) (2 ^ 32 - 1)"
    by (simp_all only: c_def d_def unat_of_nat_min)
  have "unat (saturating_add c 1) = unat d" unfolding unat_saturating_add c d by (simp add: min_def)
  then have next_count: "saturating_add c 1 = d" by (simp only: word_unat_eq_iff)
  have reach: "a \<le> d \<longleftrightarrow> unat a \<le> Suc n" for a :: u32
    using unsigned_less [of a, where ?'a = nat] unfolding word_le_nat_alt d by (auto simp: min_def)
  have ev: "evaluate ?l d = (if unat act \<le> Suc n then Action ForceMaintenance
      else if unat warn \<le> Suc n then Warn else Nothing)"
    by (simp only: evaluate_def ladder.select_convs reach)
  have before: "churn_at warn act n = \<lparr>ct_ladder = ?l, consecutive_noops = c, action_armed = (n < max 1 (unat act))\<rparr>"
    and later: "churn_at warn act (Suc n) = \<lparr>ct_ladder = ?l, consecutive_noops = d, action_armed = (Suc n < max 1 (unat act))\<rparr>"
    by (simp_all only: churn_at_def c_def d_def)
  show ?thesis
    unfolding before later record_reindex_noop_step [OF next_count] ev
    by (auto simp: churn_outcome_def)
qed

lemma streak_snoc: "streak (es @ [e]) = (if e = NoOp then Suc (streak es) else 0)"
  by (simp add: streak_def)

lemma churn_run_from:
  "churn_run (churn_at warn act (streak pre)) es =
     map (\<lambda>i. churn_outcome warn act (streak (pre @ take (Suc i) es))) [0..<length es]"
proof (induction es arbitrary: pre)
  case (Cons e es)
  have step: "record_reindex e (churn_at warn act (streak pre)) =
      (churn_at warn act (streak (pre @ [e])), churn_outcome warn act (streak (pre @ [e])))"
    by (cases e) (simp_all add: record_reindex_upserted record_reindex_noop streak_snoc churn_outcome_def)
  have "[0..<length (e # es)] = 0 # map Suc [0..<length es]"
    by (simp add: upt_conv_Cons map_Suc_upt del: upt_Suc)
  with Cons.IH [of "pre @ [e]"] show ?case by (simp add: step del: upt_Suc)
qed simp

lemma churn_new_at: "churn_new warn act = churn_at warn act 0"
  by (auto simp: churn_new_def churn_at_def max_def)

subsection \<open>The gate ends\<close>

text \<open>
  The instants of the probes: each sleep lasts one poll interval, or up to the deadline when that is nearer, and
  may end late.
\<close>

primrec probe_time :: "(nat \<Rightarrow> nat) \<Rightarrow> nat \<Rightarrow> nat \<Rightarrow> nat \<Rightarrow> nat \<Rightarrow> nat" where
  "probe_time late poll deadline now 0 = now"
| "probe_time late poll deadline now (Suc k) = min (probe_time late poll deadline now k + poll) deadline + late (Suc k)"

lemma probe_time_le: "probe_time late poll deadline now n \<le> max now deadline + late n"
  by (cases n) (simp_all add: le_max_iff_disj)

lemma gate_loop_schedule:
  fixes late :: "nat \<Rightarrow> nat" and poll deadline start :: nat
  assumes "0 < poll"
  defines "T \<equiv> probe_time late poll deadline start"
  shows "\<exists>r n. gate_loop probe late poll deadline (T k) (Suc k) = Some (r, T n) \<and> k \<le> n \<and>
     (\<forall>j. k < j \<and> j < n \<longrightarrow> probe j = Hard) \<and> (\<forall>j. k \<le> j \<and> j < n \<longrightarrow> T j < deadline) \<and>
     (case r of Ok _ \<Rightarrow> k < n \<and> probe n \<noteq> Hard
      | Err e \<Rightarrow> e = RETRYABLE_HARD_DEBT \<and> deadline \<le> T n \<and> (k < n \<longrightarrow> probe n = Hard))"
proof (induction "deadline - T k" arbitrary: k rule: less_induct)
  case less
  have unfold: "gate_loop probe late poll deadline (T k) (Suc k) =
      (if deadline \<le> T k then Some (Err RETRYABLE_HARD_DEBT, T k)
       else if probe (Suc k) \<noteq> Hard then Some (Ok (), T (Suc k))
       else gate_loop probe late poll deadline (T (Suc k)) (Suc (Suc k)))"
    by (subst gate_loop.simps) (simp add: T_def Let_def)
  consider (over) "deadline \<le> T k" | (admit) "T k < deadline" "probe (Suc k) \<noteq> Hard"
    | (again) "T k < deadline" "probe (Suc k) = Hard" by linarith
  then show ?case
  proof cases
    case over
    then show ?thesis unfolding unfold by (intro exI [of _ "Err RETRYABLE_HARD_DEBT"] exI [of _ k]) auto
  next
    case admit
    then show ?thesis unfolding unfold by (intro exI [of _ "Ok ()"] exI [of _ "Suc k"]) (auto simp: less_Suc_eq_le)
  next
    case again
    have "deadline - T (Suc k) < deadline - T k" using again(1) assms(1) by (auto simp: T_def)
    from less [OF this] obtain r n where
      run: "gate_loop probe late poll deadline (T (Suc k)) (Suc (Suc k)) = Some (r, T n)" "Suc k \<le> n"
      and before: "\<forall>j. Suc k < j \<and> j < n \<longrightarrow> probe j = Hard" "\<forall>j. Suc k \<le> j \<and> j < n \<longrightarrow> T j < deadline"
      and fin: "case r of Ok _ \<Rightarrow> Suc k < n \<and> probe n \<noteq> Hard
        | Err e \<Rightarrow> e = RETRYABLE_HARD_DEBT \<and> deadline \<le> T n \<and> (Suc k < n \<longrightarrow> probe n = Hard)" by blast
    have "\<forall>j. k < j \<and> j < n \<longrightarrow> probe j = Hard" using before(1) again(2) by (metis Suc_lessI)
    moreover have "\<forall>j. k \<le> j \<and> j < n \<longrightarrow> T j < deadline" using before(2) again(1) by (metis Suc_leI le_neq_implies_less)
    moreover have "k < n \<longrightarrow> Suc k < n \<or> n = Suc k" by auto
    ultimately show ?thesis unfolding unfold using run again fin
      by (intro exI [of _ r] exI [of _ n]) (auto split: sum.splits)
  qed
qed

subsection \<open>Properties\<close>

text \<open>
  C25. With a cap below \<open>2\<close> to the 63rd seconds the backoff is the pure curve: nothing for no step, else
  the floor doubled once per further step and cut off at the cap; the shift, the saturating
  product and the cut exponent change no value.
\<close>
theorem backoff_curve:
  assumes "unat cap \<le> 2 ^ 63"
  shows "unat (exponential_backoff_secs floor_secs cap steps) =
     (if steps = 0 then 0 else min (unat floor_secs * 2 ^ (unat steps - 1)) (unat cap))"
proof (cases "unat steps - 1 \<le> 63 \<or> floor_secs = 0")
  case True
  then show ?thesis using assms by (auto simp: unat_backoff min_def)
next
  case False
  then have "1 \<le> unat floor_secs" by (simp add: Suc_le_eq unat_gt_0)
  moreover have "(2 :: nat) ^ 63 \<le> 2 ^ (unat steps - 1)" using False by (intro power_increasing) auto
  ultimately have "2 ^ 63 \<le> unat floor_secs * 2 ^ (unat steps - 1)" "2 ^ 63 \<le> unat floor_secs * 2 ^ 63"
    using mult_le_mono [of 1 "unat floor_secs"] by simp_all
  then show ?thesis using assms False by (simp add: unat_backoff)
qed

lemma backoff_curve_witness: "unat (exponential_backoff_secs 10 300 (4 :: u32)) = 80"
  using backoff_curve [of 300 10 4] by simp

text \<open>
  C26. Over any sequence of passes from a new tracker, each pass reports what the length of the
  streak it ends calls for: the action exactly once per streak, when it reaches the larger of one and
  the threshold, a warning from the smaller threshold on, and nothing before. Saturation of the
  counter is never seen.
\<close>
theorem churn_run_reference:
  "churn_run (churn_new warn act) es =
     map (\<lambda>i. churn_outcome warn act (streak (take (Suc i) es))) [0..<length es]"
  using churn_run_from [of warn act "[]" es] by (simp add: churn_new_at streak_def)

text \<open>
  C27. The gate on mutations always returns. When the first probe is not hard, or the maintenance that would clear
  the debt is switched off, it admits at once, after the soft delay when there is debt. Otherwise it probes again
  after every poll interval and, at the deadline, a last time; it admits at the first probe that is not hard and
  refuses only when every probe up to the deadline was hard. It takes no longer than the wait, plus how late the
  last sleep ended.
\<close>
theorem await_debt_gate_returns:
  fixes cfg :: gate_config and late :: "nat \<Rightarrow> nat" and now :: nat
  assumes "0 < ticks_per_sec cfg"
  defines "deadline \<equiv> now + hard_block_wait cfg"
  defines "T \<equiv> probe_time late (max (debt_cache_ttl_secs cfg) 1 * ticks_per_sec cfg) deadline now"
  shows "if observed 0 = Hard \<and> maintenance_interval_secs cfg \<noteq> 0
     then \<exists>r n. await_debt_gate cfg observed late now = Some (r, T n) \<and>
       (\<forall>j < n. observed j = Hard \<and> T j < deadline) \<and> T n \<le> deadline + late n \<and>
       (case r of
          Ok _ \<Rightarrow> observed n \<noteq> Hard
        | Err e \<Rightarrow> e = RETRYABLE_HARD_DEBT \<and> observed n = Hard \<and> deadline \<le> T n)
     else await_debt_gate cfg observed late now =
       Some (Ok (), if observed 0 = DebtOk then now else now + debt_soft_delay cfg + late 0)"
proof -
  let ?p = "\<lambda>k. probe_admitting_hard_debt_without_maintenance (maintenance_interval_secs cfg = 0) (observed k)"
  let ?poll = "max (debt_cache_ttl_secs cfg) 1 * ticks_per_sec cfg"
  have unfold: "await_debt_gate cfg observed late now =
      (case ?p 0 of DebtOk \<Rightarrow> Some (Ok (), now) | Soft \<Rightarrow> Some (Ok (), now + debt_soft_delay cfg + late 0)
       | Hard \<Rightarrow> gate_loop ?p late ?poll deadline now 1)"
    by (simp only: await_debt_gate_def gate_def deadline_def)
  show ?thesis
  proof (cases "observed 0 = Hard \<and> maintenance_interval_secs cfg \<noteq> 0")
    case True
    then have p: "?p = observed" by (simp add: probe_admitting_hard_debt_without_maintenance_def fun_eq_iff)
    have "0 < ?poll" using assms(1) by simp
    note sched = gate_loop_schedule [OF this, of observed late deadline now 0, folded T_def]
    have "T 0 = now" by (simp add: T_def)
    with sched obtain r n where
      run: "gate_loop observed late ?poll deadline now (Suc 0) = Some (r, T n)"
      and before: "\<forall>j. 0 < j \<and> j < n \<longrightarrow> observed j = Hard" "\<forall>j < n. T j < deadline"
      and fin: "case r of Ok _ \<Rightarrow> 0 < n \<and> observed n \<noteq> Hard
       | Err e \<Rightarrow> e = RETRYABLE_HARD_DEBT \<and> deadline \<le> T n \<and> (0 < n \<longrightarrow> observed n = Hard)"
      by auto
    have "await_debt_gate cfg observed late now = Some (r, T n)"
      unfolding unfold using True p run by (simp add: probe_admitting_hard_debt_without_maintenance_def)
    moreover have "\<forall>j < n. observed j = Hard \<and> T j < deadline" using before True by (metis gr0I)
    moreover have "T n \<le> deadline + late n"
      using probe_time_le [of late ?poll deadline now n] by (simp add: T_def deadline_def)
    moreover have "case r of Ok _ \<Rightarrow> observed n \<noteq> Hard | Err e \<Rightarrow> e = RETRYABLE_HARD_DEBT \<and> observed n = Hard \<and> deadline \<le> T n"
      using fin True by (cases r; cases n) simp_all
    ultimately have "\<exists>r n. await_debt_gate cfg observed late now = Some (r, T n) \<and>
       (\<forall>j < n. observed j = Hard \<and> T j < deadline) \<and> T n \<le> deadline + late n \<and>
       (case r of Ok _ \<Rightarrow> observed n \<noteq> Hard | Err e \<Rightarrow> e = RETRYABLE_HARD_DEBT \<and> observed n = Hard \<and> deadline \<le> T n)"
      by blast
    then show ?thesis using True by (simp only: simp_thms if_True)
  next
    case False
    then show ?thesis unfolding unfold
      by (cases "observed 0") (auto simp: probe_admitting_hard_debt_without_maintenance_def)
  qed
qed

definition sample_gate :: gate_config where
  "sample_gate = \<lparr>maintenance_interval_secs = 60, debt_soft_delay = 1, hard_block_wait = 5,
     debt_cache_ttl_secs = 2, ticks_per_sec = 1\<rparr>"

definition sample_probe :: "nat \<Rightarrow> debt_level" where
  "sample_probe k = (if k < 2 then Hard else DebtOk)"

text \<open>Hard at the start and after one interval, clear after two: admitted at the second probe, four ticks later.\<close>

lemma await_debt_gate_returns_witness:
  "await_debt_gate sample_gate sample_probe (\<lambda>_. 0) 0 = Some (Ok (), 4)"
proof -
  let ?T = "probe_time (\<lambda>_. 0) 2 5 0"
  have T: "?T 0 = 0" "?T 1 = 2" "?T 2 = 4" by (simp_all add: numeral_2_eq_2)
  have cfg: "0 < ticks_per_sec sample_gate" "max (debt_cache_ttl_secs sample_gate) 1 * ticks_per_sec sample_gate = 2"
    "0 + hard_block_wait sample_gate = 5" "sample_probe 0 = Hard \<and> maintenance_interval_secs sample_gate \<noteq> 0"
    by (simp_all add: sample_gate_def sample_probe_def)
  obtain r n where run: "await_debt_gate sample_gate sample_probe (\<lambda>_. 0) 0 = Some (r, ?T n)"
    and before: "\<forall>j < n. sample_probe j = Hard \<and> ?T j < 5"
    and fin: "case r of Ok _ \<Rightarrow> sample_probe n \<noteq> Hard
      | Err e \<Rightarrow> e = RETRYABLE_HARD_DEBT \<and> sample_probe n = Hard \<and> 5 \<le> ?T n"
    using await_debt_gate_returns [where cfg = sample_gate and observed = sample_probe and now = 0 and late = "\<lambda>_. 0", OF cfg(1)]
    unfolding cfg if_P [OF cfg(4)] by blast
  have "n \<le> 2" using before by (rule_tac ccontr) (auto simp: sample_probe_def not_le dest: spec [of _ 2])
  then have "n = 0 \<or> n = 1 \<or> n = 2" by auto
  then have "n = 2 \<and> r = Ok ()" using fin T by (cases r) (auto simp: sample_probe_def)
  then show ?thesis using run T by simp
qed

end
