(* ===== verification/Watchdog.thy ===== *)
theory Watchdog
  imports Daemon_Health
begin

text \<open>
  The watchdog (\<open>watchdog.rs\<close>): the trip file, the backoff a start obeys after recent trips, and
  the tracker that finds tasks whose heartbeat stands still. Wall-clock seconds are 64-bit words,
  instants and durations of the monotonic clock are numbers of ticks.
\<close>

subsection \<open>The trip file\<close>

definition TRIP_DECAY_SECS :: u64 where
  "TRIP_DECAY_SECS = 3600"

definition MAX_STORED_TRIPS :: nat where
  "MAX_STORED_TRIPS = 32"

text \<open>\<open>Vec::drain(..len - n)\<close> of a longer list: the last \<open>n\<close> elements.\<close>

definition keep_last :: "nat \<Rightarrow> 'a list \<Rightarrow> 'a list" where
  "keep_last n xs = (if n < length xs then drop (length xs - n) xs else xs)"

definition in_window :: "u64 \<Rightarrow> u64 \<Rightarrow> bool" where
  "in_window now at = (saturating_sub now TRIP_DECAY_SECS \<le> at \<and> at \<le> now)"

text \<open>The contents are \<open>None\<close> where the file is missing or cannot be read.\<close>

definition trip_times :: "string option \<Rightarrow> u64 list" where
  "trip_times contents =
     (case contents of
        None \<Rightarrow> []
      | Some s \<Rightarrow> if utf8_valid s then List.map_filter (\<lambda>line. parse_u64 (trim line)) (lines_of s) else [])"

definition read_recent_trips :: "string option \<Rightarrow> u64 \<Rightarrow> u64 list" where
  "read_recent_trips contents now =
     keep_last MAX_STORED_TRIPS (sort (filter (in_window now) (trip_times contents)))"

text \<open>The trip file and the temporary file beside it.\<close>

record trip_disk =
  trip_file :: "string option"
  trip_tmp :: "string option"

text \<open>What the file system answers: to \<open>create_dir_all\<close>, to the write (with what it leaves in the
  temporary file when it fails) and to the rename.\<close>

record trip_io =
  mkdir_answer :: "(io_kind, unit) result"
  write_answer :: "(io_kind \<times> string option, unit) result"
  rename_answer :: "(io_kind, unit) result"

definition trip_body :: "u64 list \<Rightarrow> string" where
  "trip_body trips = concat (map (\<lambda>at. show_nat (unat at) @ ''\<newline>'') trips)"

definition record_trip :: "trip_io \<Rightarrow> u64 \<Rightarrow> trip_disk \<Rightarrow> trip_disk \<times> (io_kind, unit) result" where
  "record_trip io now d =
     (let trips = keep_last MAX_STORED_TRIPS (read_recent_trips (trip_file d) now @ [now]);
          body = trip_body trips
      in case mkdir_answer io of
           Err e \<Rightarrow> (d, Err e)
         | Ok _ \<Rightarrow>
             (case write_answer io of
                Err (e, left) \<Rightarrow> (d\<lparr>trip_tmp := left\<rparr>, Err e)
              | Ok _ \<Rightarrow>
                  (case rename_answer io of
                     Err e \<Rightarrow> (d\<lparr>trip_tmp := Some body\<rparr>, Err e)
                   | Ok _ \<Rightarrow> (d\<lparr>trip_file := Some body, trip_tmp := None\<rparr>, Ok ()))))"

subsection \<open>The start after trips\<close>

record trip_snapshot =
  recent_trips :: u32
  last_trip_unix :: "u64 option"
  backoff_secs :: u64

definition snapshot_trips :: "string option \<Rightarrow> u64 \<Rightarrow> u64 \<Rightarrow> u64 \<Rightarrow> trip_snapshot" where
  "snapshot_trips contents floor_secs cap_secs now =
     (let trips = read_recent_trips contents now;
          recent = (if length trips < 2 ^ 32 then of_nat (length trips) else - 1)
      in \<lparr>recent_trips = recent,
          last_trip_unix = (if trips = [] then None else Some (last trips)),
          backoff_secs = exponential_backoff_secs floor_secs cap_secs recent\<rparr>)"

datatype boot_decision = Proceed | Backoff u64 u64 u32

definition check_boot_backoff :: "string option \<Rightarrow> u64 \<Rightarrow> u64 \<Rightarrow> u64 \<Rightarrow> boot_decision" where
  "check_boot_backoff contents floor_secs cap_secs now =
     (let snapshot = snapshot_trips contents floor_secs cap_secs now
      in case last_trip_unix snapshot of
           None \<Rightarrow> Proceed
         | Some at \<Rightarrow>
             (let ready_at = saturating_add at (backoff_secs snapshot)
              in if ready_at \<le> now then Proceed
                 else Backoff (ready_at - now) (backoff_secs snapshot) (recent_trips snapshot)))"

subsection \<open>Stalled tasks\<close>

record task_watch =
  task :: task_name
  last_epoch :: u64
  last_progress :: nat

record stall_tracker =
  watches :: "task_watch list"
  stall :: nat

definition stall_tracker_new :: "heartbeat_registry \<Rightarrow> task_name list \<Rightarrow> nat \<Rightarrow> nat \<Rightarrow> stall_tracker" where
  "stall_tracker_new registry tasks window now =
     \<lparr>watches = map (\<lambda>t. \<lparr>task = t, last_epoch = epoch registry t, last_progress = now\<rparr>) tasks,
      stall = window\<rparr>"

fun poll_watches ::
  "heartbeat_registry \<Rightarrow> nat \<Rightarrow> nat \<Rightarrow> task_watch list \<Rightarrow> task_watch list \<times> task_name list" where
  "poll_watches registry window now [] = ([], [])"
| "poll_watches registry window now (w # ws) =
     (let current = epoch registry (task w);
          (ws', stalled) = poll_watches registry window now ws
      in case compare_epochs (last_epoch w) current of
           Alive \<Rightarrow> (w\<lparr>last_epoch := current, last_progress := now\<rparr> # ws', stalled)
         | Stalled \<Rightarrow>
             (w # ws', if window \<le> now - last_progress w then task w # stalled else stalled))"

definition stalled_tasks :: "heartbeat_registry \<Rightarrow> nat \<Rightarrow> stall_tracker \<Rightarrow> stall_tracker \<times> task_name list" where
  "stalled_tasks registry now tr =
     (case poll_watches registry (stall tr) now (watches tr) of
        (ws, stalled) \<Rightarrow> (tr\<lparr>watches := ws\<rparr>, stalled))"

text \<open>
  The thread. A wake-up is the stop request, or the poll timer with the registry, the two
  clocks and the file system's answers it then meets. The run returns, trips with the stalled
  tasks it hands to the trip action, or is still waiting when the wake-ups end.
\<close>

datatype wake_up = Stop | Poll heartbeat_registry nat u64 trip_io

datatype watchdog_end = Returned | Tripped "task_name list" | Waiting

fun watchdog_loop :: "wake_up list \<Rightarrow> stall_tracker \<Rightarrow> trip_disk \<Rightarrow> trip_disk \<times> watchdog_end" where
  "watchdog_loop [] tr d = (d, Waiting)"
| "watchdog_loop (Stop # ws) tr d = (d, Returned)"
| "watchdog_loop (Poll registry now now_unix io # ws) tr d =
     (case stalled_tasks registry now tr of
        (tr', stalled) \<Rightarrow>
          if stalled = [] then watchdog_loop ws tr' d
          else (fst (record_trip io now_unix d), Tripped stalled))"

definition watchdog_run ::
  "heartbeat_registry \<Rightarrow> task_name list \<Rightarrow> nat \<Rightarrow> nat \<Rightarrow> wake_up list \<Rightarrow> trip_disk \<Rightarrow> trip_disk \<times> watchdog_end" where
  "watchdog_run registry tasks window now ws d = watchdog_loop ws (stall_tracker_new registry tasks window now) d"

subsection \<open>What the trip file holds\<close>

lemma utf8_ascii: "\<forall>c \<in> set s. byte c < 128 \<Longrightarrow> utf8_valid s"
  by (induction s) auto

lemma trip_times_body: "trip_times (Some (trip_body ts)) = ts"
proof -
  let ?l = "\<lambda>at :: u64. show_nat (unat at) @ ''\<newline>''"
  have line: "NL \<notin> set (show_nat n)" "CR \<notin> set (show_nat n)" for n
    using show_nat_digits [of n] by (auto simp: byte_def)
  have "split_inclusive NL (trip_body ts) = map ?l ts"
  proof -
    have "split_inclusive NL (concat (map ?l ts)) =
        (if map ?l ts \<noteq> [] \<and> last (map ?l ts) = [] then butlast (map ?l ts) else map ?l ts)"
      by (rule split_inclusive_concat_lines) (auto simp: line last_map dest!: in_set_butlastD)
    moreover have "last (map ?l ts) \<noteq> []" if "ts \<noteq> []" using that by (subst last_map) simp_all
    ultimately show ?thesis unfolding trip_body_def by (auto split: if_splits)
  qed
  moreover have "chomp_line (?l at) = show_nat (unat at)" for at
  proof -
    have "strip_suffix_str [NL] (show_nat (unat at) @ [NL]) = Some (show_nat (unat at))"
      by (simp add: strip_suffix_Some)
    moreover have "strip_suffix_str [CR] (show_nat (unat at)) = None"
      using line(2) [of "unat at"] by (metis in_set_conv_decomp not_None_eq strip_suffix_Some)
    ultimately show ?thesis by (simp add: chomp_line_def)
  qed
  ultimately have "lines_of (trip_body ts) = map (\<lambda>at. show_nat (unat at)) ts"
    by (simp add: lines_of_def comp_def)
  moreover have "utf8_valid (trip_body ts)"
  proof (rule utf8_ascii)
    show "\<forall>c \<in> set (trip_body ts). byte c < 128"
    proof -
      have "byte c < 128" if "c \<in> set (show_nat n)" for c n using show_nat_digits [of n] that by fastforce
      moreover have "byte NL < 128" by (simp add: byte_def)
      ultimately show ?thesis unfolding trip_body_def by auto
    qed
  qed
  moreover have "List.map_filter (\<lambda>line. parse_u64 (trim line)) (map (\<lambda>at. show_nat (unat at)) ts) = ts"
    by (induction ts) (simp_all add: parse_show_u64)
  ultimately show ?thesis by (simp add: trip_times_def)
qed

lemma sorted_window: "sorted ts \<Longrightarrow> sorted (filter (in_window now) ts)"
  by (rule sorted_wrt_filter)

lemma keep_last_drop: "keep_last n xs = drop (length xs - n) xs"
  by (simp add: keep_last_def)

text \<open>On a sorted list a lower bound cuts off a prefix, so it commutes with keeping a suffix.\<close>

lemma sorted_split_at:
  assumes "sorted (xs :: 'a::linorder list)"
  obtains ps qs where "xs = ps @ qs" "\<forall>x \<in> set ps. x < c" "\<forall>x \<in> set qs. c \<le> x"
proof
  show "xs = takeWhile (\<lambda>x. x < c) xs @ dropWhile (\<lambda>x. x < c) xs" by simp
  show "\<forall>x \<in> set (takeWhile (\<lambda>x. x < c) xs). x < c" by (auto dest: set_takeWhileD)
  show "\<forall>x \<in> set (dropWhile (\<lambda>x. x < c) xs). c \<le> x"
    using assms by (induction xs) (auto simp: not_less intro: order_trans)
qed

lemma filter_keep_last:
  assumes "sorted (xs :: 'a::linorder list)"
  shows "keep_last n (filter (\<lambda>x. c \<le> x) (keep_last n xs @ zs)) = keep_last n (filter (\<lambda>x. c \<le> x) (xs @ zs))"
proof -
  obtain ps qs where xs: "xs = ps @ qs" "\<forall>x \<in> set ps. x < c" "\<forall>x \<in> set qs. c \<le> x"
    using sorted_split_at [OF assms] by metis
  have none: "filter (\<lambda>x. c \<le> x) (drop m ps) = []" for m
    using xs(2) by (auto simp: filter_empty_conv not_le dest: in_set_dropD)
  have all: "filter (\<lambda>x. c \<le> x) (drop m qs) = drop m qs" for m
    using xs(3) by (intro filter_True) (auto dest: in_set_dropD)
  define k z where "k = length qs - n" and "z = filter (\<lambda>x. c \<le> x) zs"
  have "drop (length qs - k + length z - n + k) qs = drop (length qs + length z - n) qs"
    by (rule arg_cong [of _ _ "\<lambda>i. drop i qs"]) (auto simp: k_def)
  moreover have "length qs - k + length z - n - (length qs - k) = length qs + length z - n - length qs"
    by (auto simp: k_def)
  ultimately show ?thesis using none [of 0] all [of 0]
    by (simp add: xs(1) keep_last_drop none all flip: k_def z_def)
qed

lemma keep_last_twice [simp]: "keep_last n (keep_last n xs) = keep_last n xs"
  by (simp add: keep_last_drop)

lemma sorted_keep_last: "sorted xs \<Longrightarrow> sorted (keep_last n xs)"
  by (simp add: keep_last_drop sorted_wrt_drop)

lemma set_keep_last: "set (keep_last n xs) \<subseteq> set xs"
  by (auto simp: keep_last_drop dest: in_set_dropD)

text \<open>The trips of a history and what is recorded of them.\<close>

fun record_trips :: "(trip_io \<times> u64) list \<Rightarrow> trip_disk \<Rightarrow> trip_disk" where
  "record_trips [] d = d"
| "record_trips ((io, now) # log) d = record_trips log (fst (record_trip io now d))"

definition trip_recorded :: "trip_io \<Rightarrow> bool" where
  "trip_recorded io = (mkdir_answer io = Ok () \<and> write_answer io = Ok () \<and> rename_answer io = Ok ())"

lemma record_trip_file:
  "if trip_recorded io
   then snd (record_trip io now d) = Ok () \<and> trip_file (fst (record_trip io now d)) =
     Some (trip_body (keep_last MAX_STORED_TRIPS (read_recent_trips (trip_file d) now @ [now])))
   else (\<exists>e. snd (record_trip io now d) = Err e) \<and> trip_file (fst (record_trip io now d)) = trip_file d"
  by (cases "mkdir_answer io"; cases "write_answer io"; cases "rename_answer io")
     (simp_all add: record_trip_def trip_recorded_def Let_def split: prod.splits)

text \<open>The file holds a history: sorted, and as good as the history for every later look.\<close>

definition holds_history :: "u64 list \<Rightarrow> string option \<Rightarrow> bool" where
  "holds_history hist contents =
     (sorted (trip_times contents) \<and> set (trip_times contents) \<subseteq> set hist \<and>
      (\<forall>now. (\<forall>at \<in> set hist. at \<le> now) \<longrightarrow>
         keep_last MAX_STORED_TRIPS (filter (in_window now) (trip_times contents)) =
         keep_last MAX_STORED_TRIPS (filter (in_window now) hist)))"

lemma holds_history_read:
  assumes "holds_history hist contents" "\<forall>at \<in> set hist. at \<le> now"
  shows "read_recent_trips contents now = keep_last MAX_STORED_TRIPS (filter (in_window now) hist)"
  using assms by (simp add: read_recent_trips_def holds_history_def sorted_sort_id sorted_window)

lemma window_lower:
  "\<forall>at \<in> set ts. at \<le> now \<Longrightarrow> filter (in_window now) ts = filter (\<lambda>at. saturating_sub now TRIP_DECAY_SECS \<le> at) ts"
  by (rule filter_cong) (auto simp: in_window_def)

lemma window_mono: "now \<le> later \<Longrightarrow> saturating_sub now TRIP_DECAY_SECS \<le> saturating_sub later TRIP_DECAY_SECS"
  unfolding word_le_nat_alt unat_saturating_sub by simp

lemma holds_history_step:
  assumes "holds_history hist contents" "sorted hist" "\<forall>at \<in> set hist. at \<le> now"
  shows "holds_history (hist @ [now])
     (Some (trip_body (keep_last MAX_STORED_TRIPS (read_recent_trips contents now @ [now]))))"
proof -
  let ?n = MAX_STORED_TRIPS and ?c = "\<lambda>t. saturating_sub t TRIP_DECAY_SECS"
  let ?x = "filter (\<lambda>at. ?c now \<le> at) hist"
  have trips: "read_recent_trips contents now = keep_last ?n ?x"
    using holds_history_read [OF assms(1, 3)] window_lower [OF assms(3)] by simp
  have x: "sorted ?x" using assms(2) by (rule sorted_wrt_filter)
  have kept: "sorted (keep_last ?n ?x @ [now])"
    using sorted_keep_last [OF x] set_keep_last [of ?n ?x] assms(3) by (auto simp: sorted_append)
  have sub: "set (keep_last ?n (keep_last ?n ?x @ [now])) \<subseteq> set (hist @ [now])"
    using set_keep_last [of ?n ?x] set_keep_last [of ?n "keep_last ?n ?x @ [now]"] by auto
  have all: "keep_last ?n (filter (in_window t) (keep_last ?n (keep_last ?n ?x @ [now]))) =
      keep_last ?n (filter (in_window t) (hist @ [now]))" if t: "\<forall>at \<in> set (hist @ [now]). at \<le> t" for t
  proof -
    have "keep_last ?n (filter (in_window t) (keep_last ?n (keep_last ?n ?x @ [now]))) =
        keep_last ?n (filter (\<lambda>at. ?c t \<le> at) (keep_last ?n (keep_last ?n ?x @ [now]) @ []))"
      using sub t by (subst window_lower) auto
    also have "\<dots> = keep_last ?n (filter (\<lambda>at. ?c t \<le> at) (keep_last ?n ?x @ [now]))"
      using filter_keep_last [OF kept, of ?n "?c t" "[]"] by simp
    also have "\<dots> = keep_last ?n (filter (\<lambda>at. ?c t \<le> at) (?x @ [now]))" by (rule filter_keep_last [OF x])
    also have "filter (\<lambda>at. ?c t \<le> at) (?x @ [now]) = filter (\<lambda>at. ?c t \<le> at) (hist @ [now])"
      using window_mono [of now t] t by (auto intro: filter_cong)
    also have "\<dots> = filter (in_window t) (hist @ [now])" using window_lower [OF t] by (rule sym)
    finally show ?thesis .
  qed
  show ?thesis unfolding holds_history_def trip_times_body trips
    using all sorted_keep_last [OF kept] sub by blast
qed

lemma record_trips_history:
  assumes "holds_history hist (trip_file d)" "sorted (hist @ map snd log)"
  shows "holds_history (hist @ map snd (filter (\<lambda>(io, _). trip_recorded io) log)) (trip_file (record_trips log d))"
  using assms
proof (induction log arbitrary: hist d)
  case (Cons l log)
  obtain io now where l: "l = (io, now)" by (cases l)
  have sorted: "sorted hist" "\<forall>at \<in> set hist. at \<le> now" "sorted (hist @ map snd log)"
    "sorted ((hist @ [now]) @ map snd log)"
    using Cons.prems(2) by (auto simp: l sorted_append)
  note written = record_trip_file [of io now d]
  show ?case
  proof (cases "trip_recorded io")
    case True
    with written have "trip_file (fst (record_trip io now d)) =
        Some (trip_body (keep_last MAX_STORED_TRIPS (read_recent_trips (trip_file d) now @ [now])))" by simp
    then have "holds_history (hist @ [now]) (trip_file (fst (record_trip io now d)))"
      using holds_history_step [OF Cons.prems(1) sorted(1, 2)] by simp
    from Cons.IH [OF this sorted(4)] show ?thesis using True by (simp add: l)
  next
    case False
    with written have "trip_file (fst (record_trip io now d)) = trip_file d" by simp
    then have "holds_history hist (trip_file (fst (record_trip io now d)))" using Cons.prems(1) by simp
    from Cons.IH [OF this sorted(3)] show ?thesis using False by (simp add: l)
  qed
qed simp

lemma no_history: "holds_history [] None"
  by (simp add: holds_history_def trip_times_def)

subsection \<open>Looking later at a file no one wrote\<close>

lemma word_of_length:
  "length xs < 2 ^ 32 \<Longrightarrow> unat (of_nat (length xs) :: u32) = length xs"
  by (simp add: unat_of_nat)

lemma read_recent_length: "length (read_recent_trips contents now) \<le> 32"
  by (simp add: read_recent_trips_def keep_last_drop MAX_STORED_TRIPS_def)

lemma backoff_mono:
  assumes "s \<le> t"
  shows "exponential_backoff_secs floor_secs cap s \<le> exponential_backoff_secs floor_secs cap t"
proof -
  have "unat s \<le> unat t" using assms by (simp add: word_le_nat_alt)
  then have "(2 :: nat) ^ min (unat s - 1) 63 \<le> 2 ^ min (unat t - 1) 63" by (intro power_increasing) auto
  then have "unat floor_secs * 2 ^ min (unat s - 1) 63 \<le> unat floor_secs * 2 ^ min (unat t - 1) 63" by (rule mult_le_mono2)
  moreover have "s \<noteq> 0 \<Longrightarrow> t \<noteq> 0" using assms by auto
  ultimately show ?thesis unfolding word_le_nat_alt unat_backoff by (auto simp: min_le_iff_disj)
qed

lemma snapshot_cap: "backoff_secs (snapshot_trips contents floor_secs cap now) \<le> cap"
  unfolding word_le_nat_alt by (simp add: snapshot_trips_def Let_def unat_backoff)

lemma last_keep_last: "0 < n \<Longrightarrow> xs \<noteq> [] \<Longrightarrow> last (keep_last n xs) = last xs \<and> keep_last n xs \<noteq> []"
proof -
  assume "0 < n" "xs \<noteq> []"
  then have "length xs - n < length xs" by (simp add: diff_less length_greater_0_conv)
  then show ?thesis by (simp add: keep_last_drop last_drop not_le)
qed

lemma length_keep_last: "length (keep_last n xs) = min n (length xs)"
  by (auto simp: keep_last_drop)

lemma window_later:
  assumes "now \<le> later" "\<forall>at \<in> set ts. \<not> (now < at \<and> at \<le> later)"
  shows "filter (in_window later) ts =
    filter (\<lambda>at. saturating_sub later TRIP_DECAY_SECS \<le> at) (filter (in_window now) ts)"
  using assms window_mono [OF assms(1)]
  by (auto simp: in_window_def not_less intro!: filter_cong)

text \<open>A later look finds the same last trip or none, and no more trips.\<close>

lemma read_recent_later:
  assumes "now \<le> later" "\<forall>at \<in> set (trip_times contents). \<not> (now < at \<and> at \<le> later)"
    and "read_recent_trips contents later \<noteq> []"
  shows "last (read_recent_trips contents later) = last (read_recent_trips contents now)"
    "length (read_recent_trips contents later) \<le> length (read_recent_trips contents now)"
    "read_recent_trips contents now \<noteq> []"
proof -
  define xs where "xs = sort (filter (in_window now) (trip_times contents))"
  let ?c = "saturating_sub later TRIP_DECAY_SECS"
  have now: "read_recent_trips contents now = keep_last MAX_STORED_TRIPS xs"
    by (simp add: read_recent_trips_def xs_def)
  have later: "read_recent_trips contents later = keep_last MAX_STORED_TRIPS (filter (\<lambda>at. ?c \<le> at) xs)"
    by (simp only: read_recent_trips_def xs_def window_later [OF assms(1, 2)] filter_sort)
  have sx: "sorted xs" by (simp add: xs_def)
  obtain ps qs where xs: "xs = ps @ qs" "\<forall>x \<in> set ps. x < ?c" "\<forall>x \<in> set qs. ?c \<le> x"
    using sorted_split_at [OF sx] by metis
  have qs: "filter (\<lambda>at. ?c \<le> at) xs = qs"
    using xs by (auto simp: filter_empty_conv not_le intro: filter_True)
  have ne: "qs \<noteq> []" using assms(3) later qs by (auto simp: keep_last_drop)
  have pos: "0 < MAX_STORED_TRIPS" by (simp add: MAX_STORED_TRIPS_def)
  show "last (read_recent_trips contents later) = last (read_recent_trips contents now)"
    unfolding now later qs using ne last_keep_last [OF pos, of qs] last_keep_last [OF pos, of xs] by (simp add: xs(1))
  show "read_recent_trips contents now \<noteq> []"
    using ne last_keep_last [OF pos, of xs] by (simp add: now xs(1))
  show "length (read_recent_trips contents later) \<le> length (read_recent_trips contents now)"
    unfolding now later qs length_keep_last by (simp add: xs(1))
qed

lemma read_recent_in_window: "at \<in> set (read_recent_trips contents now) \<Longrightarrow> in_window now at"
  using set_keep_last [of MAX_STORED_TRIPS "sort (filter (in_window now) (trip_times contents))"]
  by (auto simp: read_recent_trips_def)

lemma recent_trips_count: "unat (recent_trips (snapshot_trips contents floor_secs cap now)) = length (read_recent_trips contents now)"
proof -
  have "length (read_recent_trips contents now) < 2 ^ 32"
    using read_recent_length [of contents now] by simp
  then show ?thesis using word_of_length by (simp add: snapshot_trips_def Let_def)
qed

lemma backoff_secs_count:
  "backoff_secs (snapshot_trips contents floor_secs cap now) =
     exponential_backoff_secs floor_secs cap (recent_trips (snapshot_trips contents floor_secs cap now))"
  by (simp add: snapshot_trips_def Let_def)

lemma check_boot_unfold:
  "check_boot_backoff contents floor_secs cap now =
     (let ts = read_recent_trips contents now; s = snapshot_trips contents floor_secs cap now;
          ready_at = saturating_add (last ts) (backoff_secs s)
      in if ts = [] \<or> ready_at \<le> now then Proceed
         else Backoff (ready_at - now) (backoff_secs s) (recent_trips s))"
  by (simp add: check_boot_backoff_def snapshot_trips_def Let_def)

lemma boot_proceeds_later:
  assumes "check_boot_backoff contents floor_secs cap now = Backoff retry secs trips"
    and "unat now + unat retry \<le> unat later"
    and "\<forall>at \<in> set (trip_times contents). \<not> (now < at \<and> at \<le> later)"
  shows "check_boot_backoff contents floor_secs cap later = Proceed"
proof (cases "read_recent_trips contents later = []")
  case False
  let ?ready = "\<lambda>t. saturating_add (last (read_recent_trips contents t)) (backoff_secs (snapshot_trips contents floor_secs cap t))"
  have le: "now \<le> later" using assms(2) by (simp add: word_le_nat_alt)
  note later = read_recent_later [OF le assms(3) False]
  have retry: "retry = ?ready now - now" "\<not> ?ready now \<le> now"
    using assms(1) by (auto simp: check_boot_unfold Let_def split: if_splits)
  have "unat now + unat retry = unat (?ready now)"
    using retry by (simp add: unat_sub word_le_nat_alt)
  then have ready: "?ready now \<le> later" using assms(2) by (simp add: word_le_nat_alt)
  have "backoff_secs (snapshot_trips contents floor_secs cap later) \<le> backoff_secs (snapshot_trips contents floor_secs cap now)"
    unfolding backoff_secs_count
    using later(2) by (intro backoff_mono) (simp only: word_le_nat_alt recent_trips_count)
  then have "?ready later \<le> ?ready now"
    unfolding later(1) by (simp only: word_le_nat_alt unat_saturating_add)
  with ready have "?ready later \<le> later" by (rule order_trans [rotated])
  then show ?thesis by (simp add: check_boot_unfold Let_def)
qed (simp add: check_boot_unfold)

subsection \<open>Properties of the trip file\<close>

text \<open>
  C28. From an empty start, whatever is recorded while the wall clock does not go back, and
  whichever of the writes fail, a later look finds exactly the recorded trips of the last hour,
  at most the last 32 of them: the bounded, rewritten file refines the full history.
\<close>
theorem trip_file_history:
  assumes "sorted (map snd log @ [now])"
  shows "read_recent_trips (trip_file (record_trips log \<lparr>trip_file = None, trip_tmp = tmp\<rparr>)) now =
     keep_last MAX_STORED_TRIPS (filter (in_window now) (map snd (filter (\<lambda>(io, _). trip_recorded io) log)))"
proof -
  have "holds_history (map snd (filter (\<lambda>(io, _). trip_recorded io) log))
      (trip_file (record_trips log \<lparr>trip_file = None, trip_tmp = tmp\<rparr>))"
    using record_trips_history [of "[]" "\<lparr>trip_file = None, trip_tmp = tmp\<rparr>" log] no_history assms
    by (simp add: sorted_append)
  then show ?thesis using assms by (rule_tac holds_history_read) (auto simp: sorted_append)
qed

definition working_io :: trip_io where
  "working_io = \<lparr>mkdir_answer = Ok (), write_answer = Ok (), rename_answer = Ok ()\<rparr>"

definition full_disk_io :: trip_io where
  "full_disk_io = \<lparr>mkdir_answer = Ok (), write_answer = Err (IoOther, Some ''17''), rename_answer = Ok ()\<rparr>"

lemma trip_file_history_witness:
  "read_recent_trips (trip_file (record_trips [(working_io, 10), (full_disk_io, 5000), (working_io, 5010)]
     \<lparr>trip_file = None, trip_tmp = None\<rparr>)) 5020 = [5010]"
  using trip_file_history [of "[(working_io, 10), (full_disk_io, 5000), (working_io, 5010)]" 5020 None]
  by (simp add: trip_recorded_def working_io_def full_disk_io_def keep_last_def MAX_STORED_TRIPS_def in_window_def
      saturating_sub_def TRIP_DECAY_SECS_def)

text \<open>
  C29. A start is only ever put off, by more than nothing and at most the cap, on account of at most 32
  trips; and once the wait is over a start proceeds, unless the clock has meanwhile reached trips
  that the file holds for after now.
\<close>
theorem boot_backoff_bounded:
  "case check_boot_backoff contents floor_secs cap now of
     Proceed \<Rightarrow> True
   | Backoff retry secs trips \<Rightarrow>
       0 < retry \<and> retry \<le> secs \<and> secs \<le> cap \<and> 0 < trips \<and> trips \<le> 32 \<and>
       (\<forall>later. unat now + unat retry \<le> unat later \<longrightarrow>
          (\<forall>at \<in> set (trip_times contents). \<not> (now < at \<and> at \<le> later)) \<longrightarrow>
          check_boot_backoff contents floor_secs cap later = Proceed)"
proof (cases "check_boot_backoff contents floor_secs cap now")
  case (Backoff retry secs trips)
  let ?ts = "read_recent_trips contents now" and ?s = "snapshot_trips contents floor_secs cap now"
  let ?ready = "saturating_add (last ?ts) (backoff_secs ?s)"
  have parts: "?ts \<noteq> []" "\<not> ?ready \<le> now" "retry = ?ready - now" "secs = backoff_secs ?s" "trips = recent_trips ?s"
    using Backoff by (auto simp: check_boot_unfold Let_def split: if_splits)
  have last: "last ?ts \<le> now" using read_recent_in_window [of "last ?ts" contents now] parts(1) by (simp add: in_window_def)
  have count: "unat trips = length ?ts" by (simp only: parts(5) recent_trips_count)
  have "unat ?ready \<le> unat (last ?ts) + unat secs" by (simp only: unat_saturating_add parts(4))
  moreover have retry: "unat retry = unat ?ready - unat now"
    using parts(2) by (simp add: parts(3) unat_sub word_le_nat_alt)
  ultimately have "retry \<le> secs" "0 < retry"
    using last parts(2) by (simp_all add: word_le_nat_alt word_less_nat_alt)
  moreover have "secs \<le> cap" using snapshot_cap by (simp add: parts(4))
  moreover have "0 < trips" "trips \<le> 32"
    using count parts(1) read_recent_length [of contents now] by (simp_all add: word_le_nat_alt word_less_nat_alt)
  ultimately show ?thesis using boot_proceeds_later [OF Backoff] by (simp add: Backoff)
qed simp

lemma boot_backoff_bounded_witness:
  "check_boot_backoff (Some (trip_body [100])) 10 300 105 = Backoff 5 10 1 \<and>
   check_boot_backoff (Some (trip_body [100])) 10 300 110 = Proceed"
proof -
  have now: "check_boot_backoff (Some (trip_body [100])) 10 300 105 = Backoff 5 10 1"
    by (simp add: check_boot_unfold snapshot_trips_def Let_def read_recent_trips_def trip_times_body in_window_def MAX_STORED_TRIPS_def
        saturating_sub_def saturating_add_def saturating_mul_def TRIP_DECAY_SECS_def keep_last_def
        exponential_backoff_secs_def)
  moreover have "\<forall>at \<in> set (trip_times (Some (trip_body [100]))). \<not> (105 < at \<and> at \<le> (110 :: u64))"
    by (simp add: trip_times_body)
  ultimately show ?thesis using boot_backoff_bounded [where contents = "Some (trip_body [100])" and floor_secs = 10 and cap = 300 and now = 105] by simp
qed

subsection \<open>What the tracker reports\<close>

text \<open>The state of one watch after polls, and the last poll that saw the epoch move.\<close>

definition after_poll :: "heartbeat_registry \<Rightarrow> nat \<Rightarrow> task_watch \<Rightarrow> task_watch" where
  "after_poll registry now w =
     (if epoch registry (task w) = last_epoch w then w
      else w\<lparr>last_epoch := epoch registry (task w), last_progress := now\<rparr>)"

lemma poll_watches_map:
  "poll_watches registry window now ws =
     (map (after_poll registry now) ws,
      map task (filter (\<lambda>w. epoch registry (task w) = last_epoch w \<and> window \<le> now - last_progress w) ws))"
  by (induction ws) (simp_all add: Let_def after_poll_def compare_epochs_def split: prod.splits)

definition tracker_after :: "stall_tracker \<Rightarrow> (heartbeat_registry \<times> nat) list \<Rightarrow> stall_tracker" where
  "tracker_after = foldl (\<lambda>tr (registry, now). fst (stalled_tasks registry now tr))"

definition watch_after :: "task_watch \<Rightarrow> (heartbeat_registry \<times> nat) list \<Rightarrow> task_watch" where
  "watch_after = foldl (\<lambda>w (registry, now). after_poll registry now w)"

lemma task_watch_after [simp]: "task (watch_after w polls) = task w"
  by (induction polls arbitrary: w) (auto simp: watch_after_def after_poll_def)

lemma tracker_after_watches:
  "tracker_after tr polls = tr\<lparr>watches := map (\<lambda>w. watch_after w polls) (watches tr)\<rparr>"
  by (induction polls arbitrary: tr)
     (auto simp: tracker_after_def watch_after_def stalled_tasks_def poll_watches_map comp_def)

text \<open>A task stood still since the \<open>i\<close>-th of the readings up to now.\<close>

definition still_since :: "(heartbeat_registry \<times> nat) list \<Rightarrow> heartbeat_registry \<Rightarrow> task_name \<Rightarrow> nat \<Rightarrow> bool" where
  "still_since readings registry t i =
     list_all (\<lambda>(r, _). epoch r t = epoch registry t) (drop i readings)"

lemma still_since_snoc:
  "j \<le> length h \<Longrightarrow> still_since (h @ [p]) registry t j \<longleftrightarrow>
     still_since h registry t j \<and> epoch (fst p) t = epoch registry t"
  by (cases p) (auto simp: still_since_def)

lemma still_since_other:
  "epoch r t = epoch registry t \<Longrightarrow> still_since h r t j = still_since h registry t j"
  by (simp add: still_since_def)

lemma still_since_D:
  "still_since h registry t i \<Longrightarrow> x \<in> set (drop i h) \<Longrightarrow> epoch (fst x) t = epoch registry t"
  unfolding still_since_def list_all_iff by (cases x) fastforce

lemma watch_after_progress:
  fixes r0 :: heartbeat_registry and t0 :: nat and t :: task_name
  defines "w0 \<equiv> \<lparr>task = t, last_epoch = epoch r0 t, last_progress = t0\<rparr>"
  shows "\<exists>i \<le> length polls. last_progress (watch_after w0 polls) = snd (((r0, t0) # polls) ! i) \<and>
     last_epoch (watch_after w0 polls) = epoch (fst (last ((r0, t0) # polls))) t \<and>
     (\<forall>j. still_since ((r0, t0) # polls) (fst (last ((r0, t0) # polls))) t j \<and> j \<le> length polls \<longleftrightarrow> i \<le> j \<and> j \<le> length polls)"
proof (induction polls rule: rev_induct)
  case Nil
  show ?case by (auto simp: w0_def watch_after_def still_since_def)
next
  case (snoc p polls)
  obtain r now where p: "p = (r, now)" by (cases p)
  define h w where "h = (r0, t0) # polls" and "w = watch_after w0 polls"
  have len: "length h = Suc (length polls)" "h \<noteq> []" "(r0, t0) # polls @ [p] = h @ [p]" by (simp_all add: h_def)
  from snoc obtain i where i: "i \<le> length polls" "last_progress w = snd (h ! i)"
    "last_epoch w = epoch (fst (last h)) t"
    and since: "\<And>j. j \<le> length polls \<Longrightarrow> still_since h (fst (last h)) t j \<longleftrightarrow> i \<le> j"
    unfolding h_def w_def by blast
  have after: "watch_after w0 (polls @ [p]) = after_poll r now w" by (simp add: watch_after_def p w_def)
  have task: "task w = t" by (simp add: w_def) (simp add: w0_def)
  have now: "still_since (h @ [p]) r t (Suc (length polls))" by (simp add: still_since_def p len(1))
  show ?case
  proof (cases "epoch r t = epoch (fst (last h)) t")
    case True
    then have "after_poll r now w = w" by (simp add: after_poll_def task i(3))
    moreover have "still_since (h @ [p]) r t j \<longleftrightarrow> i \<le> j" if "j \<le> length polls" for j
      using since [OF that] that len(1) still_since_other [OF True] True by (simp add: still_since_snoc p)
    ultimately show ?thesis unfolding after len(3) using i True now len(1)
      by (intro exI [of _ i]) (auto simp: p nth_append le_Suc_eq)
  next
    case False
    then have w: "after_poll r now w = w\<lparr>last_epoch := epoch r t, last_progress := now\<rparr>"
      by (simp add: after_poll_def task i(3))
    have "\<not> still_since (h @ [p]) r t j" if "j \<le> length polls" for j
    proof -
      have "drop j h \<noteq> []" "last (drop j h) = last h" using that len(1) by (simp_all add: last_drop)
      then have "last h \<in> set (drop j h)" by (metis last_in_set)
      then have "last h \<in> set (drop j (h @ [p]))" by simp
      then show ?thesis using False still_since_D [of "h @ [p]" r t j "last h"] by auto
    qed
    then show ?thesis unfolding after w len(3) using now len(1)
      by (intro exI [of _ "Suc (length polls)"]) (auto simp: p le_Suc_eq nth_append)
  qed
qed

lemma stalled_tasks_exact:
  assumes "sorted (map snd ((r0, t0) # polls @ [(r, now)]))"
  shows "snd (stalled_tasks r now (tracker_after (stall_tracker_new r0 tasks window t0) polls)) =
     filter (\<lambda>t. \<exists>i \<in> {0..length polls}. still_since ((r0, t0) # polls) r t i \<and>
                      window \<le> now - snd (((r0, t0) # polls) ! i)) tasks"
proof -
  let ?h = "(r0, t0) # polls" and ?w = "\<lambda>t. \<lparr>task = t, last_epoch = epoch r0 t, last_progress = t0\<rparr>"
  have "(epoch r t = last_epoch (watch_after (?w t) polls) \<and> window \<le> now - last_progress (watch_after (?w t) polls)) =
      (\<exists>i \<in> {0..length polls}. still_since ?h r t i \<and> window \<le> now - snd (?h ! i))" for t
  proof -
    obtain k where k: "k \<le> length polls" "last_progress (watch_after (?w t) polls) = snd (?h ! k)"
      "last_epoch (watch_after (?w t) polls) = epoch (fst (last ?h)) t"
      and since: "\<And>j. still_since ?h (fst (last ?h)) t j \<and> j \<le> length polls \<longleftrightarrow> k \<le> j \<and> j \<le> length polls"
      using watch_after_progress [where t = t and ?r0.0 = r0 and ?t0.0 = t0 and polls = polls] by blast
    have ends: "epoch r t = epoch (fst (last ?h)) t" if "still_since ?h r t i" "i \<le> length polls" for i
    proof -
      have "drop i ?h \<noteq> []" "last (drop i ?h) = last ?h" using that(2) by (simp_all add: last_drop)
      then have "last ?h \<in> set (drop i ?h)" by (metis last_in_set)
      then show ?thesis using still_since_D [OF that(1)] by simp
    qed
    have mono: "snd (?h ! k) \<le> snd (?h ! i)" if "k \<le> i" "i \<le> length polls" for i
    proof -
      have "sorted (map snd ?h)" using assms by (simp add: sorted_append)
      from sorted_nth_mono [OF this that(1)] that(2) k(1) show ?thesis
        by (simp only: length_map length_Cons nth_map)
    qed
    show ?thesis
    proof
      assume "epoch r t = last_epoch (watch_after (?w t) polls) \<and> window \<le> now - last_progress (watch_after (?w t) polls)"
      then show "\<exists>i \<in> {0..length polls}. still_since ?h r t i \<and> window \<le> now - snd (?h ! i)"
        using k since [of k] still_since_other [of r t "fst (last ?h)" ?h k] by (intro bexI [of _ k]) auto
    next
      assume "\<exists>i \<in> {0..length polls}. still_since ?h r t i \<and> window \<le> now - snd (?h ! i)"
      then obtain i where i: "i \<le> length polls" "still_since ?h r t i" "window \<le> now - snd (?h ! i)" by auto
      have eq: "epoch r t = epoch (fst (last ?h)) t" by (rule ends [OF i(2, 1)])
      then have "k \<le> i" using i(1, 2) since [of i] still_since_other [OF eq] by simp
      from mono [OF this i(1)] i(3) k(2, 3) eq
      show "epoch r t = last_epoch (watch_after (?w t) polls) \<and> window \<le> now - last_progress (watch_after (?w t) polls)"
        by simp
    qed
  qed
  then show ?thesis
    by (simp add: stalled_tasks_def tracker_after_watches poll_watches_map stall_tracker_new_def filter_map comp_def)
qed

text \<open>A poll of the thread, and what the tracker reads at it.\<close>

fun poll_event :: "heartbeat_registry \<times> nat \<times> u64 \<times> trip_io \<Rightarrow> wake_up" where
  "poll_event (r, now, now_unix, io) = Poll r now now_unix io"

definition reading :: "heartbeat_registry \<times> nat \<times> u64 \<times> trip_io \<Rightarrow> heartbeat_registry \<times> nat" where
  "reading p = (fst p, fst (snd p))"

lemma watchdog_loop_waiting:
  "snd (watchdog_loop (map poll_event polls) tr d) = Waiting \<Longrightarrow>
   watchdog_loop (map poll_event polls @ ws) tr d = watchdog_loop ws (tracker_after tr (map reading polls)) d"
proof (induction polls arbitrary: tr)
  case (Cons p polls)
  obtain r now u io where p: "p = (r, now, u, io)" by (cases p)
  show ?case using Cons
    by (auto simp: p reading_def tracker_after_def split: prod.splits if_splits)
qed (simp add: tracker_after_def)

text \<open>
  C30. On a clock that does not go back, a thread that is still waiting trips at the next poll
  exactly when some watched task stood still at every reading since one that lies at least the
  stall window in the past; it then records the trip, goes on even when that fails, and hands
  the trip action exactly these tasks. A task that makes progress is never reported.
\<close>
theorem watchdog_trips_iff_still:
  assumes "sorted (t0 # map (snd \<circ> reading) polls @ [now])"
    and "snd (watchdog_run r0 tasks window t0 (map poll_event polls) d) = Waiting"
  shows "watchdog_run r0 tasks window t0 (map poll_event polls @ [Poll r now now_unix io]) d =
     (let readings = (r0, t0) # map reading polls;
          still = filter (\<lambda>t. \<exists>i \<in> {0..length polls}. still_since readings r t i \<and> window \<le> now - snd (readings ! i)) tasks
      in if still = [] then (d, Waiting) else (fst (record_trip io now_unix d), Tripped still))"
proof -
  have "sorted (map snd ((r0, t0) # map reading polls @ [(r, now)]))" using assms(1) by simp
  note still = stalled_tasks_exact [OF this, of tasks window]
  have "watchdog_run r0 tasks window t0 (map poll_event polls @ [Poll r now now_unix io]) d =
      watchdog_loop [Poll r now now_unix io] (tracker_after (stall_tracker_new r0 tasks window t0) (map reading polls)) d"
    using assms(2) unfolding watchdog_run_def by (rule watchdog_loop_waiting)
  also have "\<dots> = (let still = snd (stalled_tasks r now (tracker_after (stall_tracker_new r0 tasks window t0) (map reading polls)))
      in if still = [] then (d, Waiting) else (fst (record_trip io now_unix d), Tripped still))"
    by (simp add: split_beta Let_def)
  finally show ?thesis unfolding still by (simp only: Let_def length_map)
qed

lemma watchdog_trips_iff_still_witness:
  "watchdog_run heartbeat_default [Signal, CatchUp] 10 0
     (map poll_event [(fst (bump CatchUp heartbeat_default), 6, 100, working_io)] @
        [Poll (fst (bump CatchUp heartbeat_default)) 12 106 full_disk_io]) \<lparr>trip_file = None, trip_tmp = None\<rparr> =
   (\<lparr>trip_file = None, trip_tmp = Some ''17''\<rparr>, Tripped [Signal])"
proof -
  let ?polls = "[(fst (bump CatchUp heartbeat_default), 6, 100, working_io)]"
  have "sorted (0 # map (snd \<circ> reading) ?polls @ [12])" by (simp add: reading_def)
  moreover have "snd (watchdog_run heartbeat_default [Signal, CatchUp] 10 0 (map poll_event ?polls)
      \<lparr>trip_file = None, trip_tmp = None\<rparr>) = Waiting"
    by (simp add: watchdog_run_def stall_tracker_new_def stalled_tasks_def compare_epochs_def bump_def epoch_def
        heartbeat_default_def TASK_COUNT_def Let_def)
  moreover have "{0..length ?polls} = {0, 1}" by auto
  ultimately show ?thesis
    by (subst watchdog_trips_iff_still)
       (simp_all add: reading_def still_since_def bump_def epoch_def heartbeat_default_def TASK_COUNT_def Let_def
         record_trip_def full_disk_io_def eval_nat_numeral)
qed

end
