(* ===== verification/Supervisor.thy ===== *)
theory Supervisor
  imports Daemon_Health
begin

text \<open>
  The task supervisor (\<open>supervisor.rs\<close>): the loop that watches one task, restarts it after a
  panic with a growing delay, and climbs the escalation ladder when restarts come too thick.
  Instants and the intensity window are ticks of the monotonic clock, delays are seconds.
\<close>

subsection \<open>The monitor of a task\<close>

definition BACKOFF_FLOOR :: u64 where
  "BACKOFF_FLOOR = 1"

definition BACKOFF_CAP :: u64 where
  "BACKOFF_CAP = 60"

datatype supervisor_action = RestartCurrentTask

record restart_counters =
  counts :: "u64 list"

definition restart_counters_default :: restart_counters where
  "restart_counters_default = \<lparr>counts = replicate TASK_COUNT 0\<rparr>"

record supervisor =
  restart_intensity_cap :: u32
  restart_intensity_window :: nat
  escalation_ladder :: "supervisor_action ladder"

definition restart_count :: "restart_counters \<Rightarrow> task_name \<Rightarrow> u64" where
  "restart_count r name = counts r ! slot name"

text \<open>What the join of the task's handle gives.\<close>

datatype task_end = Exited | Panicked | Cancelled | Failed

text \<open>The locals of the loop, the shared counters and the calls of the escalation hook so far.\<close>

record monitor =
  recent_panics :: "nat list"
  consecutive_quick_panics :: u32
  escalation_strikes :: u32
  restarts :: restart_counters
  escalations :: "(task_name \<times> ladder_action) list"

definition monitor_new :: "restart_counters \<Rightarrow> monitor" where
  "monitor_new r =
     \<lparr>recent_panics = [], consecutive_quick_panics = 0, escalation_strikes = 0, restarts = r, escalations = []\<rparr>"

definition backoff_for :: "u32 \<Rightarrow> u64" where
  "backoff_for consecutive = exponential_backoff_secs BACKOFF_FLOOR BACKOFF_CAP consecutive"

definition record_panic :: "supervisor \<Rightarrow> task_name \<Rightarrow> nat \<Rightarrow> nat \<Rightarrow> monitor \<Rightarrow> monitor" where
  "record_panic s name started now m =
     (let m = (if restart_intensity_window s \<le> now - started
               then m\<lparr>consecutive_quick_panics := 0, escalation_strikes := 0\<rparr> else m)
      in m\<lparr>consecutive_quick_panics := consecutive_quick_panics m + 1,
           recent_panics := filter (\<lambda>t. now - t \<le> restart_intensity_window s) (recent_panics m @ [now]),
           restarts := (restarts m)\<lparr>counts := (counts (restarts m))[slot name := restart_count (restarts m) name + 1]\<rparr>\<rparr>)"

definition escalate_panic :: "supervisor \<Rightarrow> task_name \<Rightarrow> monitor \<Rightarrow> monitor \<times> u64" where
  "escalate_panic s name m =
     (if restart_intensity_cap s < of_nat (length (recent_panics m)) \<or> 0 < escalation_strikes m
      then let m = m\<lparr>escalation_strikes := escalation_strikes m + 1\<rparr>
           in (case evaluate (escalation_ladder s) (escalation_strikes m) of
                 Nothing \<Rightarrow> m
               | Warn \<Rightarrow> m
               | Action a \<Rightarrow>
                   (case a of
                      RestartCurrentTask \<Rightarrow> m\<lparr>escalations := escalations m @ [(name, RestartTask name)]\<rparr>),
               BACKOFF_CAP)
      else (m, backoff_for (consecutive_quick_panics m)))"

text \<open>One turn of the loop up to its sleep: the task started and ended, and the loop either
  returns or sleeps for a delay.\<close>

datatype monitor_next = Return | Sleep u64

definition monitor_turn :: "supervisor \<Rightarrow> task_name \<Rightarrow> task_end \<Rightarrow> nat \<Rightarrow> nat \<Rightarrow> monitor \<Rightarrow> monitor \<times> monitor_next" where
  "monitor_turn s name ending started now m =
     (case ending of
        Exited \<Rightarrow> (m, Return)
      | Panicked \<Rightarrow>
          (case escalate_panic s name (record_panic s name started now m) of (m', delay) \<Rightarrow> (m', Sleep delay))
      | Cancelled \<Rightarrow> (m, Return)
      | Failed \<Rightarrow> (m, Return))"

text \<open>
  The loop over the turns of a task: how it ended, when it started and ended, and whether the
  daemon's shutdown interrupts the sleep that follows. The result is the delays slept through
  and whether the loop has returned.
\<close>

fun monitor_loop ::
  "supervisor \<Rightarrow> task_name \<Rightarrow> (task_end \<times> nat \<times> nat \<times> bool) list \<Rightarrow> monitor \<Rightarrow> monitor \<times> u64 list \<times> bool" where
  "monitor_loop s name [] m = (m, [], False)"
| "monitor_loop s name ((ending, started, now, shutdown) # turns) m =
     (case monitor_turn s name ending started now m of
        (m', Return) \<Rightarrow> (m', [], True)
      | (m', Sleep delay) \<Rightarrow>
          (if shutdown then (m', [], True)
           else case monitor_loop s name turns m' of (m'', delays, over) \<Rightarrow> (m'', delay # delays, over)))"

subsection \<open>What the loop computes\<close>

text \<open>
  A history of panics, the oldest first: when the task started and when it panicked. A panic
  after a run at least as long as the window starts a new streak; a panic is crowded when the
  window before it holds more panics than the cap; the strikes are the panics of the streak
  from its first crowded one on.
\<close>

type_synonym panics = "(nat \<times> nat) list"

definition healthy :: "supervisor \<Rightarrow> nat \<times> nat \<Rightarrow> bool" where
  "healthy s p = (restart_intensity_window s \<le> snd p - fst p)"

fun streak_length :: "supervisor \<Rightarrow> panics \<Rightarrow> nat" where
  "streak_length s [] = 0"
| "streak_length s (p # h) = (if healthy s p then 1 else Suc (streak_length s h))"

definition panics_in_window :: "supervisor \<Rightarrow> nat \<Rightarrow> panics \<Rightarrow> nat list" where
  "panics_in_window s now h = filter (\<lambda>t. now - t \<le> restart_intensity_window s) (map snd (rev h))"

definition crowded :: "supervisor \<Rightarrow> panics \<Rightarrow> bool" where
  "crowded s h = (h \<noteq> [] \<and> unat (restart_intensity_cap s) < length (panics_in_window s (snd (hd h)) h))"

text \<open>Here the newest panic comes first.\<close>

fun strikes :: "supervisor \<Rightarrow> panics \<Rightarrow> nat" where
  "strikes s [] = 0"
| "strikes s (p # h) =
     (let before = if healthy s p then 0 else strikes s h
      in if 0 < before \<or> crowded s (p # h) then Suc before else 0)"

definition delay_after :: "supervisor \<Rightarrow> panics \<Rightarrow> nat" where
  "delay_after s h = (if 0 < strikes s h then 60 else min (2 ^ (streak_length s h - 1)) 60)"

definition after_panics :: "supervisor \<Rightarrow> panics \<Rightarrow> monitor \<Rightarrow> bool" where
  "after_panics s h m =
     (recent_panics m = (if h = [] then [] else panics_in_window s (snd (hd h)) h) \<and>
      unat (consecutive_quick_panics m) = streak_length s h \<and> unat (escalation_strikes m) = strikes s h)"

lemma streak_length_le: "streak_length s h \<le> length h"
  by (induction h) auto

lemma strikes_le: "strikes s h \<le> streak_length s h"
  by (induction h) (auto simp: Let_def)

lemma panics_in_window_le: "length (panics_in_window s now h) \<le> length h"
  unfolding panics_in_window_def by (metis length_filter_le length_map length_rev)

lemma panics_in_window_step:
  assumes "h \<noteq> []" "snd (hd h) \<le> now"
  shows "filter (\<lambda>t. now - t \<le> restart_intensity_window s) (panics_in_window s (snd (hd h)) h @ [now]) =
    panics_in_window s now ((started, now) # h)"
  using assms(2) by (auto simp: panics_in_window_def intro!: filter_cong)

lemma unat_succ: "unat (c :: u32) = n \<Longrightarrow> Suc n < 2 ^ 32 \<Longrightarrow> unat (c + 1) = Suc n"
  by (simp add: unat_word_ariths)

lemma record_panic_after:
  fixes name :: task_name and started :: nat
  assumes "after_panics s h m" "h \<noteq> [] \<longrightarrow> snd (hd h) \<le> now" "Suc (length h) < 2 ^ 32"
  defines "m' \<equiv> record_panic s name started now m"
  shows "recent_panics m' = panics_in_window s now ((started, now) # h)"
    "unat (consecutive_quick_panics m') = streak_length s ((started, now) # h)"
    "unat (escalation_strikes m') = (if healthy s (started, now) then 0 else strikes s h)"
    "escalations m' = escalations m"
    "restarts m' = (restarts m)\<lparr>counts := (counts (restarts m))[slot name := restart_count (restarts m) name + 1]\<rparr>"
proof -
  have "Suc (streak_length s h) < 2 ^ 32" using streak_length_le [of s h] assms(3) by simp
  then show "unat (consecutive_quick_panics m') = streak_length s ((started, now) # h)"
    using assms(1) unat_succ by (auto simp: m'_def record_panic_def after_panics_def healthy_def Let_def)
  show "recent_panics m' = panics_in_window s now ((started, now) # h)"
  proof (cases "h = []")
    case True
    then show ?thesis using assms(1) by (simp add: m'_def record_panic_def after_panics_def panics_in_window_def Let_def)
  next
    case False
    with assms(1) have "recent_panics m = panics_in_window s (snd (hd h)) h" by (simp add: after_panics_def)
    moreover have "recent_panics m' = filter (\<lambda>t. now - t \<le> restart_intensity_window s) (recent_panics m @ [now])"
      by (simp add: m'_def record_panic_def Let_def)
    ultimately show ?thesis using panics_in_window_step [OF False] assms(2) False by simp
  qed
  show "unat (escalation_strikes m') = (if healthy s (started, now) then 0 else strikes s h)"
    using assms(1) by (simp add: m'_def record_panic_def after_panics_def healthy_def Let_def)
  show "escalations m' = escalations m"
    "restarts m' = (restarts m)\<lparr>counts := (counts (restarts m))[slot name := restart_count (restarts m) name + 1]\<rparr>"
    by (simp_all add: m'_def record_panic_def Let_def)
qed

lemma unat_backoff_for: "0 < unat n \<Longrightarrow> unat (backoff_for n) = min (2 ^ (unat n - 1)) 60"
proof -
  assume n: "0 < unat n"
  then have "n \<noteq> 0" by auto
  then have "unat (backoff_for n) = min (min (2 ^ min (unat n - 1) 63) (2 ^ 64 - 1)) 60"
    by (simp add: backoff_for_def unat_backoff BACKOFF_FLOOR_def BACKOFF_CAP_def)
  also have "\<dots> = min (2 ^ (unat n - 1)) (60 :: nat)"
  proof (cases "unat n - 1 \<le> 63")
    case True
    then show ?thesis by (simp add: min_def)
  next
    case False
    then have "(2 :: nat) ^ 63 \<le> 2 ^ (unat n - 1)" by (intro power_increasing) auto
    then show ?thesis using False by (simp add: min_def)
  qed
  finally show ?thesis .
qed

text \<open>The hook is called for the newest panic.\<close>

definition escalated :: "supervisor \<Rightarrow> panics \<Rightarrow> bool" where
  "escalated s h = (0 < strikes s h \<and> unat (act_at (escalation_ladder s)) \<le> strikes s h)"

lemma monitor_turn_after:
  assumes "after_panics s h m" "h \<noteq> [] \<longrightarrow> snd (hd h) \<le> now" "Suc (length h) < 2 ^ 32"
    and "action (escalation_ladder s) = RestartCurrentTask"
  shows "\<exists>m'. monitor_turn s name Panicked started now m = (m', Sleep (of_nat (delay_after s ((started, now) # h)))) \<and>
     after_panics s ((started, now) # h) m' \<and>
     restarts m' = (restarts m)\<lparr>counts := (counts (restarts m))[slot name := restart_count (restarts m) name + 1]\<rparr> \<and>
     escalations m' = escalations m @
       (if escalated s ((started, now) # h) then [(name, RestartTask name)] else [])"
proof -
  define n where "n = record_panic s name started now m"
  let ?h = "(started, now) # h"
  note n = record_panic_after [OF assms(1-3), of name started, folded n_def]
  have recent: "recent_panics n = panics_in_window s (snd (hd ?h)) ?h" using n(1) by simp
  have "unat (of_nat (length (recent_panics n)) :: u32) = length (recent_panics n)"
  proof -
    have "length (recent_panics n) < 2 ^ 32"
      using panics_in_window_le [of s now ?h] assms(3) unfolding n(1) by simp
    then show ?thesis by (simp add: unat_of_nat)
  qed
  then have crowd: "restart_intensity_cap s < of_nat (length (recent_panics n)) \<longleftrightarrow> crowded s ?h"
    unfolding word_less_nat_alt by (simp add: crowded_def recent)
  have strike: "0 < escalation_strikes n \<longleftrightarrow> 0 < (if healthy s (started, now) then 0 else strikes s h)"
    unfolding word_less_nat_alt n(3) by simp
  let ?hit = "crowded s ?h \<or> 0 < (if healthy s (started, now) then 0 else strikes s h)"
  have turn: "monitor_turn s name Panicked started now m =
      (case escalate_panic s name n of (m', delay) \<Rightarrow> (m', Sleep delay))"
    by (simp add: monitor_turn_def n_def)
  show ?thesis
  proof (cases ?hit)
    case hit: True
    let ?strikes = "strikes s ?h"
    have k: "?strikes = Suc (if healthy s (started, now) then 0 else strikes s h)" using hit by auto
    have "?strikes < 2 ^ 32" using strikes_le [of s ?h] streak_length_le [of s ?h] assms(3) by simp
    then have u: "unat (escalation_strikes n + 1) = ?strikes" using unat_succ [OF n(3)] k by simp
    have acts: "act_at (escalation_ladder s) \<le> escalation_strikes n + 1 \<longleftrightarrow> escalated s ?h"
      unfolding word_le_nat_alt u escalated_def using k by simp
    have delay: "BACKOFF_CAP = of_nat (delay_after s ?h)"
      using k by (simp add: delay_after_def BACKOFF_CAP_def del: strikes.simps)
    let ?n = "n\<lparr>escalation_strikes := escalation_strikes n + 1\<rparr>"
    have "escalate_panic s name n =
        (if escalated s ?h then ?n\<lparr>escalations := escalations n @ [(name, RestartTask name)]\<rparr> else ?n, BACKOFF_CAP)"
    proof -
      have "restart_intensity_cap s < of_nat (length (recent_panics n)) \<or> 0 < escalation_strikes n"
        unfolding crowd strike by (rule hit)
      then show ?thesis by (simp add: escalate_panic_def evaluate_def assms(4) acts [symmetric] Let_def)
    qed
    then show ?thesis using n(2, 4, 5) u recent unfolding turn delay
      by (simp add: after_panics_def del: strikes.simps streak_length.simps)
  next
    case False
    then have k: "strikes s ?h = 0" by auto
    have "0 < streak_length s ?h" by simp
    then have "unat (backoff_for (consecutive_quick_panics n)) = delay_after s ?h"
      using n(2) k by (simp add: unat_backoff_for delay_after_def del: strikes.simps streak_length.simps)
    then have delay: "backoff_for (consecutive_quick_panics n) = of_nat (delay_after s ?h)"
      by (metis of_nat_unat ucast_id)
    have "escalate_panic s name n = (n, of_nat (delay_after s ?h))"
      using False unfolding escalate_panic_def crowd strike delay by simp
    moreover have "unat (escalation_strikes n) = 0" using False n(3) by auto
    ultimately show ?thesis
      using n(2, 4, 5) recent k unfolding turn
      by (simp add: after_panics_def escalated_def del: strikes.simps streak_length.simps)
  qed
qed

text \<open>A turn that ends in a panic, with the sleep after it slept through.\<close>

definition panic_turn :: "nat \<times> nat \<Rightarrow> task_end \<times> nat \<times> nat \<times> bool" where
  "panic_turn p = (Panicked, fst p, snd p, False)"

lemma restart_count_add:
  "slot name < length (counts r) \<Longrightarrow>
     restart_count (r\<lparr>counts := (counts r)[slot name := restart_count r name + k]\<rparr>) name = restart_count r name + k"
  by (simp add: restart_count_def)

lemma monitor_loop_after:
  assumes "after_panics s h m" "sorted (map snd (rev h @ ps))" "length h + length ps < 2 ^ 32"
    and "action (escalation_ladder s) = RestartCurrentTask" "slot name < length (counts (restarts m))"
  shows "\<exists>m'. monitor_loop s name (map panic_turn ps) m =
       (m', map (\<lambda>i. of_nat (delay_after s (rev (take (Suc i) ps) @ h))) [0..<length ps], False) \<and>
     after_panics s (rev ps @ h) m' \<and>
     restart_count (restarts m') name = restart_count (restarts m) name + of_nat (length ps) \<and>
     escalations m' = escalations m @
       replicate (length (filter (\<lambda>i. escalated s (rev (take (Suc i) ps) @ h)) [0..<length ps])) (name, RestartTask name)"
  using assms
proof (induction ps arbitrary: h m)
  case Nil
  then show ?case by simp
next
  case (Cons p ps)
  obtain started now where p: "p = (started, now)" by (cases p)
  have "h \<noteq> [] \<longrightarrow> snd (hd h) \<le> now"
    using Cons.prems(2) by (auto simp: p sorted_append hd_in_set)
  moreover have "Suc (length h) < 2 ^ 32" using Cons.prems(3) by simp
  ultimately obtain m1 where
    turn: "monitor_turn s name Panicked started now m = (m1, Sleep (of_nat (delay_after s (p # h))))"
    and m1: "after_panics s (p # h) m1"
      "restarts m1 = (restarts m)\<lparr>counts := (counts (restarts m))[slot name := restart_count (restarts m) name + 1]\<rparr>"
      "escalations m1 = escalations m @ (if escalated s (p # h) then [(name, RestartTask name)] else [])"
    using monitor_turn_after [OF Cons.prems(1) _ _ Cons.prems(4), of now name started] unfolding p by blast
  have "sorted (map snd (rev (p # h) @ ps))" "length (p # h) + length ps < 2 ^ 32"
    "slot name < length (counts (restarts m1))"
    using Cons.prems(2, 3, 5) by (simp_all add: m1(2))
  from Cons.IH [OF m1(1) this(1, 2) Cons.prems(4) this(3)] obtain m' where
    rest: "monitor_loop s name (map panic_turn ps) m1 =
       (m', map (\<lambda>i. of_nat (delay_after s (rev (take (Suc i) ps) @ p # h))) [0..<length ps], False)"
    and m': "after_panics s (rev ps @ p # h) m'"
      "restart_count (restarts m') name = restart_count (restarts m1) name + of_nat (length ps)"
      "escalations m' = escalations m1 @
       replicate (length (filter (\<lambda>i. escalated s (rev (take (Suc i) ps) @ p # h)) [0..<length ps])) (name, RestartTask name)"
    by blast
  have upt: "[0..<length (p # ps)] = 0 # map Suc [0..<length ps]"
    by (simp add: upt_conv_Cons map_Suc_upt del: upt_Suc)
  have "monitor_loop s name (map panic_turn (p # ps)) m =
      (m', map (\<lambda>i. of_nat (delay_after s (rev (take (Suc i) (p # ps)) @ h))) [0..<length (p # ps)], False)"
    unfolding upt using turn rest by (simp add: panic_turn_def p)
  moreover have "restart_count (restarts m') name = restart_count (restarts m) name + of_nat (length (p # ps))"
    unfolding m'(2) m1(2) using restart_count_add [OF Cons.prems(5)] by simp
  moreover have "escalations m' = escalations m @
      replicate (length (filter (\<lambda>i. escalated s (rev (take (Suc i) (p # ps)) @ h)) [0..<length (p # ps)])) (name, RestartTask name)"
    unfolding upt m'(3) m1(3) by (simp add: filter_map comp_def)
  ultimately show ?case using m'(1) by simp
qed

text \<open>
  C31. Over any panics in the order of time, fewer than \<open>2\<close> to the 32nd, the supervisor restarts after each of them:
  after one second, doubling with the streak of panics that no healthy run broke, and
  after a minute once a window of the streak held more panics than the cap; it counts one restart
  each, and calls the hook with a restart of this task exactly for the panics that are at least
  the ladder's strike.
\<close>
theorem supervisor_follows_history:
  assumes "sorted (map snd ps)" "length ps < 2 ^ 32" "action (escalation_ladder s) = RestartCurrentTask"
    and "slot name < length (counts r)"
  shows "case monitor_loop s name (map panic_turn ps) (monitor_new r) of (m, delays, over) \<Rightarrow>
     \<not> over \<and> delays = map (\<lambda>i. of_nat (delay_after s (rev (take (Suc i) ps)))) [0..<length ps] \<and>
     restart_count (restarts m) name = restart_count r name + of_nat (length ps) \<and>
     escalations m =
       replicate (length (filter (\<lambda>i. escalated s (rev (take (Suc i) ps))) [0..<length ps])) (name, RestartTask name)"
proof -
  have "after_panics s [] (monitor_new r)" by (simp add: after_panics_def monitor_new_def)
  from monitor_loop_after [OF this, of ps name] assms show ?thesis
    by (auto simp: monitor_new_def)
qed

definition sample_supervisor :: supervisor where
  "sample_supervisor = \<lparr>restart_intensity_cap = 2, restart_intensity_window = 60,
     escalation_ladder = \<lparr>warn_at = 1, act_at = 2, action = RestartCurrentTask\<rparr>\<rparr>"

lemma supervisor_follows_history_witness:
  "case monitor_loop sample_supervisor CatchUp (map panic_turn [(0, 5), (6, 7), (9, 10), (70, 71), (131, 200)])
     (monitor_new restart_counters_default) of (m, delays, over) \<Rightarrow>
     \<not> over \<and> delays = [1, 2, 60, 60, 1] \<and> restart_count (restarts m) CatchUp = 5 \<and>
     escalations m = [(CatchUp, RestartTask CatchUp)]"
proof -
  let ?ps = "[(0, 5), (6, 7), (9, 10), (70, 71), (131, 200)] :: panics"
  have s: "sorted (map snd ?ps)" "length ?ps < 2 ^ 32" by simp_all
  have "action (escalation_ladder sample_supervisor) = RestartCurrentTask"
    "slot CatchUp < length (counts restart_counters_default)"
    by (simp_all add: sample_supervisor_def restart_counters_default_def TASK_COUNT_def)
  note general = supervisor_follows_history [OF s this]
  have "map (\<lambda>i. delay_after sample_supervisor (rev (take (Suc i) ?ps))) [0..<length ?ps] = [1, 2, 60, 60, 1]"
    by code_simp
  moreover have "map (\<lambda>i. of_nat (delay_after sample_supervisor (rev (take (Suc i) ?ps)))) [0..<length ?ps] =
      (map of_nat (map (\<lambda>i. delay_after sample_supervisor (rev (take (Suc i) ?ps))) [0..<length ?ps]) :: u64 list)"
    by (simp only: map_map comp_def)
  ultimately have "map (\<lambda>i. of_nat (delay_after sample_supervisor (rev (take (Suc i) ?ps)))) [0..<length ?ps] =
      ([1, 2, 60, 60, 1] :: u64 list)" by (simp del: upt_Suc)
  moreover have "length (filter (\<lambda>i. escalated sample_supervisor (rev (take (Suc i) ?ps))) [0..<length ?ps]) = 1"
    by code_simp
  moreover have "restart_count restart_counters_default CatchUp = 0"
    by (simp add: restart_count_def restart_counters_default_def TASK_COUNT_def)
  ultimately show ?thesis using general
    by (cases "monitor_loop sample_supervisor CatchUp (map panic_turn ?ps) (monitor_new restart_counters_default)") simp
qed

end
