(* ===== verification/Relative_Path.thy ===== *)
theory Relative_Path
  imports Common
begin

text \<open>
  Which paths a caller may name below a corpus root (\<open>safe_relative_path\<close> of
  \<open>corpus/sandbox.rs\<close>).
\<close>

subsection \<open>Relative paths\<close>

definition safe_relative_path :: "string \<Rightarrow> (string, path) result" where
  "safe_relative_path raw =
     (if raw = [] \<or> starts_with [SLASH] raw then Err ''path must be a non-empty relative path''
      else if CHR 0x00 \<in> set raw then Err ''path contains a NUL byte''
      else if ends_with [SLASH] raw \<or> raw = ''.'' \<or> ends_with ''/.'' raw then Err ''path must name a file''
      else if starts_with ''./'' raw \<or> occurs ''/./'' raw then
        Err ''path must contain only normal file components''
      else if (case rev (components raw) of Normal _ # _ \<Rightarrow> False | _ \<Rightarrow> True) then Err ''path must name a file''
      else if \<exists>c \<in> set (components raw). (case c of Normal _ \<Rightarrow> False | _ \<Rightarrow> True) then
        Err ''path must contain only normal file components''
      else Ok (components raw))"

subsection \<open>Which relative paths are taken\<close>

lemma split_on_append: "split_on d (a @ d # b) = split_on d a @ split_on d b"
  by (induction a) (auto split: list.splits)

lemma split_on_no: "d \<notin> set x \<Longrightarrow> split_on d x = [x]"
  by (induction x) auto

lemma join_split_on: "join_str [d] (split_on d s) = s"
proof (induction s)
  case (Cons c s)
  obtain l ls where "split_on d s = l # ls" by (cases "split_on d s") auto
  then show ?case using Cons by (cases ls) auto
qed simp

lemma hd_split_on_Nil: "hd (split_on d s) = [] \<longleftrightarrow> s = [] \<or> starts_with [d] s"
  by (cases s) (auto split: list.splits)

lemma last_split_on_Nil: "last (split_on d s) = [] \<longleftrightarrow> s = [] \<or> ends_with [d] s"
proof (cases s rule: rev_cases)
  case (snoc t c)
  show ?thesis
  proof (cases "c = d")
    case True
    then have "split_on d s = split_on d t @ [[]]" using split_on_append [of d t "[]"] snoc by simp
    then show ?thesis using snoc True by (auto simp: ends_with_iff)
  next
    case False
    have "split_on d (t @ [c]) = butlast (split_on d t) @ [last (split_on d t) @ [c]]"
      using False by (induction t) (auto split: list.splits)
    then show ?thesis using snoc False by (auto simp: ends_with_iff)
  qed
qed simp

text \<open>The four textual tests find exactly the pieces that are a single dot.\<close>

lemma dot_piece:
  "''.'' \<in> set (split_on SLASH s) \<longleftrightarrow>
     s = ''.'' \<or> ends_with ''/.'' s \<or> starts_with ''./'' s \<or> occurs ''/./'' s"
proof
  assume "''.'' \<in> set (split_on SLASH s)"
  then obtain xs ys where split: "split_on SLASH s = xs @ ''.'' # ys" by (meson in_set_conv_decomp)
  then have s: "s = join_str [SLASH] (xs @ ''.'' # ys)" by (metis join_split_on)
  have tail: "join_str [SLASH] (''.'' # ys) = (if ys = [] then ''.'' else ''./'' @ join_str [SLASH] ys)"
    by (cases ys) auto
  show "s = ''.'' \<or> ends_with ''/.'' s \<or> starts_with ''./'' s \<or> occurs ''/./'' s"
  proof (cases "xs = []")
    case True
    then show ?thesis using tail unfolding s by (auto simp: starts_with_iff split: if_splits)
  next
    case False
    then have "s = join_str [SLASH] xs @ [SLASH] @ join_str [SLASH] (''.'' # ys)"
      unfolding s by (rule join_append) simp
    then show ?thesis unfolding tail
      by (cases "ys = []") (auto simp: ends_with_iff occurs_iff)
  qed
next
  have dot: "split_on SLASH ''.'' = [''.'']" by simp
  assume "s = ''.'' \<or> ends_with ''/.'' s \<or> starts_with ''./'' s \<or> occurs ''/./'' s"
  then consider "s = ''.''" | a where "s = a @ SLASH # ''.''" | b where "s = ''.'' @ SLASH # b"
    | a b where "s = a @ SLASH # ''.'' @ SLASH # b"
    by (auto simp: ends_with_iff starts_with_iff occurs_iff)
  then show "''.'' \<in> set (split_on SLASH s)"
    by cases (simp_all only: split_on_append dot set_append, simp_all)
qed

lemma split_on_pieces: "x \<in> set (split_on d s) \<Longrightarrow> d \<notin> set x \<and> set x \<subseteq> set s"
proof (induction s arbitrary: x)
  case (Cons c s)
  obtain l ls where l: "split_on d s = l # ls" by (cases "split_on d s") auto
  with Cons show ?case by (fastforce split: if_splits)
qed simp

text \<open>
  C34. A relative path is taken exactly when it is not empty, holds no NUL byte, neither starts nor
  ends with a slash, and none of the pieces between its slashes is a dot or two dots; it then stands for its
  non-empty pieces, all of them plain names.
\<close>
theorem safe_relative_path_iff:
  "safe_relative_path raw = Ok p \<longleftrightarrow>
     (let pieces = split_on SLASH raw
      in CHR 0x00 \<notin> set raw \<and> hd pieces \<noteq> [] \<and> last pieces \<noteq> [] \<and> ''.'' \<notin> set pieces \<and> ''..'' \<notin> set pieces \<and>
         p = map Normal (filter (\<lambda>x. x \<noteq> []) pieces))"
proof -
  define ps where "ps = split_on SLASH raw"
  have comps: "components raw = map Normal (filter (\<lambda>x. x \<noteq> []) ps)"
    if "hd ps \<noteq> []" "''.'' \<notin> set ps" "''..'' \<notin> set ps"
  proof -
    have "hd ps \<in> set ps" by (simp add: ps_def)
    then have "hd ps \<noteq> ''.''" using that by metis
    moreover have "concat (map component_of qs) = map Normal (filter (\<lambda>x. x \<noteq> []) qs)" if "''.'' \<notin> set qs" "''..'' \<notin> set qs" for qs
      using that by (induction qs) (auto simp: component_of_def)
    ultimately show ?thesis using that hd_split_on_Nil [of SLASH raw] by (simp add: components_def flip: ps_def)
  qed
  have up: "ParentDir \<in> set (components raw)" if "''..'' \<in> set ps"
    using that by (force simp: components_def component_of_def simp flip: ps_def)
  have tests: "raw = [] \<or> starts_with [SLASH] raw \<longleftrightarrow> hd ps = []" "raw = [] \<or> ends_with [SLASH] raw \<longleftrightarrow> last ps = []"
    "raw = ''.'' \<or> ends_with ''/.'' raw \<or> starts_with ''./'' raw \<or> occurs ''/./'' raw \<longleftrightarrow> ''.'' \<in> set ps"
    unfolding ps_def by (simp_all add: hd_split_on_Nil last_split_on_Nil dot_piece)
  show ?thesis
  proof (cases "CHR 0x00 \<notin> set raw \<and> hd ps \<noteq> [] \<and> last ps \<noteq> [] \<and> ''.'' \<notin> set ps")
    case False
    then have "\<exists>e. safe_relative_path raw = Err e"
      using tests by (auto simp: safe_relative_path_def)
    then show ?thesis using False by (auto simp: Let_def simp flip: ps_def)
  next
    case plain: True
    then have pass: "\<not> (raw = [] \<or> starts_with [SLASH] raw)" "\<not> CHR 0x00 \<in> set raw"
      "\<not> (ends_with [SLASH] raw \<or> raw = ''.'' \<or> ends_with ''/.'' raw)" "\<not> (starts_with ''./'' raw \<or> occurs ''/./'' raw)"
      using tests by blast+
    show ?thesis
    proof (cases "''..'' \<in> set ps")
      case True
      from up [OF this] have "\<exists>c \<in> set (components raw). (case c of Normal _ \<Rightarrow> False | _ \<Rightarrow> True)" by force
      then have "\<exists>e. safe_relative_path raw = Err e" using pass by (simp add: safe_relative_path_def)
      then show ?thesis using True by (auto simp: Let_def simp flip: ps_def)
    next
      case False
      have c: "components raw = map Normal (filter (\<lambda>x. x \<noteq> []) ps)" using comps plain False by blast
      have "rev (components raw) = Normal (last ps) # map Normal (rev (filter (\<lambda>x. x \<noteq> []) (butlast ps)))"
      proof -
        have "filter (\<lambda>x. x \<noteq> []) (butlast ps @ [last ps]) = filter (\<lambda>x. x \<noteq> []) (butlast ps) @ [last ps]"
          using plain by simp
        moreover have "butlast ps @ [last ps] = ps" by (simp add: ps_def)
        ultimately have "filter (\<lambda>x. x \<noteq> []) ps = filter (\<lambda>x. x \<noteq> []) (butlast ps) @ [last ps]" by simp
        then show ?thesis by (simp add: c rev_map)
      qed
      then have named: "\<not> (case rev (components raw) of Normal _ # _ \<Rightarrow> False | _ \<Rightarrow> True)" by simp
      have "\<not> (\<exists>x \<in> set (components raw). (case x of Normal _ \<Rightarrow> False | _ \<Rightarrow> True))" by (auto simp: c)
      then have "safe_relative_path raw = Ok (components raw)"
        unfolding safe_relative_path_def if_not_P [OF pass(1)] if_not_P [OF pass(2)] if_not_P [OF pass(3)]
          if_not_P [OF pass(4)] if_not_P [OF named] by (rule if_not_P)
      then show ?thesis using plain False c by (auto simp: Let_def simp flip: ps_def)
    qed
  qed
qed

end
