(* ===== verification/Sandbox.thy ===== *)
theory Sandbox
  imports Relative_Path
begin

unbundle bit_operations_syntax

text \<open>
  The page writer of the sandbox (\<open>corpus/sandbox.rs\<close>): writing,
  reading and deleting a file below a corpus root through directory capabilities, without
  following symbolic links. The capabilities are cap-std's, so their operations are the
  argument \<open>cap_fs\<close>; what the code relies on is the locale \<open>cap_fs_laws\<close>, over the tree of files
  that the operations show. \<open>Sandbox_Memory\<close> gives a file system that keeps the laws.
\<close>

subsection \<open>Errors\<close>

datatype errno = ELOOP | ENOTDIR | EISDIR | EINVAL | EOTHER

datatype io_error_kind = KNotFound | KAlreadyExists | KInvalidInput | KOther

record io_error =
  raw_os_error :: "errno option"
  error_kind :: io_error_kind
  error_text :: string

datatype write_error_kind = Exists | Symlink | InvalidPath | Io

record write_error =
  we_kind :: write_error_kind
  we_source :: io_error

definition write_error_new :: "write_error_kind \<Rightarrow> io_error \<Rightarrow> write_error" where
  "write_error_new k e = \<lparr>we_kind = k, we_source = e\<rparr>"

definition classify_path_io_error :: "io_error \<Rightarrow> write_error" where
  "classify_path_io_error e =
     (if raw_os_error e = Some ELOOP then write_error_new Symlink e
      else if raw_os_error e = Some ENOTDIR \<or> raw_os_error e = Some EINVAL then write_error_new InvalidPath e
      else if error_kind e = KInvalidInput then write_error_new InvalidPath e
      else write_error_new Io e)"

definition classify_create_io_error :: "io_error \<Rightarrow> write_error" where
  "classify_create_io_error e =
     (if raw_os_error e = Some ELOOP then write_error_new Symlink e
      else if raw_os_error e = Some ENOTDIR \<or> raw_os_error e = Some EISDIR \<or> raw_os_error e = Some EINVAL
        then write_error_new InvalidPath e
      else if error_kind e = KAlreadyExists then write_error_new Exists e
      else if error_kind e = KInvalidInput then write_error_new InvalidPath e
      else write_error_new Io e)"

definition symlink_io_error :: io_error where
  "symlink_io_error = \<lparr>raw_os_error = Some ELOOP, error_kind = KOther, error_text = []\<rparr>"

definition invalid_path_error :: "string \<Rightarrow> write_error" where
  "invalid_path_error msg =
     write_error_new InvalidPath \<lparr>raw_os_error = None, error_kind = KInvalidInput, error_text = msg\<rparr>"

definition not_found_error :: write_error where
  "not_found_error = write_error_new Io \<lparr>raw_os_error = None, error_kind = KNotFound, error_text = []\<rparr>"

abbreviation io_err :: "io_error \<Rightarrow> write_error" where
  "io_err \<equiv> write_error_new Io"

definition map_err :: "('e \<Rightarrow> 'f) \<Rightarrow> ('e, 'a) result \<Rightarrow> ('f, 'a) result" where
  "map_err f r = (case r of Err e \<Rightarrow> Err (f e) | Ok a \<Rightarrow> Ok a)"

subsection \<open>Capabilities\<close>

text \<open>What \<open>symlink_metadata\<close> tells of an entry.\<close>

record file_meta =
  meta_kind :: file_kind
  meta_mode :: nat

text \<open>
  The operations on the world \<open>'s\<close>, on open directories \<open>'d\<close>, open files \<open>'h\<close> and temporary files \<open>'t\<close>.
  Each answers with an error or a value; those that may change the world return it.
\<close>

type_synonym ('s, 'a) fs_op = "'s \<Rightarrow> 's \<times> (write_error, 'a) result"

record ('s, 'd, 'h, 't) cap_fs =
  ambient_symlink_metadata :: "path \<Rightarrow> 's \<Rightarrow> (io_error, file_meta) result"
  open_ambient_dir :: "path \<Rightarrow> 's \<Rightarrow> (io_error, 'd) result"
  symlink_metadata :: "'d \<Rightarrow> string \<Rightarrow> 's \<Rightarrow> (io_error, file_meta) result"
  open_dir :: "'d \<Rightarrow> string \<Rightarrow> 's \<Rightarrow> (io_error, 'd) result"
  create_dir :: "'d \<Rightarrow> string \<Rightarrow> 's \<Rightarrow> 's \<times> (io_error, unit) result"
  open_file :: "'d \<Rightarrow> string \<Rightarrow> 's \<Rightarrow> (io_error, 'h) result"
  file_modified :: "'h \<Rightarrow> 's \<Rightarrow> (io_error, int) result"
  file_is_file :: "'h \<Rightarrow> 's \<Rightarrow> (io_error, bool) result"
  read_to_end :: "'h \<Rightarrow> 's \<Rightarrow> (io_error, string) result"
  create_new_file :: "'d \<Rightarrow> string \<Rightarrow> nat \<Rightarrow> 's \<Rightarrow> 's \<times> (io_error, 'h) result"
  write_file :: "'h \<Rightarrow> string \<Rightarrow> 's \<Rightarrow> 's \<times> (io_error, unit) result"
  sync_file :: "'h \<Rightarrow> 's \<Rightarrow> 's \<times> (io_error, unit) result"
  remove_file :: "'d \<Rightarrow> string \<Rightarrow> 's \<Rightarrow> 's \<times> (io_error, unit) result"
  sync_dir :: "'d \<Rightarrow> 's \<Rightarrow> 's \<times> (io_error, unit) result"
  temp_new :: "'d \<Rightarrow> 's \<Rightarrow> 's \<times> (io_error, 't) result"
  temp_mode :: "'t \<Rightarrow> 's \<Rightarrow> (io_error, nat) result"
  temp_set_mode :: "'t \<Rightarrow> nat \<Rightarrow> 's \<Rightarrow> 's \<times> (io_error, unit) result"
  temp_write :: "'t \<Rightarrow> string \<Rightarrow> 's \<Rightarrow> 's \<times> (io_error, unit) result"
  temp_sync :: "'t \<Rightarrow> 's \<Rightarrow> 's \<times> (io_error, unit) result"
  temp_replace :: "'t \<Rightarrow> string \<Rightarrow> 's \<Rightarrow> 's \<times> (io_error, unit) result"
  temp_drop :: "'t \<Rightarrow> 's \<Rightarrow> 's"

definition and_then :: "('s, 'a) fs_op \<Rightarrow> ('a \<Rightarrow> ('s, 'b) fs_op) \<Rightarrow> ('s, 'b) fs_op" where
  "and_then m f s = (case m s of (s', Err e) \<Rightarrow> (s', Err e) | (s', Ok a) \<Rightarrow> f a s')"

definition done_with :: "(write_error, 'a) result \<Rightarrow> ('s, 'a) fs_op" where
  "done_with r s = (s, r)"

text \<open>A call that only looks, and one that changes the world, with their errors classified.\<close>

definition looked :: "(io_error \<Rightarrow> write_error) \<Rightarrow> ('s \<Rightarrow> (io_error, 'a) result) \<Rightarrow> ('s, 'a) fs_op" where
  "looked c q s = (s, map_err c (q s))"

definition acted :: "(io_error \<Rightarrow> write_error) \<Rightarrow> ('s \<Rightarrow> 's \<times> (io_error, 'a) result) \<Rightarrow> ('s, 'a) fs_op" where
  "acted c a s = (case a s of (s', r) \<Rightarrow> (s', map_err c r))"

subsection \<open>Walking to the parent\<close>

fun normal_components_from :: "path \<Rightarrow> string list \<Rightarrow> (write_error, string list) result" where
  "normal_components_from [] out = Ok (rev out)"
| "normal_components_from (c # cs) out =
     (case c of
        Normal name \<Rightarrow> normal_components_from cs (name # out)
      | _ \<Rightarrow> Err (invalid_path_error ''path must contain only normal file components''))"

definition normal_components :: "path \<Rightarrow> (write_error, string list) result" where
  "normal_components p =
     (case normal_components_from p [] of
        Err e \<Rightarrow> Err e
      | Ok out \<Rightarrow> if out = [] then Err (invalid_path_error ''path must name a file'') else Ok out)"

function deepest_existing_ancestor_from ::
  "('s, 'd, 'h, 't) cap_fs \<Rightarrow> 's \<Rightarrow> path \<Rightarrow> string list \<Rightarrow> (write_error, path \<times> string list) result" where
  "deepest_existing_ancestor_from fs s current missing =
     (case ambient_symlink_metadata fs current s of
        Ok meta \<Rightarrow>
          if meta_kind meta = FkSymlink then Err (write_error_new Symlink symlink_io_error)
          else if meta_kind meta = FkDir then Ok (current, rev missing)
          else Err (invalid_path_error ''corpus root path component is not a directory'')
      | Err e \<Rightarrow>
          if error_kind e = KNotFound then
            (case path_file_name current of
               None \<Rightarrow> Err (invalid_path_error ''corpus root has no existing ancestor directory'')
             | Some name \<Rightarrow>
                 (case path_parent current of
                    None \<Rightarrow> Err (invalid_path_error ''corpus root has no existing ancestor directory'')
                  | Some parent \<Rightarrow> deepest_existing_ancestor_from fs s parent (missing @ [name])))
          else Err (io_err e))"
  by pat_completeness auto
termination
  by (relation "measure (\<lambda>(_, _, p, _). length p)") (auto dest: path_parent_shorter [OF sym] path_parent_shorter)

declare deepest_existing_ancestor_from.simps [simp del]

definition deepest_existing_ancestor ::
  "('s, 'd, 'h, 't) cap_fs \<Rightarrow> path \<Rightarrow> 's \<Rightarrow> (write_error, path \<times> string list) result" where
  "deepest_existing_ancestor fs root s = deepest_existing_ancestor_from fs s root []"

definition open_or_create_child_dir :: "('s, 'd, 'h, 't) cap_fs \<Rightarrow> 'd \<Rightarrow> string \<Rightarrow> ('s, 'd) fs_op" where
  "open_or_create_child_dir fs parent name s =
     (case symlink_metadata fs parent name s of
        Ok meta \<Rightarrow>
          if meta_kind meta = FkSymlink then (s, Err (write_error_new Symlink symlink_io_error))
          else if meta_kind meta \<noteq> FkDir then (s, Err (invalid_path_error ''path component is not a directory''))
          else looked classify_path_io_error (open_dir fs parent name) s
      | Err e \<Rightarrow>
          if error_kind e = KNotFound then
            (case create_dir fs parent name s of
               (s', Ok _) \<Rightarrow> looked classify_path_io_error (open_dir fs parent name) s'
             | (s', Err e') \<Rightarrow>
                 if error_kind e' = KAlreadyExists then looked classify_path_io_error (open_dir fs parent name) s'
                 else (s', Err (classify_path_io_error e')))
          else (s, Err (classify_path_io_error e)))"

fun open_child_dirs :: "('s, 'd, 'h, 't) cap_fs \<Rightarrow> 'd \<Rightarrow> string list \<Rightarrow> ('s, 'd) fs_op" where
  "open_child_dirs fs current [] = done_with (Ok current)"
| "open_child_dirs fs current (name # names) =
     and_then (open_or_create_child_dir fs current name) (\<lambda>d. open_child_dirs fs d names)"

definition open_root_dir :: "('s, 'd, 'h, 't) cap_fs \<Rightarrow> path \<Rightarrow> ('s, 'd) fs_op" where
  "open_root_dir fs root s =
     (case deepest_existing_ancestor fs root s of
        Err e \<Rightarrow> (s, Err e)
      | Ok (anchor, remaining) \<Rightarrow>
          and_then (looked io_err (open_ambient_dir fs anchor)) (\<lambda>d. open_child_dirs fs d remaining) s)"

definition open_parent_dir :: "('s, 'd, 'h, 't) cap_fs \<Rightarrow> path \<Rightarrow> string list \<Rightarrow> ('s, 'd) fs_op" where
  "open_parent_dir fs root dirs = and_then (open_root_dir fs root) (\<lambda>d. open_child_dirs fs d dirs)"

subsection \<open>Writing\<close>

definition NEW_FILE_MODE :: nat where
  "NEW_FILE_MODE = 420"

datatype replace_target = Existing nat | Missing

definition fsync_dir :: "('s, 'd, 'h, 't) cap_fs \<Rightarrow> 'd \<Rightarrow> ('s, unit) fs_op" where
  "fsync_dir fs d = acted io_err (sync_dir fs d)"

definition write_and_sync :: "('s, 'd, 'h, 't) cap_fs \<Rightarrow> 'h \<Rightarrow> string \<Rightarrow> ('s, unit) fs_op" where
  "write_and_sync fs h content =
     and_then (acted io_err (write_file fs h content)) (\<lambda>_. acted io_err (sync_file fs h))"

definition write_and_sync_cap :: "('s, 'd, 'h, 't) cap_fs \<Rightarrow> 't \<Rightarrow> string \<Rightarrow> ('s, unit) fs_op" where
  "write_and_sync_cap fs t content =
     and_then (acted io_err (temp_write fs t content)) (\<lambda>_. acted io_err (temp_sync fs t))"

definition write_new_file :: "('s, 'd, 'h, 't) cap_fs \<Rightarrow> 'd \<Rightarrow> string \<Rightarrow> string \<Rightarrow> ('s, unit) fs_op" where
  "write_new_file fs parent name content =
     and_then (acted classify_create_io_error (create_new_file fs parent name NEW_FILE_MODE)) (\<lambda>h.
     and_then (write_and_sync fs h content) (\<lambda>_.
     fsync_dir fs parent))"

definition validate_replace_target :: "('s, 'd, 'h, 't) cap_fs \<Rightarrow> 'd \<Rightarrow> string \<Rightarrow> 's \<Rightarrow> (write_error, replace_target) result" where
  "validate_replace_target fs parent name s =
     (case symlink_metadata fs parent name s of
        Ok meta \<Rightarrow>
          if meta_kind meta = FkSymlink then Err (write_error_new Symlink symlink_io_error)
          else if meta_kind meta = FkFile then Ok (Existing (meta_mode meta AND 511))
          else Err (invalid_path_error ''target is not a regular file'')
      | Err e \<Rightarrow> if error_kind e = KNotFound then Ok Missing else Err (classify_create_io_error e))"

definition set_replace_mode :: "('s, 'd, 'h, 't) cap_fs \<Rightarrow> 't \<Rightarrow> replace_target \<Rightarrow> ('s, unit) fs_op" where
  "set_replace_mode fs temp target =
     (case target of
        Existing mode \<Rightarrow> acted io_err (temp_set_mode fs temp mode)
      | Missing \<Rightarrow>
          and_then (looked io_err (temp_mode fs temp)) (\<lambda>mode.
          acted io_err (temp_set_mode fs temp (mode AND NEW_FILE_MODE))))"

text \<open>A temporary file that was not put in place is dropped on every early return.\<close>

definition or_drop :: "('s, 'd, 'h, 't) cap_fs \<Rightarrow> 't \<Rightarrow> ('s, unit) fs_op \<Rightarrow> ('s, unit) fs_op" where
  "or_drop fs temp m s = (case m s of (s', Ok u) \<Rightarrow> (s', Ok u) | (s', Err e) \<Rightarrow> (temp_drop fs temp s', Err e))"

definition atomic_replace :: "('s, 'd, 'h, 't) cap_fs \<Rightarrow> 'd \<Rightarrow> string \<Rightarrow> string \<Rightarrow> ('s, unit) fs_op" where
  "atomic_replace fs parent name content =
     and_then (\<lambda>s. (s, validate_replace_target fs parent name s)) (\<lambda>target.
     and_then (acted classify_create_io_error (temp_new fs parent)) (\<lambda>temp.
     and_then (or_drop fs temp
       (and_then (set_replace_mode fs temp target) (\<lambda>_.
        and_then (write_and_sync_cap fs temp content) (\<lambda>_.
        acted classify_create_io_error (temp_replace fs temp name))))) (\<lambda>_.
     fsync_dir fs parent)))"

definition atomic_write_no_follow ::
  "('s, 'd, 'h, 't) cap_fs \<Rightarrow> path \<Rightarrow> path \<Rightarrow> string \<Rightarrow> bool \<Rightarrow> ('s, path) fs_op" where
  "atomic_write_no_follow fs root relative content overwrite =
     and_then (done_with (normal_components relative)) (\<lambda>names.
     and_then (open_parent_dir fs root (butlast names)) (\<lambda>parent.
     and_then (if overwrite then atomic_replace fs parent (last names) content
               else write_new_file fs parent (last names) content) (\<lambda>_.
     done_with (Ok (root @ relative)))))"

subsection \<open>Reading and deleting\<close>

definition reject_symlink_leaf :: "('s, 'd, 'h, 't) cap_fs \<Rightarrow> 'd \<Rightarrow> string \<Rightarrow> 's \<Rightarrow> (write_error, unit) result" where
  "reject_symlink_leaf fs parent name s =
     (case symlink_metadata fs parent name s of
        Ok meta \<Rightarrow> if meta_kind meta = FkSymlink then Err (write_error_new Symlink symlink_io_error) else Ok ()
      | Err e \<Rightarrow> Err (classify_path_io_error e))"

definition read_no_follow_with_mtime :: "('s, 'd, 'h, 't) cap_fs \<Rightarrow> path \<Rightarrow> path \<Rightarrow> ('s, string \<times> int) fs_op" where
  "read_no_follow_with_mtime fs root relative =
     and_then (done_with (normal_components relative)) (\<lambda>names.
     and_then (open_parent_dir fs root (butlast names)) (\<lambda>parent.
     and_then (\<lambda>s. (s, reject_symlink_leaf fs parent (last names) s)) (\<lambda>_.
     and_then (looked classify_path_io_error (open_file fs parent (last names))) (\<lambda>h.
     and_then (looked io_err (file_modified fs h)) (\<lambda>mtime.
     and_then (looked io_err (read_to_end fs h)) (\<lambda>bytes.
     done_with (Ok (bytes, mtime))))))))"

definition read_no_follow :: "('s, 'd, 'h, 't) cap_fs \<Rightarrow> path \<Rightarrow> path \<Rightarrow> ('s, string) fs_op" where
  "read_no_follow fs root relative =
     and_then (read_no_follow_with_mtime fs root relative) (\<lambda>r. done_with (Ok (fst r)))"

definition delete_no_follow :: "('s, 'd, 'h, 't) cap_fs \<Rightarrow> path \<Rightarrow> path \<Rightarrow> ('s, unit) fs_op" where
  "delete_no_follow fs root relative =
     and_then (done_with (normal_components relative)) (\<lambda>names.
     and_then (open_parent_dir fs root (butlast names)) (\<lambda>parent.
     and_then (looked classify_create_io_error (symlink_metadata fs parent (last names))) (\<lambda>meta.
     if meta_kind meta = FkSymlink then done_with (Err (write_error_new Symlink symlink_io_error))
     else if meta_kind meta \<noteq> FkFile then done_with (Err (invalid_path_error ''target is not a regular file''))
     else acted io_err (remove_file fs parent (last names)))))"

text \<open>Looking for the root that holds a file, without creating anything.\<close>

fun probe_dirs :: "('s, 'd, 'h, 't) cap_fs \<Rightarrow> 'd \<Rightarrow> string list \<Rightarrow> 's \<Rightarrow> (write_error, 'd option) result" where
  "probe_dirs fs current [] s = Ok (Some current)"
| "probe_dirs fs current (dir # dirs) s =
     (case symlink_metadata fs current dir s of
        Ok meta \<Rightarrow>
          if meta_kind meta = FkSymlink then Err (write_error_new Symlink symlink_io_error)
          else if meta_kind meta \<noteq> FkDir then Ok None
          else (case open_dir fs current dir s of
                  Ok d \<Rightarrow> probe_dirs fs d dirs s
                | Err e \<Rightarrow> if error_kind e = KNotFound then Ok None else Err (classify_path_io_error e))
      | Err e \<Rightarrow> if error_kind e = KNotFound then Ok None else Err (classify_path_io_error e))"

definition probe_leaf_exists ::
  "('s, 'd, 'h, 't) cap_fs \<Rightarrow> path \<Rightarrow> string list \<Rightarrow> string \<Rightarrow> 's \<Rightarrow> (write_error, bool) result" where
  "probe_leaf_exists fs root dirs leaf s =
     (case open_ambient_dir fs root s of
        Err e \<Rightarrow> if error_kind e = KNotFound then Ok False else Err (io_err e)
      | Ok d \<Rightarrow>
          (case probe_dirs fs d dirs s of
             Err e \<Rightarrow> Err e
           | Ok None \<Rightarrow> Ok False
           | Ok (Some current) \<Rightarrow>
               (case symlink_metadata fs current leaf s of
                  Ok meta \<Rightarrow>
                    if meta_kind meta = FkSymlink then Err (write_error_new Symlink symlink_io_error)
                    else Ok (meta_kind meta = FkFile)
                | Err e \<Rightarrow> if error_kind e = KNotFound then Ok False else Err (classify_path_io_error e))))"

fun resolve_roots ::
  "('s, 'd, 'h, 't) cap_fs \<Rightarrow> path list \<Rightarrow> string list \<Rightarrow> 's \<Rightarrow> write_error \<Rightarrow> (write_error, path) result" where
  "resolve_roots fs [] names s last_err = Err last_err"
| "resolve_roots fs (root # roots) names s last_err =
     (case probe_leaf_exists fs root (butlast names) (last names) s of
        Ok True \<Rightarrow> Ok root
      | Ok False \<Rightarrow> resolve_roots fs roots names s not_found_error
      | Err e \<Rightarrow> if we_kind e = Symlink then Err e else resolve_roots fs roots names s e)"

definition resolve_read_root ::
  "('s, 'd, 'h, 't) cap_fs \<Rightarrow> (string \<Rightarrow> string) \<Rightarrow> corpus_config \<Rightarrow> path \<Rightarrow> 's \<Rightarrow> (write_error, path) result" where
  "resolve_read_root fs tilde corpus relative s =
     (case normal_components relative of
        Err e \<Rightarrow> Err e
      | Ok names \<Rightarrow> resolve_roots fs (map (expand_tilde tilde) (cc_paths corpus)) names s not_found_error)"

text \<open>Opening an existing regular file for reading.\<close>

fun open_existing_dirs :: "('s, 'd, 'h, 't) cap_fs \<Rightarrow> 'd \<Rightarrow> string list \<Rightarrow> 's \<Rightarrow> (write_error, 'd) result" where
  "open_existing_dirs fs current [] s = Ok current"
| "open_existing_dirs fs current (dir # dirs) s =
     (case symlink_metadata fs current dir s of
        Err e \<Rightarrow> Err (classify_path_io_error e)
      | Ok meta \<Rightarrow>
          if meta_kind meta = FkSymlink then Err (write_error_new Symlink symlink_io_error)
          else if meta_kind meta \<noteq> FkDir then Err (invalid_path_error ''path component is not a directory'')
          else (case open_dir fs current dir s of
                  Err e \<Rightarrow> Err (classify_path_io_error e)
                | Ok d \<Rightarrow> open_existing_dirs fs d dirs s))"

definition open_existing_leaf :: "('s, 'd, 'h, 't) cap_fs \<Rightarrow> 'd \<Rightarrow> string \<Rightarrow> 's \<Rightarrow> (write_error, 'h) result" where
  "open_existing_leaf fs parent name s =
     (case symlink_metadata fs parent name s of
        Err e \<Rightarrow> Err (classify_path_io_error e)
      | Ok meta \<Rightarrow>
          if meta_kind meta = FkSymlink then Err (write_error_new Symlink symlink_io_error)
          else if meta_kind meta \<noteq> FkFile then Err (invalid_path_error ''target is not a regular file'')
          else (case open_file fs parent name s of
                  Err e \<Rightarrow> Err (classify_path_io_error e)
                | Ok h \<Rightarrow>
                    (case file_is_file fs h s of
                       Err e \<Rightarrow> Err (io_err e)
                     | Ok is_file \<Rightarrow>
                         if is_file then Ok h else Err (invalid_path_error ''target is not a regular file''))))"

definition open_existing_file_no_follow :: "('s, 'd, 'h, 't) cap_fs \<Rightarrow> path \<Rightarrow> path \<Rightarrow> 's \<Rightarrow> (write_error, 'h) result" where
  "open_existing_file_no_follow fs root relative s =
     (case normal_components relative of
        Err e \<Rightarrow> Err e
      | Ok names \<Rightarrow>
          (case open_ambient_dir fs root s of
             Err e \<Rightarrow> Err (io_err e)
           | Ok d \<Rightarrow>
               (case open_existing_dirs fs d (butlast names) s of
                  Err e \<Rightarrow> Err e
                | Ok parent \<Rightarrow> open_existing_leaf fs parent (last names) s)))"

end
