(* ===== verification/Sandbox_Laws.thy ===== *)
theory Sandbox_Laws
  imports Sandbox "HOL-Library.Sublist"
begin

unbundle bit_operations_syntax

text \<open>
  What the sandbox relies on of directory capabilities, as the locale \<open>cap_fs_laws\<close> over a tree
  of entries named by their real location, and what the walk, the writers and the other
  operations do to that tree under these laws.
\<close>

subsection \<open>The laws\<close>

datatype fs_node = NFile nat string | NDir | NSymlink | NOther

fun node_kind :: "fs_node \<Rightarrow> file_kind" where
  "node_kind (NFile _ _) = FkFile"
| "node_kind NDir = FkDir"
| "node_kind NSymlink = FkSymlink"
| "node_kind NOther = FkOther"

type_synonym fs_tree = "string list \<Rightarrow> fs_node option"

text \<open>
  \<open>tree\<close> is what the world holds, temporary files aside; \<open>real_at s p\<close> is where the ambient path \<open>p\<close> leads
  in the world \<open>s\<close>; \<open>dir_at\<close>, \<open>file_at\<close> and \<open>temp_at\<close> say where an open directory or file, or the directory of
  a temporary file, is. A temporary file has its permissions and its content.
\<close>

locale cap_fs_laws =
  fixes fs :: "('s, 'd, 'h, 't) cap_fs" and tree :: "'s \<Rightarrow> fs_tree" and real_at :: "'s \<Rightarrow> path \<Rightarrow> string list"
    and dir_at :: "'d \<Rightarrow> string list" and file_at :: "'h \<Rightarrow> string list" and temp_at :: "'t \<Rightarrow> string list"
    and temp_perm :: "'s \<Rightarrow> 't \<Rightarrow> nat" and temp_content :: "'s \<Rightarrow> 't \<Rightarrow> string"
  assumes metadata_ok: "symlink_metadata fs d n s = Ok meta \<Longrightarrow>
      \<exists>x. tree s (dir_at d @ [n]) = Some x \<and> node_kind x = meta_kind meta \<and>
        (\<forall>mode c. x = NFile mode c \<longrightarrow> meta_mode meta AND 511 = mode)"
    and metadata_absent: "symlink_metadata fs d n s = Err e \<Longrightarrow> error_kind e = KNotFound \<Longrightarrow>
      tree s (dir_at d @ [n]) = None"
    and open_ambient: "open_ambient_dir fs p s = Ok d \<Longrightarrow> dir_at d = real_at s p"
    and open_dir_ok: "open_dir fs d n s = Ok d' \<Longrightarrow>
      tree s (dir_at d @ [n]) = Some NSymlink \<or> tree s (dir_at d @ [n]) = Some NDir \<and> dir_at d' = dir_at d @ [n]"
    and create_dir: "create_dir fs d n s = (s', r) \<Longrightarrow>
      (case r of Ok _ \<Rightarrow> tree s (dir_at d @ [n]) = None \<and> tree s' = (tree s)(dir_at d @ [n] \<mapsto> NDir)
       | Err _ \<Rightarrow> tree s' = tree s)"
    and open_file: "open_file fs d n s = Ok h \<Longrightarrow> tree s (dir_at d @ [n]) \<noteq> Some NSymlink \<Longrightarrow> file_at h = dir_at d @ [n]"
    and read_data: "read_to_end fs h s = Ok b \<Longrightarrow> tree s (file_at h) = Some (NFile mode c) \<Longrightarrow> b = c"
    and create_file: "create_new_file fs d n mode s = (s', rh) \<Longrightarrow>
      (case rh of Ok h \<Rightarrow> file_at h = dir_at d @ [n] \<and> tree s (dir_at d @ [n]) = None \<and>
          (\<exists>m. m AND mode = m \<and> tree s' = (tree s)(dir_at d @ [n] \<mapsto> NFile m []))
       | Err _ \<Rightarrow> tree s' = tree s)"
    and write_data: "write_file fs h b s = (s', r) \<Longrightarrow> tree s (file_at h) = Some (NFile m []) \<Longrightarrow>
      \<exists>c. tree s' = (tree s)(file_at h \<mapsto> NFile m c) \<and> prefix c b \<and> (r = Ok () \<longrightarrow> c = b)"
    and sync_file: "sync_file fs h s = (s', r) \<Longrightarrow> tree s' = tree s"
    and sync_dir: "sync_dir fs d s = (s', r) \<Longrightarrow> tree s' = tree s"
    and remove: "remove_file fs d n s = (s', r) \<Longrightarrow>
      (case r of Ok _ \<Rightarrow> tree s' = (tree s)(dir_at d @ [n] := None) | Err _ \<Rightarrow> tree s' = tree s)"
    and temp_new: "temp_new fs d s = (s', rt) \<Longrightarrow> tree s' = tree s \<and>
      (case rt of Ok t \<Rightarrow> temp_at t = dir_at d \<and> temp_content s' t = [] | Err _ \<Rightarrow> True)"
    and temp_set_mode: "temp_set_mode fs t m s = (s', r) \<Longrightarrow> tree s' = tree s \<and>
      (r = Ok () \<longrightarrow> temp_perm s' t = m \<and> temp_content s' t = temp_content s t)"
    and temp_write: "temp_write fs t b s = (s', r) \<Longrightarrow> tree s' = tree s \<and>
      (r = Ok () \<longrightarrow> temp_perm s' t = temp_perm s t \<and> temp_content s' t = temp_content s t @ b)"
    and temp_sync: "temp_sync fs t s = (s', r) \<Longrightarrow> tree s' = tree s \<and>
      temp_perm s' t = temp_perm s t \<and> temp_content s' t = temp_content s t"
    and temp_replace: "temp_replace fs t n s = (s', r) \<Longrightarrow>
      (case r of Ok _ \<Rightarrow> tree s' = (tree s)(temp_at t @ [n] \<mapsto> NFile (temp_perm s t) (temp_content s t))
       | Err _ \<Rightarrow> tree s' = tree s)"
    and temp_drop: "tree (temp_drop fs t s) = tree s"

subsection \<open>Sequences of operations\<close>

lemma and_then_cases:
  assumes "and_then m f s = (s', r)"
  obtains e where "m s = (s', Err e)" "r = Err e"
  | a s1 where "m s = (s1, Ok a)" "f a s1 = (s', r)"
  using assms by (auto simp: and_then_def split: prod.splits sum.splits)

lemma and_then_Ok: "m s = (s1, Ok a) \<Longrightarrow> and_then m f s = f a s1"
  by (simp add: and_then_def)

lemma looked_iff: "looked c q s = (s', r) \<longleftrightarrow> s' = s \<and> r = map_err c (q s)"
  by (auto simp: looked_def)

lemma acted_iff: "acted c a s = (s', r) \<longleftrightarrow> (\<exists>r'. a s = (s', r') \<and> r = map_err c r')"
  by (auto simp: acted_def split: prod.splits)

lemma map_err_iff [simp]:
  "map_err f r = Ok a \<longleftrightarrow> r = Ok a"
  "map_err f r = Err e \<longleftrightarrow> (\<exists>e'. r = Err e' \<and> e = f e')"
  "Ok a = map_err f r \<longleftrightarrow> r = Ok a"
  "Err e = map_err f r \<longleftrightarrow> (\<exists>e'. r = Err e' \<and> e = f e')"
  by (cases r; auto simp: map_err_def)+

lemma done_with_iff: "done_with r s = (s', r') \<longleftrightarrow> s' = s \<and> r' = r"
  by (auto simp: done_with_def)

lemmas fs_step_simps = looked_iff acted_iff done_with_iff

subsection \<open>Directories made on the way\<close>

text \<open>Between the trees nothing changed but directories made at steps of the way from the base.\<close>

definition walked :: "fs_tree \<Rightarrow> fs_tree \<Rightarrow> string list \<Rightarrow> string list \<Rightarrow> bool" where
  "walked t t' base names =
     (\<forall>p. t' p = t p \<or>
        t p = None \<and> t' p = Some NDir \<and> (\<exists>k. 0 < k \<and> k \<le> length names \<and> p = base @ take k names))"

text \<open>Every step of the way is a directory.\<close>

definition all_dirs :: "fs_tree \<Rightarrow> string list \<Rightarrow> string list \<Rightarrow> bool" where
  "all_dirs t base names = (\<forall>k. 0 < k \<and> k \<le> length names \<longrightarrow> t (base @ take k names) = Some NDir)"

lemma walked_refl [simp]: "walked t t base names"
  by (simp add: walked_def)

lemma walked_Cons:
  assumes "walked t t1 base [n]" "walked t1 t2 (base @ [n]) ns"
  shows "walked t t2 base (n # ns)"
  unfolding walked_def
proof
  fix p
  consider "t2 p = t1 p" | k where "t1 p = None" "t2 p = Some NDir" "0 < k" "k \<le> length ns" "p = (base @ [n]) @ take k ns"
    using assms(2) unfolding walked_def by blast
  then show "t2 p = t p \<or> t p = None \<and> t2 p = Some NDir \<and> (\<exists>k. 0 < k \<and> k \<le> length (n # ns) \<and> p = base @ take k (n # ns))"
  proof cases
    case 1
    from assms(1) consider "t1 p = t p" | "t p = None" "t1 p = Some NDir" "p = base @ [n]"
      unfolding walked_def by (metis One_nat_def Suc_leI le_antisym length_Cons list.size(3) take_all le_refl)
    then show ?thesis
    proof cases
      case 2
      then show ?thesis using 1 by (intro disjI2 conjI exI [of _ 1]) simp_all
    qed (simp add: 1)
  next
    case 2
    from 2(1) assms(1) have "t p = None" unfolding walked_def by (metis option.distinct(1))
    then show ?thesis using 2 by (intro disjI2 conjI exI [of _ "Suc k"]) simp_all
  qed
qed

lemma walked_keeps: "walked t t' base names \<Longrightarrow> t p = Some x \<Longrightarrow> t' p = Some x"
  unfolding walked_def by (metis option.distinct(1))

lemma walked_dir: "walked t t' base names \<Longrightarrow> length base + length names < length p \<Longrightarrow> t' p = t p"
  unfolding walked_def by (metis add_le_cancel_left leD length_append length_take min.absorb2)

lemma all_dirs_Cons:
  assumes "t (base @ [n]) = Some NDir" "all_dirs t (base @ [n]) ns"
  shows "all_dirs t base (n # ns)"
  unfolding all_dirs_def
proof (intro allI impI)
  fix k assume k: "0 < k \<and> k \<le> length (n # ns)"
  then obtain j where "k = Suc j" "j \<le> length ns" by (cases k) auto
  then show "t (base @ take k (n # ns)) = Some NDir"
    using assms(1) spec [OF assms(2) [unfolded all_dirs_def], of j] by (cases j) simp_all
qed

lemma walked_append:
  assumes "walked t t1 base a" "walked t1 t2 (base @ a) b"
  shows "walked t t2 base (a @ b)"
  unfolding walked_def
proof
  fix p
  consider "t2 p = t1 p" | k where "t1 p = None" "t2 p = Some NDir" "0 < k" "k \<le> length b" "p = (base @ a) @ take k b"
    using assms(2) unfolding walked_def by blast
  then show "t2 p = t p \<or> t p = None \<and> t2 p = Some NDir \<and> (\<exists>k. 0 < k \<and> k \<le> length (a @ b) \<and> p = base @ take k (a @ b))"
  proof cases
    case 1
    from assms(1) consider "t1 p = t p" | k where "t p = None" "t1 p = Some NDir" "0 < k" "k \<le> length a" "p = base @ take k a"
      unfolding walked_def by blast
    then show ?thesis
    proof cases
      case (2 k)
      then show ?thesis using 1 by (intro disjI2 conjI exI [of _ k]) simp_all
    qed (simp add: 1)
  next
    case 2
    from 2(1) assms(1) have "t p = None" unfolding walked_def by (metis option.distinct(1))
    then show ?thesis using 2 by (intro disjI2 conjI exI [of _ "length a + k"]) simp_all
  qed
qed

lemma all_dirs_append:
  assumes "all_dirs t base a" "all_dirs t (base @ a) b"
  shows "all_dirs t base (a @ b)"
  unfolding all_dirs_def
proof (intro allI impI)
  fix k assume k: "0 < k \<and> k \<le> length (a @ b)"
  show "t (base @ take k (a @ b)) = Some NDir"
  proof (cases "k \<le> length a")
    case True
    then show ?thesis using k spec [OF assms(1) [unfolded all_dirs_def], of k] by simp
  next
    case False
    then show ?thesis using k spec [OF assms(2) [unfolded all_dirs_def], of "k - length a"] by simp
  qed
qed

lemma all_dirs_walked: "walked t t' base' names' \<Longrightarrow> all_dirs t base names \<Longrightarrow> all_dirs t' base names"
  unfolding all_dirs_def by (metis walked_keeps)

subsection \<open>The walk\<close>

lemma deepest_existing_ancestor_from_shape:
  "deepest_existing_ancestor_from fs s p missing = Ok (anchor, rest) \<Longrightarrow>
     \<exists>ns. p = anchor @ map Normal ns \<and> rest = ns @ rev missing"
proof (induction fs s p missing rule: deepest_existing_ancestor_from.induct)
  case (1 fs s current missing)
  note unfold = deepest_existing_ancestor_from.simps [of fs s current missing]
  show ?case
  proof (cases "ambient_symlink_metadata fs current s")
    case (Inr meta)
    then show ?thesis using 1(2) by (simp add: unfold split: if_splits)
  next
    case (Inl e)
    then have nf: "error_kind e = KNotFound" using 1(2) by (simp add: unfold split: if_splits)
    from Inl nf 1(2) obtain name parent where np: "path_file_name current = Some name" "path_parent current = Some parent"
      and rec: "deepest_existing_ancestor_from fs s parent (missing @ [name]) = Ok (anchor, rest)"
      by (auto simp: unfold split: option.splits)
    from 1(1) [OF Inl nf np rec] obtain ns where
      ns: "parent = anchor @ map Normal ns" "rest = ns @ rev (missing @ [name])" by blast
    have "current = parent @ [Normal name]"
      using path_file_name_Some [OF np(1)] np(2) by (simp add: path_parent_Some)
    then show ?thesis using ns by (intro exI [of _ "ns @ [name]"]) simp
  qed
qed

lemma normal_components_from_Ok:
  "normal_components_from p out = Ok names \<longleftrightarrow> (\<exists>ns. p = map Normal ns \<and> names = rev out @ ns)"
proof (induction p arbitrary: out)
  case (Cons c p)
  then show ?case by (cases c) (auto simp: Cons_eq_map_conv)
qed auto

lemma normal_components_Ok:
  "normal_components p = Ok names \<longleftrightarrow> p = map Normal names \<and> names \<noteq> []"
proof -
  have "normal_components_from p [] = Ok ns \<longleftrightarrow> p = map Normal ns" for ns
    using normal_components_from_Ok [of p "[]" ns] by auto
  moreover have "inj (map Normal)" by (simp add: inj_map_eq_map inj_def)
  ultimately show ?thesis
    by (cases "normal_components_from p []") (auto simp: normal_components_def inj_eq)
qed

context cap_fs_laws
begin

lemma child_dir:
  assumes "open_or_create_child_dir fs d n s = (s', r)"
  shows "walked (tree s) (tree s') (dir_at d) [n] \<and>
    (case r of Ok d' \<Rightarrow> dir_at d' = dir_at d @ [n] \<and> tree s' (dir_at d @ [n]) = Some NDir | Err _ \<Rightarrow> True)"
proof (cases "symlink_metadata fs d n s")
  case (Inr meta)
  then obtain x where x: "tree s (dir_at d @ [n]) = Some x" "node_kind x = meta_kind meta"
    using metadata_ok by blast
  show ?thesis
  proof (cases "meta_kind meta = FkDir")
    case True
    then have "x = NDir" using x(2) by (cases x) auto
    then show ?thesis using assms Inr True x(1) open_dir_ok [of d n s]
      by (auto simp: open_or_create_child_dir_def looked_iff split: sum.splits)
  next
    case False
    then have "s' = s" "\<exists>e. r = Err e" using assms Inr by (auto simp: open_or_create_child_dir_def split: if_splits)
    then show ?thesis by auto
  qed
next
  case (Inl e)
  show ?thesis
  proof (cases "error_kind e = KNotFound")
    case False
    then have "s' = s" "\<exists>e. r = Err e" using assms Inl by (auto simp: open_or_create_child_dir_def)
    then show ?thesis by auto
  next
    case True
    then have none: "tree s (dir_at d @ [n]) = None" using Inl metadata_absent by blast
    obtain s1 c where made: "create_dir fs d n s = (s1, c)" by force
    have s': "s' = s1" using assms Inl True made
      by (auto simp: open_or_create_child_dir_def looked_iff split: sum.splits if_splits)
    show ?thesis
    proof (cases c)
      case (Inr u)
      then have t1: "tree s1 = (tree s)(dir_at d @ [n] \<mapsto> NDir)" using create_dir [OF made] by simp
      then have "walked (tree s) (tree s1) (dir_at d) [n]"
        using none by (auto simp: walked_def intro!: exI [of _ 1])
      moreover have "dir_at d' = dir_at d @ [n]" if "r = Ok d'" for d'
        using assms Inl True made Inr that t1 open_dir_ok [of d n s1 d']
        by (auto simp: open_or_create_child_dir_def looked_iff)
      ultimately show ?thesis using t1 by (auto simp: s' split: sum.splits)
    next
      case (Inl e')
      then have t1: "tree s1 = tree s" using create_dir [OF made] by simp
      have "r \<noteq> Ok d'" for d'
        using assms \<open>symlink_metadata fs d n s = Inl e\<close> True made Inl t1 none open_dir_ok [of d n s1 d']
        by (auto simp: open_or_create_child_dir_def looked_iff split: if_splits)
      then show ?thesis using t1 by (auto simp: s' split: sum.splits)
    qed
  qed
qed

lemma child_dirs:
  "open_child_dirs fs d names s = (s', r) \<Longrightarrow> walked (tree s) (tree s') (dir_at d) names \<and>
    (case r of Ok d' \<Rightarrow> dir_at d' = dir_at d @ names \<and> all_dirs (tree s') (dir_at d) names | Err _ \<Rightarrow> True)"
proof (induction names arbitrary: d s)
  case Nil
  then show ?case by (auto simp: done_with_iff all_dirs_def)
next
  case (Cons n names)
  from Cons.prems have "and_then (open_or_create_child_dir fs d n) (\<lambda>d'. open_child_dirs fs d' names) s = (s', r)" by simp
  then show ?case
  proof (cases rule: and_then_cases)
    case (1 e)
    from child_dir [OF 1(1)] have w: "walked (tree s) (tree s') (dir_at d) [n]" by simp
    have "walked (tree s) (tree s') (dir_at d) (n # names)"
      by (rule walked_Cons [OF w]) simp
    then show ?thesis by (simp add: 1(2))
  next
    case (2 d1 s1)
    from child_dir [OF 2(1)] have d1: "walked (tree s) (tree s1) (dir_at d) [n]" "dir_at d1 = dir_at d @ [n]"
      "tree s1 (dir_at d @ [n]) = Some NDir" by simp_all
    from Cons.IH [OF 2(2)] have rest: "walked (tree s1) (tree s') (dir_at d @ [n]) names"
      "case r of Ok d' \<Rightarrow> dir_at d' = (dir_at d @ [n]) @ names \<and> all_dirs (tree s') (dir_at d @ [n]) names | Err _ \<Rightarrow> True"
      unfolding d1(2) by simp_all
    have "tree s' (dir_at d @ [n]) = Some NDir" using walked_keeps [OF rest(1)] d1(3) by blast
    then show ?thesis using walked_Cons [OF d1(1) rest(1)] rest(2) all_dirs_Cons by (auto split: sum.splits)
  qed
qed

text \<open>The way to a file: the entry the walk starts from, and what it did.\<close>

lemma parent_dir:
  assumes "open_parent_dir fs root dirs s = (s', r)"
  shows "tree s' = tree s \<and> (\<exists>e. r = Err e) \<or>
    (\<exists>anchor ns. root = anchor @ map Normal ns \<and>
       walked (tree s) (tree s') (real_at s anchor) (ns @ dirs) \<and>
       (case r of Ok d \<Rightarrow> dir_at d = real_at s anchor @ ns @ dirs \<and> all_dirs (tree s') (real_at s anchor) (ns @ dirs)
        | Err _ \<Rightarrow> True))"
proof (cases "deepest_existing_ancestor fs root s")
  case (Inl e)
  then show ?thesis using assms by (auto simp: open_parent_dir_def and_then_def open_root_dir_def)
next
  case (Inr ar)
  obtain anchor ns where ar: "ar = (anchor, ns)" by (cases ar)
  have root: "root = anchor @ map Normal ns"
    using deepest_existing_ancestor_from_shape [of fs s root "[]" anchor ns] Inr by (simp add: deepest_existing_ancestor_def ar)
  have top: "open_root_dir fs root s =
      and_then (looked io_err (open_ambient_dir fs anchor)) (\<lambda>d. open_child_dirs fs d ns) s"
    by (simp add: open_root_dir_def Inr ar)
  show ?thesis
  proof (cases "open_ambient_dir fs anchor s")
    case (Inl e)
    then show ?thesis using assms top by (auto simp: open_parent_dir_def and_then_def looked_def map_err_def)
  next
    case (Inr d0)
    then have d0: "dir_at d0 = real_at s anchor" by (rule open_ambient)
    have top: "open_root_dir fs root s = open_child_dirs fs d0 ns s"
      unfolding top by (simp add: and_then_def looked_def map_err_def Inr)
    from assms have "and_then (open_root_dir fs root) (\<lambda>d. open_child_dirs fs d dirs) s = (s', r)"
      by (simp add: open_parent_dir_def)
    then show ?thesis
    proof (cases rule: and_then_cases)
      case (1 e)
      from child_dirs [OF 1(1) [unfolded top]] have w: "walked (tree s) (tree s') (real_at s anchor) ns" by (simp add: d0)
      have "walked (tree s) (tree s') (real_at s anchor) (ns @ dirs)" by (rule walked_append [OF w]) simp
      then show ?thesis using root by (auto simp: 1(2))
    next
      case (2 d1 s1)
      from child_dirs [OF 2(1) [unfolded top]] have one: "walked (tree s) (tree s1) (real_at s anchor) ns"
        "dir_at d1 = real_at s anchor @ ns" "all_dirs (tree s1) (real_at s anchor) ns" by (simp_all add: d0)
      from child_dirs [OF 2(2)] have two: "walked (tree s1) (tree s') (real_at s anchor @ ns) dirs"
        "case r of Ok d' \<Rightarrow> dir_at d' = (real_at s anchor @ ns) @ dirs \<and> all_dirs (tree s') (real_at s anchor @ ns) dirs
         | Err _ \<Rightarrow> True" unfolding one(2) by simp_all
      have "all_dirs (tree s') (real_at s anchor) ns" by (rule all_dirs_walked [OF two(1) one(3)])
      then have "case r of Ok d \<Rightarrow> dir_at d = real_at s anchor @ ns @ dirs \<and> all_dirs (tree s') (real_at s anchor) (ns @ dirs)
          | Err _ \<Rightarrow> True"
        using two(2) all_dirs_append by (auto split: sum.splits)
      then show ?thesis using root walked_append [OF one(1) two(1)] by blast
    qed
  qed
qed

end

subsection \<open>The leaf\<close>

text \<open>The file put in place is whole, with the mode it is to have.\<close>

definition replaced :: "fs_tree \<Rightarrow> string list \<Rightarrow> string \<Rightarrow> fs_node option \<Rightarrow> bool" where
  "replaced t loc content x =
     (\<exists>m. x = Some (NFile m content) \<and>
        (case t loc of None \<Rightarrow> m AND NEW_FILE_MODE = m | Some y \<Rightarrow> \<exists>c. y = NFile m c))"

context cap_fs_laws
begin

lemma fsync_dir_tree: "fsync_dir fs d s = (s', r) \<Longrightarrow> tree s' = tree s"
  by (auto simp: fsync_dir_def acted_iff dest: sync_dir)

lemma write_and_sync_tree:
  assumes "write_and_sync fs h b s = (s', r)" "tree s (file_at h) = Some (NFile m [])"
  shows "\<exists>c. tree s' = (tree s)(file_at h \<mapsto> NFile m c) \<and> prefix c b \<and> (r = Ok () \<longrightarrow> c = b)"
proof -
  from assms(1) have "and_then (acted io_err (write_file fs h b)) (\<lambda>_. acted io_err (sync_file fs h)) s = (s', r)"
    by (simp add: write_and_sync_def)
  then show ?thesis
  proof (cases rule: and_then_cases)
    case (1 e)
    then obtain w where "write_file fs h b s = (s', w)" by (auto simp: acted_iff)
    from write_data [OF this assms(2)] show ?thesis by (auto simp: 1(2))
  next
    case (2 u s1)
    then obtain y where "write_file fs h b s = (s1, Ok ())" "sync_file fs h s1 = (s', y)" by (auto simp: acted_iff)
    with write_data [OF _ assms(2)] sync_file show ?thesis by metis
  qed
qed

text \<open>A new file: nothing there before; after an error nothing, or the file with part of the content.\<close>

lemma write_new_file_tree:
  assumes "write_new_file fs d n content s = (s', r)"
  defines "loc \<equiv> dir_at d @ [n]"
  shows "(\<forall>p. p \<noteq> loc \<longrightarrow> tree s' p = tree s p) \<and>
    (case r of
       Ok _ \<Rightarrow> tree s loc = None \<and> (\<exists>m. m AND NEW_FILE_MODE = m \<and> tree s' loc = Some (NFile m content))
     | Err _ \<Rightarrow> tree s' loc = tree s loc \<or>
         tree s loc = None \<and> (\<exists>m c. tree s' loc = Some (NFile m c) \<and> prefix c content))"
proof -
  have "and_then (acted classify_create_io_error (create_new_file fs d n NEW_FILE_MODE))
      (\<lambda>h. and_then (write_and_sync fs h content) (\<lambda>_. fsync_dir fs d)) s = (s', r)"
    using assms(1) by (simp add: write_new_file_def)
  then show ?thesis
  proof (cases rule: and_then_cases)
    case (1 e)
    then obtain e' where "create_new_file fs d n NEW_FILE_MODE s = (s', Err e')" by (auto simp: acted_iff)
    from create_file [OF this] show ?thesis by (simp add: 1(2))
  next
    case (2 h s1)
    then have "create_new_file fs d n NEW_FILE_MODE s = (s1, Ok h)" by (auto simp: acted_iff)
    from create_file [OF this] obtain m where made: "file_at h = loc" "tree s loc = None"
      "m AND NEW_FILE_MODE = m" "tree s1 = (tree s)(loc \<mapsto> NFile m [])" by (auto simp: loc_def)
    then have at_h: "tree s1 (file_at h) = Some (NFile m [])" by simp
    from 2(2) show ?thesis
    proof (cases rule: and_then_cases)
      case (1 e)
      from write_and_sync_tree [OF 1(1) at_h] made show ?thesis by (auto simp: 1(2))
    next
      case (2 u s2)
      from write_and_sync_tree [OF 2(1) at_h] have "tree s2 = (tree s)(loc \<mapsto> NFile m content)"
        using made by auto
      moreover have "tree s' = tree s2" using 2(2) by (rule fsync_dir_tree)
      ultimately show ?thesis using made by (auto split: sum.splits)
    qed
  qed
qed

lemma validate_target:
  assumes "validate_replace_target fs d n s = Ok target"
  shows "case target of Existing m \<Rightarrow> \<exists>c. tree s (dir_at d @ [n]) = Some (NFile m c) | Missing \<Rightarrow> tree s (dir_at d @ [n]) = None"
proof (cases "symlink_metadata fs d n s")
  case (Inl e)
  then show ?thesis using assms metadata_absent by (auto simp: validate_replace_target_def split: if_splits)
next
  case (Inr meta)
  then obtain x where x: "tree s (dir_at d @ [n]) = Some x" "node_kind x = meta_kind meta"
    "\<forall>mode c. x = NFile mode c \<longrightarrow> meta_mode meta AND 511 = mode" using metadata_ok by blast
  have "meta_kind meta = FkFile" "target = Existing (meta_mode meta AND 511)"
    using assms Inr by (auto simp: validate_replace_target_def split: if_splits)
  with x show ?thesis by (cases x) auto
qed

text \<open>The mode a replaced file gets.\<close>

lemma set_replace_mode_tree:
  assumes "set_replace_mode fs t target s = (s', r)"
  shows "tree s' = tree s \<and> (r = Ok () \<longrightarrow> temp_content s' t = temp_content s t \<and>
    (case target of Existing m \<Rightarrow> temp_perm s' t = m | Missing \<Rightarrow> temp_perm s' t AND NEW_FILE_MODE = temp_perm s' t))"
proof (cases target)
  case (Existing m)
  then show ?thesis using assms temp_set_mode by (fastforce simp: set_replace_mode_def acted_iff)
next
  case Missing
  then have "and_then (looked io_err (temp_mode fs t)) (\<lambda>mode. acted io_err (temp_set_mode fs t (mode AND NEW_FILE_MODE))) s = (s', r)"
    using assms by (simp add: set_replace_mode_def)
  then show ?thesis
  proof (cases rule: and_then_cases)
    case (1 e)
    then show ?thesis by (auto simp: looked_iff)
  next
    case (2 mode s1)
    then obtain r' where "temp_set_mode fs t (mode AND NEW_FILE_MODE) s = (s', r')" "r = map_err io_err r'"
      by (auto simp: looked_iff acted_iff)
    from temp_set_mode [OF this(1)] this(2) show ?thesis by (auto simp: Missing ac_simps)
  qed
qed

lemma write_temp_tree:
  assumes "write_and_sync_cap fs t b s = (s', r)"
  shows "tree s' = tree s \<and> (r = Ok () \<longrightarrow> temp_content s' t = temp_content s t @ b \<and> temp_perm s' t = temp_perm s t)"
proof -
  from assms have "and_then (acted io_err (temp_write fs t b)) (\<lambda>_. acted io_err (temp_sync fs t)) s = (s', r)"
    by (simp add: write_and_sync_cap_def)
  then show ?thesis
  proof (cases rule: and_then_cases)
    case (1 e)
    then obtain w where "temp_write fs t b s = (s', w)" by (auto simp: acted_iff)
    from temp_write [OF this] show ?thesis by (auto simp: 1(2))
  next
    case (2 u s1)
    then obtain y where "temp_write fs t b s = (s1, Ok ())" "temp_sync fs t s1 = (s', y)" by (auto simp: acted_iff)
    with temp_write temp_sync show ?thesis by metis
  qed
qed

lemma place_temp_tree:
  assumes "and_then (set_replace_mode fs t target) (\<lambda>_. and_then (write_and_sync_cap fs t content)
      (\<lambda>_. acted classify_create_io_error (temp_replace fs t n))) s = (s', r)"
    and "temp_content s t = []"
    and "case target of Existing m \<Rightarrow> \<exists>c. tree s (temp_at t @ [n]) = Some (NFile m c) | Missing \<Rightarrow> tree s (temp_at t @ [n]) = None"
  shows "case r of Err _ \<Rightarrow> tree s' = tree s
    | Ok _ \<Rightarrow> \<exists>x. tree s' = (tree s)(temp_at t @ [n] := x) \<and> replaced (tree s) (temp_at t @ [n]) content x"
  using assms(1)
proof (cases rule: and_then_cases)
  case (1 e)
  then show ?thesis using set_replace_mode_tree by (simp add: 1(2))
next
  case (2 u s1)
  from set_replace_mode_tree [OF 2(1)] assms(2) have s1: "tree s1 = tree s" "temp_content s1 t = []"
    "case target of Existing m \<Rightarrow> temp_perm s1 t = m | Missing \<Rightarrow> temp_perm s1 t AND NEW_FILE_MODE = temp_perm s1 t"
    by simp_all
  from 2(2) show ?thesis
  proof (cases rule: and_then_cases)
    case (1 e)
    then show ?thesis using write_temp_tree [OF 1(1)] s1(1) by simp
  next
    case (2 u s2)
    from write_temp_tree [OF 2(1)] s1 have s2: "tree s2 = tree s" "temp_content s2 t = content"
      "temp_perm s2 t = temp_perm s1 t" by simp_all
    from 2(2) obtain r' where put: "temp_replace fs t n s2 = (s', r')" "r = map_err classify_create_io_error r'"
      by (auto simp: acted_iff)
    show ?thesis
    proof (cases r')
      case (Inl e)
      then show ?thesis using temp_replace [OF put(1)] put(2) s2(1) by (simp add: map_err_def)
    next
      case (Inr v)
      have "replaced (tree s) (temp_at t @ [n]) content (Some (NFile (temp_perm s2 t) content))"
        using s1(3) assms(3) s2(3) by (cases target) (auto simp: replaced_def)
      then show ?thesis using temp_replace [OF put(1)] put(2) s2 Inr by (auto simp: map_err_def)
    qed
  qed
qed

lemma atomic_replace_tree:
  assumes "atomic_replace fs d n content s = (s', r)"
  defines "loc \<equiv> dir_at d @ [n]"
  shows "(\<forall>p. p \<noteq> loc \<longrightarrow> tree s' p = tree s p) \<and>
    (case r of Ok _ \<Rightarrow> replaced (tree s) loc content (tree s' loc)
     | Err _ \<Rightarrow> tree s' loc = tree s loc \<or> replaced (tree s) loc content (tree s' loc))"
proof (cases "validate_replace_target fs d n s")
  case (Inl e)
  then show ?thesis using assms(1) by (auto simp: atomic_replace_def and_then_def)
next
  case (Inr target)
  note target = validate_target [OF Inr, folded loc_def]
  have "and_then (acted classify_create_io_error (temp_new fs d)) (\<lambda>temp.
      and_then (or_drop fs temp (and_then (set_replace_mode fs temp target) (\<lambda>_.
        and_then (write_and_sync_cap fs temp content) (\<lambda>_. acted classify_create_io_error (temp_replace fs temp n)))))
        (\<lambda>_. fsync_dir fs d)) s = (s', r)"
    using assms(1) unfolding atomic_replace_def by (rule and_then_cases) (simp_all add: Inr)
  then show ?thesis
  proof (cases rule: and_then_cases)
    case (1 e)
    then obtain e' where "temp_new fs d s = (s', Err e')" by (auto simp: acted_iff)
    from temp_new [OF this] show ?thesis by (simp add: 1(2))
  next
    case (2 t s1)
    then have "temp_new fs d s = (s1, Ok t)" by (auto simp: acted_iff)
    from temp_new [OF this] have t: "tree s1 = tree s" "temp_at t = dir_at d" "temp_content s1 t = []" by simp_all
    let ?put = "and_then (set_replace_mode fs t target) (\<lambda>_.
        and_then (write_and_sync_cap fs t content) (\<lambda>_. acted classify_create_io_error (temp_replace fs t n)))"
    obtain s2 q where put: "?put s1 = (s2, q)" by force
    have q: "case q of Err _ \<Rightarrow> tree s2 = tree s
        | Ok _ \<Rightarrow> \<exists>x. tree s2 = (tree s)(loc := x) \<and> replaced (tree s) loc content x"
      using place_temp_tree [OF put t(3)] target unfolding t loc_def by simp
    from 2(2) show ?thesis
    proof (cases rule: and_then_cases)
      case (1 e)
      then have "tree s' = tree s" using put q temp_drop by (auto simp: or_drop_def split: sum.splits)
      then show ?thesis by (simp add: 1(2))
    next
      case (2 u s3)
      then have "s3 = s2" "\<exists>v. q = Ok v" using put by (auto simp: or_drop_def split: sum.splits)
      moreover have "tree s' = tree s3" using 2(2) by (rule fsync_dir_tree)
      ultimately show ?thesis using q by (auto split: sum.splits)
    qed
  qed
qed

end

end
