(* ===== verification/Sandbox_Memory.thy ===== *)
theory Sandbox_Memory
  imports Sandbox_Laws
begin

unbundle bit_operations_syntax

text \<open>
  A file system in memory that keeps the laws of the sandbox, and the properties of the sandbox
  with their runs on it.
\<close>

subsection \<open>Operations under the laws\<close>

text \<open>Nothing changed but the entry at the end of the way and directories made on it.\<close>

definition stays_on_way :: "fs_tree \<Rightarrow> fs_tree \<Rightarrow> string list \<Rightarrow> string list \<Rightarrow> bool" where
  "stays_on_way t t' base way =
     (\<forall>p. t' p = t p \<or> p = base @ way \<or>
        t p = None \<and> t' p = Some NDir \<and> (\<exists>k. 0 < k \<and> k < length way \<and> p = base @ take k way))"

lemma stays_on_wayI:
  assumes "walked t t1 base dirs" "\<forall>p. p \<noteq> base @ dirs @ [n] \<longrightarrow> t' p = t1 p"
  shows "stays_on_way t t' base (dirs @ [n])"
  unfolding stays_on_way_def
proof
  fix p
  show "t' p = t p \<or> p = base @ dirs @ [n] \<or>
        t p = None \<and> t' p = Some NDir \<and> (\<exists>k. 0 < k \<and> k < length (dirs @ [n]) \<and> p = base @ take k (dirs @ [n]))"
  proof (cases "p = base @ dirs @ [n]")
    case False
    then have same: "t' p = t1 p" using assms(2) by blast
    from assms(1) consider "t1 p = t p" | k where "t p = None" "t1 p = Some NDir" "0 < k" "k \<le> length dirs" "p = base @ take k dirs"
      unfolding walked_def by blast
    then show ?thesis
    proof cases
      case (2 k)
      then show ?thesis using same by (intro disjI2 conjI exI [of _ k]) simp_all
    qed (simp add: same)
  qed simp
qed

lemma walked_unchanged_leaf: "walked t t1 base dirs \<Longrightarrow> t1 (base @ dirs @ [n]) = t (base @ dirs @ [n])"
  by (erule walked_dir) simp

context cap_fs_laws
begin

text \<open>The shape of an operation: walk to the parent, then an operation on the leaf there.\<close>

lemma at_leaf:
  assumes "and_then (done_with (normal_components relative)) (\<lambda>names.
      and_then (open_parent_dir fs root (butlast names)) (\<lambda>parent. leaf_op names parent)) s = (s', r)"
  obtains "tree s' = tree s" "\<exists>e. r = Err e"
  | anchor ns names e where "root = anchor @ map Normal ns" "relative = map Normal names" "names \<noteq> []"
      "walked (tree s) (tree s') (real_at s anchor) (ns @ butlast names)" "r = Err e"
  | anchor ns names parent s1 where "root = anchor @ map Normal ns" "relative = map Normal names" "names \<noteq> []"
      "walked (tree s) (tree s1) (real_at s anchor) (ns @ butlast names)"
      "all_dirs (tree s1) (real_at s anchor) (ns @ butlast names)"
      "dir_at parent = real_at s anchor @ ns @ butlast names" "leaf_op names parent s1 = (s', r)"
proof (cases "normal_components relative")
  case (Inl e)
  then have "and_then (done_with (normal_components relative)) (\<lambda>names.
      and_then (open_parent_dir fs root (butlast names)) (\<lambda>parent. leaf_op names parent)) s = (s, Err e)"
    by (simp add: and_then_def done_with_def)
  then show ?thesis using that(1) assms by simp
next
  case (Inr names)
  then have names: "relative = map Normal names" "names \<noteq> []" by (simp_all add: normal_components_Ok)
  have "and_then (open_parent_dir fs root (butlast names)) (leaf_op names) s = (s', r)"
    using assms by (rule and_then_cases) (simp_all add: done_with_def Inr)
  then show ?thesis
  proof (cases rule: and_then_cases)
    case (1 e)
    from parent_dir [OF 1(1)] show ?thesis using that(1, 2) names 1(2) by auto
  next
    case (2 parent s1)
    from parent_dir [OF 2(1)] show ?thesis using that(3) names 2(2) by auto
  qed
qed

lemma leaf_way:
  assumes "names \<noteq> []"
  shows "base @ ns @ names = (base @ ns @ butlast names) @ [last names]" "ns @ names = (ns @ butlast names) @ [last names]"
  using assms by simp_all

lemma write_outcome:
  assumes "atomic_write_no_follow fs root relative content overwrite s = (s', r)"
  shows "tree s' = tree s \<and> (\<exists>e. r = Err e) \<or>
    (\<exists>anchor ns names. root = anchor @ map Normal ns \<and> relative = map Normal names \<and>
       (let leaf = real_at s anchor @ ns @ names
        in stays_on_way (tree s) (tree s') (real_at s anchor) (ns @ names) \<and>
           (case r of
              Ok written \<Rightarrow>
                written = root @ relative \<and> all_dirs (tree s') (real_at s anchor) (ns @ butlast names) \<and>
                (overwrite \<or> tree s leaf = None) \<and> replaced (tree s) leaf content (tree s' leaf)
            | Err _ \<Rightarrow>
                tree s' leaf = tree s leaf \<or>
                (if overwrite then replaced (tree s) leaf content (tree s' leaf)
                 else tree s leaf = None \<and>
                   (\<exists>m c. tree s' leaf = Some (NFile m c) \<and> prefix c content)))))"
  using assms unfolding atomic_write_no_follow_def
proof (cases rule: at_leaf)
  case (2 anchor ns names e)
  have "stays_on_way (tree s) (tree s') (real_at s anchor) (ns @ names)"
    unfolding leaf_way(2) [OF 2(3)] by (rule stays_on_wayI [OF 2(4)]) simp
  moreover have "tree s' (real_at s anchor @ ns @ names) = tree s (real_at s anchor @ ns @ names)"
    using walked_unchanged_leaf [OF 2(4), of "last names"] 2(3) by simp
  ultimately show ?thesis using 2 by (auto simp: Let_def)
next
  case (3 anchor ns names parent s1)
  let ?base = "real_at s anchor" and ?leaf = "real_at s anchor @ ns @ names"
  have leaf: "dir_at parent @ [last names] = ?leaf" using 3(3, 6) by simp
  have same: "tree s1 ?leaf = tree s ?leaf" using walked_unchanged_leaf [OF 3(4), of "last names"] 3(3) by simp
  let ?store = "if overwrite then atomic_replace fs parent (last names) content else write_new_file fs parent (last names) content"
  obtain s2 q where q: "?store s1 = (s2, q)" by force
  have out: "s' = s2" "r = (case q of Err e \<Rightarrow> Err e | Ok _ \<Rightarrow> Ok (root @ relative))"
    using 3(7) q by (simp_all add: and_then_def done_with_def split: sum.splits)
  have rest: "\<forall>p. p \<noteq> ?leaf \<longrightarrow> tree s2 p = tree s1 p"
    and result: "case q of
         Ok _ \<Rightarrow> (overwrite \<or> tree s ?leaf = None) \<and> replaced (tree s) ?leaf content (tree s2 ?leaf)
       | Err _ \<Rightarrow> tree s2 ?leaf = tree s ?leaf \<or>
           (if overwrite then replaced (tree s) ?leaf content (tree s2 ?leaf)
            else tree s ?leaf = None \<and> (\<exists>m c. tree s2 ?leaf = Some (NFile m c) \<and> prefix c content))"
    using atomic_replace_tree [of parent "last names" content s1 s2 q] write_new_file_tree [of parent "last names" content s1 s2 q]
      q same unfolding leaf by (auto simp: replaced_def split: if_splits sum.splits)
  have "stays_on_way (tree s) (tree s2) ?base (ns @ names)"
    unfolding leaf_way(2) [OF 3(3)] by (rule stays_on_wayI [OF 3(4)]) (use rest leaf_way(1) [OF 3(3)] in simp)
  moreover have "all_dirs (tree s2) ?base (ns @ butlast names)"
  proof -
    have "?base @ take k (ns @ butlast names) \<noteq> ?leaf" for k
    proof
      assume "?base @ take k (ns @ butlast names) = ?leaf"
      then have "length (take k (ns @ butlast names)) = length (ns @ names)" by (metis same_append_eq)
      moreover have "length (take k (ns @ butlast names)) \<le> length (ns @ butlast names)" by (metis length_take min.cobounded1)
      moreover have "length (butlast names) < length names" using 3(3) by simp
      ultimately show False unfolding length_append by linarith
    qed
    then show ?thesis using 3(5) rest by (simp add: all_dirs_def)
  qed
  ultimately show ?thesis using result 3(1, 2) unfolding out
    by - (rule disjI2, rule exI [of _ anchor], rule exI [of _ ns], rule exI [of _ names], cases q, simp_all add: Let_def)
qed simp

lemma read_stays:
  assumes "read_no_follow fs root relative s = (s', r)"
  shows "tree s' = tree s \<or> (\<exists>anchor ns names. root = anchor @ map Normal ns \<and> relative = map Normal names \<and>
    stays_on_way (tree s) (tree s') (real_at s anchor) (ns @ names))"
proof -
  obtain q where q: "read_no_follow_with_mtime fs root relative s = (s', q)"
    using assms by (auto simp: read_no_follow_def and_then_def done_with_def split: prod.splits sum.splits)
  then show ?thesis unfolding read_no_follow_with_mtime_def
  proof (cases rule: at_leaf)
    case (2 anchor ns names e)
    have "stays_on_way (tree s) (tree s') (real_at s anchor) (ns @ names)"
      unfolding leaf_way(2) [OF 2(3)] by (rule stays_on_wayI [OF 2(4)]) simp
    then show ?thesis using 2 by auto
  next
    case (3 anchor ns names parent s1)
    then have "s' = s1" by (auto simp: and_then_def looked_def done_with_def split: sum.splits)
    moreover have "stays_on_way (tree s) (tree s1) (real_at s anchor) (ns @ names)"
      unfolding leaf_way(2) [OF 3(3)] by (rule stays_on_wayI [OF 3(4)]) simp
    ultimately show ?thesis using 3 by auto
  qed simp
qed

lemma delete_stays:
  assumes "delete_no_follow fs root relative s = (s', r)"
  shows "tree s' = tree s \<or> (\<exists>anchor ns names. root = anchor @ map Normal ns \<and> relative = map Normal names \<and>
    stays_on_way (tree s) (tree s') (real_at s anchor) (ns @ names))"
  using assms unfolding delete_no_follow_def
proof (cases rule: at_leaf)
  case (2 anchor ns names e)
  have "stays_on_way (tree s) (tree s') (real_at s anchor) (ns @ names)"
    unfolding leaf_way(2) [OF 2(3)] by (rule stays_on_wayI [OF 2(4)]) simp
  then show ?thesis using 2 by auto
next
  case (3 anchor ns names parent s1)
  have leaf: "dir_at parent @ [last names] = real_at s anchor @ ns @ names" using 3(3, 6) by simp
  have "tree s' = tree s1 \<or> (\<exists>q. remove_file fs parent (last names) s1 = (s', q))"
    using 3(7) by (auto simp: and_then_def looked_def done_with_def acted_def map_err_def split: sum.splits if_splits prod.splits)
  moreover have "\<forall>p. p \<noteq> real_at s anchor @ ns @ names \<longrightarrow> tree s' p = tree s1 p"
    if "remove_file fs parent (last names) s1 = (s', q)" for q
    using remove [OF that] unfolding leaf by (auto split: sum.splits)
  ultimately have "\<forall>p. p \<noteq> real_at s anchor @ ns @ names \<longrightarrow> tree s' p = tree s1 p" by metis
  then have "stays_on_way (tree s) (tree s') (real_at s anchor) (ns @ names)"
    unfolding leaf_way(2) [OF 3(3)] using leaf_way(1) [OF 3(3)] by (intro stays_on_wayI [OF 3(4)]) simp
  then show ?thesis using 3 by auto
qed simp

lemma write_stays:
  assumes "atomic_write_no_follow fs root relative content overwrite s = (s', r)"
  shows "tree s' = tree s \<or> (\<exists>anchor ns names. root = anchor @ map Normal ns \<and> relative = map Normal names \<and>
    stays_on_way (tree s) (tree s') (real_at s anchor) (ns @ names))"
  using write_outcome [OF assms] unfolding Let_def by blast

lemma confined:
  assumes "s' \<in> {fst (atomic_write_no_follow fs root relative content overwrite s),
               fst (read_no_follow fs root relative s), fst (delete_no_follow fs root relative s)}"
  shows "tree s' = tree s \<or> (\<exists>anchor ns names. root = anchor @ map Normal ns \<and> relative = map Normal names \<and>
    stays_on_way (tree s) (tree s') (real_at s anchor) (ns @ names))"
  using assms write_stays read_stays delete_stays by (metis empty_iff insert_iff prod.collapse)

end

subsection \<open>A file system in memory\<close>

text \<open>
  One temporary file at a time is enough. The disk may be full: then a write keeps only the bytes
  that fit and fails. New entries get the mode that is asked for, temporary files 0600.
\<close>

record mem_fs =
  entries :: fs_tree
  temp_state :: "nat \<times> string"
  room :: "nat option"

definition names_of :: "path \<Rightarrow> string list" where
  "names_of p = concat (map (\<lambda>c. case c of Normal n \<Rightarrow> [n] | _ \<Rightarrow> []) p)"

definition mem_error :: "io_error_kind \<Rightarrow> io_error" where
  "mem_error k = \<lparr>raw_os_error = (if k = KOther then Some EOTHER else None), error_kind = k, error_text = []\<rparr>"

definition mem_meta :: "string list \<Rightarrow> mem_fs \<Rightarrow> (io_error, file_meta) result" where
  "mem_meta p s =
     (case entries s p of
        None \<Rightarrow> Err (mem_error KNotFound)
      | Some (NFile m _) \<Rightarrow> if m AND 511 = m then Ok \<lparr>meta_kind = FkFile, meta_mode = m\<rparr> else Err (mem_error KOther)
      | Some x \<Rightarrow> Ok \<lparr>meta_kind = node_kind x, meta_mode = 493\<rparr>)"

definition mem_put :: "string list \<Rightarrow> fs_node option \<Rightarrow> mem_fs \<Rightarrow> mem_fs" where
  "mem_put p x s = s\<lparr>entries := (entries s)(p := x)\<rparr>"

definition mem_dir :: "string list \<Rightarrow> mem_fs \<Rightarrow> (io_error, string list) result" where
  "mem_dir p s = (if entries s p = Some NDir then Ok p else Err (mem_error (if entries s p = None then KNotFound else KOther)))"

definition fitting :: "mem_fs \<Rightarrow> string \<Rightarrow> string" where
  "fitting s b = (case room s of None \<Rightarrow> b | Some n \<Rightarrow> take n b)"

definition mem_fs_ops :: "(mem_fs, string list, string list, string list) cap_fs" where
  "mem_fs_ops =
     \<lparr>ambient_symlink_metadata = (\<lambda>p. mem_meta (names_of p)),
      open_ambient_dir = (\<lambda>p. mem_dir (names_of p)),
      symlink_metadata = (\<lambda>d n. mem_meta (d @ [n])),
      open_dir = (\<lambda>d n. mem_dir (d @ [n])),
      create_dir = (\<lambda>d n s. if entries s (d @ [n]) = None then (mem_put (d @ [n]) (Some NDir) s, Ok ())
                            else (s, Err (mem_error KAlreadyExists))),
      open_file = (\<lambda>d n s. if entries s (d @ [n]) = None then Err (mem_error KNotFound) else Ok (d @ [n])),
      file_modified = (\<lambda>h s. Ok 0),
      file_is_file = (\<lambda>h s. Ok (case entries s h of Some (NFile _ _) \<Rightarrow> True | _ \<Rightarrow> False)),
      read_to_end = (\<lambda>h s. case entries s h of Some (NFile _ c) \<Rightarrow> Ok c | _ \<Rightarrow> Err (mem_error KOther)),
      create_new_file = (\<lambda>d n mode s. if entries s (d @ [n]) = None then (mem_put (d @ [n]) (Some (NFile mode [])) s, Ok (d @ [n]))
                                     else (s, Err (mem_error KAlreadyExists))),
      write_file = (\<lambda>h b s. case entries s h of
                       Some (NFile m c) \<Rightarrow> (mem_put h (Some (NFile m (c @ fitting s b))) s,
                          if fitting s b = b then Ok () else Err (mem_error KOther))
                     | _ \<Rightarrow> (s, Err (mem_error KOther))),
      sync_file = (\<lambda>h s. (s, Ok ())),
      remove_file = (\<lambda>d n s. case entries s (d @ [n]) of
                        Some (NFile _ _) \<Rightarrow> (mem_put (d @ [n]) None s, Ok ())
                      | _ \<Rightarrow> (s, Err (mem_error KOther))),
      sync_dir = (\<lambda>d s. (s, Ok ())),
      temp_new = (\<lambda>d s. (s\<lparr>temp_state := (384, [])\<rparr>, Ok d)),
      temp_mode = (\<lambda>t s. Ok (fst (temp_state s))),
      temp_set_mode = (\<lambda>t m s. (s\<lparr>temp_state := (m, snd (temp_state s))\<rparr>, Ok ())),
      temp_write = (\<lambda>t b s. (s\<lparr>temp_state := (fst (temp_state s), snd (temp_state s) @ fitting s b)\<rparr>,
                           if fitting s b = b then Ok () else Err (mem_error KOther))),
      temp_sync = (\<lambda>t s. (s, Ok ())),
      temp_replace = (\<lambda>t n s. (mem_put (t @ [n]) (Some (NFile (fst (temp_state s)) (snd (temp_state s)))) s, Ok ())),
      temp_drop = (\<lambda>t s. s\<lparr>temp_state := (0, [])\<rparr>)\<rparr>"

interpretation mem: cap_fs_laws mem_fs_ops entries "\<lambda>_. names_of" "\<lambda>d. d" "\<lambda>h. h" "\<lambda>t. t"
  "\<lambda>s _. fst (temp_state s)" "\<lambda>s _. snd (temp_state s)"
proof (unfold_locales, goal_cases)
  case (1 d n s meta)
  then show ?case
    by (auto simp: mem_fs_ops_def mem_meta_def split: option.splits fs_node.splits if_splits)
next
  case (2 d n s e)
  then show ?case
    by (auto simp: mem_fs_ops_def mem_meta_def mem_error_def split: option.splits fs_node.splits if_splits)
next
  case (3 p s d)
  then show ?case by (auto simp: mem_fs_ops_def mem_dir_def split: if_splits)
next
  case (4 d n s d')
  then show ?case by (auto simp: mem_fs_ops_def mem_dir_def split: if_splits)
next
  case (5 d n s s' r)
  then show ?case by (auto simp: mem_fs_ops_def mem_put_def split: if_splits)
next
  case (6 d n s h)
  then show ?case by (auto simp: mem_fs_ops_def split: if_splits)
next
  case (7 h s b mode c)
  then show ?case by (auto simp: mem_fs_ops_def)
next
  case (8 d n mode s s' rh)
  then show ?case by (auto simp: mem_fs_ops_def mem_put_def intro!: exI [of _ mode] split: if_splits)
next
  case (9 h b s s' r m)
  then show ?case
    by (auto simp: mem_fs_ops_def mem_put_def fitting_def take_is_prefix split: if_splits option.splits)
next
  case (12 d n s s' r)
  then show ?case by (auto simp: mem_fs_ops_def mem_put_def split: option.splits fs_node.splits)
next
  case (15 t b s s' r)
  then show ?case by (auto simp: mem_fs_ops_def split: if_splits)
qed (auto simp: mem_fs_ops_def mem_put_def)

subsection \<open>Properties\<close>

text \<open>
  C32. Writing, reading and deleting a page never change anything outside the way from the deepest existing
  ancestor of the corpus root to the page: the page itself, and directories made where there was nothing. An entry
  that is a symbolic link, a file or a directory elsewhere is never touched.
\<close>
theorem sandbox_confined:
  assumes "cap_fs_laws fs tree real_at dir_at file_at temp_at temp_perm temp_content"
    and "s' \<in> {fst (atomic_write_no_follow fs root relative content overwrite s),
               fst (read_no_follow fs root relative s), fst (delete_no_follow fs root relative s)}"
  shows "tree s' = tree s \<or>
     (\<exists>anchor ns names. root = anchor @ map Normal ns \<and> relative = map Normal names \<and>
        stays_on_way (tree s) (tree s') (real_at s anchor) (ns @ names))"
  using assms by (rule cap_fs_laws.confined)

text \<open>A disk with a corpus, beside it a file, and in the corpus a link.\<close>

definition sample_entries :: "(string list \<times> fs_node) list" where
  "sample_entries = [([], NDir), ([''wiki''], NDir), ([''secret''], NFile 384 ''key''), ([''wiki'', ''out''], NSymlink)]"

definition sample_disk :: "nat option \<Rightarrow> mem_fs" where
  "sample_disk n = \<lparr>entries = map_of sample_entries, temp_state = (0, []), room = n\<rparr>"

definition sample_root :: path where
  "sample_root = [RootDir, Normal ''wiki'']"

definition sample_page :: path where
  "sample_page = [Normal ''a'', Normal ''b.md'']"

lemma sandbox_confined_witness:
  "\<exists>anchor ns names. sample_root = anchor @ map Normal ns \<and> sample_page = map Normal names \<and>
     stays_on_way (entries (sample_disk None))
       (entries (fst (atomic_write_no_follow mem_fs_ops sample_root sample_page ''hi'' True (sample_disk None))))
       (names_of anchor) (ns @ names)"
proof -
  let ?s' = "fst (atomic_write_no_follow mem_fs_ops sample_root sample_page ''hi'' True (sample_disk None))"
  have "entries ?s' [''wiki'', ''a'', ''b.md''] = Some (NFile 384 ''hi'')" by code_simp
  moreover have "entries (sample_disk None) [''wiki'', ''a'', ''b.md''] = None" by code_simp
  ultimately have "entries ?s' \<noteq> entries (sample_disk None)" by auto
  then show ?thesis
    using sandbox_confined [OF mem.cap_fs_laws_axioms, of ?s' sample_root sample_page "''hi''" True "sample_disk None"]
    by simp
qed

text \<open>
  C33. A write that returns leaves exactly the content under the page's name, with every step of the way a
  directory; a new page keeps to mode 0644 and a replaced one keeps its mode; without \<open>overwrite\<close> there was
  nothing before. A write that fails changes nothing at the page's name, but for two cases: a replacement may be in
  place in whole when the directory could not be synced, and a new page may be left with a part of its content.
\<close>
theorem atomic_write_outcome:
  assumes "cap_fs_laws fs tree real_at dir_at file_at temp_at temp_perm temp_content"
    and "atomic_write_no_follow fs root relative content overwrite s = (s', r)"
  shows "tree s' = tree s \<and> (\<exists>e. r = Err e) \<or>
    (\<exists>anchor ns names. root = anchor @ map Normal ns \<and> relative = map Normal names \<and>
       (let leaf = real_at s anchor @ ns @ names
        in stays_on_way (tree s) (tree s') (real_at s anchor) (ns @ names) \<and>
           (case r of
              Ok written \<Rightarrow>
                written = root @ relative \<and> all_dirs (tree s') (real_at s anchor) (ns @ butlast names) \<and>
                (overwrite \<or> tree s leaf = None) \<and> replaced (tree s) leaf content (tree s' leaf)
            | Err _ \<Rightarrow>
                tree s' leaf = tree s leaf \<or>
                (if overwrite then replaced (tree s) leaf content (tree s' leaf)
                 else tree s leaf = None \<and>
                   (\<exists>m c. tree s' leaf = Some (NFile m c) \<and> prefix c content)))))"
  using assms by (rule cap_fs_laws.write_outcome)

text \<open>The last case happens: on a full disk a new page is left with the bytes that fitted.\<close>

lemma full_disk_leaves_part:
  "case atomic_write_no_follow mem_fs_ops sample_root sample_page ''hi'' False (sample_disk (Some 1)) of (s', r) \<Rightarrow>
     r = Err (io_err (mem_error KOther)) \<and> entries s' [''wiki'', ''a'', ''b.md''] = Some (NFile 420 ''h'')"
  by code_simp

lemma atomic_write_outcome_witness:
  "\<exists>anchor ns names. sample_root = anchor @ map Normal ns \<and> sample_page = map Normal names \<and>
     (let leaf = names_of anchor @ ns @ names;
          s' = fst (atomic_write_no_follow mem_fs_ops sample_root sample_page ''hi'' True (sample_disk None))
      in all_dirs (entries s') (names_of anchor) (ns @ butlast names) \<and>
         replaced (entries (sample_disk None)) leaf ''hi'' (entries s' leaf))"
proof -
  obtain s' r where run: "atomic_write_no_follow mem_fs_ops sample_root sample_page ''hi'' True (sample_disk None) = (s', r)"
    by force
  have "snd (atomic_write_no_follow mem_fs_ops sample_root sample_page ''hi'' True (sample_disk None)) = Ok (sample_root @ sample_page)"
    by code_simp
  then have r: "r = Ok (sample_root @ sample_page)" by (simp add: run)
  from atomic_write_outcome [OF mem.cap_fs_laws_axioms run] show ?thesis
    unfolding run r Let_def fst_conv by auto
qed

end
