(* ===== verification/Derived_Text.thy ===== *)
theory Derived_Text
  imports Markdown_Events Common "HOL-Library.Multiset"
begin

text \<open>
  Texts derived from a page: the snippet of a chunk (\<open>corpus/snippet.rs\<close>), the keywords of a page
  (\<open>corpus/keywords.rs\<close>), its summary (\<open>corpus/summary.rs\<close>) and the terms of a query
  (\<open>search/terms.rs\<close>). The Markdown parser, the Unicode word segmentation, lower-casing and the
  list of stop words are arguments.
\<close>

subsection \<open>Words between white space\<close>

text \<open>\<open>s.split_whitespace()\<close>.\<close>

lemma trim_start_le: "length (trim_start s) \<le> length s"
  using trim_start_suffix [of s] by (metis le_add2 length_append)

lemma trim_start_width [simp]: "ws_width (trim_start s) = 0"
  by (induction s rule: trim_start.induct) (subst trim_start.simps, simp)

function split_whitespace :: "string \<Rightarrow> string list" where
  "split_whitespace s =
     (let t = trim_start s
      in if t = [] then []
         else case find_ws t of
                None \<Rightarrow> [t]
              | Some i \<Rightarrow> take i t # split_whitespace (drop i t))"
  by pat_completeness auto

termination
proof (relation "measure length")
  show "(drop i t, s) \<in> measure length"
    if "t = trim_start s" "t \<noteq> []" "find_ws t = Some i" for s t i
  proof -
    have "0 < i" using find_ws_pos [OF that(3)] that(1) by simp
    then show ?thesis using that trim_start_le [of s] by (simp add: less_le_trans [OF diff_less])
  qed
qed simp

declare split_whitespace.simps [simp del]

subsection \<open>Snippets\<close>

definition SNIPPET_CAP :: nat where
  "SNIPPET_CAP = 240"

fun snippet_from :: "string list \<Rightarrow> string \<Rightarrow> nat \<Rightarrow> string" where
  "snippet_from [] out chars_so_far = out"
| "snippet_from (word # ws) out chars_so_far =
     (let word_chars = char_count word;
          space_chars = (if out = [] then 0 else 1);
          needed = chars_so_far + space_chars + word_chars
      in if SNIPPET_CAP < needed then (if out = [] then take_chars SNIPPET_CAP word else out)
         else snippet_from ws (out @ (if 0 < space_chars then '' '' else []) @ word) needed)"

definition make_snippet :: "string \<Rightarrow> string" where
  "make_snippet text = snippet_from (split_whitespace text) [] 0"

subsection \<open>Keywords and terms\<close>

definition TOP_K :: nat where
  "TOP_K = 8"

definition MIN_LEN :: nat where
  "MIN_LEN = 2"

text \<open>The word library and the language data.\<close>

record word_env =
  unicode_words :: "string \<Rightarrow> string list"
  to_lowercase :: "string \<Rightarrow> string"
  stopwords :: "string \<Rightarrow> bool"

definition normalized_words :: "word_env \<Rightarrow> string \<Rightarrow> string list" where
  "normalized_words env text =
     filter (\<lambda>w. MIN_LEN \<le> char_count w \<and> \<not> stopwords env w) (map (to_lowercase env) (unicode_words env text))"

fun tokenize_events :: "word_env \<Rightarrow> bool \<Rightarrow> md_stream \<Rightarrow> string list" where
  "tokenize_events env in_code_block [] = []"
| "tokenize_events env in_code_block ((ev, r) # es) =
     (case ev of
        Start (CodeBlock _) \<Rightarrow> tokenize_events env True es
      | End EndCodeBlock \<Rightarrow> tokenize_events env False es
      | TextEvent t \<Rightarrow> (if in_code_block then [] else normalized_words env t) @ tokenize_events env in_code_block es
      | CodeSpan t \<Rightarrow> normalized_words env t @ tokenize_events env in_code_block es
      | _ \<Rightarrow> tokenize_events env in_code_block es)"

definition tokenize_prose :: "word_env \<Rightarrow> md_parser \<Rightarrow> string \<Rightarrow> string list" where
  "tokenize_prose env parser text = tokenize_events env False (parser text)"

text \<open>
  The count and the first position of each token. The hash map is the list of its entries in the
  order it iterates, which \<open>shuffle\<close> decides. The count is a \<open>u32\<close> in the code: the model leaves out
  pages with 2^32 occurrences of one token.
\<close>

fun count_token :: "(string \<times> nat \<times> nat) list \<Rightarrow> nat \<times> string \<Rightarrow> (string \<times> nat \<times> nat) list" where
  "count_token [] (i, tok) = [(tok, 1, i)]"
| "count_token ((t, c, p) # es) (i, tok) =
     (if t = tok then (t, c + 1, p) # es else (t, c, p) # count_token es (i, tok))"

text \<open>\<open>sort_by\<close> of the standard library, a stable sort, by how often a token occurs and then where it first occurs.\<close>

definition rank_le :: "string \<times> nat \<times> nat \<Rightarrow> string \<times> nat \<times> nat \<Rightarrow> bool" where
  "rank_le a b = (fst (snd b) < fst (snd a) \<or> fst (snd a) = fst (snd b) \<and> snd (snd a) \<le> snd (snd b))"

fun insert_by :: "('a \<Rightarrow> 'a \<Rightarrow> bool) \<Rightarrow> 'a \<Rightarrow> 'a list \<Rightarrow> 'a list" where
  "insert_by le x [] = [x]"
| "insert_by le x (y # ys) = (if le x y then x # y # ys else y # insert_by le x ys)"

definition sort_by :: "('a \<Rightarrow> 'a \<Rightarrow> bool) \<Rightarrow> 'a list \<Rightarrow> 'a list" where
  "sort_by le xs = foldr (insert_by le) xs []"

definition rank_top ::
  "((string \<times> nat \<times> nat) list \<Rightarrow> (string \<times> nat \<times> nat) list) \<Rightarrow> string list \<Rightarrow> string list" where
  "rank_top shuffle tokens =
     map fst (take TOP_K (sort_by rank_le (shuffle (foldl count_token [] (enumerate 0 tokens)))))"

definition extract_keywords ::
  "word_env \<Rightarrow> md_parser \<Rightarrow> ((string \<times> nat \<times> nat) list \<Rightarrow> (string \<times> nat \<times> nat) list) \<Rightarrow> string \<Rightarrow> string list" where
  "extract_keywords env parser shuffle text = rank_top shuffle (tokenize_prose env parser text)"

definition split_terms :: "word_env \<Rightarrow> string \<Rightarrow> string list" where
  "split_terms env query = push_new [] (normalized_words env query)"

subsection \<open>Summaries\<close>

definition SUMMARY_CAP :: nat where
  "SUMMARY_CAP = 280"

fun collect_until_end_paragraph :: "string \<Rightarrow> md_stream \<Rightarrow> string \<times> md_stream" where
  "collect_until_end_paragraph buf [] = (join_str '' '' (split_whitespace buf), [])"
| "collect_until_end_paragraph buf ((ev, r) # es) =
     (case ev of
        End EndParagraph \<Rightarrow> (join_str '' '' (split_whitespace buf), es)
      | TextEvent t \<Rightarrow> collect_until_end_paragraph (buf @ t) es
      | CodeSpan t \<Rightarrow> collect_until_end_paragraph (buf @ t) es
      | SoftBreak \<Rightarrow> collect_until_end_paragraph (buf @ '' '') es
      | HardBreak \<Rightarrow> collect_until_end_paragraph (buf @ '' '') es
      | _ \<Rightarrow> collect_until_end_paragraph buf es)"

lemma collect_until_end_paragraph_length:
  "collect_until_end_paragraph buf es = (p, es') \<Longrightarrow> length es' \<le> length es"
  by (induction buf es arbitrary: p es' rule: collect_until_end_paragraph.induct)
     (fastforce split: md_event.splits md_tag_end.splits)+

text \<open>The walk returns at the first paragraph after the title.\<close>

function summary_walk :: "string option \<Rightarrow> string option \<Rightarrow> md_stream \<Rightarrow> string option \<times> string option" where
  "summary_walk title before [] = (title, if title = None then before else None)"
| "summary_walk title before ((ev, r) # es) =
     (if ev = Start (Heading H1) \<and> title = None then
        (case collect_heading_text es of (t, es') \<Rightarrow> summary_walk (Some t) before es')
      else if ev = Start Paragraph then
        (case collect_until_end_paragraph [] es of
           (p, es') \<Rightarrow>
             if title \<noteq> None then (title, Some p)
             else summary_walk title (if before = None then Some p else before) es')
      else summary_walk title before es)"
  by pat_completeness auto
termination
  by (relation "measure (\<lambda>(_, _, es). length es)")
     (auto dest: collect_heading_text_shorter collect_until_end_paragraph_length [OF sym] simp: less_Suc_eq_le)

definition extract_summary :: "md_parser \<Rightarrow> string \<Rightarrow> string \<Rightarrow> string" where
  "extract_summary parser text fallback_filename =
     (case summary_walk None None (parser text) of
        (title, paragraph) \<Rightarrow>
          (let title = (case title of None \<Rightarrow> fallback_filename | Some t \<Rightarrow> t)
           in take_chars SUMMARY_CAP
                (case paragraph of
                   None \<Rightarrow> title
                 | Some p \<Rightarrow> title @ [CHR 0x20, CHR 0xE2, CHR 0x80, CHR 0x94, CHR 0x20] @ p)))"

subsection \<open>Words of a joined text\<close>

lemma ws_width_take: "ws_width s = 0 \<Longrightarrow> ws_width (take n s) = 0"
  by (cases s rule: ws_width.cases; cases n; cases "n - 1"; cases "n - 2") (auto split: if_splits)

lemma find_ws_take: "find_ws t = Some i \<Longrightarrow> find_ws (take i t) = None"
proof (induction t arbitrary: i)
  case (Cons c t)
  show ?case
  proof (cases "ws_width (c # t) = 0")
    case True
    with Cons.prems obtain j where "i = Suc j" "find_ws t = Some j" by auto
    then show ?thesis using Cons.IH ws_width_take [OF True, of "Suc j"] by simp
  qed (use Cons.prems in simp)
qed simp

lemma split_whitespace_Nil: "split_whitespace [] = []"
  by (subst split_whitespace.simps) (simp add: trim_start.simps [of "[]"])

definition word_ok :: "string \<Rightarrow> bool" where
  "word_ok w = (w \<noteq> [] \<and> find_ws w = None)"

lemma split_whitespace_words: "\<forall>w \<in> set (split_whitespace s). word_ok w"
proof (induction s rule: split_whitespace.induct)
  case (1 s)
  show ?case
  proof (cases "find_ws (trim_start s)")
    case None
    then show ?thesis by (subst split_whitespace.simps) (simp add: word_ok_def Let_def)
  next
    case (Some i)
    have "0 < i" using find_ws_pos [OF Some] by simp
    then show ?thesis using 1 [OF refl _ Some] Some find_ws_take [OF Some]
      by (subst split_whitespace.simps) (auto simp: word_ok_def Let_def)
  qed
qed

lemma split_whitespace_word:
  assumes "word_ok w"
  shows "split_whitespace w = [w]" "split_whitespace (w @ CHR 0x20 # t) = w # split_whitespace t"
proof -
  have w: "w \<noteq> []" "find_ws w = None" "ws_width w = 0"
    using assms find_ws_None_width by (auto simp: word_ok_def)
  then have "trim_start w = w" by (subst trim_start.simps) simp
  then show "split_whitespace w = [w]" using w by (subst split_whitespace.simps) simp
  have "ws_width (w @ CHR 0x20 # t) = 0" using w ws_width_before_space by (cases w) auto
  then have "trim_start (w @ CHR 0x20 # t) = w @ CHR 0x20 # t" by (subst trim_start.simps) simp
  moreover have "split_whitespace (CHR 0x20 # t) = split_whitespace t"
  proof -
    have "ws_width (CHR 0x20 # t) = 1" by (cases t; cases "tl t") (auto simp: ascii_ws_def)
    then have "trim_start (CHR 0x20 # t) = trim_start t" by (subst trim_start.simps) simp
    then show ?thesis by (subst (1 2) split_whitespace.simps) simp
  qed
  ultimately show "split_whitespace (w @ CHR 0x20 # t) = w # split_whitespace t"
    using w find_ws_before_space [OF w(2)] by (subst split_whitespace.simps) simp
qed

lemma split_whitespace_join:
  "\<forall>w \<in> set ws. word_ok w \<Longrightarrow> split_whitespace (join_str '' '' ws) = ws"
by (induction "'' ''" ws rule: join_str.induct) (simp_all add: split_whitespace_word split_whitespace_Nil)

subsection \<open>The snippet\<close>

lemma join_snoc: "join_str d (ws @ [w]) = (if ws = [] then w else join_str d ws @ d @ w)"
proof (induction d ws rule: join_str.induct)
  case (3 d x y ys)
  then show ?case by simp
qed auto

lemma join_words_nonempty: "\<forall>w \<in> set ws. word_ok w \<Longrightarrow> join_str '' '' ws = [] \<longleftrightarrow> ws = []"
  by (cases ws rule: rev_cases) (auto simp: join_snoc word_ok_def)

text \<open>From a prefix of the words that fits, the loop goes on to the longest one.\<close>

lemma snippet_from_words:
  assumes "\<forall>w \<in> set (ws @ vs). word_ok w" "ws \<noteq> []" "char_count (join_str '' '' ws) \<le> SNIPPET_CAP"
  shows "\<exists>n \<le> length vs. snippet_from vs (join_str '' '' ws) (char_count (join_str '' '' ws)) = join_str '' '' (ws @ take n vs) \<and>
    char_count (join_str '' '' (ws @ take n vs)) \<le> SNIPPET_CAP \<and>
    (n < length vs \<longrightarrow> SNIPPET_CAP < char_count (join_str '' '' (ws @ take (Suc n) vs)))"
  using assms
proof (induction vs arbitrary: ws)
  case (Cons v vs)
  have out: "join_str '' '' ws \<noteq> []" using join_words_nonempty [of ws] Cons.prems by auto
  have joined: "join_str '' '' (ws @ [v]) = join_str '' '' ws @ '' '' @ v" using Cons.prems(2) by (simp add: join_snoc)
  have len: "char_count (join_str '' '' (ws @ [v])) = char_count (join_str '' '' ws) + 1 + char_count v"
    unfolding joined by (simp add: char_count_def is_continuation_def byte_def)
  show ?case
  proof (cases "SNIPPET_CAP < char_count (join_str '' '' (ws @ [v]))")
    case True
    then show ?thesis using Cons.prems(3) len out by (intro exI [of _ 0]) simp
  next
    case False
    then have "snippet_from (v # vs) (join_str '' '' ws) (char_count (join_str '' '' ws)) =
        snippet_from vs (join_str '' '' (ws @ [v])) (char_count (join_str '' '' (ws @ [v])))"
      using len out joined by simp
    moreover from Cons.IH [of "ws @ [v]"] Cons.prems False obtain n where "n \<le> length vs"
      "snippet_from vs (join_str '' '' (ws @ [v])) (char_count (join_str '' '' (ws @ [v]))) = join_str '' '' ((ws @ [v]) @ take n vs)"
      "char_count (join_str '' '' ((ws @ [v]) @ take n vs)) \<le> SNIPPET_CAP"
      "n < length vs \<longrightarrow> SNIPPET_CAP < char_count (join_str '' '' ((ws @ [v]) @ take (Suc n) vs))"
      by auto
    ultimately show ?thesis by (intro exI [of _ "Suc n"]) simp
  qed
qed (auto intro: exI [of _ 0])

lemma make_snippet_words:
  assumes "split_whitespace text = w # ws" "char_count w \<le> SNIPPET_CAP"
  shows "\<exists>n \<le> length ws. make_snippet text = join_str '' '' (w # take n ws) \<and>
    char_count (join_str '' '' (w # take n ws)) \<le> SNIPPET_CAP \<and>
    (n < length ws \<longrightarrow> SNIPPET_CAP < char_count (join_str '' '' (w # take (Suc n) ws)))"
proof -
  have "\<forall>v \<in> set ([w] @ ws). word_ok v" using split_whitespace_words [of "text"] assms(1) by simp
  from snippet_from_words [OF this] assms show ?thesis by (simp add: make_snippet_def)
qed

lemma take_chars_prefix: "\<exists>r. s = take_chars n s @ r"
  by (induction n s rule: take_chars.induct) auto

lemma find_ws_prefix: "find_ws (a @ b) = None \<Longrightarrow> find_ws a = None"
proof (induction a)
  case (Cons c a)
  then have "ws_width (c # a @ b) = 0" "find_ws (a @ b) = None" by (auto split: if_splits)
  moreover from this(1) have "ws_width (take (Suc (length a)) (c # a @ b)) = 0" by (intro ws_width_take)
  ultimately show ?case using Cons.IH by simp
qed simp

lemma take_chars_fits: "char_count s \<le> n \<Longrightarrow> take_chars n s = s"
  by (induction n s rule: take_chars.induct) (auto simp: char_count_def split: if_splits)

text \<open>
  A snippet is the longest prefix of the words of a text, one space between them, that has at most 240
  characters; of a first word that is longer it is the first 240 characters. A snippet of a snippet is itself.
\<close>
theorem make_snippet_longest:
  "char_count (make_snippet text) \<le> SNIPPET_CAP \<and> make_snippet (make_snippet text) = make_snippet text \<and>
   (case split_whitespace text of
      [] \<Rightarrow> make_snippet text = []
    | w # ws \<Rightarrow>
        if SNIPPET_CAP < char_count w then make_snippet text = take_chars SNIPPET_CAP w
        else \<exists>n \<le> length ws. make_snippet text = join_str '' '' (w # take n ws) \<and>
               (n = length ws \<or> SNIPPET_CAP < char_count (join_str '' '' (w # take (Suc n) ws))))"
proof (cases "split_whitespace text")
  case Nil
  then show ?thesis by (simp add: split_whitespace_Nil make_snippet_def char_count_def)
next
  case (Cons w ws)
  have ok: "\<forall>v \<in> set (w # ws). word_ok v" using split_whitespace_words [of "text"] Cons by simp
  show ?thesis
  proof (cases "SNIPPET_CAP < char_count w")
    case True
    let ?cut = "take_chars SNIPPET_CAP w"
    have cut: "make_snippet text = ?cut" using True by (simp add: make_snippet_def Cons)
    obtain r where "w = ?cut @ r" using take_chars_prefix by blast
    then have "find_ws ?cut = None" using ok find_ws_prefix [of ?cut r] by (simp add: word_ok_def)
    moreover have le: "char_count ?cut \<le> SNIPPET_CAP" by (rule char_count_take_chars)
    ultimately have "make_snippet ?cut = ?cut"
      using split_whitespace_word(1) [of ?cut]
      by (cases "?cut = []") (simp_all add: make_snippet_def word_ok_def split_whitespace_Nil)
    then show ?thesis using cut le True by (simp add: Cons)
  next
    case False
    then obtain n where n: "n \<le> length ws" "make_snippet text = join_str '' '' (w # take n ws)"
      "char_count (join_str '' '' (w # take n ws)) \<le> SNIPPET_CAP"
      "n < length ws \<longrightarrow> SNIPPET_CAP < char_count (join_str '' '' (w # take (Suc n) ws))"
      using make_snippet_words [OF Cons] by auto
    let ?ws = "take n ws"
    have oks: "\<forall>v \<in> set (w # ?ws). word_ok v" using ok by (auto dest: in_set_takeD)
    have "split_whitespace (join_str '' '' (w # ?ws)) = w # ?ws" by (rule split_whitespace_join [OF oks])
    moreover obtain k where k: "k \<le> length ?ws" "make_snippet (join_str '' '' (w # ?ws)) = join_str '' '' (w # take k ?ws)"
      "k < length ?ws \<longrightarrow> SNIPPET_CAP < char_count (join_str '' '' (w # take (Suc k) ?ws))"
      using make_snippet_words [OF calculation] False by (metis not_less)
    moreover have "k = length ?ws"
    proof (rule ccontr)
      assume "k \<noteq> length ?ws"
      then have "k < length ?ws" using k(1) by (rule le_neq_implies_less [rotated])
      then have big: "SNIPPET_CAP < char_count (join_str '' '' (w # take (Suc k) ?ws))" using k(3) by (rule mp [rotated])
      have "char_count (join_str '' '' (w # take (Suc k) ?ws)) \<le> char_count (join_str '' '' (w # ?ws))"
      proof (cases "drop (Suc k) ?ws = []")
        case True
        then have "take (Suc k) ?ws = ?ws" by (metis append_Nil2 append_take_drop_id)
        then show ?thesis by (simp only: order_refl)
      next
        case False
        have "join_str '' '' (w # ?ws) = join_str '' '' ((w # take (Suc k) ?ws) @ drop (Suc k) ?ws)" by (simp only: append_Cons append_take_drop_id)
        then show ?thesis using join_append [of "w # take (Suc k) ?ws" "drop (Suc k) ?ws" "'' ''"] False by simp
      qed
      then show False using big n(3) by simp
    qed
    moreover have "take (length ?ws) ?ws = ?ws" by (rule take_all) (rule order_refl)
    ultimately have "make_snippet (make_snippet text) = make_snippet text" using n(2) by (simp only:)
    then show ?thesis using n False by (auto simp: Cons)
  qed
qed

subsection \<open>The ranking of tokens\<close>

definition first_pos :: "string list \<Rightarrow> string \<Rightarrow> nat" where
  "first_pos ts t = length (takeWhile (\<lambda>x. x \<noteq> t) ts)"

definition outranks :: "string list \<Rightarrow> string \<Rightarrow> string \<Rightarrow> bool" where
  "outranks ts a b =
     (count_list ts b < count_list ts a \<or> count_list ts a = count_list ts b \<and> first_pos ts a < first_pos ts b)"

lemma count_token_lookup:
  "distinct (map fst es) \<Longrightarrow> distinct (map fst (count_token es (i, tok))) \<and>
     fst ` set (count_token es (i, tok)) = insert tok (fst ` set es) \<and>
     map_of (count_token es (i, tok)) = (map_of es)(tok \<mapsto>
       (case map_of es tok of None \<Rightarrow> (1, i) | Some (c, p) \<Rightarrow> (c + 1, p)))"
  by (induction es "(i, tok)" rule: count_token.induct) (auto simp: fun_upd_twist)

lemma first_pos_snoc:
  "first_pos (ts @ [x]) t = (if t \<in> set ts then first_pos ts t else if t = x then length ts else Suc (length ts))"
  by (auto simp: first_pos_def takeWhile_append)

lemma count_tokens:
  "distinct (map fst (foldl count_token [] (enumerate 0 ts))) \<and>
   map_of (foldl count_token [] (enumerate 0 ts)) =
     (\<lambda>t. if t \<in> set ts then Some (count_list ts t, first_pos ts t) else None)"
proof (induction ts rule: rev_induct)
  case (snoc x ts)
  let ?es = "foldl count_token [] (enumerate 0 ts)"
  have "foldl count_token [] (enumerate 0 (ts @ [x])) = count_token ?es (length ts, x)"
    by (simp add: enumerate_append_eq)
  then show ?case using count_token_lookup [of ?es "length ts" x] snoc
    by (auto simp: fun_eq_iff first_pos_snoc)
qed (simp add: first_pos_def)

lemma insert_by_mset: "mset (insert_by le x xs) = add_mset x (mset xs)"
  by (induction xs) auto

lemma sort_by_mset: "mset (sort_by le xs) = mset xs"
  by (induction xs) (simp_all add: sort_by_def insert_by_mset)

lemma insert_by_sorted:
  assumes "\<And>a b. le a b \<or> le b a" "\<And>a b c. le a b \<Longrightarrow> le b c \<Longrightarrow> le a c"
  shows "sorted_wrt le xs \<Longrightarrow> sorted_wrt le (insert_by le x xs)"
proof (induction xs)
  case (Cons y ys)
  have "set (insert_by le x ys) = insert x (set ys)"
    using insert_by_mset [of le x ys] by (metis set_mset_add_mset_insert set_mset_mset)
  then show ?case using Cons assms by (auto intro: assms(2))
qed simp

lemma sort_by_sorted:
  assumes "\<And>a b. le a b \<or> le b a" "\<And>a b c. le a b \<Longrightarrow> le b c \<Longrightarrow> le a c"
  shows "sorted_wrt le (sort_by le xs)"
  by (induction xs) (simp_all add: sort_by_def insert_by_sorted assms)

lemma rank_top_best:
  fixes ts :: "string list"
  assumes "\<And>es. mset (shuffle es) = mset es"
  defines "es \<equiv> sort_by rank_le (shuffle (foldl count_token [] (enumerate 0 ts)))"
  shows "set (map fst es) = set ts" "distinct (map fst es)" "sorted_wrt (outranks ts) (map fst es)"
proof -
  let ?counts = "foldl count_token [] (enumerate 0 ts)"
  have perm: "mset es = mset ?counts" unfolding es_def sort_by_mset assms(1) ..
  have entries: "t \<in> set ts \<and> c = count_list ts t \<and> p = first_pos ts t" if "(t, c, p) \<in> set ?counts" for t c p
  proof -
    have "map_of ?counts t = Some (c, p)" by (rule map_of_is_SomeI) (use that count_tokens [of ts] in blast)+
    then show ?thesis using count_tokens [of ts] by (auto split: if_splits)
  qed
  have set_es: "set es = set ?counts" using perm by (metis set_mset_mset)
  have "fst ` set ?counts = set ts"
    using count_tokens [of ts] by (simp only: dom_map_of_conv_image_fst [symmetric]) (auto simp: dom_def)
  then show "set (map fst es) = set ts" by (simp add: set_es)
  have "mset (map fst es) = mset (map fst ?counts)" using perm by (metis mset_map)
  then show dist: "distinct (map fst es)" using count_tokens [of ts] by (metis mset_eq_imp_distinct_iff)
  have "sorted_wrt rank_le es" unfolding es_def by (rule sort_by_sorted) (auto simp: rank_le_def)
  then have "sorted_wrt (\<lambda>a b. rank_le a b \<and> fst a \<noteq> fst b) es"
    using dist unfolding sorted_wrt_iff_nth_less distinct_conv_nth by auto
  moreover have "outranks ts (fst a) (fst b)" if "rank_le a b \<and> fst a \<noteq> fst b" "a \<in> set es" "b \<in> set es" for a b
  proof -
    obtain t c p u d q where ab: "a = (t, c, p)" "b = (u, d, q)" by (cases a; cases b) auto
    have a: "t \<in> set ts" "c = count_list ts t" "p = first_pos ts t" using entries [of t c p] that(2) set_es ab by auto
    have b: "u \<in> set ts" "d = count_list ts u" "q = first_pos ts u" using entries [of u d q] that(3) set_es ab by auto
    have at: "first_pos ts v < length ts \<and> ts ! first_pos ts v = v" if "v \<in> set ts" for v
      using that by (induction ts) (auto simp: first_pos_def)
    have "first_pos ts t \<noteq> first_pos ts u" using at [OF a(1)] at [OF b(1)] that(1) ab by auto
    then show ?thesis using that(1) a b ab by (auto simp: rank_le_def outranks_def)
  qed
  ultimately show "sorted_wrt (outranks ts) (map fst es)"
    unfolding sorted_wrt_map by (rule sorted_wrt_mono_rel [rotated])
qed

lemma extract_keywords_ranking:
  assumes "\<And>es. mset (shuffle es) = mset es"
  shows "let ts = tokenize_prose env parser text; ks = extract_keywords env parser shuffle text
     in distinct ks \<and> set ks \<subseteq> set ts \<and> length ks = min TOP_K (card (set ts)) \<and> sorted_wrt (outranks ts) ks \<and>
        (\<forall>k \<in> set ks. \<forall>t \<in> set ts - set ks. outranks ts k t)"
proof -
  define ts where "ts = tokenize_prose env parser text"
  define es where "es = map fst (sort_by rank_le (shuffle (foldl count_token [] (enumerate 0 ts))))"
  have ks: "extract_keywords env parser shuffle text = take TOP_K es"
    by (simp add: extract_keywords_def rank_top_def ts_def es_def take_map)
  note best = rank_top_best [OF assms, of ts, folded es_def]
  have len: "length es = card (set ts)" using best(1, 2) by (metis distinct_card)
  have srt: "sorted_wrt (outranks ts) (take TOP_K es @ drop TOP_K es)" using best(3) by simp
  have rest: "set ts - set (take TOP_K es) \<subseteq> set (drop TOP_K es)"
    using best(1) by (metis Diff_subset_conv append_take_drop_id set_append order_refl)
  show ?thesis unfolding Let_def ks ts_def [symmetric]
  proof (intro conjI)
    show "\<forall>k \<in> set (take TOP_K es). \<forall>t \<in> set ts - set (take TOP_K es). outranks ts k t"
      using srt rest by (meson sorted_wrt_append subsetD)
    show "sorted_wrt (outranks ts) (take TOP_K es)" using srt by (simp only: sorted_wrt_append)
    show "set (take TOP_K es) \<subseteq> set ts" using best(1) by (metis set_take_subset)
    show "distinct (take TOP_K es)" using best(2) by (rule distinct_take)
    show "length (take TOP_K es) = min TOP_K (card (set ts))" using len by (simp add: min.commute)
  qed
qed

subsection \<open>The tokens of the prose\<close>

text \<open>
  The words of the page that count: those of the text outside code blocks and of the code spans, lower-cased,
  of two characters at least and no stop words.
\<close>

definition prose_words :: "word_env \<Rightarrow> md_stream \<Rightarrow> string list" where
  "prose_words env es =
     filter (\<lambda>w. 2 \<le> char_count w \<and> \<not> stopwords env w) (map (to_lowercase env)
       (concat (map (\<lambda>i. case fst (es ! i) of
            TextEvent t \<Rightarrow> if inside_code_block es i then [] else unicode_words env t
          | CodeSpan t \<Rightarrow> unicode_words env t
          | _ \<Rightarrow> []) [0..<length es])))"

definition event_words :: "word_env \<Rightarrow> md_stream \<Rightarrow> nat \<Rightarrow> string list" where
  "event_words env es i =
     (case fst (es ! i) of
        TextEvent t \<Rightarrow> if inside_code_block es i then [] else normalized_words env t
      | CodeSpan t \<Rightarrow> normalized_words env t
      | _ \<Rightarrow> [])"

lemma tokenize_events_positions:
  "es = pre @ rest \<Longrightarrow> tokenize_events env (inside_code_block es (length pre)) rest =
     concat (map (event_words env es) [length pre..<length es])"
proof (induction rest arbitrary: pre)
  case (Cons e rest)
  obtain ev r where e: "e = (ev, r)" by (cases e)
  note at = map_positions_Cons [OF Cons.prems]
  have flag: "inside_code_block es (length (pre @ [e])) \<longleftrightarrow>
      opens_code_block ev \<or> inside_code_block es (length pre) \<and> ev \<noteq> End EndCodeBlock"
    by (simp add: inside_code_block_Suc at(2) e)
  have "tokenize_events env (inside_code_block es (length (pre @ [e]))) rest =
      concat (map (event_words env es) [length (pre @ [e])..<length es])"
    using Cons.prems by (intro Cons.IH) simp
  note ih = this [unfolded flag]
  have "tokenize_events env (inside_code_block es (length pre)) (e # rest) =
      event_words env es (length pre) @ concat (map (event_words env es) [length (pre @ [e])..<length es])"
    using ih unfolding event_words_def [of _ _ "length pre"] at(2) e opens_code_block_def
    by (cases ev) (auto split: md_tag.splits md_tag_end.splits)
  then show ?case unfolding at(1) by simp
qed simp

lemma tokenize_prose_words: "tokenize_prose env parser text = prose_words env (parser text)"
proof -
  have "filter P (map g (concat (map h places))) = concat (map (\<lambda>i. filter P (map g (h i))) places)"
    for P :: "string \<Rightarrow> bool" and g :: "string \<Rightarrow> string" and h and places :: "nat list"
    by (induction places) simp_all
  moreover have "tokenize_prose env parser text = tokenize_events env (inside_code_block (parser text) (length [])) (parser text)"
    by (simp add: tokenize_prose_def)
  ultimately show ?thesis
    using tokenize_events_positions [of "parser text" "[]" "parser text" env]
    by (simp add: prose_words_def event_words_def [abs_def] normalized_words_def MIN_LEN_def md_event.case_distrib [of "\<lambda>ws. filter _ (map _ ws)"]
        if_distrib [of "\<lambda>ws. filter _ (map _ ws)"] cong: md_event.case_cong if_cong)
qed

text \<open>
  C36. Whatever order the hash map iterates in, the keywords are distinct tokens of the prose of the page,
  the best first and no more than eight: the more frequent token outranks the other, among equals the one that
  occurs first; no token that is left out outranks a keyword. The tokens are the lower-cased words, in the order
  of the page, of the text events that stand in no code block and of the code spans, without stop words and
  words of one character.
\<close>
theorem extract_keywords_best:
  assumes "\<And>es. mset (shuffle es) = mset es"
  shows "let ts = prose_words env (parser text); ks = extract_keywords env parser shuffle text
     in distinct ks \<and> set ks \<subseteq> set ts \<and> length ks = min 8 (card (set ts)) \<and> sorted_wrt (outranks ts) ks \<and>
        (\<forall>k \<in> set ks. \<forall>t \<in> set ts - set ks. outranks ts k t)"
  using extract_keywords_ranking [OF assms, of env parser "text"] by (simp add: Let_def tokenize_prose_words TOP_K_def)

text \<open>A segmentation that knows only ASCII spaces, and a page of a paragraph with a code span and a code block.\<close>

definition sample_words :: word_env where
  "sample_words = \<lparr>unicode_words = split_whitespace, to_lowercase = to_ascii_lowercase, stopwords = (\<lambda>w. w = ''the'')\<rparr>"

definition sample_parser :: md_parser where
  "sample_parser text =
     [(Start Paragraph, (0, 0)), (TextEvent text, (0, 0)), (CodeSpan ''curd'', (0, 0)), (End EndParagraph, (0, 0)),
      (Start (CodeBlock (Fenced ''sh'')), (0, 0)), (TextEvent ''fence fence fence'', (0, 0)), (End EndCodeBlock, (0, 0)),
      (TextEvent ''curd'', (0, 0))]"

lemma sample_keywords:
  "extract_keywords sample_words sample_parser rev ''the rind The paste a rind'' = [''rind'', ''curd'', ''paste'']"
  by code_simp

lemma extract_keywords_best_witness:
  "outranks (prose_words sample_words (sample_parser ''the rind The paste a rind'')) ''rind'' ''curd'' \<and>
   ''fence'' \<notin> set (prose_words sample_words (sample_parser ''the rind The paste a rind''))"
proof -
  let ?page = "''the rind The paste a rind''"
  have "mset (rev es) = mset es" for es :: "(string \<times> nat \<times> nat) list" by simp
  note best = extract_keywords_best [of rev, OF this, of sample_words sample_parser ?page, unfolded Let_def sample_keywords]
  have "card (set (prose_words sample_words (sample_parser ?page))) = 3"
    using best by (simp add: min_def split: if_splits)
  moreover have "card {''rind'', ''curd'', ''paste''} = 3" by simp
  moreover have "{''rind'', ''curd'', ''paste''} \<subseteq> set (prose_words sample_words (sample_parser ?page))"
    using best by simp
  ultimately have "set (prose_words sample_words (sample_parser ?page)) = {''rind'', ''curd'', ''paste''}"
    by (metis card_subset_eq List.finite_set)
  then show ?thesis using best by simp
qed

subsection \<open>Terms and summaries\<close>

lemma split_terms_set: "distinct (split_terms env q) \<and> set (split_terms env q) = set (normalized_words env q)"
  using push_new_distinct [of "[]" "normalized_words env q"] push_new_set [of "[]" "normalized_words env q"]
  by (simp add: split_terms_def)

lemma extract_summary_cap: "char_count (extract_summary parser text fallback) \<le> SUMMARY_CAP"
  by (auto simp: extract_summary_def Let_def char_count_take_chars split: prod.splits)

end
