(* ===== verification/Phrase.thy ===== *)
theory Phrase
  imports Section_Edit Claim_Marks Footnotes Content_Key "HOL-Library.Product_Lexorder" "HOL-Library.Multiset"
begin

text \<open>
  Exact-phrase retrieval (\<open>search/phrase.rs\<close>, \<open>hit_tie_break_key\<close> of \<open>search.rs\<close>): how chunks that
  hold a phrase are counted, ranked, cut off and reported. Lower-casing, the Markdown parser and
  the store's scan are arguments, and so is the conversion of a count to a 32-bit float; \<open>'g\<close> are the
  64-bit floats. A slice that is not on a character boundary panics: the run is then \<open>None\<close>.
\<close>

subsection \<open>Hits\<close>

record ('f, 'g) search_hit =
  sh_chunk_id :: string
  sh_corpus_key :: corpus_key
  sh_file_ref :: string
  sh_heading_path :: "string list"
  sh_line_start :: nat
  sh_line_end :: nat
  sh_text :: string
  sh_search_text :: string
  sh_summary :: string
  sh_keywords :: "string list"
  sh_score :: 'f
  sh_mtime_ms :: int
  sh_claim_marks :: "claim_mark list"
  sh_structure :: "chunk_structure option"
  sh_overlap_bytes :: nat
  sh_z_score :: "'g option"

record warning =
  warning_code :: string
  warning_message :: string

record ('f, 'g) fused_search =
  fused_hits :: "('f, 'g) search_hit list"
  fused_warnings :: "warning list"

text \<open>Canonical paths: \<open>strip_prefix\<close> leaves the components below the root.\<close>

definition hit_tie_break_key :: "('f, 'g) search_hit \<Rightarrow> path \<Rightarrow> string \<times> nat \<times> string" where
  "hit_tie_break_key hit root =
     (let cs = components (sh_file_ref hit)
      in (if starts_with root cs then path_string (drop (length root) cs) else sh_file_ref hit,
          sh_line_start hit, sh_chunk_id hit))"

subsection \<open>The phrase\<close>

definition MAX_PHRASE_CHARS :: nat where
  "MAX_PHRASE_CHARS = 512"

definition MAX_PHRASE_SCAN_ROWS :: nat where
  "MAX_PHRASE_SCAN_ROWS = 10000"

datatype phrase_error = Blank | TooLong nat

fun phrase_error_text :: "phrase_error \<Rightarrow> string" where
  "phrase_error_text Blank = ''phrase match requires a non-blank query''"
| "phrase_error_text (TooLong chars) =
     ''phrase match query is '' @ show_nat chars @ '' characters; the maximum is '' @ show_nat MAX_PHRASE_CHARS"

definition validate_phrase :: "string \<Rightarrow> (phrase_error, unit) result" where
  "validate_phrase phrase =
     (if trim phrase = [] then Err Blank
      else let chars = char_count phrase in if MAX_PHRASE_CHARS < chars then Err (TooLong chars) else Ok ())"

text \<open>Byte by byte; white space starts at the first byte of its character.\<close>

function collapse_from :: "bool \<Rightarrow> string \<Rightarrow> string" where
  "collapse_from in_run s =
     (if s = [] then []
      else if 0 < ws_width s then (if in_run then [] else '' '') @ collapse_from True (drop (ws_width s) s)
      else hd s # collapse_from False (tl s))"
  by pat_completeness auto
termination
  by (relation "measure (\<lambda>(_, s). length s)") auto

declare collapse_from.simps [simp del]

definition collapse_whitespace :: "string \<Rightarrow> string" where
  "collapse_whitespace s = collapse_from False s"

definition occurrence_count :: "(string \<Rightarrow> string) \<Rightarrow> string \<Rightarrow> string \<Rightarrow> nat" where
  "occurrence_count lower t needle = match_count needle (collapse_whitespace (lower t))"

definition body_occurrence_count :: "(string \<Rightarrow> string) \<Rightarrow> md_parser \<Rightarrow> string \<Rightarrow> string \<Rightarrow> nat option" where
  "body_occurrence_count lower parser t needle =
     (if \<not> occurs ''[^'' t then Some (occurrence_count lower t needle)
      else map_option (\<lambda>body. occurrence_count lower body needle) (apply_footnote_mode parser t Exclude))"

definition overlap_occurrence_count :: "(string \<Rightarrow> string) \<Rightarrow> md_parser \<Rightarrow> ('f, 'g) search_hit \<Rightarrow> string \<Rightarrow> nat option" where
  "overlap_occurrence_count lower parser hit needle =
     (case str_slice (sh_text hit) 0 (sh_overlap_bytes hit) of
        None \<Rightarrow> Some 0
      | Some overlap \<Rightarrow> body_occurrence_count lower parser overlap needle)"

definition truncation_warning :: "corpus_key \<Rightarrow> nat \<Rightarrow> nat \<Rightarrow> nat \<Rightarrow> warning option" where
  "truncation_warning key scanned matched limit =
     (let root = path_string (canonical_root key)
      in if MAX_PHRASE_SCAN_ROWS \<le> scanned then
           Some \<lparr>warning_code = ''phrase-truncated'',
                 warning_message = ''phrase scan in corpus root '' @ root @ '' stopped at the cap of '' @
                   show_nat MAX_PHRASE_SCAN_ROWS @ '' scanned chunks; more chunks can match, and at most '' @
                   show_nat limit @ '' are returned''\<rparr>
         else if limit < matched then
           Some \<lparr>warning_code = ''phrase-truncated'',
                 warning_message = ''phrase matched '' @ show_nat matched @ '' chunks in corpus root '' @ root @
                   ''; only the first '' @ show_nat limit @ '' are returned''\<rparr>
         else None)"

record 'f phrase_env =
  lower_text :: "string \<Rightarrow> string"
  phrase_parser :: md_parser
  score_of_count :: "nat \<Rightarrow> 'f"

text \<open>The count of one hit; the hits with a count that is not zero, decorated with their sort keys.\<close>

definition phrase_count :: "'f phrase_env \<Rightarrow> string \<Rightarrow> ('f, 'g) search_hit \<Rightarrow> nat option" where
  "phrase_count env needle hit =
     (case body_occurrence_count (lower_text env) (phrase_parser env) (sh_text hit) needle of
        None \<Rightarrow> None
      | Some body \<Rightarrow>
          map_option (\<lambda>overlap. body - overlap) (overlap_occurrence_count (lower_text env) (phrase_parser env) hit needle))"

type_synonym ('f, 'g) decorated = "nat \<times> (string \<times> nat \<times> string) \<times> ('f, 'g) search_hit"

fun decorate_hits ::
  "'f phrase_env \<Rightarrow> string \<Rightarrow> path \<Rightarrow> ('f, 'g) search_hit list \<Rightarrow> ('f, 'g) decorated list option" where
  "decorate_hits env needle root [] = Some []"
| "decorate_hits env needle root (hit # hits) =
     (case phrase_count env needle hit of
        None \<Rightarrow> None
      | Some n \<Rightarrow>
          if n = 0 then decorate_hits env needle root hits
          else let hit = hit\<lparr>sh_score := score_of_count env n\<rparr>
               in map_option (\<lambda>ds. (n, hit_tie_break_key hit root, hit) # ds) (decorate_hits env needle root hits))"

definition sort_decorated :: "('f, 'g) decorated list \<Rightarrow> ('f, 'g) decorated list" where
  "sort_decorated = sort_key (\<lambda>(n, key, _). (- int n, key))"

definition search_phrase_in ::
  "'f phrase_env \<Rightarrow> (corpus_key \<Rightarrow> string \<Rightarrow> nat \<Rightarrow> ('f, 'g) search_hit list hall_result) \<Rightarrow>
   corpus_key \<Rightarrow> string \<Rightarrow> nat \<Rightarrow> ('f, 'g) fused_search hall_result option" where
  "search_phrase_in env retrieve_phrase key phrase limit =
     (case validate_phrase phrase of
        Err e \<Rightarrow> Some (Err (ESearch (phrase_error_text e)))
      | Ok _ \<Rightarrow>
          (let needle = collapse_whitespace (lower_text env phrase)
           in case retrieve_phrase key needle MAX_PHRASE_SCAN_ROWS of
                Err e \<Rightarrow> Some (Err e)
              | Ok hits \<Rightarrow>
                  map_option (\<lambda>decorated.
                      Ok \<lparr>fused_hits = take limit (map (\<lambda>(_, _, hit). hit) (sort_decorated decorated)),
                          fused_warnings =
                            (case truncation_warning key (length hits) (length decorated) limit of
                               None \<Rightarrow> [] | Some w \<Rightarrow> [w])\<rparr>)
                    (decorate_hits env needle (canonical_root key) hits)))"

subsection \<open>What is returned\<close>

text \<open>A hit with an occurrence outside its overlap.\<close>

definition holds_phrase :: "'f phrase_env \<Rightarrow> string \<Rightarrow> ('f, 'g) search_hit \<Rightarrow> bool" where
  "holds_phrase env needle hit = (\<exists>n. phrase_count env needle hit = Some n \<and> 0 < n)"

lemma decorate_hits_filter:
  "decorate_hits env needle root hits = Some ds \<Longrightarrow>
     ds = map (\<lambda>hit. let c = the (phrase_count env needle hit); hit = hit\<lparr>sh_score := score_of_count env c\<rparr>
                     in (c, hit_tie_break_key hit root, hit))
            (filter (holds_phrase env needle) hits)"
  by (induction hits arbitrary: ds) (auto simp: Let_def holds_phrase_def split: option.splits if_splits)

text \<open>A hit as it is returned, and the order of the returned hits.\<close>

definition scored :: "'f phrase_env \<Rightarrow> string \<Rightarrow> ('f, 'g) search_hit \<Rightarrow> ('f, 'g) search_hit" where
  "scored env needle hit = hit\<lparr>sh_score := score_of_count env (the (phrase_count env needle hit))\<rparr>"

definition phrase_key :: "'f phrase_env \<Rightarrow> string \<Rightarrow> path \<Rightarrow> ('f, 'g) search_hit \<Rightarrow> int \<times> string \<times> nat \<times> string" where
  "phrase_key env needle root hit = (- int (the (phrase_count env needle hit)), hit_tie_break_key hit root)"

lemma insort_key_map: "insort_key f (g x) (map g xs) = map g (insort_key (\<lambda>x. f (g x)) x xs)"
  by (induction xs) auto

lemma sort_key_map: "sort_key f (map g xs) = map g (sort_key (\<lambda>x. f (g x)) xs)"
  by (induction xs) (simp_all add: insort_key_map)

lemma scored_fields [simp]:
  "sh_text (scored env needle hit) = sh_text hit" "sh_overlap_bytes (scored env needle hit) = sh_overlap_bytes hit"
  "sh_file_ref (scored env needle hit) = sh_file_ref hit" "sh_line_start (scored env needle hit) = sh_line_start hit"
  "sh_chunk_id (scored env needle hit) = sh_chunk_id hit"
  by (simp_all add: scored_def)

lemma scored_same [simp]:
  "phrase_count env needle (scored env n hit) = phrase_count env needle hit"
  "hit_tie_break_key (scored env n hit) root = hit_tie_break_key hit root"
  by (simp_all add: phrase_count_def overlap_occurrence_count_def hit_tie_break_key_def Let_def split: option.split)

lemma search_phrase_hits:
  assumes "search_phrase_in env retrieve_phrase key phrase limit = Some (Ok r)"
  defines "needle \<equiv> collapse_whitespace (lower_text env phrase)"
  obtains rows where "validate_phrase phrase = Ok ()" "retrieve_phrase key needle MAX_PHRASE_SCAN_ROWS = Ok rows"
    "fused_hits r = take limit (map (scored env needle) (sort_key (phrase_key env needle (canonical_root key))
       (filter (holds_phrase env needle) rows)))"
    "fused_warnings r = [] \<longleftrightarrow> length rows < MAX_PHRASE_SCAN_ROWS \<and>
       length (filter (holds_phrase env needle) rows) \<le> limit"
proof -
  obtain rows ds where rows: "validate_phrase phrase = Ok ()" "retrieve_phrase key needle MAX_PHRASE_SCAN_ROWS = Ok rows"
    and ds: "decorate_hits env needle (canonical_root key) rows = Some ds"
    and r: "fused_hits r = take limit (map (\<lambda>(_, _, hit). hit) (sort_decorated ds))"
      "fused_warnings r = (case truncation_warning key (length rows) (length ds) limit of None \<Rightarrow> [] | Some w \<Rightarrow> [w])"
    using assms(1) unfolding search_phrase_in_def needle_def [symmetric] by (auto simp: Let_def split: sum.splits)
  let ?kept = "filter (holds_phrase env needle) rows"
  let ?dec = "\<lambda>hit. (the (phrase_count env needle hit), hit_tie_break_key hit (canonical_root key), scored env needle hit)"
  have dec: "ds = map ?dec ?kept"
    using decorate_hits_filter [OF ds] by (simp add: Let_def scored_def [symmetric])
  have "sort_decorated ds = map ?dec (sort_key (phrase_key env needle (canonical_root key)) ?kept)"
    unfolding dec sort_decorated_def phrase_key_def by (simp add: sort_key_map)
  then have hits: "fused_hits r = take limit (map (scored env needle) (sort_key (phrase_key env needle (canonical_root key)) ?kept))"
    by (simp add: r(1) comp_def)
  have "fused_warnings r = [] \<longleftrightarrow> length rows < MAX_PHRASE_SCAN_ROWS \<and> length ?kept \<le> limit"
    unfolding r(2) dec by (auto simp: truncation_warning_def Let_def)
  then show ?thesis using that rows hits by blast
qed

text \<open>The chunks of the store, as the port documents its answer.\<close>

definition answers_phrases ::
  "'f phrase_env \<Rightarrow> (corpus_key \<Rightarrow> string \<Rightarrow> nat \<Rightarrow> ('f, 'g) search_hit list hall_result) \<Rightarrow>
   (corpus_key \<Rightarrow> ('f, 'g) search_hit set) \<Rightarrow> bool" where
  "answers_phrases env retrieve_phrase held \<longleftrightarrow>
     (\<forall>key needle limit rows. retrieve_phrase key needle limit = Ok rows \<longrightarrow>
        set rows \<subseteq> held key \<and>
        (length rows < limit \<longrightarrow>
           {hit \<in> held key. \<exists>n. body_occurrence_count (lower_text env) (phrase_parser env) (sh_text hit) needle = Some (Suc n)}
             \<subseteq> set rows))"

lemma holds_phrase_body:
  "holds_phrase env needle hit \<Longrightarrow>
     \<exists>n. body_occurrence_count (lower_text env) (phrase_parser env) (sh_text hit) needle = Some (Suc n)"
proof -
  assume "holds_phrase env needle hit"
  then obtain body n where "body_occurrence_count (lower_text env) (phrase_parser env) (sh_text hit) needle = Some body" "n < body"
    by (auto simp: holds_phrase_def phrase_count_def split: option.splits)
  then show ?thesis by (cases body) auto
qed

text \<open>
  C37. A phrase search ranks every chunk it has scanned before it cuts: the hits are \<open>limit\<close> of the scanned chunks
  that hold the phrase in their own part of the text, or all of them, those with more occurrences first and equal
  ones by path, line and id, and no scanned chunk that is left out ranks before a hit. Every hit is a chunk of the
  corpus that holds the phrase. There is no warning exactly when the scan ended below its cap and no match was cut,
  and then the search has missed none: whoever finds no hit and no warning may conclude that no chunk holds the phrase.
\<close>
theorem search_phrase_complete:
  assumes "answers_phrases env retrieve_phrase held"
    and "search_phrase_in env retrieve_phrase key phrase limit = Some (Ok r)"
  defines "needle \<equiv> collapse_whitespace (lower_text env phrase)"
  shows "(\<exists>rows. retrieve_phrase key needle 10000 = Ok rows \<and>
      (let kept = filter (holds_phrase env needle) rows; rank = phrase_key env needle (canonical_root key) in
        length (fused_hits r) = min limit (length kept) \<and>
        mset (fused_hits r) \<subseteq># mset (map (scored env needle) kept) \<and>
        sorted (map rank (fused_hits r)) \<and>
        (\<forall>chunk \<in># mset (map (scored env needle) kept) - mset (fused_hits r). \<forall>hit \<in> set (fused_hits r). rank hit \<le> rank chunk) \<and>
        (fused_warnings r = [] \<longleftrightarrow> length rows < 10000 \<and> length kept \<le> limit))) \<and>
    set (fused_hits r) \<subseteq> scored env needle ` {hit \<in> held key. holds_phrase env needle hit} \<and>
    (fused_warnings r = [] \<longrightarrow>
       set (fused_hits r) = scored env needle ` {hit \<in> held key. holds_phrase env needle hit})"
proof -
  obtain rows where rows: "retrieve_phrase key needle MAX_PHRASE_SCAN_ROWS = Ok rows"
    and hits: "fused_hits r = take limit (map (scored env needle) (sort_key (phrase_key env needle (canonical_root key))
       (filter (holds_phrase env needle) rows)))"
    and warn: "fused_warnings r = [] \<longleftrightarrow> length rows < MAX_PHRASE_SCAN_ROWS \<and>
       length (filter (holds_phrase env needle) rows) \<le> limit"
    by (rule search_phrase_hits [OF assms(2), folded needle_def])
  note promise = assms(1) [unfolded answers_phrases_def, rule_format, OF rows]
  have law: "set rows \<subseteq> held key" using promise by (rule conjunct1)
  have all: "hit \<in> set rows" if "length rows < MAX_PHRASE_SCAN_ROWS" "hit \<in> held key" "holds_phrase env needle hit" for hit
    using conjunct2 [OF promise, rule_format, OF that(1)] that(2) holds_phrase_body [OF that(3)] by auto
  let ?rank = "phrase_key env needle (canonical_root key)"
  have key: "?rank (scored env needle hit) = ?rank hit" for hit by (simp add: phrase_key_def)
  let ?ranked = "map (scored env needle) (sort_key ?rank (filter (holds_phrase env needle) rows))"
  have sorted: "sorted (map ?rank (take limit ?ranked @ drop limit ?ranked))"
    unfolding append_take_drop_id list.map_comp comp_def key by (rule sorted_sort_key)
  have perm: "mset (map (scored env needle) (filter (holds_phrase env needle) rows)) = mset (take limit ?ranked) + mset (drop limit ?ranked)"
    unfolding mset_append [symmetric] append_take_drop_id by (simp only: mset_map mset_sort)
  have "\<exists>rows. retrieve_phrase key needle 10000 = Ok rows \<and>
      (let kept = filter (holds_phrase env needle) rows in
        length (fused_hits r) = min limit (length kept) \<and>
        mset (fused_hits r) \<subseteq># mset (map (scored env needle) kept) \<and>
        sorted (map ?rank (fused_hits r)) \<and>
        (\<forall>chunk \<in># mset (map (scored env needle) kept) - mset (fused_hits r). \<forall>hit \<in> set (fused_hits r). ?rank hit \<le> ?rank chunk) \<and>
        (fused_warnings r = [] \<longleftrightarrow> length rows < 10000 \<and> length kept \<le> limit))"
  proof (rule exI [of _ rows], unfold Let_def, intro conjI)
    show "retrieve_phrase key needle 10000 = Ok rows" using rows by (simp only: MAX_PHRASE_SCAN_ROWS_def)
    show "length (fused_hits r) = min limit (length (filter (holds_phrase env needle) rows))" unfolding hits by simp
    show "mset (fused_hits r) \<subseteq># mset (map (scored env needle) (filter (holds_phrase env needle) rows))"
      unfolding hits perm by (rule mset_subset_eq_add_left)
    show "sorted (map ?rank (fused_hits r))" using sorted unfolding hits by (simp only: map_append sorted_append)
    show "\<forall>chunk \<in># mset (map (scored env needle) (filter (holds_phrase env needle) rows)) - mset (fused_hits r).
        \<forall>hit \<in> set (fused_hits r). ?rank hit \<le> ?rank chunk"
      using sorted unfolding hits perm add_diff_cancel_left' map_append sorted_append set_map set_mset_mset by blast
    show "fused_warnings r = [] \<longleftrightarrow> length rows < 10000 \<and> length (filter (holds_phrase env needle) rows) \<le> limit"
      using warn by (simp only: MAX_PHRASE_SCAN_ROWS_def)
  qed
  moreover have "set (fused_hits r) \<subseteq> scored env needle ` {hit \<in> held key. holds_phrase env needle hit}"
    unfolding hits using law by (auto dest!: in_set_takeD intro!: imageI)
  moreover have "set (fused_hits r) = scored env needle ` {hit \<in> held key. holds_phrase env needle hit}"
    if "fused_warnings r = []"
    using that law all unfolding warn hits by auto
  ultimately show ?thesis unfolding Let_def by blast
qed

definition sample_env :: "nat phrase_env" where
  "sample_env = \<lparr>lower_text = id, phrase_parser = (\<lambda>_. []), score_of_count = id\<rparr>"

definition sample_hit :: "nat \<Rightarrow> string \<Rightarrow> nat \<Rightarrow> (nat, nat) search_hit" where
  "sample_hit l t overlap =
     \<lparr>sh_chunk_id = ''c'', sh_corpus_key = \<lparr>ck_name = ''wiki'', canonical_root = [RootDir]\<rparr>, sh_file_ref = ''/p.md'',
      sh_heading_path = [], sh_line_start = l, sh_line_end = l, sh_text = t, sh_search_text = t, sh_summary = [],
      sh_keywords = [], sh_score = 0, sh_mtime_ms = 0, sh_claim_marks = [], sh_structure = None,
      sh_overlap_bytes = overlap, sh_z_score = None\<rparr>"

lemma sample_search:
  "search_phrase_in sample_env (\<lambda>_ _ n. Ok (take n [sample_hit 1 ''a b'' 0, sample_hit 2 ''a b'' 3, sample_hit 3 ''a  b a b'' 0]))
     \<lparr>ck_name = ''wiki'', canonical_root = [RootDir]\<rparr> ''a b'' 5 =
   Some (Ok \<lparr>fused_hits = [(sample_hit 3 ''a  b a b'' 0)\<lparr>sh_score := 2\<rparr>, (sample_hit 1 ''a b'' 0)\<lparr>sh_score := 1\<rparr>], fused_warnings = []\<rparr>)"
  by code_simp

lemma sample_answers:
  "answers_phrases env (\<lambda>_ _ n. Ok (take n hits)) (\<lambda>_. set hits)"
  by (auto simp: answers_phrases_def min_def dest: in_set_takeD)

text \<open>With a limit of one the chunk with two occurrences is returned, although it is scanned last.\<close>

lemma sample_search_cut:
  "map_option (map_sum id (\<lambda>r. (fused_hits r, length (fused_warnings r))))
     (search_phrase_in sample_env (\<lambda>_ _ n. Ok (take n [sample_hit 1 ''a b'' 0, sample_hit 3 ''a  b a b'' 0]))
       \<lparr>ck_name = ''wiki'', canonical_root = [RootDir]\<rparr> ''a b'' 1) =
   Some (Ok ([(sample_hit 3 ''a  b a b'' 0)\<lparr>sh_score := 2\<rparr>], 1))"
  by code_simp

lemma search_phrase_complete_witness:
  "scored sample_env (collapse_whitespace (lower_text sample_env ''a b'')) `
     {hit \<in> set [sample_hit 1 ''a b'' 0, sample_hit 2 ''a b'' 3, sample_hit 3 ''a  b a b'' 0].
        holds_phrase sample_env (collapse_whitespace (lower_text sample_env ''a b'')) hit} =
   set [(sample_hit 3 ''a  b a b'' 0)\<lparr>sh_score := 2\<rparr>, (sample_hit 1 ''a b'' 0)\<lparr>sh_score := 1\<rparr>]"
  using search_phrase_complete [OF sample_answers sample_search, THEN conjunct2, THEN conjunct2]
  unfolding fused_search.simps by (elim impE) (rule refl, rule sym)

end
