(* ===== verification/Fusion.thy ===== *)
theory Fusion
  imports Phrase Derived_Text
begin

text \<open>
  Ranked search: reciprocal rank fusion (\<open>search/fuse.rs\<close>), the ripgrep pass (\<open>search/ripgrep.rs\<close>), the
  line-window fallback (\<open>search/lexical_fallback.rs\<close>) and the signals of one or more roots
  (\<open>search.rs\<close>). \<open>'f\<close> are the 32-bit floats with their operations in \<open>float_ops\<close>. The store, the
  ripgrep process, the JSON decoder and the iteration order of hash maps are arguments.
\<close>

subsection \<open>Orderings and sorting\<close>

datatype ordering = Less | Equal | Greater

definition cmp_of :: "'a::linorder \<Rightarrow> 'a \<Rightarrow> ordering" where
  "cmp_of a b = (if a < b then Less else if a = b then Equal else Greater)"

definition then_with :: "ordering \<Rightarrow> ordering \<Rightarrow> ordering" where
  "then_with o1 o2 = (if o1 = Equal then o2 else o1)"

definition or_equal :: "ordering option \<Rightarrow> ordering" where
  "or_equal r = (case r of Some x \<Rightarrow> x | None \<Rightarrow> Equal)"

text \<open>\<open>slice::sort_by\<close> with a comparison, which is stable.\<close>

definition sort_cmp :: "('a \<Rightarrow> 'a \<Rightarrow> ordering) \<Rightarrow> 'a list \<Rightarrow> 'a list" where
  "sort_cmp cmp xs = sort_by (\<lambda>a b. cmp a b \<noteq> Greater) xs"

text \<open>The operations of a float type; \<open>fl_lit m k\<close> is the literal \<open>m / 10 ^ k\<close>.\<close>

record 'f float_ops =
  fl_lit :: "nat \<Rightarrow> nat \<Rightarrow> 'f"
  fl_nat :: "nat \<Rightarrow> 'f"
  fl_add :: "'f \<Rightarrow> 'f \<Rightarrow> 'f"
  fl_sub :: "'f \<Rightarrow> 'f \<Rightarrow> 'f"
  fl_mul :: "'f \<Rightarrow> 'f \<Rightarrow> 'f"
  fl_div :: "'f \<Rightarrow> 'f \<Rightarrow> 'f"
  fl_neg :: "'f \<Rightarrow> 'f"
  fl_sqrt :: "'f \<Rightarrow> 'f"
  fl_min :: "'f \<Rightarrow> 'f \<Rightarrow> 'f"
  fl_less :: "'f \<Rightarrow> 'f \<Rightarrow> bool"
  fl_partial_cmp :: "'f \<Rightarrow> 'f \<Rightarrow> ordering option"
  fl_total_cmp :: "'f \<Rightarrow> 'f \<Rightarrow> ordering"

subsection \<open>Reciprocal rank fusion\<close>

record 'f ranked_list =
  rl_weight :: 'f
  rl_chunk_ids :: "string list"

text \<open>The sum of contributions and the number of signals of each chunk.\<close>

type_synonym 'f scores = "(string \<times> 'f \<times> nat) list"

fun add_contribution :: "'f float_ops \<Rightarrow> string \<Rightarrow> 'f \<Rightarrow> 'f scores \<Rightarrow> 'f scores" where
  "add_contribution fo cid c [] = [(cid, fl_add fo (fl_lit fo 0 0) c, 1)]"
| "add_contribution fo cid c ((i, s, n) # es) =
     (if i = cid then (i, fl_add fo s c, n + 1) # es else (i, s, n) # add_contribution fo cid c es)"

fun fuse_list :: "'f float_ops \<Rightarrow> 'f \<Rightarrow> 'f \<Rightarrow> nat \<Rightarrow> string list \<Rightarrow> string list \<Rightarrow> 'f scores \<Rightarrow> 'f scores" where
  "fuse_list fo k weight rank seen [] scores = scores"
| "fuse_list fo k weight rank seen (cid # ids) scores =
     (if cid \<in> set seen then fuse_list fo k weight (rank + 1) seen ids scores
      else fuse_list fo k weight (rank + 1) (cid # seen) ids
             (add_contribution fo cid (fl_div fo weight (fl_add fo (fl_nat fo rank) k)) scores))"

definition fused_cmp :: "'f float_ops \<Rightarrow> string \<times> 'f \<times> nat \<Rightarrow> string \<times> 'f \<times> nat \<Rightarrow> ordering" where
  "fused_cmp fo a b =
     then_with (or_equal (fl_partial_cmp fo (fst (snd b)) (fst (snd a))))
       (then_with (cmp_of (snd (snd b)) (snd (snd a))) (cmp_of (fst a) (fst b)))"

definition fuse :: "'f float_ops \<Rightarrow> ('f scores \<Rightarrow> 'f scores) \<Rightarrow> 'f ranked_list list \<Rightarrow> 'f \<Rightarrow> (string \<times> 'f) list" where
  "fuse fo shuffle ranked k =
     map (\<lambda>(cid, score, _). (cid, score))
       (sort_cmp (fused_cmp fo)
          (shuffle (fold (\<lambda>l scores. fuse_list fo k (rl_weight l) 0 [] (rl_chunk_ids l) scores) ranked [])))"

definition RRF_K :: "'f float_ops \<Rightarrow> 'f" where "RRF_K fo = fl_lit fo 60 0"
definition FTS_WEIGHT :: "'f float_ops \<Rightarrow> 'f" where "FTS_WEIGHT fo = fl_lit fo 2 0"
definition VECTOR_WEIGHT :: "'f float_ops \<Rightarrow> 'f" where "VECTOR_WEIGHT fo = fl_lit fo 1 0"
definition RIPGREP_WEIGHT :: "'f float_ops \<Rightarrow> 'f" where "RIPGREP_WEIGHT fo = fl_lit fo 5 1"
definition CONTAINS_WEIGHT :: "'f float_ops \<Rightarrow> 'f" where "CONTAINS_WEIGHT fo = fl_lit fo 5 1"

subsection \<open>The ripgrep pass\<close>

record ripgrep_hit =
  rh_file_ref :: string
  rh_line :: nat
  rh_matched :: "string list"

record ripgrep_run =
  rr_hits :: "ripgrep_hit list"
  rr_truncated :: bool
  rr_elapsed_ms :: nat
  rr_unparseable :: nat

text \<open>An event as the JSON decoder gives it; the fields of a match are all optional.\<close>

record rg_match_data =
  rg_path :: "string option option"
  rg_line_number :: "nat option"
  rg_submatches :: "string option option list option"

record rg_event =
  rg_kind :: string
  rg_data :: "rg_match_data option"

datatype parsed_line = PlHit ripgrep_hit | NotMatch | Malformed

definition parse_match_hit :: "(string \<Rightarrow> string) \<Rightarrow> rg_match_data option \<Rightarrow> ripgrep_hit option" where
  "parse_match_hit lower data =
     (case data of
        None \<Rightarrow> None
      | Some d \<Rightarrow>
          (case (rg_path d, rg_line_number d) of
             (Some (Some p), Some line_no) \<Rightarrow>
               Some \<lparr>rh_file_ref = p, rh_line = line_no,
                     rh_matched = push_new [] (List.map_filter (\<lambda>sub. case sub of Some (Some t) \<Rightarrow> Some (lower t) | _ \<Rightarrow> None)
                       (case rg_submatches d of Some subs \<Rightarrow> subs | None \<Rightarrow> []))\<rparr>
           | _ \<Rightarrow> None))"

definition classify_line :: "(string \<Rightarrow> string) \<Rightarrow> (string \<Rightarrow> rg_event option) \<Rightarrow> string \<Rightarrow> parsed_line" where
  "classify_line lower json l =
     (case json l of
        None \<Rightarrow> Malformed
      | Some evt \<Rightarrow>
          if rg_kind evt \<noteq> ''match'' then NotMatch
          else (case parse_match_hit lower (rg_data evt) of Some hit \<Rightarrow> PlHit hit | None \<Rightarrow> Malformed))"

text \<open>The standard output l by l, up to \<open>max_hits\<close>: the hits, whether the cap was met, the malformed events.\<close>

fun collect_rg ::
  "canonicalizer \<Rightarrow> (string \<Rightarrow> parsed_line) \<Rightarrow> nat \<Rightarrow> ripgrep_hit list \<Rightarrow> nat \<Rightarrow> (io_kind, string) result list \<Rightarrow>
   (ripgrep_hit list \<times> bool \<times> nat) hall_result" where
  "collect_rg canon kind_of max_hits hits unparseable [] = Ok (hits, False, unparseable)"
| "collect_rg canon kind_of max_hits hits unparseable (Err e # ls) = Err (EIo e)"
| "collect_rg canon kind_of max_hits hits unparseable (Ok l # ls) =
     (case (case kind_of l of
              PlHit hit \<Rightarrow>
                (hits @ [hit\<lparr>rh_file_ref := path_lossy (canonicalize_or_passthrough canon (components (rh_file_ref hit)))\<rparr>],
                 unparseable)
            | Malformed \<Rightarrow> (hits, unparseable + 1)
            | NotMatch \<Rightarrow> (hits, unparseable)) of
        (hits, unparseable) \<Rightarrow>
          if max_hits \<le> length hits then Ok (hits, True, unparseable)
          else collect_rg canon kind_of max_hits hits unparseable ls)"

definition MIN_FILES_SPREAD :: nat where
  "MIN_FILES_SPREAD = 10"

record rg_status =
  st_success :: bool
  st_code :: "int option"
  st_text :: string

record rg_child =
  ch_stdout :: "(io_kind, string) result list"
  ch_wait :: "bool \<Rightarrow> (io_kind, rg_status) result"
  ch_stderr :: string
  ch_elapsed_ms :: nat

definition rg_arguments :: "string list \<Rightarrow> string list \<Rightarrow> string list \<Rightarrow> nat \<Rightarrow> string list" where
  "rg_arguments paths terms globs max_hits =
     (let per_file_cap = max ((max_hits + MIN_FILES_SPREAD - 1) div MIN_FILES_SPREAD) (length terms)
      in [''--json'', ''--no-heading'', ''--fixed-strings'', ''--sort'', ''path'', ''--ignore-case'', ''--max-columns'', ''512'',
          ''--max-count'', show_nat per_file_cap]
         @ concat (map (\<lambda>t. [''-e'', t]) terms) @ concat (map (\<lambda>g. [''--glob'', g]) globs) @ [''--''] @ paths)"

definition run_ripgrep ::
  "canonicalizer \<Rightarrow> (string \<Rightarrow> parsed_line) \<Rightarrow> (string list \<Rightarrow> (io_kind, rg_child) result) \<Rightarrow>
   string list \<Rightarrow> string list \<Rightarrow> string list \<Rightarrow> nat \<Rightarrow> ripgrep_run hall_result" where
  "run_ripgrep canon kind_of spawn paths terms globs max_hits =
     (if paths = [] \<or> terms = [] \<or> max_hits = 0
      then Ok \<lparr>rr_hits = [], rr_truncated = False, rr_elapsed_ms = 0, rr_unparseable = 0\<rparr>
      else case spawn (rg_arguments paths terms globs max_hits) of
             Err e \<Rightarrow> Err (EIo e)
           | Ok child \<Rightarrow>
               result_bind (collect_rg canon kind_of max_hits [] 0 (ch_stdout child)) (\<lambda>(hits, limit_reached, unparseable).
                 case ch_wait child limit_reached of
                   Err e \<Rightarrow> Err (EIo e)
                 | Ok outcome \<Rightarrow>
                     if \<not> st_success outcome \<and> hits = [] \<and> st_code outcome \<noteq> Some 1
                     then Err (ESearch (''rg failed ('' @ st_text outcome @ ''): '' @ trim (ch_stderr child)))
                     else Ok \<lparr>rr_hits = hits, rr_truncated = limit_reached, rr_elapsed_ms = ch_elapsed_ms child,
                              rr_unparseable = unparseable\<rparr>))"

subsection \<open>The line-window fallback\<close>

definition WINDOW_RADIUS :: nat where "WINDOW_RADIUS = 3"
definition MAX_READ_BYTES :: nat where "MAX_READ_BYTES = 4 * 1024 * 1024"
definition MAX_LINE_CHARS :: nat where "MAX_LINE_CHARS = 512"

record file_match =
  fm_terms :: "string list"
  fm_first_line :: nat

text \<open>A \<open>BTreeMap\<close>: entries sorted by key.\<close>

fun upsert_sorted :: "'k::linorder \<Rightarrow> ('v option \<Rightarrow> 'v) \<Rightarrow> ('k \<times> 'v) list \<Rightarrow> ('k \<times> 'v) list" where
  "upsert_sorted k f [] = [(k, f None)]"
| "upsert_sorted k f ((k', v) # es) =
     (if k < k' then (k, f None) # (k', v) # es
      else if k = k' then (k, f (Some v)) # es
      else (k', v) # upsert_sorted k f es)"

definition add_match :: "ripgrep_hit \<Rightarrow> (string \<times> file_match) list \<Rightarrow> (string \<times> file_match) list" where
  "add_match h by_file =
     upsert_sorted (rh_file_ref h)
       (\<lambda>old. let entry = (case old of Some e \<Rightarrow> e | None \<Rightarrow> \<lparr>fm_terms = [], fm_first_line = rh_line h\<rparr>)
              in \<lparr>fm_terms = push_new (fm_terms entry) (rh_matched h), fm_first_line = min (fm_first_line entry) (rh_line h)\<rparr>)
       by_file"

definition truncate_line :: "string \<Rightarrow> string" where
  "truncate_line t = take_chars MAX_LINE_CHARS t"

definition split_under_root :: "path \<Rightarrow> path \<Rightarrow> (path \<times> path) option" where
  "split_under_root root p =
     (if p = root
      then (case (path_file_name p, path_parent root) of
              (Some name, Some parent) \<Rightarrow> Some (parent, [Normal name])
            | _ \<Rightarrow> None)
      else if starts_with root p then Some (root, drop (length root) p) else None)"

record line_window =
  lw_lines :: "string list"
  lw_last_line :: nat
  lw_mtime_ms :: int

text \<open>The lines of a reader, the first with number \<open>number + 1\<close>; a line that is not UTF-8 ends it with \<open>None\<close>.\<close>

fun window_lines :: "nat \<Rightarrow> nat \<Rightarrow> nat \<Rightarrow> string list \<Rightarrow> string list \<Rightarrow> (string list \<times> nat) option" where
  "window_lines start wanted_end number window [] = Some (window, number)"
| "window_lines start wanted_end number window (l # ls) =
     (if wanted_end \<le> number then Some (window, number)
      else if \<not> utf8_valid l then None
      else window_lines start wanted_end (number + 1)
             (if start \<le> number + 1 then window @ [truncate_line l] else window) ls)"

text \<open>A file opened below a directory: its bytes and its modification time, when it has one.\<close>

type_synonym file_opener = "path \<Rightarrow> path \<Rightarrow> (string \<times> int option) option"

definition read_window :: "file_opener \<Rightarrow> path \<Rightarrow> string \<Rightarrow> nat \<Rightarrow> nat \<Rightarrow> line_window option" where
  "read_window opener root file_ref start wanted_end =
     (case split_under_root root (components file_ref) of
        None \<Rightarrow> None
      | Some (base, relative) \<Rightarrow>
          (case opener base relative of
             None \<Rightarrow> None
           | Some (content, modified) \<Rightarrow>
               map_option (\<lambda>(window, number).
                   \<lparr>lw_lines = window, lw_last_line = number,
                    lw_mtime_ms = (case Option.bind modified epoch_millis of Some t \<Rightarrow> t | None \<Rightarrow> 0)\<rparr>)
                 (window_lines start wanted_end 0 [] (lines_of (take MAX_READ_BYTES content)))))"

definition window_hit ::
  "'f float_ops \<Rightarrow> file_opener \<Rightarrow> corpus_key \<Rightarrow> string \<Rightarrow> nat \<Rightarrow> ('f, 'g) search_hit option" where
  "window_hit fo opener key file_ref n =
     (if n = 0 then None
      else
        let start = max (n - WINDOW_RADIUS) 1; wanted_end = n + WINDOW_RADIUS
        in case read_window opener (canonical_root key) file_ref start wanted_end of
             None \<Rightarrow> None
           | Some w \<Rightarrow>
               if lw_last_line w < n then None
               else let t = join_str [NL] (lw_lines w)
                    in Some \<lparr>sh_chunk_id = ''lexical-fallback:'' @ file_ref @ '':'' @ show_nat start, sh_corpus_key = key,
                             sh_file_ref = file_ref, sh_heading_path = [], sh_line_start = start,
                             sh_line_end = lw_last_line w, sh_text = t, sh_search_text = t,
                             sh_summary = file_name file_ref, sh_keywords = [], sh_score = fl_lit fo 0 0,
                             sh_mtime_ms = lw_mtime_ms w, sh_claim_marks = [], sh_structure = None,
                             sh_overlap_bytes = 0, sh_z_score = None\<rparr>)"

definition line_window_hits ::
  "'f float_ops \<Rightarrow> file_opener \<Rightarrow> corpus_key \<Rightarrow> ripgrep_hit list \<Rightarrow> nat \<Rightarrow> ('f, 'g) search_hit list" where
  "line_window_hits fo opener key hits limit =
     (let ordered = sort_key (\<lambda>(_, found). - int (length (fm_terms found))) (fold add_match hits [])
      in take limit (List.map_filter (\<lambda>(file_ref, found). window_hit fo opener key file_ref (fm_first_line found)) ordered))"

subsection \<open>Warning codes\<close>

definition LEXICAL_FALLBACK :: string where "LEXICAL_FALLBACK = ''lexical-fallback''"
definition LEXICAL_FALLBACK_TRUNCATED :: string where "LEXICAL_FALLBACK_TRUNCATED = ''lexical-fallback-truncated''"
definition LEXICAL_FALLBACK_FAILED :: string where "LEXICAL_FALLBACK_FAILED = ''lexical-fallback-failed''"
definition LEXICAL_FALLBACK_TIMEOUT :: string where "LEXICAL_FALLBACK_TIMEOUT = ''lexical-fallback-timeout''"
definition RIPGREP_UNRESOLVED :: string where "RIPGREP_UNRESOLVED = ''ripgrep-unresolved''"
definition RIPGREP_UNPARSEABLE :: string where "RIPGREP_UNPARSEABLE = ''ripgrep-unparseable''"
definition RIPGREP_FAILED :: string where "RIPGREP_FAILED = ''ripgrep-failed''"
definition RIPGREP_TIMED_OUT :: string where "RIPGREP_TIMED_OUT = ''ripgrep-timeout''"
definition RERANK_TIMEOUT :: string where "RERANK_TIMEOUT = ''rerank-timeout''"
definition CROSSENCODER_UNAVAILABLE :: string where "CROSSENCODER_UNAVAILABLE = ''crossencoder-unavailable''"
definition PHRASE_TRUNCATED :: string where "PHRASE_TRUNCATED = ''phrase-truncated''"
definition COUNTS_TRUNCATED :: string where "COUNTS_TRUNCATED = ''counts-truncated''"

subsection \<open>The signals of a root\<close>

record ('f, 'g) signal_lists =
  sl_fts :: "string list"
  sl_vector :: "string list"
  sl_fts_scores :: "(string \<times> 'f) list"
  sl_vector_distances :: "(string \<times> 'f) list"
  sl_hits :: "(string \<times> ('f, 'g) search_hit) list"

record 'f signal_entry =
  se_chunk_id :: string
  se_strength :: "'f option"

record ('f, 'g) root_signals =
  rs_corpus :: string
  rs_fts :: "'f signal_entry list"
  rs_vector :: "'f signal_entry list"
  rs_rg :: "'f signal_entry list"
  rs_contains :: "'f signal_entry list"
  rs_hits :: "(string \<times> ('f, 'g) search_hit) list"
  rs_warnings :: "warning list"
  rs_unpooled_files :: "string list option"

definition root_signals_default :: "('f, 'g) root_signals" where
  "root_signals_default =
     \<lparr>rs_corpus = [], rs_fts = [], rs_vector = [], rs_rg = [], rs_contains = [], rs_hits = [], rs_warnings = [],
      rs_unpooled_files = None\<rparr>"

datatype rg_outcome = RgRun "ripgrep_run hall_result" | RgElapsed

text \<open>\<open>sv_rg_first\<close> says whether ripgrep ends before the store answers.\<close>

record ('f, 'g) search_env =
  sv_floats :: "'f float_ops"
  sv_words :: word_env
  sv_hash_scores :: "'f scores \<Rightarrow> 'f scores"
  sv_hash_counts :: "(string \<times> nat) list \<Rightarrow> (string \<times> nat) list"
  sv_hash_files :: "string list \<Rightarrow> string list"
  sv_rg :: "string list \<Rightarrow> string list \<Rightarrow> string list \<Rightarrow> nat \<Rightarrow> rg_outcome"
  sv_rg_first :: "corpus_key \<Rightarrow> bool"
  sv_exists :: "path \<Rightarrow> (io_kind, bool) result"
  sv_opener :: file_opener
  sv_error_text :: "hall_error \<Rightarrow> string"
  sv_retrieve :: "corpus_key \<Rightarrow> string \<Rightarrow> nat \<Rightarrow> ('f, 'g) signal_lists hall_result"

definition RIPGREP_TIMEOUT_MS :: nat where
  "RIPGREP_TIMEOUT_MS = 1000"

definition MAX_QUERY_TERMS :: nat where
  "MAX_QUERY_TERMS = 32"

definition cap_terms :: "string list \<Rightarrow> string list" where
  "cap_terms terms = take MAX_QUERY_TERMS terms"

definition raw_entries :: "string list \<Rightarrow> (string \<times> 'f) list \<Rightarrow> ('f \<Rightarrow> 'f) \<Rightarrow> 'f signal_entry list" where
  "raw_entries ids raw strength =
     map (\<lambda>cid. \<lparr>se_chunk_id = cid, se_strength = map_option strength (map_of raw cid)\<rparr>) ids"

record rg_resolve_stats =
  dropped_file_not_in_pool :: nat
  dropped_line_out_of_range :: nat

fun add_terms :: "string \<Rightarrow> string list \<Rightarrow> (string \<times> string list) list \<Rightarrow> (string \<times> string list) list" where
  "add_terms cid terms [] = [(cid, push_new [] terms)]"
| "add_terms cid terms ((i, ts) # ms) =
     (if i = cid then (i, push_new ts terms) # ms else (i, ts) # add_terms cid terms ms)"

definition resolve_rg_hit ::
  "('f, 'g) search_hit list \<Rightarrow> ripgrep_hit \<Rightarrow> (string \<times> string list) list \<times> rg_resolve_stats \<Rightarrow>
   (string \<times> string list) list \<times> rg_resolve_stats" where
  "resolve_rg_hit pool h acc =
     (case acc of (matched, stats) \<Rightarrow>
        let candidates = filter (\<lambda>chunk. sh_file_ref chunk = rh_file_ref h) pool;
            holding = filter (\<lambda>chunk. sh_line_start chunk \<le> rh_line h \<and> rh_line h \<le> sh_line_end chunk) candidates
        in if candidates = []
           then (matched, stats\<lparr>dropped_file_not_in_pool := dropped_file_not_in_pool stats + 1\<rparr>)
           else (fold (\<lambda>chunk. add_terms (sh_chunk_id chunk) (rh_matched h)) holding matched,
                 if holding = []
                 then stats\<lparr>dropped_line_out_of_range := dropped_line_out_of_range stats + 1\<rparr> else stats))"

definition resolve_rg_hits_to_chunks ::
  "(string \<times> ('f, 'g) search_hit) list \<Rightarrow> ripgrep_hit list \<Rightarrow> (string \<times> nat) list \<times> rg_resolve_stats" where
  "resolve_rg_hits_to_chunks pool rg_hits =
     (case fold (resolve_rg_hit (map snd pool)) rg_hits
             ([], \<lparr>dropped_file_not_in_pool = 0, dropped_line_out_of_range = 0\<rparr>) of
        (matched, stats) \<Rightarrow> (map (\<lambda>(cid, terms). (cid, length terms)) matched, stats))"

definition contains_term_counts :: "(string \<times> ('f, 'g) search_hit) list \<Rightarrow> string list \<Rightarrow> (string \<times> nat) list" where
  "contains_term_counts hits terms =
     filter (\<lambda>(_, n). 0 < n)
       (map (\<lambda>(cid, hit). (cid, length (filter (\<lambda>t. occurs t (sh_search_text hit)) terms))) hits)"

definition tie_break_key :: "string \<Rightarrow> (string \<times> ('f, 'g) search_hit) list \<Rightarrow> path \<Rightarrow> string \<times> nat \<times> string" where
  "tie_break_key cid hits root =
     (case map_of hits cid of Some hit \<Rightarrow> hit_tie_break_key hit root | None \<Rightarrow> (cid, 0, cid))"

definition ranked_by_term_count ::
  "('f, 'g) search_env \<Rightarrow> (string \<times> nat) list \<Rightarrow> (string \<times> ('f, 'g) search_hit) list \<Rightarrow> path \<Rightarrow> 'f signal_entry list" where
  "ranked_by_term_count env counts hits root =
     map (\<lambda>(cid, n). \<lparr>se_chunk_id = cid, se_strength = Some (fl_nat (sv_floats env) n)\<rparr>)
       (sort_key (\<lambda>(cid, n). (- int n, tie_break_key cid hits root))
          (filter (\<lambda>(_, n). 0 < n) (sv_hash_counts env counts)))"

definition resolve_rg_run ::
  "('f, 'g) search_env \<Rightarrow> rg_outcome \<Rightarrow> path \<Rightarrow> ripgrep_hit list \<times> bool \<times> nat \<times> nat \<times> warning list" where
  "resolve_rg_run env res root =
     (case res of
        RgRun (Ok run) \<Rightarrow> (rr_hits run, rr_truncated run, rr_elapsed_ms run, rr_unparseable run, [])
      | RgRun (Err e) \<Rightarrow>
          ([], False, 0, 0,
           [\<lparr>warning_code = RIPGREP_FAILED,
             warning_message = ''ripgrep pass failed in corpus root '' @ path_lossy root @ '' ('' @ sv_error_text env e @
               ''); ranking without the ripgrep signal''\<rparr>])
      | RgElapsed \<Rightarrow>
          ([], False, RIPGREP_TIMEOUT_MS, 0,
           [\<lparr>warning_code = RIPGREP_TIMED_OUT,
             warning_message = ''ripgrep pass timed out after '' @ show_nat RIPGREP_TIMEOUT_MS @
               '' ms; ranking without the ripgrep signal''\<rparr>]))"

definition show_flag :: "bool \<Rightarrow> string" where
  "show_flag b = (if b then ''true'' else ''false'')"

definition gather_signals ::
  "('f, 'g) search_env \<Rightarrow> corpus_key \<Rightarrow> string \<Rightarrow> string list \<Rightarrow> nat \<Rightarrow> string list option \<Rightarrow>
   ('f, 'g) root_signals hall_result" where
  "gather_signals env key query globs limit indexed =
     (let terms = cap_terms (split_terms (sv_words env) query);
          root = canonical_root key;
          roots = (if sv_exists env root = Ok False then [] else [path_lossy root]);
          rg_res = sv_rg env roots terms globs limit
      in result_bind (sv_retrieve env key query limit) (\<lambda>signals.
         if sl_hits signals = [] \<and> \<not> sv_rg_first env key \<and> indexed = Some [] then Ok root_signals_default
         else case resolve_rg_run env rg_res root of
           (rg_hits, rg_truncated, rg_elapsed_ms, rg_unparseable, warnings) \<Rightarrow>
           if sl_hits signals = [] then Ok (root_signals_default\<lparr>rs_warnings := warnings\<rparr>)
           else case resolve_rg_hits_to_chunks (sl_hits signals) rg_hits of
             (counts, stats) \<Rightarrow>
             let unresolved = (rg_hits \<noteq> [] \<and> counts = [])
             in Ok \<lparr>rs_corpus = ck_name key,
                   rs_fts = raw_entries (sl_fts signals) (sl_fts_scores signals) (\<lambda>score. score),
                   rs_vector = raw_entries (sl_vector signals) (sl_vector_distances signals) (fl_neg (sv_floats env)),
                   rs_rg = ranked_by_term_count env counts (sl_hits signals) root,
                   rs_contains = ranked_by_term_count env (contains_term_counts (sl_hits signals) terms) (sl_hits signals) root,
                   rs_hits = sl_hits signals,
                   rs_warnings = warnings
                     @ (if unresolved
                        then [\<lparr>warning_code = RIPGREP_UNRESOLVED,
                               warning_message = ''ripgrep signal produced '' @ show_nat (length rg_hits) @
                                 '' hits but resolved to zero chunks in corpus root '' @ path_lossy root @
                                 ''; dropped_file_not_in_pool='' @ show_nat (dropped_file_not_in_pool stats) @
                                 '', dropped_line_out_of_range='' @ show_nat (dropped_line_out_of_range stats) @
                                 '', truncated='' @ show_flag rg_truncated\<rparr>] else [])
                     @ (if 0 < rg_unparseable
                        then [\<lparr>warning_code = RIPGREP_UNPARSEABLE,
                               warning_message = ''ripgrep produced '' @ show_nat rg_unparseable @
                                 '' unparseable match events in corpus root '' @ path_lossy root\<rparr>] else []),
                   rs_unpooled_files =
                     (if unresolved \<and> dropped_line_out_of_range stats = 0
                      then Some (sort (remdups (map rh_file_ref rg_hits))) else None)\<rparr>))"

subsection \<open>Fusing roots\<close>

record 'f merged_entry =
  me_key :: string
  me_strength :: "'f option"
  me_priority :: bool
  me_rank :: nat
  me_root :: nat

definition merged_cmp :: "'f float_ops \<Rightarrow> 'f merged_entry \<Rightarrow> 'f merged_entry \<Rightarrow> ordering" where
  "merged_cmp fo a b =
     then_with (case (me_strength a, me_strength b) of
                  (Some l, Some r) \<Rightarrow> fl_total_cmp fo r l
                | _ \<Rightarrow> Equal)
       (then_with (cmp_of (me_priority b) (me_priority a))
         (then_with (cmp_of (me_rank a) (me_rank b)) (cmp_of (me_root a) (me_root b))))"

definition merge_signal :: "'f float_ops \<Rightarrow> 'f merged_entry list \<Rightarrow> string list" where
  "merge_signal fo entries = map me_key (sort_cmp (merged_cmp fo) entries)"

definition report_raw_scores :: "('f, 'g) root_signals list \<Rightarrow> bool" where
  "report_raw_scores roots \<longleftrightarrow>
     list_all (\<lambda>root. list_all (\<lambda>entry. se_strength entry \<noteq> None) (rs_fts root @ rs_vector root)) roots"

definition heading_overlap :: "word_env \<Rightarrow> string list \<Rightarrow> string \<Rightarrow> nat" where
  "heading_overlap env terms heading =
     (let heading_terms = split_terms env heading;
          overlap = length (filter (\<lambda>t. t \<in> set heading_terms) terms)
      in if heading_terms = [] then 0
         else if 1 < length terms \<and> overlap < 2 then 0
         else if overlap * 2 < length terms \<or> overlap * 2 < length heading_terms then 0
         else overlap)"

text \<open>The overlaps of one chunk with the title and with the section headings.\<close>

definition title_overlap :: "word_env \<Rightarrow> string list \<Rightarrow> chunk_structure \<Rightarrow> nat" where
  "title_overlap env terms cs = (case cs_title cs of Some t \<Rightarrow> heading_overlap env terms t | None \<Rightarrow> 0)"

definition section_overlap :: "word_env \<Rightarrow> string list \<Rightarrow> chunk_structure \<Rightarrow> nat" where
  "section_overlap env terms cs =
     fold (\<lambda>(level, heading) best. if 1 < level then max best (heading_overlap env terms heading) else best) (cs_headings cs) 0"

definition structural_lists ::
  "'f float_ops \<Rightarrow> word_env \<Rightarrow> (string \<times> ('f, 'g) search_hit) list \<Rightarrow> string list \<Rightarrow> (string \<times> 'f) list \<Rightarrow> 'f ranked_list list" where
  "structural_lists fo env hits terms baseline =
     (if terms = [] then []
      else
        let found = List.map_filter (\<lambda>(rank, cid, _).
              map_option (\<lambda>hit. (rank, cid, sh_structure hit)) (map_of hits cid)) (List.enumerate 0 baseline);
            titles = List.map_filter (\<lambda>(rank, cid, st). case st of
                Some cs \<Rightarrow> if 0 < title_overlap env terms cs then Some (title_overlap env terms cs, rank, cid) else None
              | None \<Rightarrow> None) found;
            sections = List.map_filter (\<lambda>(rank, cid, st). case st of
                Some cs \<Rightarrow> if title_overlap env terms cs < section_overlap env terms cs
                           then Some (section_overlap env terms cs, rank, cid) else None
              | None \<Rightarrow> None) found;
            authored = List.map_filter (\<lambda>(rank, cid, st). case st of
                Some cs \<Rightarrow> if generated_navigation cs then None else Some cid
              | None \<Rightarrow> Some cid) found;
            by_overlap = sort_key (\<lambda>(overlap, rank, _). (- int overlap, rank))
        in [\<lparr>rl_weight = fl_lit fo 5 1, rl_chunk_ids = map (\<lambda>(_, _, cid). cid) (by_overlap titles)\<rparr>,
            \<lparr>rl_weight = fl_lit fo 35 2, rl_chunk_ids = map (\<lambda>(_, _, cid). cid) (by_overlap sections)\<rparr>,
            \<lparr>rl_weight = fl_lit fo 35 2, rl_chunk_ids = authored\<rparr>])"

definition root_key :: "nat \<Rightarrow> string \<Rightarrow> string" where
  "root_key root cid = show_nat root @ ''/'' @ cid"

definition merged_entries ::
  "string option \<Rightarrow> (('f, 'g) root_signals \<Rightarrow> 'f signal_entry list) \<Rightarrow> ('f, 'g) root_signals list \<Rightarrow> 'f merged_entry list" where
  "merged_entries priority_corpus sel roots =
     concat (map (\<lambda>(root, signals).
       map (\<lambda>(rank, entry). \<lparr>me_key = root_key root (se_chunk_id entry), me_strength = se_strength entry,
                              me_priority = (priority_corpus = Some (rs_corpus signals)), me_rank = rank, me_root = root\<rparr>)
         (List.enumerate 0 (sel signals))) (List.enumerate 0 roots))"

definition fuse_together ::
  "('f, 'g) search_env \<Rightarrow> ('f, 'g) root_signals list \<Rightarrow> string list \<Rightarrow> string option \<Rightarrow> ('f, 'g) search_hit list" where
  "fuse_together env roots terms priority_corpus =
     (let fo = sv_floats env;
          signal = (\<lambda>weight sel. \<lparr>rl_weight = weight, rl_chunk_ids = merge_signal fo (merged_entries priority_corpus sel roots)\<rparr>);
          hits = concat (map (\<lambda>(root, signals). map (\<lambda>(cid, hit). (root_key root cid, hit)) (rs_hits signals)) (List.enumerate 0 roots));
          ranked = [signal (FTS_WEIGHT fo) rs_fts, signal (VECTOR_WEIGHT fo) rs_vector, signal (RIPGREP_WEIGHT fo) rs_rg,
                    signal (CONTAINS_WEIGHT fo) rs_contains];
          baseline = fuse fo (sv_hash_scores env) ranked (RRF_K fo);
          fused = fuse fo (sv_hash_scores env) (ranked @ structural_lists fo (sv_words env) hits terms baseline) (RRF_K fo)
      in List.map_filter (\<lambda>(key, score). map_option (\<lambda>hit. hit\<lparr>sh_score := score\<rparr>) (map_of hits key)) fused)"

definition fuse_roots ::
  "('f, 'g) search_env \<Rightarrow> ('f, 'g) root_signals list \<Rightarrow> string \<Rightarrow> string option \<Rightarrow> ('f, 'g) search_hit list" where
  "fuse_roots env roots query priority_corpus =
     (let terms = cap_terms (split_terms (sv_words env) query)
      in if report_raw_scores roots then fuse_together env roots terms priority_corpus
         else concat (map (\<lambda>root. fuse_together env [root] terms priority_corpus) roots))"

definition search_fused_indexed ::
  "('f, 'g) search_env \<Rightarrow> corpus_key \<Rightarrow> string \<Rightarrow> string list \<Rightarrow> nat \<Rightarrow> string list option \<Rightarrow> ('f, 'g) fused_search hall_result" where
  "search_fused_indexed env key query globs limit indexed =
     result_bind (gather_signals env key query globs limit indexed) (\<lambda>signals.
       Ok \<lparr>fused_hits = fuse_roots env [signals\<lparr>rs_warnings := []\<rparr>] query None, fused_warnings = rs_warnings signals\<rparr>)"

text \<open>What the store says of the files it has indexed.\<close>

definition search_fused ::
  "('f, 'g) search_env \<Rightarrow> (corpus_key \<Rightarrow> string list option hall_result) \<Rightarrow> corpus_key \<Rightarrow> string \<Rightarrow> string list \<Rightarrow> nat \<Rightarrow>
   ('f, 'g) fused_search hall_result" where
  "search_fused env load_root_index key query globs limit =
     search_fused_indexed env key query globs limit (case load_root_index key of Ok index \<Rightarrow> index | Err _ \<Rightarrow> None)"

subsection \<open>Files that are not indexed\<close>

definition FALLBACK_MAX_FILES :: nat where
  "FALLBACK_MAX_FILES = 1000"

definition unindexed_candidates :: "string list \<Rightarrow> string list \<Rightarrow> string list \<times> nat" where
  "unindexed_candidates eligible indexed =
     (let candidates = sort (filter (\<lambda>f. f \<notin> set indexed) eligible)
      in (take FALLBACK_MAX_FILES candidates, length candidates - FALLBACK_MAX_FILES))"

definition lexical_fallback_search ::
  "('f, 'g) search_env \<Rightarrow> corpus_key \<Rightarrow> string \<Rightarrow> string list \<Rightarrow> string list option \<Rightarrow> nat \<Rightarrow> ('f, 'g) fused_search" where
  "lexical_fallback_search env key query eligible indexed limit =
     (let terms = cap_terms (split_terms (sv_words env) query); nothing = \<lparr>fused_hits = [], fused_warnings = []\<rparr>;
          root = path_lossy (canonical_root key)
      in case indexed of
           None \<Rightarrow> nothing
         | Some indexed \<Rightarrow>
             if eligible = [] \<or> terms = [] then nothing
             else case unindexed_candidates (sv_hash_files env eligible) indexed of
               (candidates, dropped) \<Rightarrow>
               if candidates = [] then nothing
               else
                 let budget = min (limit * length terms) (2 ^ 64 - 1);
                     truncated = (if 0 < dropped
                       then [\<lparr>warning_code = LEXICAL_FALLBACK_TRUNCATED,
                              warning_message = show_nat dropped @ '' unindexed file(s) in corpus root '' @ root @
                                '' were not searched; the lexical fallback covers '' @ show_nat FALLBACK_MAX_FILES @
                                '' files per query''\<rparr>] else []);
                     searched = (case sv_rg env (map to_string_lossy candidates) terms [] budget of
                         RgRun (Ok run) \<Rightarrow> (rr_hits run, [])
                       | RgRun (Err e) \<Rightarrow>
                           ([], [\<lparr>warning_code = LEXICAL_FALLBACK_FAILED,
                                 warning_message = ''lexical fallback ripgrep pass failed in corpus root '' @ root @ '' ('' @
                                   sv_error_text env e @ ''); unindexed files were not searched''\<rparr>])
                       | RgElapsed \<Rightarrow>
                           ([], [\<lparr>warning_code = LEXICAL_FALLBACK_TIMEOUT,
                                 warning_message = ''lexical fallback ripgrep pass timed out after '' @
                                   show_nat RIPGREP_TIMEOUT_MS @ '' ms in corpus root '' @ root @
                                   ''; unindexed files were not searched''\<rparr>]));
                     scoped = filter (\<lambda>h. components (rh_file_ref h) \<in> set (map components candidates)) (fst searched);
                     hits = line_window_hits (sv_floats env) (sv_opener env) key scoped limit
                 in \<lparr>fused_hits = hits,
                     fused_warnings = truncated @ snd searched
                       @ (if hits \<noteq> []
                          then [\<lparr>warning_code = LEXICAL_FALLBACK,
                                 warning_message = show_nat (length hits) @ '' file(s) in corpus root '' @ root @
                                   '' have no indexed rows; returning ripgrep line-window hits ranked after indexed hits''\<rparr>]
                          else [])\<rparr>)"

text \<open>\<open>f32::min\<close> keeps the other operand when one is not a number.\<close>

definition rank_after ::
  "'f float_ops \<Rightarrow> ('f, 'g) search_hit list \<Rightarrow> ('f, 'g) search_hit list \<Rightarrow> ('f, 'g) search_hit list" where
  "rank_after fo fallback fused =
     (let floor = fold (\<lambda>hit floor. fl_min fo floor (sh_score hit)) fused (fl_div fo (RIPGREP_WEIGHT fo) (RRF_K fo))
      in map (\<lambda>(rank, hit).
           let step = fl_nat fo (rank + 1)
           in hit\<lparr>sh_score := (if fl_less fo (fl_lit fo 0 0) floor
                              then fl_div fo (fl_mul fo floor (fl_lit fo 5 1)) step
                              else fl_sub fo floor step)\<rparr>) (List.enumerate 0 fallback))"

end
