(* ===== verification/Fusion_Laws.thy ===== *)
theory Fusion_Laws
  imports Fusion
begin

text \<open>
  What rank fusion computes. The accumulation over hash maps is compared with a definition of the score
  of each chunk by itself; the order of the result does not depend on the iteration order of the map.
\<close>

subsection \<open>Sorting\<close>

lemma sorted_perm_unique:
  assumes "sorted_wrt le xs" "sorted_wrt le ys" "mset xs = mset ys"
    "\<And>a b. a \<in> set xs \<Longrightarrow> b \<in> set xs \<Longrightarrow> le a b \<Longrightarrow> le b a \<Longrightarrow> a = b"
  shows "xs = ys"
  using assms
proof (induction xs arbitrary: ys)
  case (Cons x xs)
  then obtain y ys' where ys: "ys = y # ys'" by (cases ys) auto
  have "x = y"
  proof (rule ccontr)
    assume neq: "x \<noteq> y"
    have sets: "set (x # xs) = set (y # ys')" using Cons.prems(3) ys by (metis set_mset_mset)
    have "y \<in> set xs" "x \<in> set ys'" using sets neq by auto
    then have "le x y" "le y x" using Cons.prems(1,2) ys by auto
    then show False using Cons.prems(4) [of x y] \<open>y \<in> set xs\<close> neq by simp
  qed
  then show ?case using Cons ys by auto
qed simp

lemma insert_by_map: "insert_by le (f x) (map f xs) = map f (insert_by (\<lambda>a b. le (f a) (f b)) x xs)"
  by (induction xs) auto

lemma sort_by_map: "sort_by le (map f xs) = map f (sort_by (\<lambda>a b. le (f a) (f b)) xs)"
  by (induction xs) (simp_all add: sort_by_def insert_by_map)

lemma sort_by_set [simp]: "set (sort_by le xs) = set xs"
  by (metis set_mset_mset sort_by_mset)

subsection \<open>The score of one chunk\<close>

definition add_to :: "'f float_ops \<Rightarrow> 'f \<Rightarrow> ('f \<times> nat) option \<Rightarrow> 'f \<times> nat" where
  "add_to fo c old = (case old of None \<Rightarrow> (fl_add fo (fl_lit fo 0 0) c, 1) | Some (s, n) \<Rightarrow> (fl_add fo s c, n + 1))"

definition rank_of :: "string \<Rightarrow> string list \<Rightarrow> nat" where
  "rank_of cid ids = length (takeWhile (\<lambda>i. i \<noteq> cid) ids)"

text \<open>
  The score and the number of signals of a chunk: the sum, in the order of the lists, of \<open>weight / (rank + k)\<close>
  over the lists that hold it, each at its first rank.
\<close>

definition rrf_score :: "'f float_ops \<Rightarrow> 'f \<Rightarrow> 'f ranked_list list \<Rightarrow> string \<Rightarrow> ('f \<times> nat) option" where
  "rrf_score fo k ranked cid =
     fold (\<lambda>l acc. Some (add_to fo (fl_div fo (rl_weight l) (fl_add fo (fl_nat fo (rank_of cid (rl_chunk_ids l))) k)) acc))
       (filter (\<lambda>l. cid \<in> set (rl_chunk_ids l)) ranked) None"

definition rrf_entry :: "'f float_ops \<Rightarrow> 'f \<Rightarrow> 'f ranked_list list \<Rightarrow> string \<Rightarrow> string \<times> 'f \<times> nat" where
  "rrf_entry fo k ranked cid = (cid, the (rrf_score fo k ranked cid))"

text \<open>Every chunk of the lists once, the greater score first, then the more signals, then the smaller id.\<close>

text \<open>The chunks of the lists: the greater score first, then those of more lists, then by id.\<close>

definition rrf_reference :: "'f float_ops \<Rightarrow> ('f \<Rightarrow> 'o::linorder) \<Rightarrow> 'f ranked_list list \<Rightarrow> 'f \<Rightarrow> (string \<times> 'f) list" where
  "rrf_reference fo val ranked k =
     map (\<lambda>cid. (cid, fst (the (rrf_score fo k ranked cid))))
       (sort_by (\<lambda>a b. case (the (rrf_score fo k ranked a), the (rrf_score fo k ranked b)) of
            ((s, n), (t, m)) \<Rightarrow> val t < val s \<or> val s = val t \<and> (m < n \<or> n = m \<and> a \<le> b))
          (remdups (concat (map rl_chunk_ids ranked))))"

lemma add_contribution_lookup:
  "map_of (add_contribution fo cid c es) x = (if x = cid then Some (add_to fo c (map_of es cid)) else map_of es x)"
  by (induction es) (auto simp: add_to_def)

lemma add_contribution_keys:
  "fst ` set (add_contribution fo cid c es) = insert cid (fst ` set es)"
  "distinct (map fst es) \<Longrightarrow> distinct (map fst (add_contribution fo cid c es))"
proof -
  show keys: "fst ` set (add_contribution fo cid c es) = insert cid (fst ` set es)" for es
  proof (induction es)
    case (Cons e es)
    then show ?case by (cases e) (simp add: insert_commute)
  qed simp
  show "distinct (map fst es) \<Longrightarrow> distinct (map fst (add_contribution fo cid c es))"
  proof (induction es)
    case (Cons e es)
    then show ?case using keys [of es] by (cases e) auto
  qed simp
qed

lemma fuse_list_lookup:
  "map_of (fuse_list fo k w rank seen ids scores) cid =
     (if cid \<in> set ids \<and> cid \<notin> set seen
      then Some (add_to fo (fl_div fo w (fl_add fo (fl_nat fo (rank + rank_of cid ids)) k)) (map_of scores cid))
      else map_of scores cid)"
proof (induction ids arbitrary: rank seen scores)
  case (Cons i ids)
  have "rank_of cid (i # ids) = (if i = cid then 0 else Suc (rank_of cid ids))" by (simp add: rank_of_def)
  then show ?case using Cons by (auto simp: add_contribution_lookup)
qed simp

lemma fuse_list_keys:
  "fst ` set (fuse_list fo k w rank seen ids scores) = fst ` set scores \<union> (set ids - set seen)"
  "distinct (map fst scores) \<Longrightarrow> distinct (map fst (fuse_list fo k w rank seen ids scores))"
  by (induction ids arbitrary: rank seen scores) (auto simp: add_contribution_keys)

lemma rrf_fold:
  fixes fo :: "'f float_ops" and k :: 'f
  defines "step \<equiv> \<lambda>l scores. fuse_list fo k (rl_weight l) 0 [] (rl_chunk_ids l) scores"
  shows "map_of (fold step ranked scores) cid =
      fold (\<lambda>l acc. Some (add_to fo (fl_div fo (rl_weight l) (fl_add fo (fl_nat fo (rank_of cid (rl_chunk_ids l))) k)) acc))
        (filter (\<lambda>l. cid \<in> set (rl_chunk_ids l)) ranked) (map_of scores cid)"
    and "fst ` set (fold step ranked scores) = fst ` set scores \<union> set (concat (map rl_chunk_ids ranked))"
    and "distinct (map fst scores) \<Longrightarrow> distinct (map fst (fold step ranked scores))"
  by (induction ranked arbitrary: scores) (auto simp: step_def fuse_list_lookup fuse_list_keys)

lemma rrf_scores:
  fixes fo :: "'f float_ops" and k :: 'f
  shows "mset (fold (\<lambda>l scores. fuse_list fo k (rl_weight l) 0 [] (rl_chunk_ids l) scores) ranked []) =
    mset (map (rrf_entry fo k ranked) (remdups (concat (map rl_chunk_ids ranked))))"
proof -
  define scores where "scores = fold (\<lambda>l scores. fuse_list fo k (rl_weight l) 0 [] (rl_chunk_ids l) scores) ranked []"
  have dist: "distinct (map fst scores)" and keys: "fst ` set scores = set (concat (map rl_chunk_ids ranked))"
    using rrf_fold(2,3) [where fo = fo and k = k and ranked = ranked and scores = "[]"] by (simp_all add: scores_def)
  have entry: "e = rrf_entry fo k ranked (fst e)" if "e \<in> set scores" for e
  proof -
    have "map_of scores (fst e) = Some (snd e)" using that dist by (simp add: map_of_is_SomeI)
    then have "rrf_score fo k ranked (fst e) = Some (snd e)"
      using rrf_fold(1) [where fo = fo and k = k and ranked = ranked and scores = "[]" and cid = "fst e"]
      by (simp add: rrf_score_def scores_def)
    then show ?thesis by (cases e) (simp add: rrf_entry_def)
  qed
  have "map (rrf_entry fo k ranked) (map fst scores) = scores"
    using entry by (simp add: map_idI o_def)
  then have "mset scores = image_mset (rrf_entry fo k ranked) (mset (map fst scores))"
    by (metis mset_map)
  also have "mset (map fst scores) = mset (remdups (concat (map rl_chunk_ids ranked)))"
    by (rule set_eq_iff_mset_eq_distinct [THEN iffD1]) (use dist keys in simp_all)
  finally show ?thesis unfolding scores_def by (simp only: mset_map)
qed

subsection \<open>Fusion\<close>

definition total_floats :: "'f float_ops \<Rightarrow> ('f \<Rightarrow> 'o::linorder) \<Rightarrow> bool" where
  "total_floats fo val \<longleftrightarrow> (\<forall>a b. fl_partial_cmp fo a b = Some (cmp_of (val a) (val b)))"

lemma fused_cmp_le:
  assumes "total_floats fo val"
  shows "fused_cmp fo a b \<noteq> Greater \<longleftrightarrow>
    val (fst (snd b)) < val (fst (snd a)) \<or> val (fst (snd a)) = val (fst (snd b)) \<and>
      (snd (snd b) < snd (snd a) \<or> snd (snd a) = snd (snd b) \<and> fst a \<le> fst b)"
  using assms by (auto simp: fused_cmp_def total_floats_def or_equal_def then_with_def cmp_of_def)

text \<open>
  C19. Rank fusion is the declarative one, whatever order its hash map iterates in: each chunk of the lists is
  returned once with the sum of \<open>weight / (rank + k)\<close> over the lists that hold it, at its first rank in each, the
  greater sum first and equal ones by the number of lists and then by id. The scores compare as a total order: none
  of them is not a number.
\<close>
theorem fuse_reference:
  fixes val :: "'f \<Rightarrow> 'o::linorder"
  assumes "total_floats fo val" "\<forall>es. mset (shuffle es) = mset es"
  shows "fuse fo shuffle ranked k = rrf_reference fo val ranked k"
proof -
  let ?le = "\<lambda>a b. fused_cmp fo a b \<noteq> Greater"
  let ?ids = "remdups (concat (map rl_chunk_ids ranked))"
  let ?scores = "fold (\<lambda>l scores. fuse_list fo k (rl_weight l) 0 [] (rl_chunk_ids l) scores) ranked []"
  note le = fused_cmp_le [OF assms(1)]
  have sorted: "sorted_wrt ?le (sort_by ?le xs)" for xs
    by (rule sort_by_sorted) (auto simp: le)
  have perm: "mset (sort_by ?le (shuffle ?scores)) = mset (sort_by ?le (map (rrf_entry fo k ranked) ?ids))"
    by (simp only: sort_by_mset assms(2) [rule_format] rrf_scores)
  have same: "sort_by ?le (shuffle ?scores) = sort_by ?le (map (rrf_entry fo k ranked) ?ids)"
  proof (rule sorted_perm_unique [OF sorted sorted perm])
    fix a b assume "a \<in> set (sort_by ?le (shuffle ?scores))" "b \<in> set (sort_by ?le (shuffle ?scores))" "?le a b" "?le b a"
    moreover from this have "fst a = fst b" by (auto simp: le)
    moreover have "set (sort_by ?le (shuffle ?scores)) = rrf_entry fo k ranked ` set ?ids"
      using arg_cong [OF perm, of set_mset] by (simp only: set_mset_mset sort_by_set list.set_map)
    ultimately show "a = b" by (auto simp: rrf_entry_def)
  qed
  have "map (\<lambda>(cid, score, _). (cid, score)) (map (rrf_entry fo k ranked) xs) =
      map (\<lambda>cid. (cid, fst (the (rrf_score fo k ranked cid)))) xs" for xs
    by (simp add: rrf_entry_def split_beta)
  moreover have "(\<lambda>a b. ?le (rrf_entry fo k ranked a) (rrf_entry fo k ranked b)) =
      (\<lambda>a b. case (the (rrf_score fo k ranked a), the (rrf_score fo k ranked b)) of
         ((s, n), (t, m)) \<Rightarrow> val t < val s \<or> val s = val t \<and> (m < n \<or> n = m \<and> a \<le> b))"
    unfolding le by (auto simp: rrf_entry_def fun_eq_iff split: prod.split)
  ultimately show ?thesis
    unfolding fuse_def sort_cmp_def rrf_reference_def same sort_by_map [of _ "rrf_entry fo k ranked"] by (simp only:)
qed

subsection \<open>A concrete run\<close>

text \<open>Fixed-point numbers with three decimals, as the floats of the concrete runs.\<close>

definition sample_floats :: "int float_ops" where
  "sample_floats =
     \<lparr>fl_lit = \<lambda>m k. int m * 1000 div 10 ^ k, fl_nat = \<lambda>n. int n * 1000, fl_add = (+), fl_sub = (-),
      fl_mul = \<lambda>a b. a * b div 1000, fl_div = \<lambda>a b. a * 1000 div b, fl_neg = uminus, fl_sqrt = \<lambda>a. a,
      fl_min = min, fl_less = (<), fl_partial_cmp = \<lambda>a b. Some (cmp_of a b), fl_total_cmp = cmp_of\<rparr>"

lemma sample_floats_total: "total_floats sample_floats (\<lambda>a. a)"
  by (simp add: total_floats_def sample_floats_def)

definition sample_lists :: "int ranked_list list" where
  "sample_lists = [\<lparr>rl_weight = 2000, rl_chunk_ids = [''a'', ''b'', ''a'']\<rparr>, \<lparr>rl_weight = 1000, rl_chunk_ids = [''b'']\<rparr>]"

lemma fuse_reference_witness:
  "fuse sample_floats rev sample_lists (RRF_K sample_floats) = rrf_reference sample_floats (\<lambda>a. a) sample_lists (RRF_K sample_floats) \<and>
   rrf_reference sample_floats (\<lambda>a. a) sample_lists (RRF_K sample_floats) = [(''b'', 48), (''a'', 33)]"
proof
  show "fuse sample_floats rev sample_lists (RRF_K sample_floats) = rrf_reference sample_floats (\<lambda>a. a) sample_lists (RRF_K sample_floats)"
    by (rule fuse_reference [OF sample_floats_total]) simp
  show "rrf_reference sample_floats (\<lambda>a. a) sample_lists (RRF_K sample_floats) = [(''b'', 48), (''a'', 33)]"
    by code_simp
qed

end
