(* ===== verification/Grounding.thy ===== *)
theory Grounding
  imports Fusion_Laws Writer
begin

text \<open>
  Grounding (\<open>ground/types.rs\<close>, \<open>ground/bucket.rs\<close>, \<open>ground/inventory.rs\<close>, \<open>ground/orchestrate.rs\<close>): a
  query over the roots of several corpora, the roll-up of its hits per file, and the cut to the files that
  are returned. \<open>'f\<close> and \<open>'g\<close> are the 32-bit and 64-bit floats. A panic of the footnote filter is the
  outcome \<open>None\<close>.
\<close>

subsection \<open>Requests and responses\<close>

datatype ground_match = Ranked | PhraseMatch
datatype ground_group_by = ByChunk | ByPage
datatype ground_output = Hits | Counts

record stats =
  st_hits :: nat

record file_coverage =
  cov_chunks :: nat
  cov_pages :: "nat option"

record chunk_provenance =
  prov_corpus :: string
  prov_claim_marks :: "claim_mark list"

record 'g doc_chunk =
  dk_chunk_id :: string
  dk_heading_path :: "string list"
  dk_line_range :: "u32 \<times> u32"
  dk_score :: 'g
  dk_z_score :: "'g option"
  dk_snippet :: string
  dk_provenance :: chunk_provenance
  dk_chunk_count :: "nat option"

record 'g doc_file =
  df_summary :: "string option"
  df_keywords :: "string list"
  df_score :: 'g
  df_z_score :: "'g option"
  df_mtime :: string
  df_corpus :: string
  df_path :: "string option"
  df_stale :: bool
  df_chunks :: "'g doc_chunk list"
  df_coverage :: "file_coverage option"

text \<open>
  \<open>docs\<close> and \<open>code\<close> are \<open>BTreeMap\<close>s: their entries in the order of the keys. The values of \<open>code\<close> are
  opaque to grounding, which returns none.
\<close>

record 'g ground_response =
  gr_query :: string
  gr_took_ms :: nat
  gr_stats :: stats
  gr_docs :: "(string \<times> 'g doc_file) list"
  gr_code :: "(string \<times> string) list"
  gr_warnings :: "warning list"

text \<open>What grounding calls outside itself.\<close>

datatype ('f, 'g) rerank_outcome = RerankDone "('f, 'g) search_hit list" | RerankFailed | RerankElapsed

record ('f, 'g) ground_env =
  ge_search :: "('f, 'g) search_env"
  ge_phrase :: "'f phrase_env"
  ge_retrieve_phrase :: "corpus_key \<Rightarrow> string \<Rightarrow> nat \<Rightarrow> ('f, 'g) search_hit list hall_result"
  ge_floats64 :: "'g float_ops"
  ge_to_f64 :: "'f \<Rightarrow> 'g"
  ge_f64_min :: 'g
  ge_rfc3339 :: "int \<Rightarrow> string option"
  ge_canon :: canonicalizer
  ge_tilde :: "string \<Rightarrow> string"
  ge_load_root_index :: "corpus_key \<Rightarrow> string list option hall_result"
  ge_scan :: "corpus_config \<Rightarrow> (corpus_key \<times> string) list hall_result option"
  ge_elapsed_ms :: nat

subsection \<open>The roll-up of one file\<close>

definition PAGE_BREADCRUMB_PREFIX :: string where
  "PAGE_BREADCRUMB_PREFIX = ''page:''"

record rollup =
  ru_chunks_per_file :: nat
  ru_footnote_mode :: footnote_mode
  ru_match_mode :: ground_match
  ru_group_by :: ground_group_by
  ru_output :: ground_output

definition page_label :: "('f, 'g) search_hit \<Rightarrow> string option" where
  "page_label hit =
     (case sh_heading_path hit of
        [label] \<Rightarrow>
          if format_from_extension (sh_file_ref hit) \<in> {Some (Some Pdf), None}
          then (case strip_prefix_str PAGE_BREADCRUMB_PREFIX label of
                  None \<Rightarrow> None
                | Some number \<Rightarrow>
                    (case parse_u64 number of None \<Rightarrow> None | Some n \<Rightarrow> if n = 0 then None else Some label))
          else None
      | _ \<Rightarrow> None)"

text \<open>The entries with the page each stands for, best first; a hit of a page seen before is counted there.\<close>

fun count_page ::
  "string \<Rightarrow> (('f, 'g) search_hit \<times> string option \<times> nat) list \<Rightarrow> (('f, 'g) search_hit \<times> string option \<times> nat) list option" where
  "count_page page [] = None"
| "count_page page ((h, p, n) # es) =
     (if p = Some page then Some ((h, p, n + 1) # es) else map_option ((#) (h, p, n)) (count_page page es))"

definition group_hit ::
  "('f, 'g) search_hit \<Rightarrow> (('f, 'g) search_hit \<times> string option \<times> nat) list \<Rightarrow> (('f, 'g) search_hit \<times> string option \<times> nat) list" where
  "group_hit hit entries =
     (case page_label hit of
        None \<Rightarrow> entries @ [(hit, None, 1)]
      | Some page \<Rightarrow>
          (case count_page page entries of Some es \<Rightarrow> es | None \<Rightarrow> entries @ [(hit, Some page, 1)]))"

definition group_by_page :: "('f, 'g) search_hit list \<Rightarrow> (('f, 'g) search_hit \<times> nat option) list" where
  "group_by_page hits = map (\<lambda>(hit, _, n). (hit, Some n)) (fold group_hit hits [])"

definition coverage_of :: "('f, 'g) search_hit list \<Rightarrow> file_coverage" where
  "coverage_of hits =
     (let pages = remdups (List.map_filter page_label hits)
      in \<lparr>cov_chunks = length hits, cov_pages = (if pages = [] then None else Some (length pages))\<rparr>)"

record ('f, 'g) file_bucket =
  fb_file_ref :: string
  fb_summary :: "string option"
  fb_keywords :: "string list"
  fb_score :: 'g
  fb_z_score :: "'g option"
  fb_mtime_ms :: int
  fb_chunks :: "('f, 'g) search_hit list"

definition option_from :: "string \<Rightarrow> string option" where
  "option_from s = (if s = [] then None else Some s)"

definition file_bucket_new :: "('f, 'g) ground_env \<Rightarrow> ('f, 'g) search_hit \<Rightarrow> ('f, 'g) file_bucket" where
  "file_bucket_new env hit =
     \<lparr>fb_file_ref = sh_file_ref hit, fb_summary = option_from (sh_summary hit), fb_keywords = sh_keywords hit,
      fb_score = ge_f64_min env, fb_z_score = None, fb_mtime_ms = sh_mtime_ms hit, fb_chunks = []\<rparr>"

definition file_bucket_push :: "('f, 'g) ground_env \<Rightarrow> ('f, 'g) search_hit \<Rightarrow> ('f, 'g) file_bucket \<Rightarrow> ('f, 'g) file_bucket" where
  "file_bucket_push env hit b =
     (let s = ge_to_f64 env (sh_score hit);
          b = (if fl_less (ge_floats64 env) (fb_score b) s then b\<lparr>fb_score := s, fb_z_score := sh_z_score hit\<rparr> else b)
      in b\<lparr>fb_chunks := fb_chunks b @ [hit]\<rparr>)"

definition chunk_cmp ::
  "('f, 'g) ground_env \<Rightarrow> ground_match \<Rightarrow> ('f, 'g) search_hit \<Rightarrow> ('f, 'g) search_hit \<Rightarrow> ordering" where
  "chunk_cmp env match_mode a b =
     (let order = or_equal (fl_partial_cmp (sv_floats (ge_search env)) (sh_score b) (sh_score a))
      in case match_mode of
           Ranked \<Rightarrow> then_with order (cmp_of (sh_chunk_id a) (sh_chunk_id b))
         | PhraseMatch \<Rightarrow> then_with (then_with order (cmp_of (sh_line_start a) (sh_line_start b)))
                      (cmp_of (sh_chunk_id a) (sh_chunk_id b)))"

text \<open>One chunk of the response; \<open>None\<close> when the footnote filter panics.\<close>

definition doc_chunk_of ::
  "('f, 'g) ground_env \<Rightarrow> footnote_mode \<Rightarrow> ('f, 'g) search_hit \<times> nat option \<Rightarrow> 'g doc_chunk option" where
  "doc_chunk_of env mode entry =
     (case entry of (h, cnt) \<Rightarrow>
        map_option (\<lambda>t.
            \<lparr>dk_chunk_id = sh_chunk_id h, dk_heading_path = sh_heading_path h,
             dk_line_range = (of_nat (sh_line_start h), of_nat (sh_line_end h)), dk_score = ge_to_f64 env (sh_score h),
             dk_z_score = sh_z_score h, dk_snippet = make_snippet t,
             dk_provenance = \<lparr>prov_corpus = [], prov_claim_marks = sh_claim_marks h\<rparr>, dk_chunk_count = cnt\<rparr>)
          (apply_footnote_mode (phrase_parser (ge_phrase env)) (sh_text h) mode))"

definition bucket_entries ::
  "('f, 'g) ground_env \<Rightarrow> rollup \<Rightarrow> ('f, 'g) search_hit list \<Rightarrow> (('f, 'g) search_hit \<times> nat option) list" where
  "bucket_entries env ru chunks =
     take (ru_chunks_per_file ru)
       (case (ru_output ru, ru_group_by ru) of
          (Counts, _) \<Rightarrow> []
        | (Hits, ByChunk) \<Rightarrow> map (\<lambda>hit. (hit, None)) chunks
        | (Hits, ByPage) \<Rightarrow> group_by_page chunks)"

definition into_doc :: "('f, 'g) ground_env \<Rightarrow> rollup \<Rightarrow> ('f, 'g) file_bucket \<Rightarrow> (string \<times> 'g doc_file) option" where
  "into_doc env ru b =
     (let chunks = sort_cmp (chunk_cmp env (ru_match_mode ru)) (fb_chunks b)
      in map_option (\<lambda>docs.
           (fb_file_ref b,
            \<lparr>df_summary = (case ru_output ru of Hits \<Rightarrow> fb_summary b | Counts \<Rightarrow> None),
             df_keywords = (case ru_output ru of Hits \<Rightarrow> fb_keywords b | Counts \<Rightarrow> []),
             df_score = fb_score b, df_z_score = fb_z_score b,
             df_mtime = (case ge_rfc3339 env (fb_mtime_ms b) of Some t \<Rightarrow> t | None \<Rightarrow> []),
             df_corpus = [], df_path = None, df_stale = False, df_chunks = docs,
             df_coverage = (case ru_output ru of Hits \<Rightarrow> None | Counts \<Rightarrow> Some (coverage_of chunks))\<rparr>))
         (those (map (doc_chunk_of env (ru_footnote_mode ru)) (bucket_entries env ru chunks))))"

text \<open>The buckets of a hash map by file, in the order of its iteration.\<close>

fun push_hit :: "('f, 'g) ground_env \<Rightarrow> ('f, 'g) search_hit \<Rightarrow> ('f, 'g) file_bucket list \<Rightarrow> ('f, 'g) file_bucket list" where
  "push_hit env hit [] = [file_bucket_push env hit (file_bucket_new env hit)]"
| "push_hit env hit (b # bs) =
     (if fb_file_ref b = sh_file_ref hit then file_bucket_push env hit b # bs else b # push_hit env hit bs)"

definition bucket_cmp :: "('f, 'g) ground_env \<Rightarrow> ('f, 'g) file_bucket \<Rightarrow> ('f, 'g) file_bucket \<Rightarrow> ordering" where
  "bucket_cmp env a b =
     then_with (or_equal (fl_partial_cmp (ge_floats64 env) (fb_score b) (fb_score a))) (cmp_of (fb_file_ref a) (fb_file_ref b))"

definition roll_up ::
  "('f, 'g) ground_env \<Rightarrow> (('f, 'g) file_bucket list \<Rightarrow> ('f, 'g) file_bucket list) \<Rightarrow> ('f, 'g) search_hit list \<Rightarrow> nat \<Rightarrow>
   rollup \<Rightarrow> (string \<times> 'g doc_file) list option" where
  "roll_up env shuffle hits top_files ru =
     (let files = take top_files (sort_cmp (bucket_cmp env) (shuffle (fold (push_hit env) hits [])))
      in map_option (\<lambda>docs. fold (\<lambda>(key, doc). upsert_sorted key (\<lambda>_. doc)) docs [])
           (those (map (into_doc env ru) files)))"

definition normalize_scores :: "('f, 'g) ground_env \<Rightarrow> ('f, 'g) search_hit list \<Rightarrow> 'g option list" where
  "normalize_scores env hits =
     (let fo = ge_floats64 env; n = length hits; scores = map (\<lambda>h. ge_to_f64 env (sh_score h)) hits;
          total = (\<lambda>xs. fold (\<lambda>x acc. fl_add fo acc x) xs (fl_lit fo 0 0));
          mu = fl_div fo (total scores) (fl_nat fo n);
          var = fl_div fo (total (map (\<lambda>s. fl_mul fo (fl_sub fo s mu) (fl_sub fo s mu)) scores)) (fl_nat fo n);
          sigma = fl_sqrt fo var
      in if n < 5 then replicate n None
         else if fl_partial_cmp fo sigma (fl_lit fo 1 9) \<in> {Some Less, Some Equal} then replicate n None
         else map (\<lambda>s. Some (fl_div fo (fl_sub fo s mu) sigma)) scores)"

subsection \<open>The request\<close>

definition MAX_COUNTS_FILES :: nat where "MAX_COUNTS_FILES = 2000"
definition RESERVED_LOCAL_SLOTS :: nat where "RESERVED_LOCAL_SLOTS = 2"

record ground_opts =
  go_top_files :: nat
  go_chunks_per_file :: nat
  go_limit :: nat
  go_rerank_timeout_ms :: nat
  go_footnote_mode :: footnote_mode
  go_match_mode :: ground_match
  go_group_by :: ground_group_by
  go_output :: ground_output

definition ground_opts_default :: ground_opts where
  "ground_opts_default =
     \<lparr>go_top_files = 10, go_chunks_per_file = 3, go_limit = 50, go_rerank_timeout_ms = 2000, go_footnote_mode = Include,
      go_match_mode = Ranked, go_group_by = ByChunk, go_output = Hits\<rparr>"

definition counts_need_phrase :: string where
  "counts_need_phrase =
     ''output '' @ debug_str ''counts'' @ '' requires match '' @ debug_str ''phrase'' @
     ''; ranked retrieval returns a bounded candidate pool, so its counts are not complete''"

definition validate_shape :: "ground_match \<Rightarrow> ground_output \<Rightarrow> (string, unit) result" where
  "validate_shape match_mode out_mode =
     (if match_mode = Ranked \<and> out_mode = Counts then Err counts_need_phrase else Ok ())"

fun relative_path_for :: "string \<Rightarrow> string list \<Rightarrow> string option" where
  "relative_path_for abs_path [] = None"
| "relative_path_for abs_path (root # roots) =
     (case strip_prefix_str (trim_end_matches {SLASH} root) abs_path of
        Some rel \<Rightarrow>
          if starts_with [SLASH] rel \<and> trim_start_matches {SLASH} rel \<noteq> [] then Some (trim_start_matches {SLASH} rel)
          else relative_path_for abs_path roots
      | None \<Rightarrow> relative_path_for abs_path roots)"

datatype rerank_fallback = Timeout | Unavailable

definition rerank_with_timeout ::
  "(string \<Rightarrow> ('f, 'g) search_hit list \<Rightarrow> ('f, 'g) rerank_outcome) \<Rightarrow> string \<Rightarrow> ('f, 'g) search_hit list \<Rightarrow>
   ('f, 'g) search_hit list \<times> rerank_fallback option" where
  "rerank_with_timeout crossencoder query hits =
     (case crossencoder query hits of
        RerankDone reranked \<Rightarrow> (reranked, None)
      | RerankFailed \<Rightarrow> (hits, Some Unavailable)
      | RerankElapsed \<Rightarrow> (hits, Some Timeout))"

subsection \<open>The inventory of the roots\<close>

datatype indexed_files = Known "string list" | Unknown | ListingFailed string

record root_inventory =
  ri_eligible :: "string list"
  ri_indexed :: indexed_files

definition root_inventory_default :: root_inventory where
  "root_inventory_default = \<lparr>ri_eligible = [], ri_indexed = Unknown\<rparr>"

type_synonym inventory = "corpus_key \<Rightarrow> root_inventory option"

definition list_root_indexes :: "('f, 'g) ground_env \<Rightarrow> corpus_config \<Rightarrow> (corpus_key \<times> indexed_files) list" where
  "list_root_indexes env corpus =
     map (\<lambda>key. (key, case ge_load_root_index env key of
                        Ok (Some index) \<Rightarrow> Known index
                      | Ok None \<Rightarrow> Unknown
                      | Err e \<Rightarrow> ListingFailed (sv_error_text (ge_search env) e)))
       (corpus_keys (ge_canon env) (ge_tilde env) corpus)"

text \<open>The files of a key go to the first root listed with it.\<close>

fun assemble_inventory ::
  "corpus_key list \<Rightarrow> (corpus_key \<times> indexed_files) list \<Rightarrow> (corpus_key \<times> string) list \<Rightarrow> (corpus_key \<times> root_inventory) list" where
  "assemble_inventory taken [] files = []"
| "assemble_inventory taken ((key, indexed) # listed) files =
     (key, \<lparr>ri_eligible = (if key \<in> set taken then [] else remdups (map snd (filter (\<lambda>(k, _). k = key) files))),
            ri_indexed = indexed\<rparr>) # assemble_inventory (key # taken) listed files"

text \<open>\<open>ge_scan\<close> is \<open>None\<close> when the scanning task dies.\<close>

definition scan_inventory :: "('f, 'g) ground_env \<Rightarrow> corpus_config list \<Rightarrow> inventory" where
  "scan_inventory env corpora =
     (let listed = map (\<lambda>c. (c, list_root_indexes env c)) corpora;
          files = concat (map (\<lambda>(c, roots).
            if list_ex (\<lambda>(_, indexed). case indexed of Known _ \<Rightarrow> True | _ \<Rightarrow> False) roots
            then (case ge_scan env c of Some (Ok fs) \<Rightarrow> fs | _ \<Rightarrow> []) else []) listed)
      in map_of (rev (assemble_inventory [] (concat (map snd listed)) files)))"

subsection \<open>One root\<close>

record ('f, 'g) corpus_search =
  cos_signals :: "('f, 'g) root_signals"
  cos_fallback :: "('f, 'g) search_hit list"

definition search_root_ranked ::
  "('f, 'g) ground_env \<Rightarrow> string \<Rightarrow> corpus_config \<Rightarrow> corpus_key \<Rightarrow> nat \<Rightarrow> root_inventory \<Rightarrow> ('f, 'g) corpus_search hall_result" where
  "search_root_ranked env query corpus key limit root =
     (let indexed = (case ri_indexed root of Known files \<Rightarrow> Some files | _ \<Rightarrow> None);
          listing_warning = (case ri_indexed root of
              ListingFailed reason \<Rightarrow>
                [\<lparr>warning_code = LEXICAL_FALLBACK_FAILED,
                  warning_message = ''could not list indexed files in corpus root '' @ path_lossy (canonical_root key) @
                    '' ('' @ reason @ ''); skipping the lexical fallback''\<rparr>]
            | _ \<Rightarrow> [])
      in result_bind (gather_signals (ge_search env) key query (cc_globs corpus) limit indexed) (\<lambda>signals.
         let lexical = lexical_fallback_search (ge_search env) key query (ri_eligible root) indexed limit;
             warnings = rs_warnings signals @ listing_warning;
             covered = map sh_file_ref (fused_hits lexical);
             warnings = (case rs_unpooled_files signals of
                 Some unpooled \<Rightarrow>
                   if list_all (\<lambda>f. f \<in> set covered) unpooled
                   then filter (\<lambda>w. warning_code w \<noteq> ''ripgrep-unresolved'') warnings else warnings
               | None \<Rightarrow> warnings)
         in Ok \<lparr>cos_signals = signals\<lparr>rs_warnings := warnings @ fused_warnings lexical\<rparr>,
                cos_fallback = fused_hits lexical\<rparr>))"

subsection \<open>The cut\<close>

definition priority_first :: "string option \<Rightarrow> 'g doc_file \<Rightarrow> 'g doc_file \<Rightarrow> ordering" where
  "priority_first priority_corpus a b =
     (case priority_corpus of Some p \<Rightarrow> cmp_of (df_corpus b = p) (df_corpus a = p) | None \<Rightarrow> Equal)"

definition rollup_order ::
  "'g float_ops \<Rightarrow> string option \<Rightarrow> string \<times> 'g doc_file \<Rightarrow> string \<times> 'g doc_file \<Rightarrow> ordering" where
  "rollup_order fo priority_corpus a b =
     then_with (or_equal (fl_partial_cmp fo (df_score (snd b)) (df_score (snd a))))
       (then_with (priority_first priority_corpus (snd a) (snd b)) (cmp_of (fst a) (fst b)))"

definition counts_order :: "string option \<Rightarrow> string \<times> 'g doc_file \<Rightarrow> string \<times> 'g doc_file \<Rightarrow> ordering" where
  "counts_order priority_corpus a b =
     (let chunks_of = (\<lambda>d. case df_coverage d of Some c \<Rightarrow> cov_chunks c | None \<Rightarrow> 0)
      in then_with (cmp_of (chunks_of (snd b)) (chunks_of (snd a)))
           (then_with (priority_first priority_corpus (snd a) (snd b)) (cmp_of (fst a) (fst b))))"

text \<open>\<open>Vec::swap\<close>.\<close>

definition swap_at :: "nat \<Rightarrow> nat \<Rightarrow> 'a list \<Rightarrow> 'a list" where
  "swap_at i j xs = xs[i := xs ! j, j := xs ! i]"

text \<open>The exchanges that bring files of the priority corpus into the window.\<close>

definition local_swaps :: "(string \<times> 'g doc_file) list \<Rightarrow> nat \<Rightarrow> string option \<Rightarrow> (nat \<times> nat) list" where
  "local_swaps ranked cap priority_corpus =
     (case priority_corpus of
        None \<Rightarrow> []
      | Some priority \<Rightarrow>
          let kept_locals = length (filter (\<lambda>e. df_corpus (snd e) = priority) (take cap ranked));
              missing = RESERVED_LOCAL_SLOTS - kept_locals
          in if 0 < missing
             then let promote = take missing (filter (\<lambda>i. df_corpus (snd (ranked ! i)) = priority) [cap..<length ranked]);
                      evict = take (length promote) (filter (\<lambda>i. df_corpus (snd (ranked ! i)) \<noteq> priority) (rev [0..<cap]))
                  in zip promote evict
             else [])"

definition collect_docs :: "(string \<times> 'g doc_file) list \<Rightarrow> (string \<times> 'g doc_file) list" where
  "collect_docs es = fold (\<lambda>(key, doc). upsert_sorted key (\<lambda>_. doc)) es []"

definition cut_with_local_reserve ::
  "(string \<times> 'g doc_file) list \<Rightarrow> nat \<Rightarrow> string option \<Rightarrow> string list \<Rightarrow>
   (string \<times> 'g doc_file \<Rightarrow> string \<times> 'g doc_file \<Rightarrow> ordering) \<Rightarrow> (string \<times> 'g doc_file) list" where
  "cut_with_local_reserve docs cap priority_corpus fallback_docs order =
     (let fallback = filter (\<lambda>e. fst e \<in> set fallback_docs) docs;
          ranked = sort_cmp order (filter (\<lambda>e. fst e \<notin> set fallback_docs) docs)
      in if length ranked \<le> cap
         then collect_docs (ranked @ take (cap - length ranked) (sort_cmp order fallback))
         else
           let swaps = local_swaps ranked cap priority_corpus;
               kept = take cap (fold (\<lambda>(promote_idx, evict_idx). swap_at evict_idx promote_idx) swaps ranked)
           in collect_docs (if swaps \<noteq> [] then sort_cmp order kept else kept))"

subsection \<open>The union of the roots\<close>

fun all_ok :: "'a hall_result list \<Rightarrow> 'a list hall_result" where
  "all_ok [] = Ok []"
| "all_ok (r # rs) = result_bind r (\<lambda>x. result_bind (all_ok rs) (\<lambda>xs. Ok (x # xs)))"

definition simple_warning :: "string \<Rightarrow> string \<Rightarrow> warning" where
  "simple_warning wcode msg = \<lparr>warning_code = wcode, warning_message = msg\<rparr>"

text \<open>The hits by corpus root, roots in their order.\<close>

definition by_corpus_key :: "('f, 'g) search_hit list \<Rightarrow> ((string \<times> path) \<times> ('f, 'g) search_hit list) list" where
  "by_corpus_key hits =
     fold (\<lambda>hit. upsert_sorted (ck_name (sh_corpus_key hit), canonical_root (sh_corpus_key hit))
         (\<lambda>old. (case old of Some hs \<Rightarrow> hs | None \<Rightarrow> []) @ [hit])) hits []"

text \<open>What one root adds to the documents, and which of them come from the fallback.\<close>

definition add_docs ::
  "(corpus_key \<times> string) list \<Rightarrow> string \<times> path \<Rightarrow> (string \<times> 'g doc_file) list \<Rightarrow>
   (string \<times> 'g doc_file) list \<times> string list \<Rightarrow> (string \<times> 'g doc_file) list \<times> string list" where
  "add_docs fallback_files key built acc =
     fold (\<lambda>(p, doc) (docs, fallback_docs).
        let doc = doc\<lparr>df_corpus := fst key, df_path := relative_path_for p [path_lossy (snd key)],
                     df_chunks := map (\<lambda>c. c\<lparr>dk_provenance := (dk_provenance c)\<lparr>prov_corpus := fst key\<rparr>\<rparr>) (df_chunks doc)\<rparr>;
            doc_key = (if p \<in> set (map fst docs) then p @ '' ['' @ fst key @ '']'' else p);
            is_fallback = ((\<lparr>ck_name = fst key, canonical_root = snd key\<rparr>, p) \<in> set fallback_files)
        in (upsert_sorted doc_key (\<lambda>_. doc) docs, if is_fallback then doc_key # fallback_docs else fallback_docs))
       built acc"

fun roll_up_roots ::
  "('f, 'g) ground_env \<Rightarrow> (('f, 'g) file_bucket list \<Rightarrow> ('f, 'g) file_bucket list) \<Rightarrow> rollup \<Rightarrow> (corpus_key \<times> string) list \<Rightarrow>
   ((string \<times> path) \<times> ('f, 'g) search_hit list) list \<Rightarrow> (string \<times> 'g doc_file) list \<times> string list \<Rightarrow>
   ((string \<times> 'g doc_file) list \<times> string list) option" where
  "roll_up_roots env shuffle ru fallback_files [] acc = Some acc"
| "roll_up_roots env shuffle ru fallback_files ((key, hits) # rest) acc =
     (case roll_up env shuffle hits (2 ^ 64 - 1) ru of
        None \<Rightarrow> None
      | Some built \<Rightarrow> roll_up_roots env shuffle ru fallback_files rest (add_docs fallback_files key built acc))"

text \<open>The hits, the fallback hits and the warnings of the roots.\<close>

definition search_ranked ::
  "('f, 'g) ground_env \<Rightarrow> string \<Rightarrow> nat \<Rightarrow> string option \<Rightarrow> inventory \<Rightarrow> (corpus_key \<times> corpus_config) list \<Rightarrow>
   (('f, 'g) search_hit list \<times> ('f, 'g) search_hit list \<times> warning list) hall_result" where
  "search_ranked env query limit priority_corpus inventory keys =
     result_bind (all_ok (map (\<lambda>(key, corpus).
         search_root_ranked env query corpus key limit
           (case inventory key of Some root \<Rightarrow> root | None \<Rightarrow> root_inventory_default)) keys)) (\<lambda>searched.
       let roots = map cos_signals searched
       in Ok (fuse_roots (ge_search env) (map (\<lambda>r. r\<lparr>rs_warnings := []\<rparr>) roots) query priority_corpus,
              concat (map cos_fallback searched), concat (map rs_warnings roots)))"

definition search_phrases ::
  "('f, 'g) ground_env \<Rightarrow> string \<Rightarrow> nat \<Rightarrow> (corpus_key \<times> corpus_config) list \<Rightarrow>
   (('f, 'g) search_hit list \<times> ('f, 'g) search_hit list \<times> warning list) hall_result option" where
  "search_phrases env query limit keys =
     map_option (\<lambda>results.
         result_bind (all_ok results) (\<lambda>phrased.
           Ok (concat (map fused_hits phrased), [], concat (map fused_warnings phrased))))
       (those (map (\<lambda>(key, _). search_phrase_in (ge_phrase env) (ge_retrieve_phrase env) key query limit) keys))"

text \<open>The hits after the reranker, with the warning of a reranker that did not answer.\<close>

definition apply_rerank ::
  "('f, 'g) ground_env \<Rightarrow> (string \<Rightarrow> ('f, 'g) search_hit list \<Rightarrow> ('f, 'g) rerank_outcome) option \<Rightarrow> ground_opts \<Rightarrow> string \<Rightarrow>
   ('f, 'g) search_hit list \<Rightarrow> ('f, 'g) search_hit list \<times> warning list" where
  "apply_rerank env crossencoder opts query hits =
     (case crossencoder of
        Some rerank \<Rightarrow>
          if go_match_mode opts = Ranked \<and> hits \<noteq> []
          then (case rerank_with_timeout rerank query hits of
                  (reranked, None) \<Rightarrow>
                    (map (\<lambda>(hit, z). hit\<lparr>sh_z_score := z\<rparr>) (zip reranked (normalize_scores env reranked)), [])
                | (kept, Some Timeout) \<Rightarrow>
                    (kept, [simple_warning RERANK_TIMEOUT (''crossencoder rerank timed out after '' @
                       show_nat (go_rerank_timeout_ms opts) @ '' ms; falling back to fusion order'')])
                | (kept, Some Unavailable) \<Rightarrow>
                    (kept, [simple_warning CROSSENCODER_UNAVAILABLE
                       ''crossencoder rerank unavailable; falling back to fusion order'']))
          else (hits, [])
      | None \<Rightarrow> (hits, []))"

definition retained_chunks :: "(string \<times> 'g doc_file) list \<Rightarrow> nat" where
  "retained_chunks docs =
     sum_list (concat (map (\<lambda>(_, doc). map (\<lambda>c. case dk_chunk_count c of Some n \<Rightarrow> n | None \<Rightarrow> 1) (df_chunks doc)) docs))"

text \<open>The documents that are returned, with the warnings of the cut.\<close>

definition cut_docs ::
  "('f, 'g) ground_env \<Rightarrow> ground_opts \<Rightarrow> string option \<Rightarrow> (string \<times> 'g doc_file) list \<Rightarrow> string list \<Rightarrow>
   (string \<times> 'g doc_file) list \<times> warning list" where
  "cut_docs env opts priority_corpus docs fallback_docs =
     (case go_output opts of
        Hits \<Rightarrow>
          (if go_top_files opts < length docs
           then cut_with_local_reserve docs (go_top_files opts) priority_corpus fallback_docs
                  (rollup_order (ge_floats64 env) priority_corpus)
           else docs, [])
      | Counts \<Rightarrow>
          if MAX_COUNTS_FILES < length docs
          then (cut_with_local_reserve docs MAX_COUNTS_FILES priority_corpus fallback_docs (counts_order priority_corpus),
                [simple_warning COUNTS_TRUNCATED (''counts output lists the first '' @ show_nat MAX_COUNTS_FILES @ '' of '' @
                   show_nat (length docs) @ '' matched files; narrow the phrase or the corpus to see the rest'')])
          else (docs, []))"

definition ground_union_inventoried ::
  "('f, 'g) ground_env \<Rightarrow> (('f, 'g) file_bucket list \<Rightarrow> ('f, 'g) file_bucket list) \<Rightarrow> string \<Rightarrow> corpus_config list \<Rightarrow>
   (string \<Rightarrow> ('f, 'g) search_hit list \<Rightarrow> ('f, 'g) rerank_outcome) option \<Rightarrow> ground_opts \<Rightarrow> string option \<Rightarrow> inventory \<Rightarrow>
   'g ground_response hall_result option" where
  "ground_union_inventoried env shuffle query corpora crossencoder opts priority_corpus inventory =
     (case validate_shape (go_match_mode opts) (go_output opts) of
        Err e \<Rightarrow> Some (Err (ESearch e))
      | Ok _ \<Rightarrow>
          let limit = (case go_output opts of Hits \<Rightarrow> go_limit opts | Counts \<Rightarrow> MAX_PHRASE_SCAN_ROWS);
              keys = concat (map (\<lambda>c. map (\<lambda>k. (k, c)) (corpus_keys (ge_canon env) (ge_tilde env) c)) corpora)
          in case (case go_match_mode opts of
                     Ranked \<Rightarrow> Some (search_ranked env query limit priority_corpus inventory keys)
                   | PhraseMatch \<Rightarrow> search_phrases env query limit keys) of
               None \<Rightarrow> None
             | Some (Err e) \<Rightarrow> Some (Err e)
             | Some (Ok (hits, fallback_hits, warnings)) \<Rightarrow>
                 let found = length hits + length fallback_hits;
                     fallback_files = map (\<lambda>hit. (sh_corpus_key hit, sh_file_ref hit)) fallback_hits;
                     ru = \<lparr>ru_chunks_per_file = go_chunks_per_file opts, ru_footnote_mode = go_footnote_mode opts,
                           ru_match_mode = go_match_mode opts, ru_group_by = go_group_by opts, ru_output = go_output opts\<rparr>
                 in case apply_rerank env crossencoder opts query hits of
                      (hits, rerank_warnings) \<Rightarrow>
                    let all_hits = hits @ rank_after (sv_floats (ge_search env)) fallback_hits hits
                    in case roll_up_roots env shuffle ru fallback_files (by_corpus_key all_hits) ([], []) of
                         None \<Rightarrow> None
                       | Some (docs, fallback_docs) \<Rightarrow>
                           (case cut_docs env opts priority_corpus docs fallback_docs of
                              (kept, cut_warnings) \<Rightarrow>
                              Some (Ok \<lparr>gr_query = query, gr_took_ms = ge_elapsed_ms env, gr_stats = \<lparr>st_hits = found\<rparr>,
                                gr_docs = kept, gr_code = [],
                                gr_warnings = warnings @ rerank_warnings @ cut_warnings
                                  @ (if go_match_mode opts = PhraseMatch \<and> go_output opts = Hits \<and> retained_chunks kept < found
                                     then [simple_warning PHRASE_TRUNCATED (''phrase rollup retained '' @
                                             show_nat (retained_chunks kept) @ '' of '' @ show_nat found @
                                             '' matched chunks after chunks_per_file and top_files caps'')] else [])\<rparr>)))"

definition ground_union ::
  "('f, 'g) ground_env \<Rightarrow> (('f, 'g) file_bucket list \<Rightarrow> ('f, 'g) file_bucket list) \<Rightarrow> string \<Rightarrow> corpus_config list \<Rightarrow>
   (string \<Rightarrow> ('f, 'g) search_hit list \<Rightarrow> ('f, 'g) rerank_outcome) option \<Rightarrow> ground_opts \<Rightarrow> string option \<Rightarrow>
   'g ground_response hall_result option" where
  "ground_union env shuffle query corpora crossencoder opts priority_corpus =
     ground_union_inventoried env shuffle query corpora crossencoder opts priority_corpus
       (case go_match_mode opts of Ranked \<Rightarrow> scan_inventory env corpora | PhraseMatch \<Rightarrow> (\<lambda>_. None))"

definition ground ::
  "('f, 'g) ground_env \<Rightarrow> (('f, 'g) file_bucket list \<Rightarrow> ('f, 'g) file_bucket list) \<Rightarrow> string \<Rightarrow> corpus_config \<Rightarrow>
   (string \<Rightarrow> ('f, 'g) search_hit list \<Rightarrow> ('f, 'g) rerank_outcome) option \<Rightarrow> ground_opts \<Rightarrow> 'g ground_response hall_result option" where
  "ground env shuffle query corpus crossencoder opts =
     ground_union env shuffle query [corpus] crossencoder opts None"

end
