(* ===== verification/Grounding_Laws.thy ===== *)
theory Grounding_Laws
  imports Grounding
begin

text \<open>
  What grounding returns: the files that survive the cut, with the slots kept for the corpus of the
  searcher and none for a fallback file before every fused one.
\<close>

subsection \<open>Swapping into a window\<close>

definition swapped :: "(nat \<times> nat) list \<Rightarrow> nat \<Rightarrow> nat" where
  "swapped swaps i = (case map_of (map (\<lambda>(p, e). (e, p)) swaps) i of Some p \<Rightarrow> p | None \<Rightarrow> i)"

lemma fold_swap:
  assumes "distinct (map fst swaps)" "distinct (map snd swaps)" "snd ` set swaps \<subseteq> {..<cap}" "fst ` set swaps \<subseteq> {cap..<length xs}"
  shows "length (fold (\<lambda>(p, e). swap_at e p) swaps xs) = length xs \<and>
    (\<forall>i < cap. cap \<le> length xs \<longrightarrow> fold (\<lambda>(p, e). swap_at e p) swaps xs ! i = xs ! swapped swaps i)"
  using assms
proof (induction swaps arbitrary: xs)
  case Nil
  then show ?case by (simp add: swapped_def)
next
  case (Cons s swaps)
  obtain p e where s: "s = (p, e)" by fastforce
  have bounds: "e < cap" "cap \<le> p" "p < length xs" "p \<notin> fst ` set swaps" "e \<notin> snd ` set swaps"
    using Cons.prems s by auto
  have len: "length (swap_at e p xs) = length xs" by (simp add: swap_at_def)
  have IH: "length (fold (\<lambda>(p, e). swap_at e p) swaps (swap_at e p xs)) = length xs"
    "\<And>i. i < cap \<Longrightarrow> cap \<le> length xs \<Longrightarrow>
       fold (\<lambda>(p, e). swap_at e p) swaps (swap_at e p xs) ! i = swap_at e p xs ! swapped swaps i"
    using Cons.IH [of "swap_at e p xs"] Cons.prems len by (simp_all add: s)
  have "swap_at e p xs ! swapped swaps i = xs ! swapped (s # swaps) i" if "i < cap" "cap \<le> length xs" for i
  proof (cases "map_of (map (\<lambda>(p, e). (e, p)) swaps) i")
    case None
    then show ?thesis using bounds that by (simp add: swapped_def s swap_at_def nth_list_update)
  next
    case (Some q)
    then have "(q, i) \<in> set swaps" by (auto dest: map_of_SomeD)
    then have "q \<in> fst ` set swaps" "i \<in> snd ` set swaps" by force+
    then have "q \<noteq> p" "cap \<le> q" "i \<noteq> e" using bounds Cons.prems(4) by auto
    then show ?thesis using bounds Some by (simp add: swapped_def s swap_at_def nth_list_update)
  qed
  with IH show ?case by (simp add: s)
qed

lemma swapped_image:
  assumes "distinct (map snd swaps)" "snd ` set swaps \<subseteq> {..<cap}"
  shows "swapped swaps ` {..<cap} = ({..<cap} - snd ` set swaps) \<union> fst ` set swaps"
proof -
  let ?m = "map_of (map (\<lambda>(p, e). (e, p)) swaps)"
  have dist: "distinct (map fst (map (\<lambda>(p, e). (e, p)) swaps))" using assms(1) by (simp add: split_beta comp_def)
  have some: "?m e = Some p \<longleftrightarrow> (p, e) \<in> set swaps" for p e
    using map_of_eq_Some_iff [OF dist, of e p] by force
  have none: "?m i = None \<longleftrightarrow> i \<notin> snd ` set swaps" for i
    by (simp add: map_of_eq_None_iff image_image split_beta)
  show ?thesis
  proof (rule set_eqI)
    fix j
    show "j \<in> swapped swaps ` {..<cap} \<longleftrightarrow> j \<in> ({..<cap} - snd ` set swaps) \<union> fst ` set swaps"
    proof
      assume "j \<in> swapped swaps ` {..<cap}"
      then obtain i where i: "i < cap" "j = swapped swaps i" by auto
      show "j \<in> ({..<cap} - snd ` set swaps) \<union> fst ` set swaps"
      proof (cases "?m i")
        case None
        then have "j = i" using i(2) by (simp add: swapped_def)
        then show ?thesis using None i(1) none [of i] by simp
      next
        case (Some p)
        then have "j = p" using i(2) by (simp add: swapped_def)
        moreover have "(p, i) \<in> set swaps" using Some some [of i p] by blast
        ultimately have "(p, i) \<in> set swaps" "j = p" by simp_all
        then show ?thesis by force
      qed
    next
      assume "j \<in> ({..<cap} - snd ` set swaps) \<union> fst ` set swaps"
      then consider "j < cap" "j \<notin> snd ` set swaps" | e where "(j, e) \<in> set swaps" by force
      then show "j \<in> swapped swaps ` {..<cap}"
      proof cases
        case 1
        then have "?m j = None" using none [of j] by blast
        then have "swapped swaps j = j" by (simp add: swapped_def)
        then show ?thesis using 1 by force
      next
        case 2
        then have "?m e = Some j" "e < cap" using some assms(2) by auto
        then have "swapped swaps e = j" "e < cap" by (simp_all add: swapped_def)
        then show ?thesis by force
      qed
    qed
  qed
qed

text \<open>The window after the swaps holds the elements at the indices that are left or promoted.\<close>

lemma window_set:
  assumes "distinct (map fst swaps)" "distinct (map snd swaps)" "snd ` set swaps \<subseteq> {..<cap}" "fst ` set swaps \<subseteq> {cap..<length xs}"
    "cap \<le> length xs"
  shows "set (take cap (fold (\<lambda>(p, e). swap_at e p) swaps xs)) = (!) xs ` (({..<cap} - snd ` set swaps) \<union> fst ` set swaps)"
    and "length (take cap (fold (\<lambda>(p, e). swap_at e p) swaps xs)) = cap"
proof -
  let ?ys = "fold (\<lambda>(p, e). swap_at e p) swaps xs"
  note f = fold_swap [OF assms(1-4)]
  show len: "length (take cap ?ys) = cap" using f assms(5) by simp
  have "set (take cap ?ys) = (!) ?ys ` {..<cap}"
    using nth_image [of cap ?ys] f assms(5) by (simp add: lessThan_atLeast0)
  also have "\<dots> = (\<lambda>i. xs ! swapped swaps i) ` {..<cap}" using f assms(5) by (intro image_cong) auto
  also have "\<dots> = (!) xs ` (({..<cap} - snd ` set swaps) \<union> fst ` set swaps)"
    unfolding swapped_image [OF assms(2,3), symmetric] by (simp add: image_image)
  finally show "set (take cap ?ys) = (!) xs ` (({..<cap} - snd ` set swaps) \<union> fst ` set swaps)" .
qed

subsection \<open>The reserve\<close>

text \<open>
  The indices that are exchanged: the first ones behind the window that are local, as many as are missing, for the
  last ones in the window that are not.
\<close>

definition reserve_swaps :: "nat \<Rightarrow> (nat \<Rightarrow> bool) \<Rightarrow> nat \<Rightarrow> nat \<Rightarrow> (nat \<times> nat) list" where
  "reserve_swaps slots local cap n =
     (let missing = slots - length (filter local [0..<cap]);
          promote = take missing (filter local [cap..<n]);
          evict = take (length promote) (filter (\<lambda>i. \<not> local i) (rev [0..<cap]))
      in zip promote evict)"

definition kept_indices :: "(nat \<times> nat) list \<Rightarrow> nat \<Rightarrow> nat set" where
  "kept_indices swaps cap = ({..<cap} - snd ` set swaps) \<union> fst ` set swaps"

lemma take_split: "sorted_wrt R xs \<Longrightarrow> x \<in> set (take m xs) \<Longrightarrow> y \<in> set xs \<Longrightarrow> y \<notin> set (take m xs) \<Longrightarrow> R x y"
  by (metis Un_iff append_take_drop_id set_append sorted_wrt_append)

lemma filter_upt_sorted: "sorted_wrt (<) (filter P [a..<b])" "sorted_wrt (>) (filter P (rev [a..<b]))"
  by (auto intro!: sorted_wrt_filter simp: sorted_wrt_rev)

lemma reserve_swaps_parts:
  fixes local :: "nat \<Rightarrow> bool" and slots cap n :: nat
  assumes "cap \<le> n"
  defines "promote \<equiv> filter local [cap..<n]" and "evict \<equiv> filter (\<lambda>i. \<not> local i) (rev [0..<cap])"
    and "missing \<equiv> slots - length (filter local [0..<cap])"
  obtains m where "map fst (reserve_swaps slots local cap n) = take m promote" "map snd (reserve_swaps slots local cap n) = take m evict"
    "m = min (min missing (length promote)) (length evict)"
proof -
  let ?m = "min (min missing (length promote)) (length evict)"
  have "reserve_swaps slots local cap n = zip (take missing promote) (take (min missing (length promote)) evict)"
    by (simp add: reserve_swaps_def promote_def evict_def missing_def Let_def min.commute)
  then have "map fst (reserve_swaps slots local cap n) = take ?m promote" "map snd (reserve_swaps slots local cap n) = take ?m evict"
    by (simp_all add: map_fst_zip_take map_snd_zip_take min.commute min.left_commute)
  then show ?thesis using that by blast
qed

lemma card_filter_upt: "length (filter P [a..<b]) = card {i. a \<le> i \<and> i < b \<and> P i}"
proof -
  have "length (filter P [a..<b]) = card (set (filter P [a..<b]))" by (rule distinct_card [symmetric]) simp
  also have "set (filter P [a..<b]) = {i. a \<le> i \<and> i < b \<and> P i}" by auto
  finally show ?thesis .
qed

lemma reserve_facts:
  fixes local :: "nat \<Rightarrow> bool" and slots cap n :: nat
  assumes "cap \<le> n"
  defines "swaps \<equiv> reserve_swaps slots local cap n"
  defines "kept \<equiv> kept_indices swaps cap"
  shows "distinct (map fst swaps)" "distinct (map snd swaps)" "snd ` set swaps \<subseteq> {..<cap}" "fst ` set swaps \<subseteq> {cap..<n}"
    and "card {i \<in> kept. local i} = card {i. i < cap \<and> local i} + length swaps"
    and "\<And>i j. i \<in> kept \<Longrightarrow> j < n \<Longrightarrow> j \<notin> kept \<Longrightarrow> j \<le> i \<Longrightarrow> local i \<and> \<not> local j"
    and "length swaps = min (min (slots - card {i. i < cap \<and> local i}) (card {i. cap \<le> i \<and> i < n \<and> local i}))
      (card {i. i < cap \<and> \<not> local i})"
proof -
  let ?promote = "filter local [cap..<n]" and ?evict = "filter (\<lambda>i. \<not> local i) (rev [0..<cap])"
  obtain m where m: "map fst swaps = take m ?promote" "map snd swaps = take m ?evict"
    "m = min (min (slots - length (filter local [0..<cap])) (length ?promote)) (length ?evict)"
    using reserve_swaps_parts [OF assms(1), where local = local and slots = slots] unfolding swaps_def by blast
  have fsts: "fst ` set swaps = set (take m ?promote)" and snds: "snd ` set swaps = set (take m ?evict)"
    using m(1,2) by (metis list.set_map)+
  show "distinct (map fst swaps)" "distinct (map snd swaps)" unfolding m(1,2) by (simp_all add: distinct_take)
  show P: "fst ` set swaps \<subseteq> {cap..<n}" unfolding fsts by (auto dest: in_set_takeD)
  show E: "snd ` set swaps \<subseteq> {..<cap}" unfolding snds by (auto dest: in_set_takeD)
  have len: "length swaps = m" using m by (metis length_map length_take min.absorb2 min.cobounded2)
  have lens: "length (filter local [0..<cap]) = card {i. i < cap \<and> local i}"
    "length ?promote = card {i. cap \<le> i \<and> i < n \<and> local i}" "length ?evict = card {i. i < cap \<and> \<not> local i}"
    by (simp_all add: card_filter_upt rev_filter [symmetric])
  show "length swaps = min (min (slots - card {i. i < cap \<and> local i}) (card {i. cap \<le> i \<and> i < n \<and> local i}))
      (card {i. i < cap \<and> \<not> local i})"
    unfolding len m(3) lens ..
  have "{i \<in> kept. local i} = {i. i < cap \<and> local i} \<union> fst ` set swaps"
    using P by (auto simp: kept_def kept_indices_def fsts snds dest: in_set_takeD)
  moreover have "card (fst ` set swaps) = m"
    using len \<open>distinct (map fst swaps)\<close> by (metis distinct_card length_map list.set_map)
  moreover have "{i. i < cap \<and> local i} \<inter> fst ` set swaps = {}" using P by auto
  ultimately show "card {i \<in> kept. local i} = card {i. i < cap \<and> local i} + length swaps"
    using len by (simp add: card_Un_disjoint)
  fix i j assume ij: "i \<in> kept" "j < n" "j \<notin> kept" "j \<le> i"
  show "local i \<and> \<not> local j"
  proof (cases "j < cap")
    case True
    then have j: "j \<in> set (take m ?evict)" using ij(3) by (auto simp: kept_def kept_indices_def snds)
    then have "\<not> local j" by (auto dest: in_set_takeD)
    moreover have "local i"
    proof (cases "i < cap")
      case True
      then have "i \<notin> set (take m ?evict)" using ij(1) P by (auto simp: kept_def kept_indices_def snds)
      show ?thesis
      proof (rule ccontr)
        assume "\<not> local i"
        then have "i \<in> set ?evict" using True by simp
        from take_split [OF filter_upt_sorted(2) j this \<open>i \<notin> set (take m ?evict)\<close>] ij(4) show False by simp
      qed
    next
      case False
      then show ?thesis using ij(1) by (auto simp: kept_def kept_indices_def fsts dest: in_set_takeD)
    qed
    ultimately show ?thesis by blast
  next
    case False
    then have i: "i \<in> set (take m ?promote)" using ij(1,4) by (auto simp: kept_def kept_indices_def fsts)
    then have "local i" by (auto dest: in_set_takeD)
    moreover have "\<not> local j"
    proof
      assume "local j"
      then have "j \<in> set ?promote" "j \<notin> set (take m ?promote)"
        using ij(2,3) False by (auto simp: kept_def kept_indices_def fsts)
      from take_split [OF filter_upt_sorted(1) i this] ij(4) show False by simp
    qed
    ultimately show ?thesis by blast
  qed
qed

subsection \<open>The orders of the cut\<close>

definition lawful :: "('a \<Rightarrow> 'a \<Rightarrow> ordering) \<Rightarrow> bool" where
  "lawful order \<longleftrightarrow> (\<forall>a b. order a b \<noteq> Greater \<or> order b a \<noteq> Greater) \<and>
     (\<forall>a b c. order a b \<noteq> Greater \<longrightarrow> order b c \<noteq> Greater \<longrightarrow> order a c \<noteq> Greater)"

text \<open>A comparison that also says the same from both sides.\<close>

definition comparison :: "('a \<Rightarrow> 'a \<Rightarrow> ordering) \<Rightarrow> bool" where
  "comparison c \<longleftrightarrow> (\<forall>a b. c a b = Less \<longleftrightarrow> c b a = Greater) \<and> lawful c"

lemma comparison_key: "comparison (\<lambda>a b. cmp_of (key a) (key b))" "comparison (\<lambda>a b. cmp_of (key b) (key a))"
  by (auto simp: comparison_def lawful_def cmp_of_def split: if_splits)

lemma comparison_Equal: "comparison (\<lambda>a b. Equal)"
  by (simp add: comparison_def lawful_def)

lemma comparison_then:
  assumes "comparison c" "comparison d"
  shows "comparison (\<lambda>a b. then_with (c a b) (d a b))"
proof -
  have c: "c a b = Less \<longleftrightarrow> c b a = Greater" "c a b = Equal \<longleftrightarrow> c b a = Equal" for a b
    using assms(1) ordering.exhaust unfolding comparison_def by metis+
  have d: "d a b = Less \<longleftrightarrow> d b a = Greater" for a b using assms(2) by (simp add: comparison_def)
  have equal: "c x z = c y z \<and> c z x = c z y" if "c x y = Equal" for x y z
    using that assms(1) c unfolding comparison_def lawful_def by (metis ordering.exhaust)
  have less: "c x z = Less" if "c x y = Less" "c y z = Less" for x y z
    using that assms(1) c unfolding comparison_def lawful_def by (metis ordering.exhaust ordering.distinct(3))
  have "then_with (c x z) (d x z) \<noteq> Greater"
    if "then_with (c x y) (d x y) \<noteq> Greater" "then_with (c y z) (d y z) \<noteq> Greater" for x y z
  proof (cases "c x y")
    case Less
    then have "c x z = Less"
      using that(2) less [of x y z] equal [of y z x] by (cases "c y z") (auto simp: then_with_def)
    then show ?thesis by (simp add: then_with_def)
  next
    case Equal
    then have xy: "d x y \<noteq> Greater" "c x z = c y z" using that(1) equal [of x y z] by (simp_all add: then_with_def)
    show ?thesis
    proof (cases "c y z = Equal")
      case True
      then have "d y z \<noteq> Greater" using that(2) by (simp add: then_with_def)
      then have "d x z \<noteq> Greater" using xy(1) assms(2) unfolding comparison_def lawful_def by blast
      then show ?thesis using True xy(2) by (simp add: then_with_def)
    next
      case False
      then show ?thesis using that(2) xy(2) by (simp add: then_with_def)
    qed
  next
    case Greater
    then show ?thesis using that(1) by (simp add: then_with_def)
  qed
  moreover have "then_with (c a b) (d a b) = Less \<longleftrightarrow> then_with (c b a) (d b a) = Greater" for a b
    using c [of a b] c [of b a] d [of a b] by (auto simp: then_with_def)
  moreover have "then_with (c a b) (d a b) \<noteq> Greater \<or> then_with (c b a) (d b a) \<noteq> Greater" for a b
  proof -
    have "d a b \<noteq> Greater \<or> d b a \<noteq> Greater" using assms(2) unfolding comparison_def lawful_def by blast
    then show ?thesis using c [of a b] c [of b a] by (cases "c a b"; cases "c b a") (simp_all add: then_with_def)
  qed
  ultimately show ?thesis unfolding comparison_def lawful_def by blast
qed

lemma comparison_priority: "comparison (\<lambda>a b. priority_first priority_corpus (snd a) (snd b))"
  unfolding priority_first_def by (cases priority_corpus) (simp_all add: comparison_Equal comparison_key)

lemma rollup_order_lawful:
  assumes "total_floats fo val"
  shows "lawful (rollup_order fo priority_corpus)"
proof -
  have "rollup_order fo priority_corpus = (\<lambda>a b. then_with (cmp_of (val (df_score (snd b))) (val (df_score (snd a))))
      (then_with (priority_first priority_corpus (snd a) (snd b)) (cmp_of (fst a) (fst b))))"
    using assms unfolding total_floats_def by (intro ext) (simp add: rollup_order_def or_equal_def)
  moreover have "comparison \<dots>"
    by (rule comparison_then, rule comparison_key(2), rule comparison_then, rule comparison_priority, rule comparison_key(1))
  ultimately have "comparison (rollup_order fo priority_corpus)" by (simp only:)
  then show ?thesis unfolding comparison_def by (rule conjunct2)
qed

lemma counts_order_lawful: "lawful (counts_order priority_corpus)"
proof -
  have "comparison (counts_order priority_corpus)"
    unfolding counts_order_def Let_def
    by (rule comparison_then, rule comparison_key(2), rule comparison_then, rule comparison_priority, rule comparison_key(1))
  then show ?thesis unfolding comparison_def by (rule conjunct2)
qed

lemma sort_cmp_sorted: "lawful order \<Longrightarrow> sorted_wrt (\<lambda>a b. order a b \<noteq> Greater) (sort_cmp order xs)"
  unfolding sort_cmp_def lawful_def by (rule sort_by_sorted) blast+

lemma sort_cmp_mset [simp]: "mset (sort_cmp order xs) = mset xs"
  by (simp add: sort_cmp_def sort_by_mset)

lemma sort_cmp_set [simp]: "set (sort_cmp order xs) = set xs"
  by (metis set_mset_mset sort_cmp_mset)

lemma sort_cmp_length [simp]: "length (sort_cmp order xs) = length xs"
  by (metis size_mset sort_cmp_mset)

subsection \<open>Collecting into the map\<close>

lemma upsert_sorted_new:
  "k \<notin> fst ` set es \<Longrightarrow> set (upsert_sorted k f es) = insert (k, f None) (set es) \<and> length (upsert_sorted k f es) = Suc (length es)"
  by (induction es rule: upsert_sorted.induct) auto

lemma collect_docs_acc:
  "distinct (map fst es) \<Longrightarrow> fst ` set es \<inter> fst ` set acc = {} \<Longrightarrow>
     set (fold (\<lambda>(key, doc). upsert_sorted key (\<lambda>_. doc)) es acc) = set es \<union> set acc \<and>
     length (fold (\<lambda>(key, doc). upsert_sorted key (\<lambda>_. doc)) es acc) = length es + length acc"
proof (induction es arbitrary: acc)
  case (Cons e es)
  obtain k d where e: "e = (k, d)" by fastforce
  have new: "set (upsert_sorted k (\<lambda>_. d) acc) = insert (k, d) (set acc)"
    "length (upsert_sorted k (\<lambda>_. d) acc) = Suc (length acc)"
    using upsert_sorted_new [of k acc "\<lambda>_. d"] Cons.prems(2) e by auto
  have "fst ` set es \<inter> fst ` set (upsert_sorted k (\<lambda>_. d) acc) = {}" using Cons.prems e new by auto
  from Cons.IH [OF _ this] Cons.prems(1) show ?case by (simp add: e new)
qed simp

lemma collect_docs:
  "distinct (map fst es) \<Longrightarrow> set (collect_docs es) = set es \<and> length (collect_docs es) = length es"
  using collect_docs_acc [of es "[]"] by (simp add: collect_docs_def)

subsection \<open>What survives the cut\<close>

lemma filter_take_indices: "cap \<le> length xs \<Longrightarrow> length (filter P (take cap xs)) = length (filter (\<lambda>i. P (xs ! i)) [0..<cap])"
proof -
  assume "cap \<le> length xs"
  then have "take cap xs = map ((!) xs) [0..<cap]" by (intro nth_equalityI) auto
  then show ?thesis by (simp add: filter_map comp_def)
qed

text \<open>The cut when the fused files do not all fit: the indices that are kept, in the order of the files.\<close>

lemma cut_large:
  fixes docs :: "(string \<times> 'g doc_file) list" and priority_corpus :: "string option"
  assumes "cap < length ranked" "ranked = sort_cmp order (filter (\<lambda>e. fst e \<notin> set fallback_docs) docs)" "distinct (map fst ranked)"
  defines "local \<equiv> \<lambda>i. priority_corpus = Some (df_corpus (snd (ranked ! i)))"
  defines "kept \<equiv> kept_indices (reserve_swaps RESERVED_LOCAL_SLOTS local cap (length ranked)) cap"
  shows "set (cut_with_local_reserve docs cap priority_corpus fallback_docs order) = (!) ranked ` kept"
    and "length (cut_with_local_reserve docs cap priority_corpus fallback_docs order) = cap"
    and "kept \<subseteq> {..<length ranked}"
proof -
  let ?swaps = "reserve_swaps RESERVED_LOCAL_SLOTS local cap (length ranked)"
  have le: "cap \<le> length ranked" using assms(1) by simp
  note facts = reserve_facts [OF le, where slots = RESERVED_LOCAL_SLOTS and local = local]
  note window = window_set [OF facts(1-4) le]
  let ?kept = "take cap (fold (\<lambda>(p, e). swap_at e p) ?swaps ranked)"
  have sub: "kept \<subseteq> {..<length ranked}" using facts(4) le by (auto simp: kept_def kept_indices_def)
  then show "kept \<subseteq> {..<length ranked}" .
  have set_kept: "set ?kept = (!) ranked ` kept" and len: "length ?kept = cap"
    using window by (simp_all add: kept_def kept_indices_def)
  have inj: "inj_on ((!) (map fst ranked)) {..<length ranked}"
    by (rule inj_on_nth [OF assms(3)]) simp
  have "card kept = cap"
  proof -
    have "distinct (map fst ?swaps)" "distinct (map snd ?swaps)" by (rule facts)+
    then have "card (fst ` set ?swaps) = length ?swaps" "card (snd ` set ?swaps) = length ?swaps"
      by (metis distinct_card length_map list.set_map)+
    moreover have "({..<cap} - snd ` set ?swaps) \<inter> fst ` set ?swaps = {}" using facts(4) by auto
    moreover have "length ?swaps \<le> cap"
      using card_mono [OF _ facts(3)] calculation(2) by simp
    ultimately show ?thesis using facts(3)
      by (simp add: kept_def kept_indices_def card_Un_disjoint card_Diff_subset)
  qed
  moreover have "set (map fst ?kept) = (!) (map fst ranked) ` kept"
    unfolding list.set_map set_kept image_image using sub by (intro image_cong) auto
  moreover have "card ((!) (map fst ranked) ` kept) = card kept"
    by (rule card_image) (rule inj_on_subset [OF inj sub])
  ultimately have "card (set (map fst ?kept)) = length (map fst ?kept)" using len by simp
  then have dist: "distinct (map fst ?kept)" by (rule card_distinct)
  have swaps: "local_swaps ranked cap priority_corpus = ?swaps"
  proof (cases priority_corpus)
    case None
    then show ?thesis by (simp add: local_swaps_def reserve_swaps_def local_def Let_def)
  next
    case (Some priority)
    then have "local = (\<lambda>i. df_corpus (snd (ranked ! i)) = priority)" by (auto simp: local_def)
    then show ?thesis by (simp add: local_swaps_def reserve_swaps_def Some Let_def filter_take_indices [OF le])
  qed
  let ?out = "if ?swaps \<noteq> [] then sort_cmp order ?kept else ?kept"
  have cut: "cut_with_local_reserve docs cap priority_corpus fallback_docs order = collect_docs ?out"
    unfolding cut_with_local_reserve_def Let_def assms(2) [symmetric] swaps by (rule if_not_P) (use assms(1) in simp)
  have out: "mset ?out = mset ?kept" by simp
  have "mset (map fst ?out) = mset (map fst ?kept)" using out by (simp only: mset_map)
  then have "distinct (map fst ?out)" using mset_eq_imp_distinct_iff dist by blast
  from collect_docs [OF this] have "set (collect_docs ?out) = set ?out" "length (collect_docs ?out) = length ?out" by blast+
  moreover have "set ?out = set ?kept" using out by (rule mset_eq_setD)
  moreover have "length ?out = length ?kept" using out by (rule mset_eq_length)
  ultimately show "set (cut_with_local_reserve docs cap priority_corpus fallback_docs order) = (!) ranked ` kept"
    "length (cut_with_local_reserve docs cap priority_corpus fallback_docs order) = cap"
    unfolding cut by (simp_all only: set_kept len)
qed

text \<open>The cut when the fused files fit: they stay, and fallback files fill the rest.\<close>

lemma cut_small:
  fixes docs :: "(string \<times> 'g doc_file) list" and priority_corpus :: "string option"
    and order :: "string \<times> 'g doc_file \<Rightarrow> string \<times> 'g doc_file \<Rightarrow> ordering"
  assumes "length (filter (\<lambda>e. fst e \<notin> set fallback_docs) docs) \<le> cap" "distinct (map fst docs)"
  defines "out \<equiv> cut_with_local_reserve docs cap priority_corpus fallback_docs order"
  shows "{e \<in> set docs. fst e \<notin> set fallback_docs} \<subseteq> set out" "set out \<subseteq> set docs" "length out = min cap (length docs)"
    and "lawful order \<Longrightarrow> e \<in> set out \<Longrightarrow> fst e \<in> set fallback_docs \<Longrightarrow> d \<in> set docs - set out \<Longrightarrow> order e d \<noteq> Greater"
proof -
  let ?ranked = "sort_cmp order (filter (\<lambda>e. fst e \<notin> set fallback_docs) docs)"
  let ?fallback = "sort_cmp order (filter (\<lambda>e. fst e \<in> set fallback_docs) docs)"
  let ?n = "cap - length ?ranked"
  have dist: "distinct (map fst (filter P docs))" for P using assms(2) by (simp add: distinct_map_filter)
  have dist_sort: "distinct (map fst (sort_cmp order (filter P docs)))" for P
    using dist [of P] by (metis mset_map mset_eq_imp_distinct_iff sort_cmp_mset)
  have "distinct (map fst (?ranked @ take ?n ?fallback))"
    using dist_sort [of "\<lambda>e. fst e \<notin> set fallback_docs"] dist_sort [of "\<lambda>e. fst e \<in> set fallback_docs"]
    by (auto simp: take_map [symmetric] distinct_take dest: in_set_takeD)
  from collect_docs [OF this]
  have out: "set out = set ?ranked \<union> set (take ?n ?fallback)" "length out = length ?ranked + length (take ?n ?fallback)"
    using assms(1) by (simp_all add: out_def cut_with_local_reserve_def Let_def)
  then show "{e \<in> set docs. fst e \<notin> set fallback_docs} \<subseteq> set out" "set out \<subseteq> set docs"
    by (auto dest: in_set_takeD)
  have "length docs = length ?ranked + length ?fallback"
    using sum_length_filter_compl [of "\<lambda>e. fst e \<notin> set fallback_docs" docs] by simp
  then show "length out = min cap (length docs)" using out(2) assms(1) by simp
  show "order e d \<noteq> Greater" if "lawful order" "e \<in> set out" "fst e \<in> set fallback_docs" "d \<in> set docs - set out"
  proof -
    have "e \<in> set (take ?n ?fallback)" using that(2,3) out(1) by auto
    moreover have "d \<in> set ?fallback" "d \<notin> set (take ?n ?fallback)" using that(4) out(1) by auto
    then have "d \<in> set (drop ?n ?fallback)" by (metis UnE append_take_drop_id set_append)
    moreover have "sorted_wrt (\<lambda>a b. order a b \<noteq> Greater) (take ?n ?fallback @ drop ?n ?fallback)"
      unfolding append_take_drop_id by (rule sort_cmp_sorted [OF that(1)])
    ultimately show ?thesis unfolding sorted_wrt_append by blast
  qed
qed

text \<open>The reserve in terms of the files: what is kept, displaced and left out.\<close>

lemma cut_large_files:
  fixes docs :: "(string \<times> 'g doc_file) list" and priority_corpus :: "string option"
    and order :: "string \<times> 'g doc_file \<Rightarrow> string \<times> 'g doc_file \<Rightarrow> ordering"
  assumes "cap < length (filter (\<lambda>e. fst e \<notin> set fallback_docs) docs)" "distinct (map fst docs)" "lawful order"
  defines "out \<equiv> set (cut_with_local_reserve docs cap priority_corpus fallback_docs order)"
    and "fused \<equiv> {e \<in> set docs. fst e \<notin> set fallback_docs}"
    and "loc \<equiv> \<lambda>e. priority_corpus = Some (df_corpus (snd e))"
  shows "out \<subseteq> fused"
    and "min (min RESERVED_LOCAL_SLOTS cap) (card {e \<in> fused. loc e}) \<le> card {e \<in> out. loc e}"
    and "\<forall>e \<in> out. \<forall>d \<in> fused - out. order e d = Greater \<longrightarrow> loc e \<and> \<not> loc d"
    and "\<forall>e \<in> out. \<forall>d \<in> fused - out. order e d = Greater \<longrightarrow> card {e \<in> out. loc e} \<le> RESERVED_LOCAL_SLOTS"
proof -
  define ranked where "ranked = sort_cmp order (filter (\<lambda>e. fst e \<notin> set fallback_docs) docs)"
  define local where "local = (\<lambda>i. loc (ranked ! i))"
  define swaps where "swaps = reserve_swaps RESERVED_LOCAL_SLOTS local cap (length ranked)"
  define kept where "kept = kept_indices swaps cap"
  have cap: "cap < length ranked" using assms(1) by (simp add: ranked_def)
  then have le: "cap \<le> length ranked" by simp
  have "distinct (map fst (filter (\<lambda>e. fst e \<notin> set fallback_docs) docs))" using assms(2) by (simp add: distinct_map_filter)
  then have dist: "distinct (map fst ranked)"
    unfolding ranked_def using mset_eq_imp_distinct_iff [of "map fst (sort_cmp order _)" "map fst _"] by (metis mset_map sort_cmp_mset)
  note large = cut_large [OF cap ranked_def dist, where priority_corpus = priority_corpus]
  have out: "out = (!) ranked ` kept" and kept_n: "kept \<subseteq> {..<length ranked}"
    using large unfolding out_def kept_def swaps_def local_def loc_def by simp_all
  have fused: "fused = (!) ranked ` {..<length ranked}"
    unfolding fused_def using nth_image [of "length ranked" ranked] by (simp add: ranked_def lessThan_atLeast0)
  show "out \<subseteq> fused" unfolding out fused using kept_n by blast
  note facts = reserve_facts [OF le, where slots = RESERVED_LOCAL_SLOTS and local = local, folded swaps_def kept_def]
  have inj: "inj_on ((!) ranked) {..<length ranked}" by (rule inj_on_nth [OF dist [unfolded distinct_map, THEN conjunct1]]) simp
  have count: "card {e \<in> (!) ranked ` I. loc e} = card {i \<in> I. local i}" if "I \<subseteq> {..<length ranked}" for I
  proof -
    have "{e \<in> (!) ranked ` I. loc e} = (!) ranked ` {i \<in> I. local i}" by (auto simp: local_def)
    moreover have "inj_on ((!) ranked) {i \<in> I. local i}" using that by (intro inj_on_subset [OF inj]) auto
    ultimately show ?thesis by (simp add: card_image)
  qed
  let ?k = "card {i. i < cap \<and> local i}" and ?l = "card {i. cap \<le> i \<and> i < length ranked \<and> local i}"
    and ?r = "card {i. i < cap \<and> \<not> local i}"
  have "{i \<in> {..<length ranked}. local i} = {i. i < cap \<and> local i} \<union> {i. cap \<le> i \<and> i < length ranked \<and> local i}"
    using le by auto
  moreover have "card ({i. i < cap \<and> local i} \<union> {i. cap \<le> i \<and> i < length ranked \<and> local i}) = ?k + ?l"
    by (rule card_Un_disjoint) auto
  ultimately have all: "card {e \<in> fused. loc e} = ?k + ?l"
    unfolding fused count [OF subset_refl] by (simp only:)
  have "{..<cap} = {i. i < cap \<and> local i} \<union> {i. i < cap \<and> \<not> local i}" by auto
  moreover have "card ({i. i < cap \<and> local i} \<union> {i. i < cap \<and> \<not> local i}) = ?k + ?r"
    by (rule card_Un_disjoint) auto
  ultimately have r: "cap = ?k + ?r" by (metis card_lessThan)
  have local_out: "card {e \<in> out. loc e} = ?k + length swaps" unfolding out count [OF kept_n] by (rule facts(5))
  show "min (min RESERVED_LOCAL_SLOTS cap) (card {e \<in> fused. loc e}) \<le> card {e \<in> out. loc e}"
    unfolding all local_out facts(7) using r by arith
  have sorted: "sorted_wrt (\<lambda>a b. order a b \<noteq> Greater) ranked" unfolding ranked_def by (rule sort_cmp_sorted [OF assms(3)])
  have displaced: "\<exists>i j. e = ranked ! i \<and> d = ranked ! j \<and> i \<in> kept \<and> j < length ranked \<and> j \<notin> kept \<and> j \<le> i"
    if "e \<in> out" "d \<in> fused - out" "order e d = Greater" for e d
  proof -
    obtain i j where ij: "e = ranked ! i" "i \<in> kept" "d = ranked ! j" "j < length ranked" using \<open>e \<in> out\<close> \<open>d \<in> fused - out\<close> unfolding out fused by auto
    moreover have "j \<notin> kept" using \<open>d \<in> fused - out\<close> ij unfolding out by auto
    moreover have "\<not> i < j"
      using sorted_wrt_nth_less [OF sorted, of i j] \<open>order e d = Greater\<close> ij by auto
    ultimately show ?thesis using not_less by blast
  qed
  show step: "\<forall>e \<in> out. \<forall>d \<in> fused - out. order e d = Greater \<longrightarrow> loc e \<and> \<not> loc d"
    using displaced facts(6) unfolding local_def by blast
  show "\<forall>e \<in> out. \<forall>d \<in> fused - out. order e d = Greater \<longrightarrow> card {e \<in> out. loc e} \<le> RESERVED_LOCAL_SLOTS"
  proof (cases "swaps = []")
    case True
    then have "kept = {..<cap}" by (simp add: kept_def kept_indices_def)
    then show ?thesis using displaced by fastforce
  next
    case False
    then have "?k < RESERVED_LOCAL_SLOTS" using facts(7) by (cases "length swaps") auto
    then have "card {e \<in> out. loc e} \<le> RESERVED_LOCAL_SLOTS" unfolding local_out facts(7) by arith
    then show ?thesis by blast
  qed
qed

subsection \<open>The ranking of the files\<close>

text \<open>
  Which file ranks before which: the better score, for counts the more matches; then the file of the corpus of the
  searcher; then the path.
\<close>

definition ranks_before ::
  "('g \<Rightarrow> 'o::linorder) \<Rightarrow> ground_output \<Rightarrow> string option \<Rightarrow> string \<times> 'g doc_file \<Rightarrow> string \<times> 'g doc_file \<Rightarrow> bool" where
  "ranks_before val out_mode priority_corpus d e \<longleftrightarrow>
     (let loc = (\<lambda>e. priority_corpus = Some (df_corpus (snd e)));
          found = (\<lambda>e. case df_coverage (snd e) of Some c \<Rightarrow> cov_chunks c | None \<Rightarrow> 0);
          tie = (loc d \<and> \<not> loc e \<or> loc d = loc e \<and> fst d < fst e)
      in case out_mode of
           Hits \<Rightarrow> val (df_score (snd e)) < val (df_score (snd d)) \<or> val (df_score (snd e)) = val (df_score (snd d)) \<and> tie
         | Counts \<Rightarrow> found e < found d \<or> found e = found d \<and> tie)"

lemma priority_tie:
  "then_with (priority_first priority_corpus (snd e) (snd d)) (cmp_of (fst e) (fst d)) = Greater \<longleftrightarrow>
     (let loc = (\<lambda>e. priority_corpus = Some (df_corpus (snd e))) in loc d \<and> \<not> loc e \<or> loc d = loc e \<and> fst d < fst e)"
  by (cases priority_corpus) (auto simp: priority_first_def then_with_def cmp_of_def)

lemma then_Greater: "then_with (cmp_of a b) o2 = Greater \<longleftrightarrow> b < a \<or> b = a \<and> o2 = Greater"
  by (auto simp: then_with_def cmp_of_def)

lemma order_ranks:
  assumes "total_floats fo val"
  shows "(case out_mode of Hits \<Rightarrow> rollup_order fo priority_corpus | Counts \<Rightarrow> counts_order priority_corpus) e d = Greater \<longleftrightarrow>
    ranks_before val out_mode priority_corpus d e"
proof (cases out_mode)
  case Hits
  then show ?thesis using assms priority_tie [of priority_corpus e d] unfolding total_floats_def
    by (simp add: rollup_order_def ranks_before_def or_equal_def then_Greater Let_def)
next
  case Counts
  then show ?thesis using priority_tie [of priority_corpus e d]
    by (simp add: counts_order_def ranks_before_def then_Greater Let_def)
qed

subsection \<open>The files that are returned\<close>

text \<open>
  C35. The files that grounding returns. At most \<open>top_files\<close> files are returned (2000 for counts), and as many
  as there are; a file of the lexical fallback only when every file that the search found is returned, and the
  best of these. A file is returned before a better one only when it is a file of the corpus of the searcher and
  the other is not, and the files of that corpus that are returned are then two at most; two of them are
  returned when there are that many. The scores compare as a total order: none of them is not a number.
\<close>
theorem cut_docs_keeps:
  fixes env :: "('f, 'g) ground_env" and val :: "'g \<Rightarrow> 'o::linorder" and priority_corpus :: "string option"
    and opts :: ground_opts and docs :: "(string \<times> 'g doc_file) list" and fallback_docs :: "string list"
  assumes "total_floats (ge_floats64 env) val" "distinct (map fst docs)"
  defines "kept \<equiv> fst (cut_docs env opts priority_corpus docs fallback_docs)"
    and "found \<equiv> {e \<in> set docs. fst e \<notin> set fallback_docs}"
    and "cap \<equiv> case go_output opts of Hits \<Rightarrow> go_top_files opts | Counts \<Rightarrow> 2000"
    and "before \<equiv> ranks_before val (go_output opts) priority_corpus"
    and "loc \<equiv> \<lambda>e. priority_corpus = Some (df_corpus (snd e))"
  shows "set kept \<subseteq> set docs \<and> length kept = min cap (length docs) \<and>
    (set kept \<subseteq> found \<or> found \<subseteq> set kept) \<and>
    (\<forall>e \<in> set kept - found. \<forall>d \<in> set docs - set kept. \<not> before d e) \<and>
    (\<forall>e \<in> set kept \<inter> found. \<forall>d \<in> found - set kept. before d e \<longrightarrow>
       loc e \<and> \<not> loc d \<and> card {e \<in> set kept. loc e} \<le> 2) \<and>
    min (min 2 cap) (card {e \<in> found. loc e}) \<le> card {e \<in> set kept. loc e}"
proof -
  define order where "order = (case go_output opts of Hits \<Rightarrow> rollup_order (ge_floats64 env) priority_corpus | Counts \<Rightarrow> counts_order priority_corpus)"
  have before: "before d e \<longleftrightarrow> order e d = Greater" for d e
    unfolding before_def order_def by (rule order_ranks [OF assms(1), symmetric])
  have lawful: "lawful order"
    unfolding order_def by (cases "go_output opts") (simp_all add: rollup_order_lawful [OF assms(1)] counts_order_lawful)
  have all: "min (min 2 cap) (card {e \<in> found. loc e}) \<le> card {e \<in> set kept. loc e}" if "found \<subseteq> set kept"
    by (rule min.coboundedI2, rule card_mono) (use that in auto)
  have none: "found - set kept = {}" if "found \<subseteq> set kept" using that by blast
  show ?thesis
  proof (cases "length docs \<le> cap")
    case True
    then have "kept = docs"
      by (cases "go_output opts") (auto simp: kept_def cut_docs_def cap_def MAX_COUNTS_FILES_def)
    then show ?thesis using True all none by (auto simp: found_def)
  next
    case False
    then have cut: "kept = cut_with_local_reserve docs cap priority_corpus fallback_docs order"
      by (cases "go_output opts") (auto simp: kept_def cut_docs_def cap_def order_def MAX_COUNTS_FILES_def)
    show ?thesis
    proof (cases "length (filter (\<lambda>e. fst e \<notin> set fallback_docs) docs) \<le> cap")
      case True
      note small = cut_small [OF True assms(2), where priority_corpus = priority_corpus and order = order, folded cut found_def]
      have "\<forall>e \<in> set kept - found. \<forall>d \<in> set docs - set kept. \<not> before d e"
        unfolding before using small(2) small(4) [OF lawful] by (auto simp: found_def)
      then show ?thesis unfolding none [OF small(1)] using small(1-3) all [OF small(1)] by simp
    next
      case large: False
      then have over: "cap < length (filter (\<lambda>e. fst e \<notin> set fallback_docs) docs)" by simp
      note files = cut_large_files [OF over assms(2) lawful, where priority_corpus = priority_corpus,
          folded cut found_def, unfolded RESERVED_LOCAL_SLOTS_def]
      have "distinct (map fst (filter (\<lambda>e. fst e \<notin> set fallback_docs) docs))" using assms(2) by (simp add: distinct_map_filter)
      then have "distinct (map fst (sort_cmp order (filter (\<lambda>e. fst e \<notin> set fallback_docs) docs)))"
        using mset_eq_imp_distinct_iff [of "map fst (sort_cmp order _)" "map fst _"] by (metis mset_map sort_cmp_mset)
      from cut_large(2) [OF _ refl this] over have len: "length kept = cap" by (simp add: cut)
      have "set kept \<subseteq> set docs" using files(1) by (auto simp: found_def)
      moreover have "\<forall>e \<in> set kept \<inter> found. \<forall>d \<in> found - set kept. before d e \<longrightarrow> loc e \<and> \<not> loc d \<and> card {e \<in> set kept. loc e} \<le> 2"
        unfolding before loc_def using files(3,4) by blast
      moreover have "\<forall>e \<in> set kept - found. \<forall>d \<in> set docs - set kept. \<not> before d e" using files(1) by blast
      moreover have "min (min 2 cap) (card {e \<in> found. loc e}) \<le> card {e \<in> set kept. loc e}" using files(2) by (simp add: loc_def)
      moreover have "length kept = min cap (length docs)" using False len by simp
      ultimately show ?thesis using files(1) by (intro conjI disjI1)
    qed
  qed
qed

subsection \<open>A concrete cut\<close>

text \<open>Four files of the index, two of them of the corpus of the searcher, and a file of the fallback.\<close>

definition sample_doc :: "string \<Rightarrow> int \<Rightarrow> int doc_file" where
  "sample_doc corpus score =
     \<lparr>df_summary = None, df_keywords = [], df_score = score, df_z_score = None, df_mtime = [], df_corpus = corpus,
      df_path = None, df_stale = False, df_chunks = [], df_coverage = None\<rparr>"

definition sample_docs :: "(string \<times> int doc_file) list" where
  "sample_docs =
     [(''/o/a.md'', sample_doc ''other'' 9), (''/o/b.md'', sample_doc ''other'' 8), (''/o/f.md'', sample_doc ''other'' 9),
      (''/w/c.md'', sample_doc ''own'' 7), (''/w/d.md'', sample_doc ''own'' 6)]"

lemma cut_docs_keeps_witness:
  "\<forall>env :: (int, int) ground_env.
     (let cut = cut_docs (env\<lparr>ge_floats64 := sample_floats\<rparr>) (ground_opts_default\<lparr>go_top_files := 3\<rparr>) (Some ''own'') sample_docs [''/o/f.md'']
      in length (fst cut) = 3 \<and> set (fst cut) \<subseteq> set sample_docs \<and> map fst (fst cut) = [''/o/a.md'', ''/w/c.md'', ''/w/d.md''])"
proof
  fix env :: "(int, int) ground_env"
  let ?env = "env\<lparr>ge_floats64 := sample_floats\<rparr>" and ?opts = "ground_opts_default\<lparr>go_top_files := 3\<rparr>"
  have "distinct (map fst sample_docs)" by code_simp
  then have "length (fst (cut_docs ?env ?opts (Some ''own'') sample_docs [''/o/f.md''])) = 3 \<and>
      set (fst (cut_docs ?env ?opts (Some ''own'') sample_docs [''/o/f.md''])) \<subseteq> set sample_docs"
    using cut_docs_keeps [where env = ?env and val = "\<lambda>a. a" and docs = sample_docs and fallback_docs = "[''/o/f.md'']" and opts = ?opts and priority_corpus = "Some ''own''"] sample_floats_total
    by (simp add: ground_opts_default_def sample_docs_def)
  moreover have "map fst (fst (cut_docs ?env ?opts (Some ''own'') sample_docs [''/o/f.md''])) = [''/o/a.md'', ''/w/c.md'', ''/w/d.md'']"
    by (simp add: cut_docs_def ground_opts_default_def) code_simp
  ultimately show "let cut = cut_docs ?env ?opts (Some ''own'') sample_docs [''/o/f.md'']
      in length (fst cut) = 3 \<and> set (fst cut) \<subseteq> set sample_docs \<and> map fst (fst cut) = [''/o/a.md'', ''/w/c.md'', ''/w/d.md'']"
    by (simp add: Let_def)
qed

end
