(* ===== verification/Repository.thy ===== *)
theory Repository
  imports Common
begin

text \<open>
  Repositories and the corpora derived from them (\<open>repository.rs\<close>), the discovery of wikis below a
  directory (\<open>discovery.rs\<close>) and the names of the embedding models (\<open>embeddings/index.rs\<close>). Paths in
  a configuration are text. The directory walk of the ignore library, BLAKE3, the home directory and
  the file system are arguments.
\<close>

subsection \<open>Declarations\<close>

text \<open>\<open>PathBuf::join\<close> on text: an absolute path replaces the base.\<close>

definition path_join :: "string \<Rightarrow> string \<Rightarrow> string" where
  "path_join base p =
     (if starts_with [SLASH] p then p
      else if base = [] \<or> last base = SLASH then base @ p else base @ [SLASH] @ p)"

record repository_config =
  rc_name :: string
  rc_path :: string
  rc_corpus_paths :: "string list"
  rc_corpus_globs :: "string list"
  rc_corpus_exclude :: "string list"
  rc_wiki :: "string option"

datatype repo_corpus_kind = Wiki | Corpus

fun kind_suffix :: "repo_corpus_kind \<Rightarrow> string" where
  "kind_suffix Wiki = ''wiki''"
| "kind_suffix Corpus = ''corpus''"

definition WIKI_RELATIVE_PATH :: string where
  "WIKI_RELATIVE_PATH = ''.hallouminate/wiki''"

definition repo_corpus_name :: "string \<Rightarrow> repo_corpus_kind \<Rightarrow> string hall_result" where
  "repo_corpus_name repo_name kind =
     (if repo_name = [] then Err (EConfig ''repository name must not be empty'')
      else if CHR '':'' \<in> set repo_name
      then Err (EConfig (''repository name '' @ debug_str repo_name @
             '' must not contain ':' (reserved as the repo:{name}:{kind} separator)''))
      else Ok (''repo:'' @ repo_name @ '':'' @ kind_suffix kind))"

definition wiki_directory :: "repository_config \<Rightarrow> string" where
  "wiki_directory repo =
     path_join (rc_path repo) (case rc_wiki repo of Some rel \<Rightarrow> rel | None \<Rightarrow> WIKI_RELATIVE_PATH)"

definition repository_wiki_corpus :: "repository_config \<Rightarrow> corpus_config hall_result" where
  "repository_wiki_corpus repo =
     result_bind (repo_corpus_name (rc_name repo) Wiki) (\<lambda>name.
       Ok \<lparr>cc_name = name, cc_paths = [wiki_directory repo], cc_globs = [''**/*.md''], cc_exclude = [], cc_global = False\<rparr>)"

definition resolve_under :: "string \<Rightarrow> string \<Rightarrow> string" where
  "resolve_under base raw = (if starts_with [SLASH] raw then raw else path_join base raw)"

definition repository_source_corpus :: "repository_config \<Rightarrow> corpus_config option hall_result" where
  "repository_source_corpus repo =
     (if rc_corpus_paths repo = [] then Ok None
      else result_bind (repo_corpus_name (rc_name repo) Corpus) (\<lambda>name.
             Ok (Some \<lparr>cc_name = name, cc_paths = map (resolve_under (rc_path repo)) (rc_corpus_paths repo),
                       cc_globs = rc_corpus_globs repo, cc_exclude = rc_corpus_exclude repo, cc_global = False\<rparr>)))"

fun derive_corpora :: "repository_config list \<Rightarrow> corpus_config list hall_result" where
  "derive_corpora [] = Ok []"
| "derive_corpora (repo # repos) =
     result_bind (repository_wiki_corpus repo) (\<lambda>wiki.
     result_bind (repository_source_corpus repo) (\<lambda>src.
     result_bind (derive_corpora repos) (\<lambda>rest.
       Ok (wiki # (case src of Some c \<Rightarrow> [c] | None \<Rightarrow> []) @ rest))))"

fun first_duplicate :: "string list \<Rightarrow> string list \<Rightarrow> string option" where
  "first_duplicate seen [] = None"
| "first_duplicate seen (n # ns) = (if n \<in> set seen then Some n else first_duplicate (n # seen) ns)"

definition effective_corpora :: "corpus_config list \<Rightarrow> repository_config list \<Rightarrow> corpus_config list hall_result" where
  "effective_corpora corpora repositories =
     result_bind (derive_corpora repositories) (\<lambda>derived.
       let out = corpora @ derived
       in case first_duplicate [] (map cc_name out) of
            Some name \<Rightarrow> Err (EConfig (''duplicate corpus name '' @ debug_str name @ '' after deriving repository corpora''))
          | None \<Rightarrow> Ok out)"

fun deepest_repository ::
  "canonicalizer \<Rightarrow> (string \<Rightarrow> string) \<Rightarrow> path \<Rightarrow> (nat \<times> string) option \<Rightarrow> repository_config list \<Rightarrow> (nat \<times> string) option" where
  "deepest_repository canon tilde cwd_abs best [] = best"
| "deepest_repository canon tilde cwd_abs best (repo # repos) =
     (let repo_abs = canonicalize_or_passthrough canon (expand_tilde tilde (rc_path repo));
          depth = length repo_abs;
          beats_best = (case best of None \<Rightarrow> True | Some (d, _) \<Rightarrow> d < depth)
      in deepest_repository canon tilde cwd_abs
           (if starts_with repo_abs cwd_abs \<and> beats_best
            then (case repo_corpus_name (rc_name repo) Wiki of Ok name \<Rightarrow> Some (depth, name) | Err _ \<Rightarrow> best)
            else best) repos)"

definition default_wiki_for_cwd ::
  "canonicalizer \<Rightarrow> (string \<Rightarrow> string) \<Rightarrow> repository_config list \<Rightarrow> path \<Rightarrow> string option" where
  "default_wiki_for_cwd canon tilde repositories cwd =
     map_option snd (deepest_repository canon tilde (canonicalize_or_passthrough canon cwd) None repositories)"

subsection \<open>Embedding models\<close>

definition BGE_SMALL_MODEL :: string where "BGE_SMALL_MODEL = ''BAAI/bge-small-en-v1.5''"
definition E5_SMALL_MODEL :: string where "E5_SMALL_MODEL = ''intfloat/multilingual-e5-small''"
definition ARCTIC_S_MODEL :: string where "ARCTIC_S_MODEL = ''snowflake/snowflake-arctic-embed-s''"
definition DEFAULT_EMBED_MODEL :: string where "DEFAULT_EMBED_MODEL = ARCTIC_S_MODEL"

definition SUPPORTED_MODELS :: "string list" where
  "SUPPORTED_MODELS = [BGE_SMALL_MODEL, E5_SMALL_MODEL, ARCTIC_S_MODEL]"

definition canonical_model_name :: "string \<Rightarrow> string hall_result" where
  "canonical_model_name name =
     (if name = BGE_SMALL_MODEL \<or> name = E5_SMALL_MODEL \<or> name = ARCTIC_S_MODEL then Ok name
      else Err (EConfig (''unsupported embedding model '' @ debug_str name @ ''; choose one of '' @
             debug_str BGE_SMALL_MODEL @ '', '' @ debug_str E5_SMALL_MODEL @ '', '' @ debug_str ARCTIC_S_MODEL @
             '' (note: all-MiniLM-L6-v2 was dropped '' @ [CHR 0xE2, CHR 0x80, CHR 0x94] @
             '' delete the ground dir and re-run `hallouminate index` after switching)'')))"

subsection \<open>Discovery below a directory\<close>

definition DEFAULT_MAX_DEPTH :: nat where
  "DEFAULT_MAX_DEPTH = 4"

record ignore_rules =
  respect_gitignore :: bool
  skip_hidden :: bool

definition ignore_rules_default :: ignore_rules where
  "ignore_rules_default = \<lparr>respect_gitignore = True, skip_hidden = True\<rparr>"

record discovered_wiki =
  repo_root :: path
  config_path :: "path option"
  wiki_dir :: "path option"

text \<open>The filter on entries, by path and file name; a name that is not UTF-8 is not hidden.\<close>

definition keep_entry :: "path \<Rightarrow> bool \<Rightarrow> path \<Rightarrow> string \<Rightarrow> bool" where
  "keep_entry root skip p name =
     (if p = root then True
      else if name = ''.hallouminate'' then True
      else if name = ''.git'' then False
      else if skip then \<not> (case to_str name of Some n \<Rightarrow> starts_with ''.'' n | None \<Rightarrow> False)
      else True)"

text \<open>
  An entry of the walk: its path, its file name and whether it is a directory; an unreadable entry is an error. The
  walk gets the greatest depth, whether to follow ignore files, and the filter.
\<close>

type_synonym walk_entry = "io_kind + (path \<times> string \<times> bool)"
type_synonym walker = "path \<Rightarrow> nat \<Rightarrow> bool \<Rightarrow> (path \<Rightarrow> string \<Rightarrow> bool) \<Rightarrow> walk_entry list"

fun collect_wikis ::
  "(path \<Rightarrow> bool) \<Rightarrow> (path \<Rightarrow> bool) \<Rightarrow> path \<Rightarrow> discovered_wiki list \<Rightarrow> walk_entry list \<Rightarrow> discovered_wiki list" where
  "collect_wikis is_file is_dir root out [] = out"
| "collect_wikis is_file is_dir root out (Inl e # es) = collect_wikis is_file is_dir root out es"
| "collect_wikis is_file is_dir root out (Inr (p, name, dir) # es) =
     (if name \<noteq> ''.hallouminate'' \<or> \<not> dir then collect_wikis is_file is_dir root out es
      else case path_parent p of
             None \<Rightarrow> collect_wikis is_file is_dir root out es
           | Some repo \<Rightarrow>
               (if repo = root then collect_wikis is_file is_dir root out es
                else
                  let config = p @ [Normal ''config.toml''];
                      wiki = repo @ [Normal ''.hallouminate'', Normal ''wiki''];
                      config_path = (if is_file config then Some config else None);
                      wiki_dir = (if is_dir wiki then Some wiki else None)
                  in if config_path = None \<and> wiki_dir = None then collect_wikis is_file is_dir root out es
                     else collect_wikis is_file is_dir root
                            (if repo \<in> repo_root ` set out then out
                             else out @ [\<lparr>repo_root = repo, config_path = config_path, wiki_dir = wiki_dir\<rparr>]) es))"

definition discover_wiki_roots ::
  "walker \<Rightarrow> (path \<Rightarrow> bool) \<Rightarrow> (path \<Rightarrow> bool) \<Rightarrow> path \<Rightarrow> nat \<Rightarrow> ignore_rules \<Rightarrow> discovered_wiki list" where
  "discover_wiki_roots walk is_file is_dir root max_depth ignore =
     collect_wikis is_file is_dir root []
       (walk root (max_depth + 1) (respect_gitignore ignore) (keep_entry root (skip_hidden ignore)))"

definition repository_for_discovered_wiki :: "path \<Rightarrow> repository_config option" where
  "repository_for_discovered_wiki root =
     (case path_file_name root of
        None \<Rightarrow> None
      | Some n \<Rightarrow>
          (case to_str n of
             None \<Rightarrow> None
           | Some name \<Rightarrow>
               if trim name = [] \<or> CHR '':'' \<in> set name then None
               else Some \<lparr>rc_name = name, rc_path = to_string_lossy (path_string root), rc_corpus_paths = [], rc_corpus_globs = [],
                          rc_corpus_exclude = [], rc_wiki = None\<rparr>))"

subsection \<open>The union of declared and discovered repositories\<close>

definition canonical_wiki_path :: "canonicalizer \<Rightarrow> (string \<Rightarrow> string) \<Rightarrow> repository_config \<Rightarrow> path" where
  "canonical_wiki_path canon tilde repo =
     canonicalize_or_passthrough canon (expand_tilde tilde (wiki_directory repo))"

fun position_by_derived_name :: "repository_config list \<Rightarrow> string \<Rightarrow> nat option" where
  "position_by_derived_name [] derived_name = None"
| "position_by_derived_name (r # rs) derived_name =
     (if repo_corpus_name (rc_name r) Wiki = Ok derived_name then Some 0
      else map_option Suc (position_by_derived_name rs derived_name))"

definition unique_derived_name :: "string \<Rightarrow> repository_config list \<Rightarrow> string option" where
  "unique_derived_name candidate existing =
     (case repo_corpus_name candidate Wiki of
        Err _ \<Rightarrow> None
      | Ok derived \<Rightarrow> if position_by_derived_name existing derived = None then Some derived else None)"

fun first_unique :: "string list \<Rightarrow> repository_config list \<Rightarrow> (string \<times> string) option" where
  "first_unique [] existing = None"
| "first_unique (candidate # cs) existing =
     (case unique_derived_name candidate existing of
        Some derived \<Rightarrow> Some (candidate, derived) | None \<Rightarrow> first_unique cs existing)"

definition parent_segments :: "string \<Rightarrow> string list" where
  "parent_segments p =
     (case path_parent (components p) of
        None \<Rightarrow> []
      | Some parent \<Rightarrow>
          filter (\<lambda>s. s \<noteq> [])
            (List.map_filter (\<lambda>c. case c of Normal s \<Rightarrow> Some (map (\<lambda>c. if c = CHR '':'' then CHR ''-'' else c) s) | _ \<Rightarrow> None) parent))"

definition parent_candidates :: "string list \<Rightarrow> string \<Rightarrow> string list" where
  "parent_candidates segments base =
     map (\<lambda>k. join_str ''-'' (drop (length segments - k) segments) @ ''-'' @ base) [1..<Suc (length segments)]"

definition digest_candidates :: "string \<Rightarrow> string \<Rightarrow> string list" where
  "digest_candidates digest base = map (\<lambda>len. base @ ''-'' @ take len digest) [8..<Suc (length digest)]"

definition disambiguate_discovered_name ::
  "(string \<Rightarrow> string) \<Rightarrow> repository_config \<Rightarrow> repository_config list \<Rightarrow> string \<times> repository_config" where
  "disambiguate_discovered_name blake3 repo existing =
     (let base = rc_name repo; digest = blake3 (rc_path repo)
      in case first_unique (parent_candidates (parent_segments (rc_path repo)) base) existing of
           Some (candidate, derived) \<Rightarrow> (derived, repo\<lparr>rc_name := candidate\<rparr>)
         | None \<Rightarrow>
             (case first_unique (digest_candidates digest base) existing of
                Some (candidate, derived) \<Rightarrow> (derived, repo\<lparr>rc_name := candidate\<rparr>)
              | None \<Rightarrow>
                  (let candidate = base @ ''-'' @ digest
                   in (case repo_corpus_name candidate Wiki of Ok derived \<Rightarrow> derived | Err _ \<Rightarrow> base,
                       repo\<lparr>rc_name := candidate\<rparr>))))"

definition shadow_warning :: "string \<Rightarrow> string" where
  "shadow_warning name =
     ''discovered sub-repo wiki '' @ debug_str name @
     '' shadows a baseline repository of the same name; preferring the discovered local config''"

definition rename_warning :: "string \<Rightarrow> string \<Rightarrow> string \<Rightarrow> string" where
  "rename_warning name p new_name =
     ''discovered sub-repo wiki '' @ debug_str name @ '' (at '' @ debug_str p @
     '') collides with another discovered sub-repo of the same name; keeping both, renaming this one to '' @
     debug_str new_name @ '' so its wiki is not dropped''"

definition union_step ::
  "canonicalizer \<Rightarrow> (string \<Rightarrow> string) \<Rightarrow> (string \<Rightarrow> string) \<Rightarrow> path set \<Rightarrow> repository_config \<Rightarrow>
   repository_config list \<times> string list \<Rightarrow> repository_config list \<times> string list" where
  "union_step canon tilde blake3 baseline_wiki_paths repo acc =
     (case acc of (out, warnings) \<Rightarrow>
        if canonical_wiki_path canon tilde repo \<in> baseline_wiki_paths then (out, warnings)
        else case repo_corpus_name (rc_name repo) Wiki of
               Err _ \<Rightarrow> (out, warnings)
             | Ok name \<Rightarrow>
                 (case position_by_derived_name out name of
                    None \<Rightarrow> (out @ [repo], warnings)
                  | Some pos \<Rightarrow>
                      if canonical_wiki_path canon tilde (out ! pos) \<in> baseline_wiki_paths
                      then (take pos out @ drop (Suc pos) out @ [repo], warnings @ [shadow_warning name])
                      else (case disambiguate_discovered_name blake3 repo out of (new_name, renamed) \<Rightarrow>
                              (out @ [renamed], warnings @ [rename_warning name (rc_path repo) new_name]))))"

definition union_discovered_repositories ::
  "canonicalizer \<Rightarrow> (string \<Rightarrow> string) \<Rightarrow> (string \<Rightarrow> string) \<Rightarrow> repository_config list \<Rightarrow> repository_config list \<Rightarrow>
   repository_config list \<times> string list" where
  "union_discovered_repositories canon tilde blake3 baseline discovered =
     fold (union_step canon tilde blake3 (canonical_wiki_path canon tilde ` set baseline)) discovered (baseline, [])"

subsection \<open>Names\<close>

definition valid_name :: "string \<Rightarrow> bool" where
  "valid_name n \<longleftrightarrow> n \<noteq> [] \<and> CHR '':'' \<notin> set n"

lemma repo_corpus_name_Ok [simp]:
  "repo_corpus_name n kind = Ok d \<longleftrightarrow> valid_name n \<and> d = ''repo:'' @ n @ '':'' @ kind_suffix kind"
  by (auto simp: repo_corpus_name_def valid_name_def)

lemma position_Some:
  "position_by_derived_name rs (''repo:'' @ n @ '':wiki'') = Some i \<Longrightarrow> i < length rs \<and> rc_name (rs ! i) = n"
  by (induction rs arbitrary: i) (auto split: if_splits)

lemma position_None:
  "valid_name n \<Longrightarrow> position_by_derived_name rs (''repo:'' @ n @ '':wiki'') = None \<longleftrightarrow> n \<notin> rc_name ` set rs"
  by (induction rs) auto

lemma unique_derived_name_Some:
  "unique_derived_name c existing = Some d \<longleftrightarrow> valid_name c \<and> c \<notin> rc_name ` set existing \<and> d = ''repo:'' @ c @ '':wiki''"
proof (cases "valid_name c")
  case False
  then have "\<exists>e. repo_corpus_name c Wiki = Inl e" by (auto simp: repo_corpus_name_def valid_name_def)
  then show ?thesis using False by (auto simp: unique_derived_name_def)
next
  case True
  then have "repo_corpus_name c Wiki = Inr (''repo:'' @ c @ '':wiki'')" by (simp add: repo_corpus_name_def valid_name_def)
  then have "unique_derived_name c existing =
      (if position_by_derived_name existing (''repo:'' @ c @ '':wiki'') = None then Some (''repo:'' @ c @ '':wiki'') else None)"
    unfolding unique_derived_name_def by (simp only: sum.case)
  also have "\<dots> = (if c \<notin> rc_name ` set existing then Some (''repo:'' @ c @ '':wiki'') else None)"
    by (simp only: position_None [OF True])
  finally show ?thesis using True by (auto split: if_splits)
qed

lemma first_unique_Some:
  "first_unique cs existing = Some (c, d) \<Longrightarrow> c \<in> set cs \<and> valid_name c \<and> c \<notin> rc_name ` set existing"
  by (induction cs) (auto simp: unique_derived_name_Some split: option.splits)

lemma first_unique_None:
  "first_unique cs existing = None \<Longrightarrow> c \<in> set cs \<Longrightarrow> valid_name c \<Longrightarrow> c \<in> rc_name ` set existing"
proof (induction cs)
  case (Cons a cs)
  then have "unique_derived_name a existing = None" "first_unique cs existing = None" by (auto split: option.splits)
  then show ?case using Cons.IH Cons.prems(2,3) unique_derived_name_Some [of a existing] by auto
qed simp

text \<open>
  What stands after the last dash of a name. Of the names that are tried it is the end of the name they start
  from, or a prefix of the digest: the name with the whole digest is taken only when a name ends in that digest.
\<close>

definition after_dash :: "string \<Rightarrow> string" where
  "after_dash n = rev (takeWhile (\<lambda>c. c \<noteq> CHR ''-'') (rev n))"

lemma after_dash_plain: "CHR ''-'' \<notin> set n \<Longrightarrow> after_dash n = n"
proof -
  assume "CHR ''-'' \<notin> set n"
  then have "takeWhile (\<lambda>c. c \<noteq> CHR ''-'') (rev n) = rev n" unfolding takeWhile_eq_all_conv by auto
  then show ?thesis unfolding after_dash_def by (simp only: rev_rev_ident)
qed

lemma after_dash_dash [simp]: "after_dash (x @ CHR ''-'' # n) = after_dash n"
proof (cases "CHR ''-'' \<in> set n")
  case True
  then show ?thesis by (auto simp: after_dash_def intro: takeWhile_append1)
next
  case False
  then have "takeWhile (\<lambda>c. c \<noteq> CHR ''-'') (rev n @ CHR ''-'' # rev x) = rev n @ takeWhile (\<lambda>c. c \<noteq> CHR ''-'') (CHR ''-'' # rev x)"
    by (intro takeWhile_append2) auto
  then have "after_dash (x @ CHR ''-'' # n) = rev (rev n @ [])"
    unfolding after_dash_def by (simp only: rev_append rev.simps append_assoc append_Cons append_Nil takeWhile.simps simp_thms if_False)
  then show ?thesis using after_dash_plain [OF False] by simp
qed

lemma after_dash_suffix: "\<exists>x. n = x @ after_dash n"
  by (metis after_dash_def rev_append rev_rev_ident takeWhile_dropWhile_id)

definition hex_digest :: "string \<Rightarrow> bool" where
  "hex_digest d \<longleftrightarrow> length d = 64 \<and> CHR '':'' \<notin> set d \<and> CHR ''-'' \<notin> set d"

definition fresh_digests :: "(string \<Rightarrow> string) \<Rightarrow> repository_config list \<Rightarrow> repository_config list \<Rightarrow> bool" where
  "fresh_digests blake3 rest out \<longleftrightarrow> (\<forall>r \<in> set out. \<forall>d \<in> set rest. after_dash (rc_name r) \<noteq> blake3 (rc_path d))"

lemma digest_name_free:
  assumes "hex_digest digest" "valid_name base" "\<forall>r \<in> set existing. after_dash (rc_name r) \<noteq> digest"
  shows "first_unique (digest_candidates digest base) existing \<noteq> None"
proof
  assume none: "first_unique (digest_candidates digest base) existing = None"
  have "base @ ''-'' @ digest \<in> (\<lambda>len. base @ ''-'' @ take len digest) ` {8..64}"
    using assms(1) by (intro image_eqI [of _ _ 64]) (simp_all add: hex_digest_def)
  then have "base @ ''-'' @ digest \<in> set (digest_candidates digest base)"
    using assms(1) unfolding digest_candidates_def hex_digest_def by (auto simp: atLeastLessThanSuc_atLeastAtMost)
  moreover have "valid_name (base @ ''-'' @ digest)" using assms(1,2) by (auto simp: valid_name_def hex_digest_def)
  ultimately obtain r where "r \<in> set existing" "rc_name r = base @ ''-'' @ digest"
    using first_unique_None [OF none] by force
  then show False using assms(1,3) by (auto simp: hex_digest_def after_dash_plain)
qed

lemma disambiguate_fresh:
  assumes "disambiguate_discovered_name blake3 repo existing = (name, renamed)" "valid_name (rc_name repo)"
    "fresh_digests blake3 [repo] existing" "\<And>p. hex_digest (blake3 p)"
  shows "valid_name (rc_name renamed) \<and> rc_name renamed \<notin> rc_name ` set existing \<and> wiki_directory renamed = wiki_directory repo"
    and "after_dash (rc_name renamed) = after_dash (rc_name repo) \<or> (\<exists>n. after_dash (rc_name renamed) = take n (blake3 (rc_path repo)))"
proof -
  let ?digest = "blake3 (rc_path repo)" and ?parents = "parent_candidates (parent_segments (rc_path repo)) (rc_name repo)"
  have "(valid_name (rc_name renamed) \<and> rc_name renamed \<notin> rc_name ` set existing \<and> wiki_directory renamed = wiki_directory repo) \<and>
    (after_dash (rc_name renamed) = after_dash (rc_name repo) \<or> (\<exists>n. after_dash (rc_name renamed) = take n ?digest))"
  proof (cases "first_unique ?parents existing")
    case (Some c)
    then have new: "fst c \<in> set ?parents" "valid_name (fst c)" "fst c \<notin> rc_name ` set existing"
      using first_unique_Some [of _ existing "fst c" "snd c"] by simp_all
    have "renamed = repo\<lparr>rc_name := fst c\<rparr>"
      using assms(1) Some by (cases c) (auto simp: disambiguate_discovered_name_def Let_def)
    moreover have "after_dash (fst c) = after_dash (rc_name repo)" using new(1) by (auto simp: parent_candidates_def)
    ultimately show ?thesis using new by (simp add: wiki_directory_def)
  next
    case None
    have "\<forall>r \<in> set existing. after_dash (rc_name r) \<noteq> ?digest" using assms(3) by (simp add: fresh_digests_def)
    from digest_name_free [OF assms(4) assms(2) this]
    obtain c where c: "first_unique (digest_candidates ?digest (rc_name repo)) existing = Some c" by auto
    then have new: "fst c \<in> set (digest_candidates ?digest (rc_name repo))" "valid_name (fst c)" "fst c \<notin> rc_name ` set existing"
      using first_unique_Some [of _ existing "fst c" "snd c"] by simp_all
    have "renamed = repo\<lparr>rc_name := fst c\<rparr>"
      using assms(1) None c by (cases c) (auto simp: disambiguate_discovered_name_def Let_def)
    moreover have "\<exists>n. after_dash (fst c) = take n ?digest"
    proof -
      obtain n where "fst c = rc_name repo @ ''-'' @ take n ?digest" using new(1) by (auto simp: digest_candidates_def)
      moreover have "CHR ''-'' \<notin> set (take n ?digest)" using assms(4) by (auto simp: hex_digest_def dest: in_set_takeD)
      ultimately show ?thesis by (auto simp: after_dash_plain)
    qed
    ultimately show ?thesis using new by (simp add: wiki_directory_def)
  qed
  then show "valid_name (rc_name renamed) \<and> rc_name renamed \<notin> rc_name ` set existing \<and> wiki_directory renamed = wiki_directory repo"
    "after_dash (rc_name renamed) = after_dash (rc_name repo) \<or> (\<exists>n. after_dash (rc_name renamed) = take n ?digest)"
    by blast+
qed

lemma fresh_digests_renamed:
  assumes "after_dash m = after_dash (rc_name repo) \<or> (\<exists>n. after_dash m = take n (blake3 (rc_path repo)))"
    "fresh_digests blake3 rest [repo]" "\<And>p. hex_digest (blake3 p)"
    "\<forall>d \<in> set rest. blake3 (rc_path d) \<noteq> blake3 (rc_path repo)" "d \<in> set rest"
  shows "after_dash m \<noteq> blake3 (rc_path d)"
proof
  assume eq: "after_dash m = blake3 (rc_path d)"
  then obtain n where n: "take n (blake3 (rc_path repo)) = blake3 (rc_path d)"
    using assms(1,2,5) by (auto simp: fresh_digests_def)
  then have "length (take n (blake3 (rc_path repo))) = length (blake3 (rc_path repo))"
    using assms(3) by (simp add: hex_digest_def)
  then have "take n (blake3 (rc_path repo)) = blake3 (rc_path repo)" by (simp add: take_all_iff)
  then show False using n assms(4,5) by simp
qed

subsection \<open>What the union keeps\<close>

lemma derive_corpora_names:
  "derive_corpora repos = Ok derived \<Longrightarrow>
     (\<forall>r \<in> set repos. valid_name (rc_name r)) \<and> (\<lambda>r. ''repo:'' @ rc_name r @ '':wiki'') ` set repos \<subseteq> cc_name ` set derived"
proof (induction repos arbitrary: derived)
  case (Cons r repos)
  then obtain w src rest where d: "repository_wiki_corpus r = Ok w" "derive_corpora repos = Ok rest"
    "derived = w # (case src of Some c \<Rightarrow> [c] | None \<Rightarrow> []) @ rest"
    by (auto simp: result_bind_Ok_iff)
  moreover have "valid_name (rc_name r)" "cc_name w = ''repo:'' @ rc_name r @ '':wiki''"
    using d(1) by (auto simp: repository_wiki_corpus_def result_bind_Ok_iff)
  ultimately show ?case using Cons.IH [OF d(2)] by (auto simp: image_subset_iff)
qed simp

lemma derive_corpora_set:
  "derive_corpora repos = Ok derived \<Longrightarrow>
     c \<in> set derived \<longleftrightarrow> (\<exists>r \<in> set repos. repository_wiki_corpus r = Ok c \<or> repository_source_corpus r = Ok (Some c))"
proof (induction repos arbitrary: derived)
  case (Cons r repos)
  then obtain w src rest where d: "repository_wiki_corpus r = Ok w" "repository_source_corpus r = Ok src"
    "derive_corpora repos = Ok rest" "derived = w # (case src of Some c \<Rightarrow> [c] | None \<Rightarrow> []) @ rest"
    by (auto simp: result_bind_Ok_iff)
  then show ?case using Cons.IH [OF d(3)] by (cases src) auto
qed simp

lemma effective_corpora_set:
  "effective_corpora corpora repos = Ok all \<Longrightarrow>
     c \<in> set all \<longleftrightarrow> c \<in> set corpora \<or> (\<exists>r \<in> set repos. repository_wiki_corpus r = Ok c \<or> repository_source_corpus r = Ok (Some c))"
  by (auto simp: effective_corpora_def result_bind_Ok_iff Let_def derive_corpora_set split: option.splits)

lemma first_duplicate_None: "first_duplicate seen ns = None \<longleftrightarrow> distinct ns \<and> set ns \<inter> set seen = {}"
  by (induction ns arbitrary: seen) auto

lemma derive_corpora_distinct:
  "derive_corpora repos = Ok derived \<Longrightarrow> distinct (map cc_name derived) \<Longrightarrow> distinct (map rc_name repos)"
proof (induction repos arbitrary: derived)
  case (Cons r repos)
  then obtain w src rest where d: "repository_wiki_corpus r = Ok w" "derive_corpora repos = Ok rest"
    "derived = w # (case src of Some c \<Rightarrow> [c] | None \<Rightarrow> []) @ rest"
    by (auto simp: result_bind_Ok_iff)
  then have "cc_name w \<notin> cc_name ` set rest" "distinct (map cc_name rest)" using Cons.prems(2) by auto
  moreover have "cc_name w = ''repo:'' @ rc_name r @ '':wiki''"
    using d(1) by (auto simp: repository_wiki_corpus_def result_bind_Ok_iff)
  moreover have "''repo:'' @ rc_name r @ '':wiki'' \<in> cc_name ` set rest" if "rc_name r \<in> rc_name ` set repos"
    using derive_corpora_names [OF d(2)] that by blast
  ultimately show ?case using Cons.IH [OF d(2)] by auto
qed simp

lemma effective_corpora_names:
  assumes "effective_corpora corpora repos = Ok all"
  shows "distinct (map rc_name repos) \<and> (\<forall>r \<in> set repos. valid_name (rc_name r))"
proof -
  obtain derived where "derive_corpora repos = Ok derived" "distinct (map cc_name (corpora @ derived))"
    using assms by (auto simp: effective_corpora_def result_bind_Ok_iff Let_def first_duplicate_None split: option.splits)
  then show ?thesis using derive_corpora_distinct [of repos derived] derive_corpora_names [of repos derived] by simp
qed

text \<open>What holds after the repositories \<open>done\<close> have been added.\<close>

definition union_ok ::
  "(repository_config \<Rightarrow> path) \<Rightarrow> repository_config list \<Rightarrow> repository_config list \<Rightarrow> repository_config list \<times> string list \<Rightarrow> bool" where
  "union_ok wiki base added acc \<longleftrightarrow>
     (case acc of (out, warnings) \<Rightarrow>
        distinct (map rc_name out) \<and> (\<forall>r \<in> set out. valid_name (rc_name r)) \<and>
        (\<forall>r \<in> set out. wiki r \<in> wiki ` set base \<longrightarrow> r \<in> set base) \<and>
        (\<forall>r \<in> set base. r \<in> set out \<or>
           (\<exists>d \<in> set added. rc_name d = rc_name r \<and> wiki d \<notin> wiki ` set base) \<and> shadow_warning (''repo:'' @ rc_name r @ '':wiki'') \<in> set warnings) \<and>
        (\<forall>d \<in> set added. valid_name (rc_name d) \<longrightarrow> wiki d \<in> wiki ` set out \<union> wiki ` set base))"

lemma nth_split: "i < length xs \<Longrightarrow> xs = take i xs @ xs ! i # drop (Suc i) xs"
  by (rule id_take_nth_drop)

lemma union_step_ok:
  fixes canon :: canonicalizer and tilde :: "string \<Rightarrow> string" and blake3 :: "string \<Rightarrow> string"
  defines "wiki \<equiv> canonical_wiki_path canon tilde"
  assumes "union_ok wiki base added (out, warnings)" "fresh_digests blake3 [repo] out" "\<And>p. hex_digest (blake3 p)"
  shows "union_ok wiki base (added @ [repo]) (union_step canon tilde blake3 (wiki ` set base) repo (out, warnings))"
proof (cases "wiki repo \<in> wiki ` set base \<or> \<not> valid_name (rc_name repo)")
  case True
  have "\<exists>e. repo_corpus_name (rc_name repo) Wiki = Err e" if "\<not> valid_name (rc_name repo)"
    using that by (cases "repo_corpus_name (rc_name repo) Wiki") auto
  then have "union_step canon tilde blake3 (wiki ` set base) repo (out, warnings) = (out, warnings)"
    using True by (auto simp: union_step_def wiki_def)
  then show ?thesis using assms(2) True by (auto simp: union_ok_def)
next
  case False
  let ?name = "''repo:'' @ rc_name repo @ '':wiki''"
  have name: "repo_corpus_name (rc_name repo) Wiki = Ok ?name" using False by simp
  show ?thesis
  proof (cases "position_by_derived_name out ?name")
    case None
    then have "rc_name repo \<notin> rc_name ` set out" using position_None [of "rc_name repo" out] False by simp
    moreover have "union_step canon tilde blake3 (wiki ` set base) repo (out, warnings) = (out @ [repo], warnings)"
      using False name None by (simp add: union_step_def wiki_def del: repo_corpus_name_Ok)
    ultimately show ?thesis using assms(2) False by (auto simp: union_ok_def)
  next
    case (Some pos)
    then have pos: "pos < length out" "rc_name (out ! pos) = rc_name repo" using position_Some by blast+
    note out = nth_split [OF pos(1)]
    show ?thesis
    proof (cases "wiki (out ! pos) \<in> wiki ` set base")
      case True
      then have step: "union_step canon tilde blake3 (wiki ` set base) repo (out, warnings) =
          (take pos out @ drop (Suc pos) out @ [repo], warnings @ [shadow_warning ?name])"
        using False name Some by (simp add: union_step_def wiki_def del: repo_corpus_name_Ok)
      let ?out = "take pos out @ drop (Suc pos) out @ [repo]"
      have set: "set out = insert (out ! pos) (set (take pos out) \<union> set (drop (Suc pos) out))" by (subst out) auto
      have "distinct (map rc_name (take pos out @ out ! pos # drop (Suc pos) out))" using assms(2) out by (simp add: union_ok_def)
      then have "distinct (map rc_name ?out)" using pos(2) by auto
      moreover have "\<forall>r \<in> set ?out. valid_name (rc_name r) \<and> (wiki r \<in> wiki ` set base \<longrightarrow> r \<in> set base)"
        using assms(2) False set by (auto simp: union_ok_def)
      moreover have "r \<in> set ?out \<or> (\<exists>d \<in> set (added @ [repo]). rc_name d = rc_name r \<and> wiki d \<notin> wiki ` set base) \<and>
          shadow_warning (''repo:'' @ rc_name r @ '':wiki'') \<in> set (warnings @ [shadow_warning ?name])" if "r \<in> set base" for r
        using assms(2) that set pos(2) False by (fastforce simp: union_ok_def)
      moreover have "wiki d \<in> wiki ` set ?out \<union> wiki ` set base" if "d \<in> set (added @ [repo])" "valid_name (rc_name d)" for d
        using assms(2) that set True by (fastforce simp: union_ok_def)
      ultimately show ?thesis unfolding step union_ok_def by blast
    next
      case other: False
      obtain new_name renamed where dis: "disambiguate_discovered_name blake3 repo out = (new_name, renamed)" by fastforce
      from disambiguate_fresh(1) [OF dis _ assms(3) assms(4)] False have fresh: "valid_name (rc_name renamed)"
        "rc_name renamed \<notin> rc_name ` set out" "wiki renamed = wiki repo"
        by (auto simp: wiki_def canonical_wiki_path_def)
      have "union_step canon tilde blake3 (wiki ` set base) repo (out, warnings) =
          (out @ [renamed], warnings @ [rename_warning ?name (rc_path repo) new_name])"
        using False other name Some dis by (simp add: union_step_def wiki_def del: repo_corpus_name_Ok)
      then show ?thesis using assms(2) False fresh by (auto simp: union_ok_def)
    qed
  qed
qed

lemma union_step_fresh:
  assumes "fresh_digests blake3 (repo # rest) out" "fresh_digests blake3 rest [repo]" "\<And>p. hex_digest (blake3 p)"
    "\<forall>d \<in> set rest. blake3 (rc_path d) \<noteq> blake3 (rc_path repo)"
  shows "fresh_digests blake3 rest (fst (union_step canon tilde blake3 paths repo (out, warnings)))"
proof -
  have out: "fresh_digests blake3 rest out" "fresh_digests blake3 [repo] out" using assms(1) by (simp_all add: fresh_digests_def)
  then have both: "fresh_digests blake3 rest (out @ [repo])" using assms(2) by (auto simp: fresh_digests_def)
  moreover have "fresh_digests blake3 rest (take pos out @ drop (Suc pos) out @ [repo])" for pos
    using both by (auto simp: fresh_digests_def dest: in_set_takeD in_set_dropD)
  moreover have "fresh_digests blake3 rest (out @ [renamed])"
    if "disambiguate_discovered_name blake3 repo out = (new_name, renamed)" "valid_name (rc_name repo)" for new_name renamed
    using fresh_digests_renamed [OF disambiguate_fresh(2) [OF that out(2) assms(3)] assms(2-4)] out(1)
    by (auto simp: fresh_digests_def)
  ultimately show ?thesis using out(1)
    by (auto simp: union_step_def split: sum.splits option.splits prod.splits)
qed

lemma union_fold_ok:
  assumes "union_ok (canonical_wiki_path canon tilde) base added acc" "fresh_digests blake3 discovered (fst acc)"
    "fresh_digests blake3 discovered discovered" "distinct (map (\<lambda>d. blake3 (rc_path d)) discovered)" "\<And>p. hex_digest (blake3 p)"
  shows "union_ok (canonical_wiki_path canon tilde) base (added @ discovered)
    (fold (union_step canon tilde blake3 (canonical_wiki_path canon tilde ` set base)) discovered acc)"
  using assms(1-4)
proof (induction discovered arbitrary: added acc)
  case (Cons repo discovered)
  let ?acc = "union_step canon tilde blake3 (canonical_wiki_path canon tilde ` set base) repo acc"
  have "fresh_digests blake3 [repo] (fst acc)" "fresh_digests blake3 discovered [repo]"
    using Cons.prems(2,3) by (auto simp: fresh_digests_def)
  then have "union_ok (canonical_wiki_path canon tilde) base (added @ [repo]) ?acc" "fresh_digests blake3 discovered (fst ?acc)"
    using union_step_ok [OF _ _ assms(5), where canon = canon and tilde = tilde and base = base and added = added
        and out = "fst acc" and warnings = "snd acc"]
      union_step_fresh [of blake3 repo discovered "fst acc" canon tilde "canonical_wiki_path canon tilde ` set base" "snd acc"]
      Cons.prems assms(5) by (simp_all add: eq_commute [of "blake3 (rc_path repo)"] image_iff)
  from Cons.IH [OF this] Cons.prems(3,4) show ?case by (simp add: fresh_digests_def)
qed simp

text \<open>
  C16. Joining the repositories of the configuration with the wikis found below a directory keeps every name usable
  and unique. A repository of the configuration is dropped only when a wiki found elsewhere carries its name, with a
  warning; a wiki found is in the result, unless it is the wiki of such a dropped repository. The hypotheses: the
  configuration is one that loads, a digest is 64 characters without colon and dash, the digests of the paths of the
  wikis found are distinct, and none of the given names ends in one of these digests, the case in which the renaming
  gives up.
\<close>
theorem union_keeps_wikis:
  fixes canon :: canonicalizer and tilde :: "string \<Rightarrow> string" and blake3 :: "string \<Rightarrow> string"
  assumes "effective_corpora corpora baseline = Ok all"
    "\<forall>p. length (blake3 p) = 64 \<and> CHR '':'' \<notin> set (blake3 p) \<and> CHR ''-'' \<notin> set (blake3 p)"
    "distinct (map (\<lambda>d. blake3 (rc_path d)) discovered)"
    "\<forall>r \<in> set baseline \<union> set discovered. \<forall>d \<in> set discovered. \<forall>x. rc_name r \<noteq> x @ blake3 (rc_path d)"
  defines "wiki \<equiv> canonical_wiki_path canon tilde"
    and "out \<equiv> fst (union_discovered_repositories canon tilde blake3 baseline discovered)"
    and "warnings \<equiv> snd (union_discovered_repositories canon tilde blake3 baseline discovered)"
  shows "distinct (map rc_name out) \<and> (\<forall>r \<in> set out. \<exists>n. repo_corpus_name (rc_name r) Wiki = Ok n) \<and>
    (\<forall>r \<in> set baseline. r \<in> set out \<or>
       (\<exists>d \<in> set discovered. rc_name d = rc_name r \<and> wiki d \<notin> wiki ` set baseline) \<and>
       shadow_warning (''repo:'' @ rc_name r @ '':wiki'') \<in> set warnings) \<and>
    (\<forall>d \<in> set discovered. \<forall>n. repo_corpus_name (rc_name d) Wiki = Ok n \<longrightarrow>
       wiki d \<in> wiki ` set out \<or> wiki d \<in> wiki ` (set baseline - set out))"
proof -
  have start: "union_ok wiki baseline [] (baseline, [])"
    using effective_corpora_names [OF assms(1)] by (auto simp: union_ok_def)
  have "fresh_digests blake3 discovered baseline" "fresh_digests blake3 discovered discovered"
    using assms(4) after_dash_suffix unfolding fresh_digests_def by (metis Un_iff)+
  with union_fold_ok [OF start [unfolded wiki_def], of blake3 discovered] assms(2,3)
  have ok: "union_ok wiki baseline discovered (out, warnings)"
    by (simp add: out_def warnings_def wiki_def union_discovered_repositories_def hex_digest_def)
  have ex: "(\<exists>n. repo_corpus_name c Wiki = Ok n) \<longleftrightarrow> valid_name c" for c by simp
  from ok have "wiki d \<in> wiki ` set out \<or> wiki d \<in> wiki ` (set baseline - set out)"
    if "d \<in> set discovered" "repo_corpus_name (rc_name d) Wiki = Ok n" for d n
    using that ex [of "rc_name d"] unfolding union_ok_def by blast
  with ok show ?thesis unfolding union_ok_def ex by blast
qed

definition plain_repo :: "string \<Rightarrow> string \<Rightarrow> repository_config" where
  "plain_repo name p = \<lparr>rc_name = name, rc_path = p, rc_corpus_paths = [], rc_corpus_globs = [], rc_corpus_exclude = [], rc_wiki = None\<rparr>"

text \<open>A digest that tells paths apart by their second character.\<close>

definition sample_digest :: "string \<Rightarrow> string" where
  "sample_digest p = replicate 64 (if take 2 p = ''/b'' then CHR ''b'' else CHR ''a'')"

lemma union_keeps_wikis_witness:
  "map rc_path (fst (union_discovered_repositories Ok (\<lambda>p. p) sample_digest
      [plain_repo ''n'' ''/a/n''] [plain_repo ''n'' ''/b/n'', plain_repo ''n'' ''/c/n''])) = [''/b/n'', ''/c/n''] \<and>
   distinct (map rc_name (fst (union_discovered_repositories Ok (\<lambda>p. p) sample_digest
      [plain_repo ''n'' ''/a/n''] [plain_repo ''n'' ''/b/n'', plain_repo ''n'' ''/c/n''])))"
proof
  show "map rc_path (fst (union_discovered_repositories Ok (\<lambda>p. p) sample_digest
      [plain_repo ''n'' ''/a/n''] [plain_repo ''n'' ''/b/n'', plain_repo ''n'' ''/c/n''])) = [''/b/n'', ''/c/n'']"
    by code_simp
  have "isl (effective_corpora [] [plain_repo ''n'' ''/a/n'']) = False" by code_simp
  then obtain all where loads: "effective_corpora [] [plain_repo ''n'' ''/a/n''] = Ok all"
    by (cases "effective_corpora [] [plain_repo ''n'' ''/a/n'']") auto
  have hash: "\<forall>p. length (sample_digest p) = 64 \<and> CHR '':'' \<notin> set (sample_digest p) \<and> CHR ''-'' \<notin> set (sample_digest p)"
    by (simp add: sample_digest_def)
  have names: "\<forall>r \<in> set [plain_repo ''n'' ''/a/n''] \<union> set [plain_repo ''n'' ''/b/n'', plain_repo ''n'' ''/c/n''].
      \<forall>d \<in> set [plain_repo ''n'' ''/b/n'', plain_repo ''n'' ''/c/n'']. \<forall>x. rc_name r \<noteq> x @ sample_digest (rc_path d)"
    by (auto simp: plain_repo_def dest: arg_cong [where f = length] simp: sample_digest_def)
  have "distinct (map (\<lambda>d. sample_digest (rc_path d)) [plain_repo ''n'' ''/b/n'', plain_repo ''n'' ''/c/n''])"
    by (simp add: plain_repo_def sample_digest_def)
  from union_keeps_wikis [OF loads hash this names]
  show "distinct (map rc_name (fst (union_discovered_repositories Ok (\<lambda>p. p) sample_digest
      [plain_repo ''n'' ''/a/n''] [plain_repo ''n'' ''/b/n'', plain_repo ''n'' ''/c/n''])))"
    by blast
qed

text \<open>
  A wiki found twice is skipped as the one of the configuration, and the configuration's repository is then dropped for
  another wiki of the same name found later: the wiki below \<open>/a\<close> is on disk, found, and in no repository.
\<close>
lemma union_loses_discovered_wiki:
  "map rc_path (fst (union_discovered_repositories Ok (\<lambda>p. p) (\<lambda>_. replicate 64 CHR ''a'')
     [plain_repo ''n'' ''/a/n''] [plain_repo ''n'' ''/a/n'', plain_repo ''n'' ''/b/n''])) = [''/b/n'']"
  by code_simp

end
