(* ===== verification/Config.thy ===== *)
theory Config
  imports Repository "HOL-Library.Monad_Syntax"
begin

text \<open>
  The configuration (\<open>hallouminate-config/src/lib.rs\<close>, \<open>xdg.rs\<close>): its sections with their defaults,
  validation, the search for the configuration of a repository, the confinement of its paths to the
  repository and its merge with the baseline. The file system, the process environment, the home
  directory, the TOML decoder, the directory walk and BLAKE3 are the fields of \<open>config_env\<close>. Every
  \<open>?\<close> of the source is a \<open>result_bind\<close>.
\<close>

subsection \<open>Sections and defaults\<close>

record search_config =
  top_files_default :: u64
  chunks_per_file_default :: u64
  limit_default :: u64
  crossencoder :: "string option"
  rerank_timeout_ms :: u64
  cold_wait_ms :: u64

definition DEFAULT_TOP_FILES :: u64 where "DEFAULT_TOP_FILES = 10"
definition DEFAULT_CHUNKS_PER_FILE :: u64 where "DEFAULT_CHUNKS_PER_FILE = 3"
definition DEFAULT_LIMIT :: u64 where "DEFAULT_LIMIT = 50"
definition DEFAULT_DEBOUNCE_MS :: u64 where "DEFAULT_DEBOUNCE_MS = 500"
definition DEFAULT_FAILURE_REMINDER_SECS :: u64 where "DEFAULT_FAILURE_REMINDER_SECS = 60"
definition DEFAULT_RECONCILE_INTERVAL_SECS :: u64 where "DEFAULT_RECONCILE_INTERVAL_SECS = 60"
definition DEFAULT_MAX_LOG_FILE_BYTES :: u64 where "DEFAULT_MAX_LOG_FILE_BYTES = 10 * 1024 * 1024"
definition DEFAULT_MAX_LOG_TOTAL_BYTES :: u64 where "DEFAULT_MAX_LOG_TOTAL_BYTES = 100 * 1024 * 1024"
definition DEFAULT_EMBED_CACHE :: string where "DEFAULT_EMBED_CACHE = ''~/.cache/hallouminate/fastembed''"
definition DEFAULT_GROUND_DIR :: string where "DEFAULT_GROUND_DIR = ''~/.local/share/hallouminate/ground''"
definition DEFAULT_RERANK_TIMEOUT_MS :: u64 where "DEFAULT_RERANK_TIMEOUT_MS = 2000"
definition DEFAULT_COLD_WAIT_MS :: u64 where "DEFAULT_COLD_WAIT_MS = 10000"
definition MAX_COLD_WAIT_MS :: u64 where "MAX_COLD_WAIT_MS = 60000"
definition DEFAULT_CATCH_UP_CONCURRENCY :: u64 where "DEFAULT_CATCH_UP_CONCURRENCY = 4"
definition MAX_CATCH_UP_CONCURRENCY :: u64 where "MAX_CATCH_UP_CONCURRENCY = 16"

definition search_config_default :: search_config where
  "search_config_default =
     \<lparr>top_files_default = DEFAULT_TOP_FILES, chunks_per_file_default = DEFAULT_CHUNKS_PER_FILE,
      limit_default = DEFAULT_LIMIT, crossencoder = None, rerank_timeout_ms = DEFAULT_RERANK_TIMEOUT_MS,
      cold_wait_ms = DEFAULT_COLD_WAIT_MS\<rparr>"

record embeddings_config =
  enabled :: bool
  emb_model :: string
  quantized :: bool
  cache_dir :: string
  idle_evict_secs :: u64

definition embeddings_config_default :: embeddings_config where
  "embeddings_config_default =
     \<lparr>enabled = True, emb_model = DEFAULT_EMBED_MODEL, quantized = False, cache_dir = DEFAULT_EMBED_CACHE,
      idle_evict_secs = 300\<rparr>"

record logging_config =
  max_file_bytes :: u64
  max_total_bytes :: u64

definition logging_config_default :: logging_config where
  "logging_config_default =
     \<lparr>max_file_bytes = DEFAULT_MAX_LOG_FILE_BYTES, max_total_bytes = DEFAULT_MAX_LOG_TOTAL_BYTES\<rparr>"

record watch_config =
  debounce_ms :: u64
  failure_reminder_secs :: u64
  reconcile_interval_secs :: "u64 option"
  catch_up_concurrency :: "u64 option"

definition watch_config_default :: watch_config where
  "watch_config_default =
     \<lparr>debounce_ms = DEFAULT_DEBOUNCE_MS, failure_reminder_secs = DEFAULT_FAILURE_REMINDER_SECS,
      reconcile_interval_secs = None, catch_up_concurrency = None\<rparr>"

definition effective_reconcile_interval_secs :: "watch_config \<Rightarrow> u64" where
  "effective_reconcile_interval_secs w =
     (case reconcile_interval_secs w of Some v \<Rightarrow> v | None \<Rightarrow> DEFAULT_RECONCILE_INTERVAL_SECS)"

definition effective_catch_up_concurrency :: "watch_config \<Rightarrow> u64" where
  "effective_catch_up_concurrency w =
     (case catch_up_concurrency w of Some v \<Rightarrow> v | None \<Rightarrow> DEFAULT_CATCH_UP_CONCURRENCY)"

record daemon_config =
  idle_exit_secs :: u64
  maintenance_interval_secs :: u64
  defer_bound_secs :: u64
  debt_soft_fragments :: u64
  debt_hard_fragments :: u64
  debt_soft_stale_versions :: u64
  debt_hard_stale_versions :: u64
  hard_block_wait_secs :: u64
  debt_soft_delay_ms :: u64
  debt_cache_ttl_secs :: u64
  paced_slice_budget :: u64
  paced_slice_sleep_ms :: u64
  churn_warn_at :: u32
  churn_act_at :: u32
  restart_intensity_cap :: u32
  restart_intensity_window_secs :: u64
  watchdog_stall_secs :: u64
  boot_backoff_floor_secs :: u64
  boot_backoff_cap_secs :: u64

definition daemon_config_default :: daemon_config where
  "daemon_config_default =
     \<lparr>idle_exit_secs = 900, maintenance_interval_secs = 1800, defer_bound_secs = 3600, debt_soft_fragments = 100,
      debt_hard_fragments = 500, debt_soft_stale_versions = 50, debt_hard_stale_versions = 250,
      hard_block_wait_secs = 30, debt_soft_delay_ms = 250, debt_cache_ttl_secs = 5, paced_slice_budget = 8,
      paced_slice_sleep_ms = 500, churn_warn_at = 10, churn_act_at = 50, restart_intensity_cap = 5,
      restart_intensity_window_secs = 60, watchdog_stall_secs = 300, boot_backoff_floor_secs = 10,
      boot_backoff_cap_secs = 300\<rparr>"

record storage_config =
  ground_dir :: string

definition storage_config_default :: storage_config where
  "storage_config_default = \<lparr>ground_dir = DEFAULT_GROUND_DIR\<rparr>"

record security_config =
  allow_repo_paths_outside_root :: "string list"

definition security_config_default :: security_config where
  "security_config_default = \<lparr>allow_repo_paths_outside_root = []\<rparr>"

record config =
  cfg_corpora :: "corpus_config list"
  cfg_repositories :: "repository_config list"
  inherit_global_corpora :: bool
  cfg_search :: search_config
  cfg_embeddings :: embeddings_config
  cfg_logging :: logging_config
  cfg_watch :: watch_config
  cfg_storage :: storage_config
  cfg_daemon :: daemon_config
  cfg_security :: security_config

definition config_default :: config where
  "config_default =
     \<lparr>cfg_corpora = [], cfg_repositories = [], inherit_global_corpora = True, cfg_search = search_config_default,
      cfg_embeddings = embeddings_config_default, cfg_logging = logging_config_default,
      cfg_watch = watch_config_default, cfg_storage = storage_config_default, cfg_daemon = daemon_config_default,
      cfg_security = security_config_default\<rparr>"

definition config_effective_corpora :: "config \<Rightarrow> corpus_config list hall_result" where
  "config_effective_corpora cfg = effective_corpora (cfg_corpora cfg) (cfg_repositories cfg)"

record resolved_layers =
  layer_xdg_path :: "path option"
  layer_repo_path :: "path option"
  union_warnings :: "string list"
  path_warnings :: "string list"

text \<open>What the functions read of the process and of the libraries.\<close>

record config_env =
  env_canon :: canonicalizer
  env_lstat :: lstat
  env_tilde :: "string \<Rightarrow> string"
  env_read :: "path \<Rightarrow> (io_kind, string) result"
  env_is_file :: "path \<Rightarrow> bool"
  env_is_dir :: "path \<Rightarrow> bool"
  env_exists :: "path \<Rightarrow> bool"
  env_current_dir :: "(io_kind, path) result"
  env_var :: "string \<Rightarrow> string option"
  env_toml :: "string \<Rightarrow> (string, config) result"
  env_walk :: walker
  env_blake3 :: "string \<Rightarrow> string"

subsection \<open>Text of values\<close>

definition show_word :: "'a::len word \<Rightarrow> string" where
  "show_word w = show_nat (unat w)"

definition quoted :: "string \<Rightarrow> string" where
  "quoted s = [CHR 0x27] @ s @ [CHR 0x27]"

definition debug_bool :: "bool \<Rightarrow> string" where
  "debug_bool b = (if b then ''true'' else ''false'')"

definition debug_option :: "('a \<Rightarrow> string) \<Rightarrow> 'a option \<Rightarrow> string" where
  "debug_option dbg v = (case v of None \<Rightarrow> ''None'' | Some x \<Rightarrow> ''Some('' @ dbg x @ '')'')"

definition debug_logging :: "logging_config \<Rightarrow> string" where
  "debug_logging l =
     ''LoggingConfig { max_file_bytes: '' @ show_word (max_file_bytes l) @ '', max_total_bytes: '' @
     show_word (max_total_bytes l) @ '' }''"

definition debug_security :: "security_config \<Rightarrow> string" where
  "debug_security s =
     ''SecurityConfig { allow_repo_paths_outside_root: ['' @
     join_str '', '' (map debug_str (allow_repo_paths_outside_root s)) @ ''] }''"

text \<open>The text of the error of \<open>parse::<u64>\<close>, at the first byte that is wrong.\<close>

fun digits_error :: "nat \<Rightarrow> string \<Rightarrow> string" where
  "digits_error acc [] = []"
| "digits_error acc (c # cs) =
     (if \<not> digit c then ''invalid digit found in string''
      else if 2 ^ 64 \<le> 10 * acc + (byte c - 48) then ''number too large to fit in target type''
      else digits_error (10 * acc + (byte c - 48)) cs)"

definition parse_u64_error :: "string \<Rightarrow> string" where
  "parse_u64_error s =
     (case s of
        [] \<Rightarrow> ''cannot parse integer from empty string''
      | c # cs \<Rightarrow> if cs \<noteq> [] \<and> c = CHR ''+'' then digits_error 0 cs
                  else if cs = [] \<and> c = CHR ''+'' then ''invalid digit found in string''
                  else digits_error 0 s)"

subsection \<open>Validation\<close>

text \<open>A \<open>for\<close> loop whose body may return an error.\<close>

fun check_all :: "('a \<Rightarrow> unit hall_result) \<Rightarrow> 'a list \<Rightarrow> unit hall_result" where
  "check_all f [] = Ok ()"
| "check_all f (x # xs) = result_bind (f x) (\<lambda>_. check_all f xs)"

abbreviation reject_if :: "bool \<Rightarrow> string \<Rightarrow> unit hall_result" where
  "reject_if bad message \<equiv> (if bad then Err (EConfig message) else Ok ())"

definition reject_empty_paths :: "config \<Rightarrow> unit hall_result" where
  "reject_empty_paths cfg =
     result_bind (check_all (\<lambda>c. check_all (\<lambda>p.
         reject_if (trim p = []) (''corpus '' @ quoted (cc_name c) @ '' has an empty path entry'')) (cc_paths c))
       (cfg_corpora cfg)) (\<lambda>_.
     check_all (\<lambda>r.
       result_bind (reject_if (trim (rc_path r) = []) (''repository '' @ quoted (rc_name r) @ '' has empty path'')) (\<lambda>_.
       check_all (\<lambda>p.
         reject_if (trim p = []) (''repository '' @ quoted (rc_name r) @ '' has an empty corpus_paths entry''))
         (rc_corpus_paths r)))
       (cfg_repositories cfg))"

definition validate :: "config_env \<Rightarrow> config \<Rightarrow> unit hall_result" where
  "validate env cfg =
     result_bind (reject_if (max_file_bytes (cfg_logging cfg) = 0) ''logging.max_file_bytes must be greater than zero'') (\<lambda>_.
     result_bind (reject_if (max_total_bytes (cfg_logging cfg) = 0) ''logging.max_total_bytes must be greater than zero'') (\<lambda>_.
     result_bind (reject_if (max_total_bytes (cfg_logging cfg) < max_file_bytes (cfg_logging cfg))
         ''logging.max_total_bytes must be greater than or equal to logging.max_file_bytes'') (\<lambda>_.
     result_bind (reject_if (reconcile_interval_secs (cfg_watch cfg) = Some 0)
         ''watch.reconcile_interval_secs must be greater than zero'') (\<lambda>_.
     result_bind (reject_if (catch_up_concurrency (cfg_watch cfg) = Some 0)
         ''watch.catch_up_concurrency must be greater than zero'') (\<lambda>_.
     result_bind (reject_if (case catch_up_concurrency (cfg_watch cfg) of Some v \<Rightarrow> MAX_CATCH_UP_CONCURRENCY < v | None \<Rightarrow> False)
         (''watch.catch_up_concurrency must be at most '' @ show_word MAX_CATCH_UP_CONCURRENCY)) (\<lambda>_.
     result_bind (reject_if (MAX_COLD_WAIT_MS < cold_wait_ms (cfg_search cfg))
         (''search.cold_wait_ms must be at most '' @ show_word MAX_COLD_WAIT_MS)) (\<lambda>_.
     result_bind (check_all (\<lambda>entry.
         reject_if (\<not> starts_with [RootDir] (expand_tilde (env_tilde env) entry))
           (''security.allow_repo_paths_outside_root entry '' @ debug_str entry @
            '' must be an absolute path or start with `~/`''))
         (allow_repo_paths_outside_root (cfg_security cfg))) (\<lambda>_.
     result_bind (reject_empty_paths cfg) (\<lambda>_.
     result_bind (check_all (\<lambda>(idx, c).
         result_bind (reject_if (trim (cc_name c) = []) (''corpus #'' @ show_nat idx @ '' has empty name'')) (\<lambda>_.
         reject_if (cc_paths c = []) (''corpus '' @ quoted (cc_name c) @ '' has no paths'')))
         (List.enumerate 0 (cfg_corpora cfg))) (\<lambda>_.
     result_bind (check_all (\<lambda>(idx, r).
         reject_if (trim (rc_name r) = []) (''repository #'' @ show_nat idx @ '' has empty name''))
         (List.enumerate 0 (cfg_repositories cfg))) (\<lambda>_.
     let globals = map cc_name (filter cc_global (cfg_corpora cfg)); d = cfg_daemon cfg;
         poll_floor_secs = max (debt_cache_ttl_secs d) 1
     in result_bind (reject_if (1 < length globals)
          (''more than one corpus marked global = true: '' @ join_str '', '' globals @ ''; exactly one is allowed'')) (\<lambda>_.
        result_bind (reject_if (0 < hard_block_wait_secs d \<and> hard_block_wait_secs d \<le> poll_floor_secs)
          (''daemon Hard-debt poll interval (max(debt_cache_ttl_secs, 1) = '' @ show_word poll_floor_secs @
           ''s) must be less than daemon.hard_block_wait_secs ('' @ show_word (hard_block_wait_secs d) @
           ''s) so a Hard-blocked mutation re-probes before the deadline'')) (\<lambda>_.
        result_bind (config_effective_corpora cfg) (\<lambda>_. Ok ()))))))))))))))"

definition normalize_config :: "config \<Rightarrow> config hall_result" where
  "normalize_config cfg =
     result_bind (canonical_model_name (emb_model (cfg_embeddings cfg))) (\<lambda>name.
       Ok (cfg\<lparr>cfg_embeddings := (cfg_embeddings cfg)\<lparr>emb_model := name\<rparr>\<rparr>))"

subsection \<open>The baseline\<close>

text \<open>\<open>PathBuf::join\<close> of a relative path drops its leading \<open>.\<close> component.\<close>

definition join_paths :: "path \<Rightarrow> path \<Rightarrow> path" where
  "join_paths base p =
     (if starts_with [RootDir] p \<or> base = [] then p else base @ filter (\<lambda>c. c \<noteq> CurDir) p)"

definition xdg_path_from :: "(string \<Rightarrow> string) \<Rightarrow> string option \<Rightarrow> string \<Rightarrow> string list \<Rightarrow> path" where
  "xdg_path_from tilde env_value fallback_base subpath =
     (let base = (case env_value of
                    Some s \<Rightarrow> if s \<noteq> [] then components s else components (tilde fallback_base)
                  | None \<Rightarrow> components (tilde fallback_base))
      in foldl (\<lambda>p seg. join_paths p (components seg)) base subpath)"

definition xdg_path_of :: "config_env \<Rightarrow> string \<Rightarrow> string \<Rightarrow> string list \<Rightarrow> path" where
  "xdg_path_of env var fallback_base subpath = xdg_path_from (env_tilde env) (env_var env var) fallback_base subpath"

definition xdg_config_path :: "config_env \<Rightarrow> path" where
  "xdg_config_path env = xdg_path_of env ''XDG_CONFIG_HOME'' ''~/.config'' [''hallouminate'', ''config.toml'']"

definition parse_config :: "config_env \<Rightarrow> string \<Rightarrow> path option \<Rightarrow> config hall_result" where
  "parse_config env txt source =
     (case env_toml env txt of
        Err e \<Rightarrow> Err (EConfig (''parsing config'' @
                   (case source of Some p \<Rightarrow> '' at '' @ to_string_lossy (path_string p) | None \<Rightarrow> []) @ '': '' @ e))
      | Ok cfg \<Rightarrow>
          result_bind (normalize_config cfg) (\<lambda>cfg.
          result_bind (validate env cfg) (\<lambda>_. Ok cfg)))"

definition load_xdg :: "config_env \<Rightarrow> path option \<Rightarrow> config hall_result" where
  "load_xdg env given =
     (let resolved = (case given of Some p \<Rightarrow> p | None \<Rightarrow> xdg_config_path env)
      in case env_read env resolved of
           Ok t \<Rightarrow> parse_config env t (Some resolved)
         | Err e \<Rightarrow> if e = IoNotFound then Ok config_default else Err (EIo e))"

definition apply_u64_override :: "config_env \<Rightarrow> string \<Rightarrow> u64 \<Rightarrow> u64 hall_result" where
  "apply_u64_override env name target =
     (case env_var env name of
        None \<Rightarrow> Ok target
      | Some raw \<Rightarrow>
          (case to_str raw of
             None \<Rightarrow> Err (EConfig (''environment variable '' @ name @ '' must be valid UTF-8''))
           | Some v \<Rightarrow>
               (case parse_u64 v of
                  None \<Rightarrow> Err (EConfig (''invalid '' @ name @ '' value '' @ quoted v @ '': '' @ parse_u64_error v))
                | Some n \<Rightarrow> Ok n)))"

definition apply_env_overrides_with :: "config_env \<Rightarrow> config \<Rightarrow> config hall_result" where
  "apply_env_overrides_with env cfg =
     result_bind (apply_u64_override env ''HALLOUMINATE_LOG_MAX_FILE_BYTES'' (max_file_bytes (cfg_logging cfg))) (\<lambda>v.
     let cfg = cfg\<lparr>cfg_logging := (cfg_logging cfg)\<lparr>max_file_bytes := v\<rparr>\<rparr> in
     result_bind (apply_u64_override env ''HALLOUMINATE_LOG_MAX_TOTAL_BYTES'' (max_total_bytes (cfg_logging cfg))) (\<lambda>v.
     let cfg = cfg\<lparr>cfg_logging := (cfg_logging cfg)\<lparr>max_total_bytes := v\<rparr>\<rparr> in
     result_bind (apply_u64_override env ''HALLOUMINATE_WATCH_FAILURE_REMINDER_SECS''
         (failure_reminder_secs (cfg_watch cfg))) (\<lambda>v.
     let cfg = cfg\<lparr>cfg_watch := (cfg_watch cfg)\<lparr>failure_reminder_secs := v\<rparr>\<rparr> in
     result_bind (validate env cfg) (\<lambda>_. Ok cfg))))"

definition load_startup :: "config_env \<Rightarrow> path option \<Rightarrow> config hall_result" where
  "load_startup env given = result_bind (load_xdg env given) (apply_env_overrides_with env)"

definition load :: "config_env \<Rightarrow> path option \<Rightarrow> config hall_result" where
  "load env given = load_xdg env given"

subsection \<open>Finding the configuration of a repository\<close>

definition REPO_NOT_CONFIGURED_PREFIX :: string where
  "REPO_NOT_CONFIGURED_PREFIX = ''hallouminate: not configured for this repo''"

definition not_configured_error :: "path \<Rightarrow> path \<Rightarrow> hall_error" where
  "not_configured_error cwd root =
     EConfig (REPO_NOT_CONFIGURED_PREFIX @ '' (searched up from '' @ to_string_lossy (path_string cwd) @
       ''; stopped at repo root '' @ to_string_lossy (path_string root) @ ''). Grounding is unavailable here '' @
       [CHR 0xE2, CHR 0x80, CHR 0x94] @
       '' skip it, or onboard by creating .hallouminate/config.toml with a [[repository]] entry.'')"

definition absolutize_cwd :: "path \<Rightarrow> path \<Rightarrow> path" where
  "absolutize_cwd cwd base = join_paths base cwd"

text \<open>\<open>trim_start_matches\<close> with a pattern text takes it off as often as it is there.\<close>

function strip_all :: "string \<Rightarrow> string \<Rightarrow> string" where
  "strip_all pat s =
     (if pat = [] then s else case strip_prefix_str pat s of Some rest \<Rightarrow> strip_all pat rest | None \<Rightarrow> s)"
  by pat_completeness auto

termination
  by (relation "measure (\<lambda>(_, s). length s)") (auto simp: strip_prefix_str_def starts_with_def split: if_splits intro!: diff_less)

declare strip_all.simps [simp del]

text \<open>The position of the first \<open>worktrees\<close> right after a \<open>.git\<close>.\<close>

fun worktrees_pos :: "path \<Rightarrow> nat option" where
  "worktrees_pos (a # b # cs) =
     (if a = Normal ''.git'' \<and> b = Normal ''worktrees'' then Some 1 else map_option Suc (worktrees_pos (b # cs)))"
| "worktrees_pos _ = None"

definition worktree_main_root :: "config_env \<Rightarrow> path \<Rightarrow> path option" where
  "worktree_main_root env git_file =
     (case env_read env git_file of
        Err _ \<Rightarrow> None
      | Ok content \<Rightarrow>
          (case List.find (starts_with ''gitdir:'') (lines_of content) of
             None \<Rightarrow> None
           | Some gitdir_line \<Rightarrow>
               (let ptr_path = components (trim (strip_all ''gitdir:'' gitdir_line))
                in case (if starts_with [RootDir] ptr_path then Some ptr_path
                         else map_option (\<lambda>wt_root. join_paths wt_root ptr_path) (path_parent git_file)) of
                     None \<Rightarrow> None
                   | Some resolved \<Rightarrow>
                       (case worktrees_pos resolved of
                          None \<Rightarrow> None
                        | Some pos \<Rightarrow> path_parent (take pos resolved)))))"

definition config_at :: "path \<Rightarrow> path" where
  "config_at level = level @ [Normal ''.hallouminate'', Normal ''config.toml'']"

function discover_repo_config_from :: "config_env \<Rightarrow> path \<Rightarrow> path \<Rightarrow> path option hall_result" where
  "discover_repo_config_from env cwd level =
     (if env_is_file env (config_at level) then Ok (Some (config_at level))
      else if env_exists env (level @ [Normal ''.git'']) then Err (not_configured_error cwd level)
      else case path_parent level of
             None \<Rightarrow> Ok None
           | Some up \<Rightarrow> discover_repo_config_from env cwd up)"
  by pat_completeness auto

termination by (relation "measure (\<lambda>(_, _, l). length l)") (auto dest: path_parent_shorter)

declare discover_repo_config_from.simps [simp del]

function discover_loop :: "config_env \<Rightarrow> path \<Rightarrow> path \<Rightarrow> path option hall_result" where
  "discover_loop env cwd level =
     (let git_marker = level @ [Normal ''.git''] in
      if env_is_file env (config_at level) then Ok (Some (config_at level))
      else if env_is_dir env git_marker then Err (not_configured_error cwd level)
      else if env_is_file env git_marker
      then (case worktree_main_root env git_marker of
              Some main_root \<Rightarrow> discover_repo_config_from env cwd main_root
            | None \<Rightarrow> Err (not_configured_error cwd level))
      else case path_parent level of
             None \<Rightarrow> Ok None
           | Some up \<Rightarrow> discover_loop env cwd up)"
  by pat_completeness auto

termination by (relation "measure (\<lambda>(_, _, l). length l)") (auto dest: path_parent_shorter)

declare discover_loop.simps [simp del]

definition discover_repo_config :: "config_env \<Rightarrow> path \<Rightarrow> path option hall_result" where
  "discover_repo_config env cwd =
     (if starts_with [RootDir] cwd then discover_loop env cwd cwd
      else case env_current_dir env of
             Err e \<Rightarrow> Err (EIo e)
           | Ok here \<Rightarrow> discover_loop env cwd (absolutize_cwd cwd here))"

subsection \<open>The layer of a repository\<close>

definition resolve_repo_path :: "string \<Rightarrow> path \<Rightarrow> string" where
  "resolve_repo_path raw base =
     (if raw = [] then raw
      else if starts_with ''~'' raw then raw
      else if starts_with [SLASH] raw then raw
      else to_string_lossy (path_join (path_string base) raw))"

definition resolve_repo_layer_paths :: "config \<Rightarrow> path \<Rightarrow> config" where
  "resolve_repo_layer_paths cfg base =
     cfg\<lparr>cfg_corpora := map (\<lambda>c. c\<lparr>cc_paths := map (\<lambda>p. resolve_repo_path p base) (cc_paths c)\<rparr>) (cfg_corpora cfg),
         cfg_repositories := map (\<lambda>r. r\<lparr>rc_path := resolve_repo_path (rc_path r) base,
             rc_corpus_paths := map (\<lambda>p. resolve_repo_path p base) (rc_corpus_paths r)\<rparr>) (cfg_repositories cfg)\<rparr>"

definition real_path :: "config_env \<Rightarrow> path \<Rightarrow> path" where
  "real_path env p = canonical_following_leaf (env_canon env) (env_lstat env) p"

definition allowed_roots :: "config_env \<Rightarrow> string list \<Rightarrow> path list" where
  "allowed_roots env allowed_outside =
     filter (\<lambda>real. real \<noteq> []) (map (\<lambda>entry. real_path env (expand_tilde (env_tilde env) entry)) allowed_outside)"

definition inside :: "config_env \<Rightarrow> path \<Rightarrow> path list \<Rightarrow> string \<Rightarrow> bool" where
  "inside env root allowed raw =
     (let real = real_path env (expand_tilde (env_tilde env) raw)
      in if real = [] then False
         else if root \<noteq> [] \<and> starts_with root real then True
         else list_ex (\<lambda>entry. starts_with entry real) allowed)"

definition outside_root_warning :: "string \<Rightarrow> string \<Rightarrow> string \<Rightarrow> path \<Rightarrow> string" where
  "outside_root_warning kind name p root =
     ''repo-layer '' @ kind @ '' `'' @ name @ ''` skipped: path `'' @ p @ ''` is outside the repo root '' @
     to_string_lossy (path_string root) @
     ''; allow it with security.allow_repo_paths_outside_root in the baseline config''"

fun confine_corpora :: "config_env \<Rightarrow> path \<Rightarrow> path list \<Rightarrow> corpus_config list \<Rightarrow> corpus_config list \<times> string list" where
  "confine_corpora env root allowed [] = ([], [])"
| "confine_corpora env root allowed (c # cs) =
     (case confine_corpora env root allowed cs of (kept, warnings) \<Rightarrow>
        case List.find (\<lambda>p. \<not> inside env root allowed p) (cc_paths c) of
          Some p \<Rightarrow> (kept, outside_root_warning ''corpus'' (cc_name c) p root # warnings)
        | None \<Rightarrow> (c # kept, warnings))"

fun confine_repositories ::
  "config_env \<Rightarrow> path \<Rightarrow> path list \<Rightarrow> repository_config list \<Rightarrow> repository_config list \<times> string list" where
  "confine_repositories env root allowed [] = ([], [])"
| "confine_repositories env root allowed (r # rs) =
     (case confine_repositories env root allowed rs of (kept, warnings) \<Rightarrow>
        case List.find (\<lambda>p. \<not> inside env root allowed p) (wiki_directory r # rc_path r # rc_corpus_paths r) of
          Some p \<Rightarrow> (kept, outside_root_warning ''repository'' (rc_name r) p root # warnings)
        | None \<Rightarrow> (r # kept, warnings))"

definition confine_repo_layer :: "config_env \<Rightarrow> config \<Rightarrow> path \<Rightarrow> string list \<Rightarrow> config \<times> string list" where
  "confine_repo_layer env cfg base allowed_outside =
     (let root = real_path env base;
          allowed = allowed_roots env allowed_outside
      in case confine_corpora env root allowed (cfg_corpora cfg) of (corpora, corpus_warnings) \<Rightarrow>
         case confine_repositories env root allowed (cfg_repositories cfg) of (repositories, repository_warnings) \<Rightarrow>
           (cfg\<lparr>cfg_corpora := corpora, cfg_repositories := repositories\<rparr>, corpus_warnings @ repository_warnings))"

definition load_repo_layer :: "config_env \<Rightarrow> path \<Rightarrow> string list \<Rightarrow> (config \<times> string list) hall_result" where
  "load_repo_layer env toml_path allowed_outside =
     (case env_read env toml_path of
        Err e \<Rightarrow> Err (EIo e)
      | Ok txt \<Rightarrow>
     (case env_toml env txt of
        Err e \<Rightarrow> Err (EConfig (''parsing config at '' @ to_string_lossy (path_string toml_path) @ '': '' @ e))
      | Ok cfg \<Rightarrow>
     (case path_parent toml_path of
        None \<Rightarrow> Err (EConfig (''repo config path has no parent directory: '' @ to_string_lossy (path_string toml_path)))
      | Some hallouminate_dir \<Rightarrow>
          (let base = (case path_parent hallouminate_dir of Some p \<Rightarrow> p | None \<Rightarrow> hallouminate_dir)
           in result_bind (reject_empty_paths cfg) (\<lambda>_.
              case confine_repo_layer env (resolve_repo_layer_paths cfg base) base allowed_outside of
                (cfg, warnings) \<Rightarrow>
                  result_bind (normalize_config cfg) (\<lambda>cfg.
                  result_bind (validate env cfg) (\<lambda>_. Ok (cfg, warnings))))))))"

subsection \<open>Merging the layers\<close>

definition layer_source :: "string \<Rightarrow> string \<Rightarrow> path option \<Rightarrow> string" where
  "layer_source layer fallback source =
     (case source of Some p \<Rightarrow> '' ('' @ layer @ '' at '' @ to_string_lossy (path_string p) @ '')'' | None \<Rightarrow> fallback)"

definition scalar_conflict ::
  "('a \<Rightarrow> string) \<Rightarrow> string \<Rightarrow> 'a \<Rightarrow> 'a \<Rightarrow> path option \<Rightarrow> path option \<Rightarrow> hall_error" where
  "scalar_conflict dbg field baseline repo baseline_path repo_path =
     EConfig (''scalar conflict on '' @ field @ '': baseline = '' @ dbg baseline @
       layer_source ''baseline'' '' (baseline)'' baseline_path @ '', repo = '' @ dbg repo @
       layer_source ''repo'' '' (repo layer)'' repo_path)"

definition merge_scalar ::
  "('a \<Rightarrow> string) \<Rightarrow> string \<Rightarrow> 'a \<Rightarrow> 'a \<Rightarrow> 'a \<Rightarrow> path option \<Rightarrow> path option \<Rightarrow> 'a hall_result" where
  "merge_scalar dbg field baseline repo dflt baseline_path repo_path =
     (let baseline_set = baseline \<noteq> dflt; repo_set = repo \<noteq> dflt
      in if \<not> baseline_set \<and> \<not> repo_set then Ok dflt
         else if baseline_set \<and> \<not> repo_set then Ok baseline
         else if \<not> baseline_set \<and> repo_set then Ok repo
         else if baseline = repo then Ok baseline
         else Err (scalar_conflict dbg field baseline repo baseline_path repo_path))"

definition merge_baseline_only ::
  "('a \<Rightarrow> string) \<Rightarrow> string \<Rightarrow> 'a option \<Rightarrow> 'a option \<Rightarrow> 'a \<Rightarrow> path option \<Rightarrow> path option \<Rightarrow> 'a option hall_result" where
  "merge_baseline_only dbg field baseline repo dflt baseline_path repo_path =
     (let active = (case baseline of Some v \<Rightarrow> v | None \<Rightarrow> dflt)
      in case repo of
           None \<Rightarrow> Ok (Some active)
         | Some repo_value \<Rightarrow>
             if repo_value = active then Ok (Some active)
             else Err (scalar_conflict dbg field active repo_value baseline_path repo_path))"

text \<open>A field of two layers by its selector.\<close>

definition merge_field ::
  "('a \<Rightarrow> string) \<Rightarrow> string \<Rightarrow> ('s \<Rightarrow> 'a) \<Rightarrow> 's \<Rightarrow> 's \<Rightarrow> 's \<Rightarrow> path option \<Rightarrow> path option \<Rightarrow> 'a hall_result" where
  "merge_field dbg field sel baseline repo dflt bp rp =
     merge_scalar dbg field (sel baseline) (sel repo) (sel dflt) bp rp"

definition merge_search ::
  "search_config \<Rightarrow> search_config \<Rightarrow> path option \<Rightarrow> path option \<Rightarrow> search_config hall_result" where
  "merge_search b r bp rp = (let d = search_config_default in
     result_bind (merge_field show_word ''search.top_files_default'' top_files_default b r d bp rp) (\<lambda>v1.
     result_bind (merge_field show_word ''search.chunks_per_file_default'' chunks_per_file_default b r d bp rp) (\<lambda>v2.
     result_bind (merge_field show_word ''search.limit_default'' limit_default b r d bp rp) (\<lambda>v3.
     result_bind (merge_field (debug_option debug_str) ''search.crossencoder'' crossencoder b r d bp rp) (\<lambda>v4.
     result_bind (merge_field show_word ''search.rerank_timeout_ms'' rerank_timeout_ms b r d bp rp) (\<lambda>v5.
     result_bind (merge_field show_word ''search.cold_wait_ms'' cold_wait_ms b r d bp rp) (\<lambda>v6.
       Ok \<lparr>top_files_default = v1, chunks_per_file_default = v2, limit_default = v3,
           crossencoder = v4, rerank_timeout_ms = v5, cold_wait_ms = v6\<rparr>)))))))"

definition merge_embeddings ::
  "embeddings_config \<Rightarrow> embeddings_config \<Rightarrow> path option \<Rightarrow> path option \<Rightarrow> embeddings_config hall_result" where
  "merge_embeddings b r bp rp = (let d = embeddings_config_default in
     result_bind (merge_field debug_bool ''embeddings.enabled'' enabled b r d bp rp) (\<lambda>v1.
     result_bind (merge_field debug_str ''embeddings.model'' emb_model b r d bp rp) (\<lambda>v2.
     result_bind (merge_field debug_bool ''embeddings.quantized'' quantized b r d bp rp) (\<lambda>v3.
     result_bind (merge_baseline_only debug_str ''embeddings.cache_dir'' (Some (cache_dir b))
         (if cache_dir r \<noteq> cache_dir d then Some (cache_dir r) else None) (cache_dir d) bp rp) (\<lambda>v4.
     result_bind (merge_field show_word ''embeddings.idle_evict_secs'' idle_evict_secs b r d bp rp) (\<lambda>v5.
       Ok \<lparr>enabled = v1, emb_model = v2, quantized = v3,
           cache_dir = (case v4 of Some v \<Rightarrow> v | None \<Rightarrow> cache_dir d), idle_evict_secs = v5\<rparr>))))))"

definition merge_watch ::
  "watch_config \<Rightarrow> watch_config \<Rightarrow> path option \<Rightarrow> path option \<Rightarrow> watch_config hall_result" where
  "merge_watch b r bp rp = (let d = watch_config_default in
     result_bind (merge_field show_word ''watch.debounce_ms'' debounce_ms b r d bp rp) (\<lambda>v1.
     result_bind (merge_field show_word ''watch.failure_reminder_secs'' failure_reminder_secs b r d bp rp) (\<lambda>v2.
     result_bind (merge_baseline_only show_word ''watch.reconcile_interval_secs'' (reconcile_interval_secs b)
         (reconcile_interval_secs r) DEFAULT_RECONCILE_INTERVAL_SECS bp rp) (\<lambda>v3.
     result_bind (merge_baseline_only show_word ''watch.catch_up_concurrency'' (catch_up_concurrency b)
         (catch_up_concurrency r) DEFAULT_CATCH_UP_CONCURRENCY bp rp) (\<lambda>v4.
       Ok \<lparr>debounce_ms = v1, failure_reminder_secs = v2, reconcile_interval_secs = v3, catch_up_concurrency = v4\<rparr>)))))"

definition merge_storage ::
  "storage_config \<Rightarrow> storage_config \<Rightarrow> path option \<Rightarrow> path option \<Rightarrow> storage_config hall_result" where
  "merge_storage b r bp rp = (let d = storage_config_default in
     result_bind (merge_baseline_only debug_str ''storage.ground_dir'' (Some (ground_dir b))
         (if ground_dir r \<noteq> ground_dir d then Some (ground_dir r) else None) (ground_dir d) bp rp) (\<lambda>v.
       Ok \<lparr>ground_dir = (case v of Some x \<Rightarrow> x | None \<Rightarrow> ground_dir d)\<rparr>))"

definition merge_daemon ::
  "daemon_config \<Rightarrow> daemon_config \<Rightarrow> path option \<Rightarrow> path option \<Rightarrow> daemon_config hall_result" where
  "merge_daemon b r bp rp = (let d = daemon_config_default in
     result_bind (merge_field show_word ''daemon.idle_exit_secs'' idle_exit_secs b r d bp rp) (\<lambda>v1.
     result_bind (merge_field show_word ''daemon.maintenance_interval_secs'' maintenance_interval_secs b r d bp rp) (\<lambda>v2.
     result_bind (merge_field show_word ''daemon.defer_bound_secs'' defer_bound_secs b r d bp rp) (\<lambda>v3.
     result_bind (merge_field show_word ''daemon.debt_soft_fragments'' debt_soft_fragments b r d bp rp) (\<lambda>v4.
     result_bind (merge_field show_word ''daemon.debt_hard_fragments'' debt_hard_fragments b r d bp rp) (\<lambda>v5.
     result_bind (merge_field show_word ''daemon.debt_soft_stale_versions'' debt_soft_stale_versions b r d bp rp) (\<lambda>v6.
     result_bind (merge_field show_word ''daemon.debt_hard_stale_versions'' debt_hard_stale_versions b r d bp rp) (\<lambda>v7.
     result_bind (merge_field show_word ''daemon.hard_block_wait_secs'' hard_block_wait_secs b r d bp rp) (\<lambda>v8.
     result_bind (merge_field show_word ''daemon.debt_soft_delay_ms'' debt_soft_delay_ms b r d bp rp) (\<lambda>v9.
     result_bind (merge_field show_word ''daemon.debt_cache_ttl_secs'' debt_cache_ttl_secs b r d bp rp) (\<lambda>v10.
     result_bind (merge_field show_word ''daemon.paced_slice_budget'' paced_slice_budget b r d bp rp) (\<lambda>v11.
     result_bind (merge_field show_word ''daemon.paced_slice_sleep_ms'' paced_slice_sleep_ms b r d bp rp) (\<lambda>v12.
     result_bind (merge_field show_word ''daemon.churn_warn_at'' churn_warn_at b r d bp rp) (\<lambda>v13.
     result_bind (merge_field show_word ''daemon.churn_act_at'' churn_act_at b r d bp rp) (\<lambda>v14.
     result_bind (merge_field show_word ''daemon.restart_intensity_cap'' restart_intensity_cap b r d bp rp) (\<lambda>v15.
     result_bind (merge_field show_word ''daemon.restart_intensity_window_secs'' restart_intensity_window_secs b r d bp rp) (\<lambda>v16.
     result_bind (merge_field show_word ''daemon.watchdog_stall_secs'' watchdog_stall_secs b r d bp rp) (\<lambda>v17.
     result_bind (merge_field show_word ''daemon.boot_backoff_floor_secs'' boot_backoff_floor_secs b r d bp rp) (\<lambda>v18.
     result_bind (merge_field show_word ''daemon.boot_backoff_cap_secs'' boot_backoff_cap_secs b r d bp rp) (\<lambda>v19.
       Ok \<lparr>idle_exit_secs = v1, maintenance_interval_secs = v2, defer_bound_secs = v3,
           debt_soft_fragments = v4, debt_hard_fragments = v5, debt_soft_stale_versions = v6,
           debt_hard_stale_versions = v7, hard_block_wait_secs = v8, debt_soft_delay_ms = v9,
           debt_cache_ttl_secs = v10, paced_slice_budget = v11, paced_slice_sleep_ms = v12,
           churn_warn_at = v13, churn_act_at = v14, restart_intensity_cap = v15,
           restart_intensity_window_secs = v16, watchdog_stall_secs = v17, boot_backoff_floor_secs = v18,
           boot_backoff_cap_secs = v19\<rparr>))))))))))))))))))))"

definition merge_layers_with_sources ::
  "config_env \<Rightarrow> config \<Rightarrow> config \<Rightarrow> path option \<Rightarrow> path option \<Rightarrow> config hall_result" where
  "merge_layers_with_sources env baseline repo baseline_path repo_path =
     (let corpora = (if inherit_global_corpora repo then cfg_corpora baseline else []) @ cfg_corpora repo;
          repositories = (if inherit_global_corpora repo then cfg_repositories baseline else []) @ cfg_repositories repo
      in
     result_bind (merge_search (cfg_search baseline) (cfg_search repo) baseline_path repo_path) (\<lambda>search.
     result_bind (merge_embeddings (cfg_embeddings baseline) (cfg_embeddings repo) baseline_path repo_path) (\<lambda>embeddings.
     result_bind (merge_watch (cfg_watch baseline) (cfg_watch repo) baseline_path repo_path) (\<lambda>watch.
     result_bind (merge_storage (cfg_storage baseline) (cfg_storage repo) baseline_path repo_path) (\<lambda>storage.
     result_bind (merge_daemon (cfg_daemon baseline) (cfg_daemon repo) baseline_path repo_path) (\<lambda>daemon.
     if cfg_logging repo \<noteq> logging_config_default
     then Err (EConfig (''repo-layer conflict on logging: [logging] is baseline-owned and process-wide, repo = '' @
            debug_logging (cfg_logging repo) @ layer_source ''repo'' '' (repo layer)'' repo_path))
     else if cfg_security repo \<noteq> security_config_default
     then Err (EConfig (''repo-layer conflict on security: [security] is baseline-only, repo = '' @
            debug_security (cfg_security repo) @ layer_source ''repo'' '' (repo layer)'' repo_path))
     else
       let merged = \<lparr>cfg_corpora = corpora, cfg_repositories = repositories,
             inherit_global_corpora = inherit_global_corpora repo, cfg_search = search, cfg_embeddings = embeddings,
             cfg_logging = cfg_logging baseline, cfg_watch = watch, cfg_storage = storage, cfg_daemon = daemon,
             cfg_security = cfg_security baseline\<rparr>
       in result_bind (validate env merged) (\<lambda>_. Ok merged)))))))"

definition merge_layers :: "config_env \<Rightarrow> config \<Rightarrow> config \<Rightarrow> config hall_result" where
  "merge_layers env baseline repo = merge_layers_with_sources env baseline repo None None"

definition resolve_for_cwd ::
  "config_env \<Rightarrow> config \<Rightarrow> path \<Rightarrow> path option \<Rightarrow> (config \<times> resolved_layers) hall_result" where
  "resolve_for_cwd env baseline cwd xdg =
     result_bind (discover_repo_config env cwd) (\<lambda>found.
       case found of
         None \<Rightarrow>
           (let discovered = List.map_filter (\<lambda>w. repository_for_discovered_wiki (repo_root w))
                  (discover_wiki_roots (env_walk env) (env_is_file env) (env_is_dir env) cwd DEFAULT_MAX_DEPTH
                     ignore_rules_default)
            in case union_discovered_repositories (env_canon env) (env_tilde env) (env_blake3 env)
                      (cfg_repositories baseline) discovered of
                 (repositories, warnings) \<Rightarrow>
                   (let baseline_only = baseline\<lparr>cfg_repositories := repositories\<rparr>
                    in result_bind (validate env baseline_only) (\<lambda>_.
                         Ok (baseline_only, \<lparr>layer_xdg_path = xdg, layer_repo_path = None, union_warnings = warnings,
                                            path_warnings = []\<rparr>))))
       | Some repo_config \<Rightarrow>
           result_bind (load_repo_layer env repo_config (allow_repo_paths_outside_root (cfg_security baseline))) (\<lambda>(repo, dropped).
           result_bind (merge_layers_with_sources env baseline repo xdg (Some repo_config)) (\<lambda>effective.
             Ok (effective, \<lparr>layer_xdg_path = xdg, layer_repo_path = Some repo_config, union_warnings = [], path_warnings = dropped\<rparr>))))"

subsection \<open>Facts\<close>

lemma check_all_Ok: "check_all f xs = Ok u \<longleftrightarrow> (\<forall>x \<in> set xs. f x = Ok ())"
  by (induction xs) (auto simp: result_bind_Ok_iff)

lemma reject_if_Ok [simp]: "reject_if bad message = Ok u \<longleftrightarrow> \<not> bad"
  by simp

lemma reject_empty_paths_nonempty:
  assumes "reject_empty_paths cfg = Ok u"
  shows "c \<in> set (cfg_corpora cfg) \<Longrightarrow> [] \<notin> set (cc_paths c)"
    and "r \<in> set (cfg_repositories cfg) \<Longrightarrow> rc_path r \<noteq> [] \<and> [] \<notin> set (rc_corpus_paths r)"
  using assms unfolding reject_empty_paths_def result_bind_Ok_iff check_all_Ok reject_if_Ok by (metis trim_Nil)+

lemma validate_corpora: "validate env cfg = Ok u \<Longrightarrow> \<exists>all. config_effective_corpora cfg = Ok all"
  unfolding validate_def Let_def result_bind_Ok_iff by blast

lemma confine_corpora_kept:
  "confine_corpora env root allowed cs = (kept, warnings) \<Longrightarrow> c \<in> set kept \<Longrightarrow>
     c \<in> set cs \<and> (\<forall>p \<in> set (cc_paths c). inside env root allowed p)"
  by (induction cs arbitrary: kept warnings) (auto simp: find_None_iff split: prod.splits option.splits)

lemma confine_repositories_kept:
  "confine_repositories env root allowed rs = (kept, warnings) \<Longrightarrow> r \<in> set kept \<Longrightarrow>
     r \<in> set rs \<and> (\<forall>p \<in> set (wiki_directory r # rc_corpus_paths r). inside env root allowed p)"
proof (induction rs arbitrary: kept warnings)
  case (Cons a rs)
  obtain kept' warnings' where rec: "confine_repositories env root allowed rs = (kept', warnings')" by fastforce
  show ?case
  proof (cases "List.find (\<lambda>p. \<not> inside env root allowed p) (wiki_directory a # rc_path a # rc_corpus_paths a)")
    case None
    then have "\<forall>p \<in> set (wiki_directory a # rc_corpus_paths a). inside env root allowed p"
      unfolding find_None_iff by auto
    with None rec Cons show ?thesis by (auto simp del: find.simps)
  next
    case (Some p)
    with rec Cons show ?thesis by (auto simp del: find.simps)
  qed
qed simp

lemma path_string_absolute: "starts_with [RootDir] p \<Longrightarrow> starts_with [SLASH] (path_string p)"
  by (cases p rule: list.exhaust; cases "tl p") (auto simp: starts_with_def path_string_def)

lemma resolve_repo_path_absolute:
  assumes "starts_with [RootDir] base" "raw \<noteq> []" "\<not> starts_with ''~'' raw"
  shows "starts_with [SLASH] (resolve_repo_path raw base)"
proof -
  obtain c cs where "path_string base = c # cs" "c = SLASH"
    using path_string_absolute [OF assms(1)] by (cases "path_string base") (auto simp: starts_with_def)
  then have "starts_with [SLASH] (path_join (path_string base) raw)"
    by (auto simp: path_join_def starts_with_def)
  then show ?thesis using assms(2,3) by (auto simp: resolve_repo_path_def)
qed

lemma parent_absolute: "path_parent p = Some up \<Longrightarrow> starts_with [RootDir] p \<Longrightarrow> starts_with [RootDir] up"
  by (cases p) (auto simp: path_parent_Some starts_with_def split: if_splits)

lemma worktrees_pos_positive: "worktrees_pos p = Some n \<Longrightarrow> 0 < n"
  by (induction p rule: worktrees_pos.induct) (auto split: if_splits)

lemma worktree_main_root_absolute:
  assumes "worktree_main_root env (level @ [Normal ''.git'']) = Some root" "starts_with [RootDir] level"
  shows "starts_with [RootDir] root"
proof -
  have up: "path_parent (level @ [Normal ''.git'']) = Some level" by (simp add: path_parent_Some)
  have join: "starts_with [RootDir] (join_paths level ptr)" for ptr
    using assms(2) by (cases level) (auto simp: join_paths_def starts_with_def)
  obtain resolved pos where r: "starts_with [RootDir] resolved" "worktrees_pos resolved = Some pos"
    "path_parent (take pos resolved) = Some root"
    using assms(1) up join unfolding worktree_main_root_def Let_def
    by (auto simp del: path_parent_Some split: sum.splits option.splits if_splits)
  then obtain cs where "resolved = RootDir # cs" by (cases resolved) (auto simp: starts_with_def)
  with r show ?thesis
    by (cases cs) (auto simp: path_parent_Some starts_with_def butlast_take dest: worktrees_pos_positive split: if_splits)
qed

lemma discover_from_absolute:
  "discover_repo_config_from env cwd level = Ok (Some p) \<Longrightarrow> starts_with [RootDir] level \<Longrightarrow>
     \<exists>root. p = config_at root \<and> starts_with [RootDir] root"
proof (induction env cwd level rule: discover_repo_config_from.induct)
  case (1 env cwd level)
  note run = 1(2) [unfolded discover_repo_config_from.simps [of env cwd level]]
  show ?case
  proof (cases "env_is_file env (config_at level) \<or> env_exists env (level @ [Normal ''.git'']) \<or> path_parent level = None")
    case True
    with run 1(3) show ?thesis by (auto split: if_splits)
  next
    case False
    then obtain up where "path_parent level = Some up" by blast
    with 1(1) [OF _ _ this] run False parent_absolute [OF this 1(3)] show ?thesis by simp
  qed
qed

lemma discover_loop_absolute:
  "discover_loop env cwd level = Ok (Some p) \<Longrightarrow> starts_with [RootDir] level \<Longrightarrow>
     \<exists>root. p = config_at root \<and> starts_with [RootDir] root"
proof (induction env cwd level rule: discover_loop.induct)
  case (1 env cwd level)
  note run = 1(2) [unfolded discover_loop.simps [of env cwd level] Let_def]
  show ?case
  proof (cases "env_is_file env (config_at level) \<or> env_is_dir env (level @ [Normal ''.git'']) \<or>
      env_is_file env (level @ [Normal ''.git'']) \<or> path_parent level = None")
    case True
    with run 1(3) show ?thesis
      by (auto split: if_splits option.splits dest: discover_from_absolute worktree_main_root_absolute)
  next
    case False
    then obtain up where "path_parent level = Some up" by blast
    with 1(1) [OF refl _ _ _ this] run False parent_absolute [OF this 1(3)] show ?thesis by simp
  qed
qed

lemma discover_absolute:
  assumes "discover_repo_config env cwd = Ok (Some p)" "\<forall>here. env_current_dir env = Ok here \<longrightarrow> starts_with [RootDir] here"
  shows "\<exists>root. p = config_at root \<and> starts_with [RootDir] root"
proof -
  have "starts_with [RootDir] (absolutize_cwd cwd here)" if "starts_with [RootDir] here" for here
    using that by (cases here) (auto simp: absolutize_cwd_def join_paths_def starts_with_def)
  then show ?thesis using assms
    by (auto simp: discover_repo_config_def split: if_splits sum.splits intro: discover_loop_absolute)
qed

text \<open>Where a path really lies: at or below the real form of one of the roots.\<close>

definition lies_below :: "config_env \<Rightarrow> path list \<Rightarrow> string \<Rightarrow> bool" where
  "lies_below env roots p \<longleftrightarrow>
     (\<exists>root \<in> set roots. real_path env root \<noteq> [] \<and>
        starts_with (real_path env root) (real_path env (expand_tilde (env_tilde env) p)))"

definition repo_layer_roots :: "config_env \<Rightarrow> path \<Rightarrow> config \<Rightarrow> path list" where
  "repo_layer_roots env root baseline =
     root # map (expand_tilde (env_tilde env)) (allow_repo_paths_outside_root (cfg_security baseline))"

text \<open>The settings that only the baseline may make.\<close>

definition startup_settings_kept :: "config \<Rightarrow> config \<Rightarrow> bool" where
  "startup_settings_kept baseline cfg \<longleftrightarrow>
     cfg_logging cfg = cfg_logging baseline \<and> cfg_security cfg = cfg_security baseline \<and>
     ground_dir (cfg_storage cfg) = ground_dir (cfg_storage baseline) \<and>
     cache_dir (cfg_embeddings cfg) = cache_dir (cfg_embeddings baseline) \<and>
     effective_reconcile_interval_secs (cfg_watch cfg) = effective_reconcile_interval_secs (cfg_watch baseline) \<and>
     effective_catch_up_concurrency (cfg_watch cfg) = effective_catch_up_concurrency (cfg_watch baseline)"

lemma inside_lies_below:
  "inside env (real_path env root) (allowed_roots env (allow_repo_paths_outside_root (cfg_security baseline))) p \<Longrightarrow>
     lies_below env (repo_layer_roots env root baseline) p"
  by (auto simp: inside_def lies_below_def repo_layer_roots_def allowed_roots_def Let_def list_ex_iff split: if_splits)

lemma load_repo_layer_confined:
  assumes "load_repo_layer env (config_at root) allowed = Ok (repo, warnings)" "starts_with [RootDir] root"
    "env_read env (config_at root) = Ok txt" "env_toml env txt = Ok parsed"
    "\<forall>r \<in> set (cfg_repositories parsed). \<forall>p \<in> set (rc_corpus_paths r). \<not> starts_with ''~'' p"
  defines "ins \<equiv> inside env (real_path env root) (allowed_roots env allowed)"
  shows "\<forall>c \<in> set (cfg_corpora repo). \<forall>p \<in> set (cc_paths c). ins p"
    and "\<forall>r \<in> set (cfg_repositories repo). ins (wiki_directory r) \<and> (\<forall>p \<in> set (rc_corpus_paths r). ins p \<and> starts_with [SLASH] p)"
proof -
  have up: "path_parent (config_at root) = Some (root @ [Normal ''.hallouminate''])"
    "path_parent (root @ [Normal ''.hallouminate'']) = Some root"
    by (simp_all add: path_parent_Some config_at_def butlast_append)
  define resolved where "resolved = resolve_repo_layer_paths parsed root"
  obtain corpora cw where corpora: "confine_corpora env (real_path env root) (allowed_roots env allowed) (cfg_corpora resolved) = (corpora, cw)"
    by fastforce
  obtain repos rw where repos: "confine_repositories env (real_path env root) (allowed_roots env allowed) (cfg_repositories resolved) = (repos, rw)"
    by fastforce
  have nonempty: "reject_empty_paths parsed = Ok ()" and kept: "cfg_corpora repo = corpora" "cfg_repositories repo = repos"
    using assms(1,3,4) up corpora repos
    by (auto simp: load_repo_layer_def result_bind_Ok_iff confine_repo_layer_def normalize_config_def resolved_def Let_def)
  show "\<forall>c \<in> set (cfg_corpora repo). \<forall>p \<in> set (cc_paths c). ins p"
    using confine_corpora_kept [OF corpora] by (auto simp: kept ins_def)
  show "\<forall>r \<in> set (cfg_repositories repo). ins (wiki_directory r) \<and> (\<forall>p \<in> set (rc_corpus_paths r). ins p \<and> starts_with [SLASH] p)"
  proof
    fix r assume "r \<in> set (cfg_repositories repo)"
    from confine_repositories_kept [OF repos this [unfolded kept]]
    have r: "r \<in> set (cfg_repositories resolved)" "ins (wiki_directory r)" "\<forall>p \<in> set (rc_corpus_paths r). ins p"
      by (simp_all add: ins_def)
    then obtain r0 where r0: "r0 \<in> set (cfg_repositories parsed)"
      "rc_corpus_paths r = map (\<lambda>p. resolve_repo_path p root) (rc_corpus_paths r0)"
      by (auto simp: resolved_def resolve_repo_layer_paths_def)
    then have "\<forall>p \<in> set (rc_corpus_paths r). starts_with [SLASH] p"
      using assms(5) reject_empty_paths_nonempty(2) [OF nonempty r0(1)]
      by (auto intro!: resolve_repo_path_absolute [OF assms(2)])
    with r show "ins (wiki_directory r) \<and> (\<forall>p \<in> set (rc_corpus_paths r). ins p \<and> starts_with [SLASH] p)" by blast
  qed
qed

lemma merge_baseline_only_active:
  "merge_baseline_only dbg field baseline repo dflt bp rp = Ok v \<Longrightarrow> v = Some (case baseline of Some x \<Rightarrow> x | None \<Rightarrow> dflt)"
  by (auto simp: merge_baseline_only_def Let_def split: option.splits if_splits)

lemma merge_layers_parts:
  assumes "merge_layers_with_sources env baseline repo bp rp = Ok cfg"
  shows "set (cfg_corpora cfg) \<subseteq> set (cfg_corpora baseline) \<union> set (cfg_corpora repo)"
    and "set (cfg_repositories cfg) \<subseteq> set (cfg_repositories baseline) \<union> set (cfg_repositories repo)"
    and "\<exists>all. config_effective_corpora cfg = Ok all"
    and "cfg_logging cfg = cfg_logging baseline" and "cfg_security cfg = cfg_security baseline"
    and "ground_dir (cfg_storage cfg) = ground_dir (cfg_storage baseline)"
    and "cache_dir (cfg_embeddings cfg) = cache_dir (cfg_embeddings baseline)"
    and "effective_reconcile_interval_secs (cfg_watch cfg) = effective_reconcile_interval_secs (cfg_watch baseline)"
    and "effective_catch_up_concurrency (cfg_watch cfg) = effective_catch_up_concurrency (cfg_watch baseline)"
proof -
  obtain s e w st d where
    e: "merge_embeddings (cfg_embeddings baseline) (cfg_embeddings repo) bp rp = Ok e" and
    w: "merge_watch (cfg_watch baseline) (cfg_watch repo) bp rp = Ok w" and
    st: "merge_storage (cfg_storage baseline) (cfg_storage repo) bp rp = Ok st" and
    v: "validate env cfg = Ok ()" and
    cfg: "cfg = \<lparr>cfg_corpora = (if inherit_global_corpora repo then cfg_corpora baseline else []) @ cfg_corpora repo,
      cfg_repositories = (if inherit_global_corpora repo then cfg_repositories baseline else []) @ cfg_repositories repo,
      inherit_global_corpora = inherit_global_corpora repo, cfg_search = s, cfg_embeddings = e,
      cfg_logging = cfg_logging baseline, cfg_watch = w, cfg_storage = st, cfg_daemon = d, cfg_security = cfg_security baseline\<rparr>"
    using assms unfolding merge_layers_with_sources_def Let_def by (auto simp: result_bind_Ok_iff split: if_splits)
  show "set (cfg_corpora cfg) \<subseteq> set (cfg_corpora baseline) \<union> set (cfg_corpora repo)"
    "set (cfg_repositories cfg) \<subseteq> set (cfg_repositories baseline) \<union> set (cfg_repositories repo)"
    "cfg_logging cfg = cfg_logging baseline" "cfg_security cfg = cfg_security baseline"
    by (auto simp: cfg)
  show "\<exists>all. config_effective_corpora cfg = Ok all" by (rule validate_corpora [OF v])
  show "ground_dir (cfg_storage cfg) = ground_dir (cfg_storage baseline)"
    using st by (auto simp: cfg merge_storage_def Let_def result_bind_Ok_iff dest!: merge_baseline_only_active)
  show "cache_dir (cfg_embeddings cfg) = cache_dir (cfg_embeddings baseline)"
    using e by (auto simp: cfg merge_embeddings_def Let_def result_bind_Ok_iff dest!: merge_baseline_only_active)
  show "effective_reconcile_interval_secs (cfg_watch cfg) = effective_reconcile_interval_secs (cfg_watch baseline)"
    using w by (auto simp: cfg merge_watch_def Let_def result_bind_Ok_iff effective_reconcile_interval_secs_def
        split: option.splits dest!: merge_baseline_only_active)
  show "effective_catch_up_concurrency (cfg_watch cfg) = effective_catch_up_concurrency (cfg_watch baseline)"
    using w by (auto simp: cfg merge_watch_def Let_def result_bind_Ok_iff effective_catch_up_concurrency_def
        split: option.splits dest!: merge_baseline_only_active)
qed

text \<open>The corpora of a repository, when its relative paths are resolved, are below the checked paths.\<close>

lemma derived_paths:
  assumes "repository_wiki_corpus r = Ok c \<or> repository_source_corpus r = Ok (Some c)" "P (wiki_directory r)"
    "\<forall>p \<in> set (rc_corpus_paths r). P p \<and> starts_with [SLASH] p"
  shows "\<forall>p \<in> set (cc_paths c). P p"
  using assms
  by (auto simp: repository_wiki_corpus_def repository_source_corpus_def result_bind_Ok_iff resolve_under_def split: if_splits)

text \<open>
  C40. A repository cannot reach out of itself. When a request is resolved with the configuration of a repository, that
  file lies at the root of the repository, and every path of every corpus that the baseline does not have is, on disk,
  below that root or below a directory the baseline allows; the settings of the baseline that repositories must not
  change (log limits, trust, where data is kept, the limits of the daemon) are the baseline's. A path of
  \<open>corpus_paths\<close> that starts with a tilde is excluded: \<open>tilde_escapes\<close> shows what it does.
\<close>
theorem repo_layer_confined:
  assumes "resolve_for_cwd env baseline cwd xdg = Ok (cfg, layers)" "layer_repo_path layers = Some toml_path"
    "\<forall>here. env_current_dir env = Ok here \<longrightarrow> starts_with [RootDir] here"
    "config_effective_corpora baseline = Ok base_corpora"
    "env_read env toml_path = Ok txt" "env_toml env txt = Ok parsed"
    "\<forall>r \<in> set (cfg_repositories parsed). \<forall>p \<in> set (rc_corpus_paths r). \<not> starts_with ''~'' p"
  shows "\<exists>root all. toml_path = config_at root \<and> starts_with [RootDir] root \<and> config_effective_corpora cfg = Ok all \<and>
      (\<forall>c \<in> set all. c \<in> set base_corpora \<or>
         (\<forall>p \<in> set (cc_paths c). lies_below env (repo_layer_roots env root baseline) p)) \<and>
      startup_settings_kept baseline cfg"
proof -
  obtain repo warnings where found: "discover_repo_config env cwd = Ok (Some toml_path)" and
    loaded: "load_repo_layer env toml_path (allow_repo_paths_outside_root (cfg_security baseline)) = Ok (repo, warnings)" and
    merged: "merge_layers_with_sources env baseline repo xdg (Some toml_path) = Ok cfg"
    using assms(1,2) unfolding resolve_for_cwd_def Let_def
    by (auto simp: result_bind_Ok_iff split: option.splits prod.splits)
  obtain root where root: "toml_path = config_at root" "starts_with [RootDir] root"
    using discover_absolute [OF found assms(3)] by blast
  let ?below = "lies_below env (repo_layer_roots env root baseline)"
  note confined = load_repo_layer_confined [OF loaded [unfolded root(1)] root(2) assms(5) [unfolded root(1)] assms(6,7)]
  have corpora: "\<forall>c \<in> set (cfg_corpora repo). \<forall>p \<in> set (cc_paths c). ?below p"
    using confined(1) by (auto intro: inside_lies_below)
  have repos: "\<forall>r \<in> set (cfg_repositories repo). ?below (wiki_directory r) \<and>
      (\<forall>p \<in> set (rc_corpus_paths r). ?below p \<and> starts_with [SLASH] p)"
    using confined(2) by (auto intro: inside_lies_below)
  note parts = merge_layers_parts [OF merged]
  obtain all where all: "config_effective_corpora cfg = Ok all" using parts(3) ..
  have "c \<in> set base_corpora \<or> (\<forall>p \<in> set (cc_paths c). ?below p)" if "c \<in> set all" for c
  proof -
    from that consider "c \<in> set (cfg_corpora cfg)"
      | r where "r \<in> set (cfg_repositories cfg)" "repository_wiki_corpus r = Ok c \<or> repository_source_corpus r = Ok (Some c)"
      using all by (auto simp: config_effective_corpora_def effective_corpora_set)
    then show ?thesis
    proof cases
      case 1
      then show ?thesis using parts(1) corpora assms(4) by (auto simp: config_effective_corpora_def effective_corpora_set)
    next
      case (2 r)
      then consider "r \<in> set (cfg_repositories baseline)" | "r \<in> set (cfg_repositories repo)" using parts(2) by blast
      then show ?thesis
        using 2(2) assms(4) repos derived_paths [OF 2(2), of ?below]
        by cases (auto simp: config_effective_corpora_def effective_corpora_set)
    qed
  qed
  moreover have "startup_settings_kept baseline cfg" using parts(4-9) by (simp add: startup_settings_kept_def)
  ultimately show ?thesis using root all by blast
qed

text \<open>A repository at \<open>/r\<close> with one page directory; \<open>/r/~\<close> is a symbolic link to \<open>/etc\<close>.\<close>

definition sample_layer :: "string list \<Rightarrow> config" where
  "sample_layer sources = config_default\<lparr>cfg_repositories :=
     [\<lparr>rc_name = ''r'', rc_path = ''.'', rc_corpus_paths = sources, rc_corpus_globs = [], rc_corpus_exclude = [],
       rc_wiki = None\<rparr>]\<rparr>"

definition sample_config_env :: "string list \<Rightarrow> config_env" where
  "sample_config_env sources =
     \<lparr>env_canon = (\<lambda>p. if starts_with [RootDir, Normal ''r'', Normal ''~''] p then Ok ([RootDir, Normal ''etc''] @ drop 3 p) else Ok p),
      env_lstat = (\<lambda>p. Ok FkFile), env_tilde = (\<lambda>s. if starts_with ''~'' s then ''/h'' @ tl s else s),
      env_read = (\<lambda>p. if p = config_at [RootDir, Normal ''r''] then Ok ''toml'' else Err IoNotFound),
      env_is_file = (\<lambda>p. p = config_at [RootDir, Normal ''r'']), env_is_dir = (\<lambda>p. False), env_exists = (\<lambda>p. False),
      env_current_dir = Err IoOther, env_var = (\<lambda>_. None), env_toml = (\<lambda>_. Ok (sample_layer sources)),
      env_walk = (\<lambda>_ _ _ _. []), env_blake3 = (\<lambda>_. replicate 64 CHR ''a'')\<rparr>"

definition sample_baseline :: config where
  "sample_baseline = config_default\<lparr>cfg_security := \<lparr>allow_repo_paths_outside_root = [''~/x'']\<rparr>\<rparr>"

definition corpus_paths_of :: "(config \<times> resolved_layers) hall_result \<Rightarrow> string list list" where
  "corpus_paths_of result =
     (case result of
        Ok (cfg, _) \<Rightarrow> (case config_effective_corpora cfg of Ok all \<Rightarrow> map cc_paths all | Err _ \<Rightarrow> [])
      | Err _ \<Rightarrow> [])"

definition repo_file_of :: "(config \<times> resolved_layers) hall_result \<Rightarrow> path option" where
  "repo_file_of result = (case result of Ok (_, layers) \<Rightarrow> layer_repo_path layers | Err _ \<Rightarrow> None)"

abbreviation sample_run :: "string list \<Rightarrow> (config \<times> resolved_layers) hall_result" where
  "sample_run sources \<equiv>
     resolve_for_cwd (sample_config_env sources) sample_baseline [RootDir, Normal ''r'', Normal ''a''] None"

lemma repo_layer_confined_witness:
  "corpus_paths_of (sample_run [''docs'']) = [[''/r/./.hallouminate/wiki''], [''/r/docs'']] \<and>
   lies_below (sample_config_env [''docs''])
     (repo_layer_roots (sample_config_env [''docs'']) [RootDir, Normal ''r''] sample_baseline) ''/r/docs''"
proof -
  let ?env = "sample_config_env [''docs'']"
  have paths: "corpus_paths_of (sample_run [''docs'']) = [[''/r/./.hallouminate/wiki''], [''/r/docs'']]" by code_simp
  have found: "repo_file_of (sample_run [''docs'']) = Some (config_at [RootDir, Normal ''r''])" by code_simp
  obtain cfg layers where run: "sample_run [''docs''] = Ok (cfg, layers)"
    using paths by (cases "sample_run [''docs'']") (auto simp: corpus_paths_of_def)
  have toml: "layer_repo_path layers = Some (config_at [RootDir, Normal ''r''])" using found by (simp add: run repo_file_of_def)
  have here: "\<forall>here. env_current_dir ?env = Ok here \<longrightarrow> starts_with [RootDir] here" by (simp add: sample_config_env_def)
  have base: "config_effective_corpora sample_baseline = Ok []" by code_simp
  have content: "env_read ?env (config_at [RootDir, Normal ''r'']) = Ok ''toml''" by code_simp
  have parsed: "env_toml ?env ''toml'' = Ok (sample_layer [''docs''])" by (simp add: sample_config_env_def)
  have sources: "\<forall>r \<in> set (cfg_repositories (sample_layer [''docs''])). \<forall>p \<in> set (rc_corpus_paths r). \<not> starts_with ''~'' p"
    by (simp add: sample_layer_def starts_with_def)
  obtain root where "\<exists>all. config_at [RootDir, Normal ''r''] = config_at root \<and> starts_with [RootDir] root \<and>
      config_effective_corpora cfg = Ok all \<and>
      (\<forall>c \<in> set all. c \<in> set [] \<or>
         (\<forall>p \<in> set (cc_paths c). lies_below ?env (repo_layer_roots ?env root sample_baseline) p)) \<and>
      startup_settings_kept sample_baseline cfg"
    using repo_layer_confined [OF run toml here base content parsed sources] ..
  then obtain all where all: "config_at [RootDir, Normal ''r''] = config_at root \<and> starts_with [RootDir] root \<and>
      config_effective_corpora cfg = Ok all \<and>
      (\<forall>c \<in> set all. c \<in> set [] \<or>
         (\<forall>p \<in> set (cc_paths c). lies_below ?env (repo_layer_roots ?env root sample_baseline) p)) \<and>
      startup_settings_kept sample_baseline cfg" ..
  note r = all [THEN conjunct1] all [THEN conjunct2, THEN conjunct2, THEN conjunct1]
    all [THEN conjunct2, THEN conjunct2, THEN conjunct2, THEN conjunct1]
  have "map cc_paths all = [[''/r/./.hallouminate/wiki''], [''/r/docs'']]"
    using paths r(2) by (simp add: run corpus_paths_of_def)
  then obtain c1 c2 where c: "all = [c1, c2]" "cc_paths c2 = [''/r/docs'']" by (auto simp: map_eq_Cons_conv)
  have root: "root = [RootDir, Normal ''r'']" using r(1) by (simp add: config_at_def)
  have "c2 \<in> set all" by (simp add: c(1))
  from r(3) [THEN bspec, OF this]
  have "\<forall>p \<in> set (cc_paths c2). lies_below ?env (repo_layer_roots ?env root sample_baseline) p" by simp
  from this [unfolded c(2) root]
  have "lies_below ?env (repo_layer_roots ?env [RootDir, Normal ''r''] sample_baseline) ''/r/docs''" by simp
  with paths show ?thesis by (rule conjI)
qed

text \<open>
  The path \<open>~/x\<close> of a repository is checked as the directory \<open>/h/x\<close>, which the baseline allows, and indexed as
  \<open>/r/./~/x\<close>, which really is \<open>/etc/x\<close>.
\<close>
lemma tilde_escapes:
  "corpus_paths_of (sample_run [''~/x'']) = [[''/r/./.hallouminate/wiki''], [''/r/./~/x'']]"
  "\<not> lies_below (sample_config_env [''~/x''])
     (repo_layer_roots (sample_config_env [''~/x'']) [RootDir, Normal ''r''] sample_baseline) ''/r/./~/x''"
  by code_simp+

end
