(* ===== verification/Watch_Registry.thy ===== *)
theory Watch_Registry
  imports Common "HOL-Library.AList" "HOL-Library.Product_Lexorder"
begin

text \<open>
  The ledger of watched corpora (\<open>watch/registry.rs\<close>): who asked for a corpus to be watched, which
  changes wait for a catch-up pass, which passes run, and who is next. Operations take the lock for
  their whole body, so each is one step. A hash map is the list of its entries and an \<open>order\<close>
  argument gives the order in which it iterates, where that matters. \<open>changed\<close> is the permit of
  \<open>Notify::notify_one\<close>, \<open>settled\<close> counts the calls of \<open>notify_waiters\<close>.
\<close>

subsection \<open>Registrations\<close>

datatype config_source = Baseline | RepoLayer path

instantiation config_source :: linorder
begin

definition less_eq_config_source :: "config_source \<Rightarrow> config_source \<Rightarrow> bool" where
  "less_eq_config_source a b =
     (case (a, b) of (Baseline, _) \<Rightarrow> True | (RepoLayer _, Baseline) \<Rightarrow> False | (RepoLayer p, RepoLayer q) \<Rightarrow> p \<le> q)"

definition less_config_source :: "config_source \<Rightarrow> config_source \<Rightarrow> bool" where
  "less_config_source a b = (a \<le> b \<and> \<not> b \<le> (a :: config_source))"

instance
  by standard (auto simp: less_eq_config_source_def less_config_source_def split: config_source.splits)

end

fun source_str :: "config_source \<Rightarrow> string" where
  "source_str Baseline = ''baseline''"
| "source_str (RepoLayer p) = ''repo layer '' @ path_string p"

record registration_id =
  rid_source :: config_source
  rid_key :: corpus_key

datatype recursive_mode = Recursive | NonRecursive

record watch_root =
  watched :: path
  canonical_watched :: path
  root_corpus :: corpus_config
  canonical_file_root :: "path option"
  root_mode :: recursive_mode

definition corpus_key_of :: "corpus_config \<Rightarrow> watch_root list \<Rightarrow> corpus_key" where
  "corpus_key_of corpus roots =
     \<lparr>ck_name = cc_name corpus,
      canonical_root =
        (case roots of
           root # _ \<Rightarrow> (case canonical_file_root root of Some f \<Rightarrow> f | None \<Rightarrow> canonical_watched root)
         | [] \<Rightarrow> (case cc_paths corpus of p # _ \<Rightarrow> components p | [] \<Rightarrow> []))\<rparr>"

text \<open>\<open>corpus_lock_keys\<close> of \<open>state.rs\<close>.\<close>

definition corpus_lock_keys :: "canonicalizer \<Rightarrow> (string \<Rightarrow> string) \<Rightarrow> corpus_config \<Rightarrow> corpus_key list" where
  "corpus_lock_keys canon tilde corpus =
     (let keys = corpus_keys canon tilde corpus
      in if keys = [] then [\<lparr>ck_name = cc_name corpus, canonical_root = []\<rparr>] else keys)"

text \<open>What the registry reads of a configuration.\<close>

record binding_config =
  ground_dir :: string
  embed_model :: string
  embed_quantized :: bool
  embed_enabled :: bool

definition cfg_binding_differs :: "binding_config \<Rightarrow> binding_config \<Rightarrow> bool" where
  "cfg_binding_differs left right \<longleftrightarrow>
     ground_dir left \<noteq> ground_dir right \<or> embed_model left \<noteq> embed_model right \<or>
     embed_quantized left \<noteq> embed_quantized right \<or> embed_enabled left \<noteq> embed_enabled right"

datatype observation = Watched | Degraded (degraded_error: string) (degraded_retrying: bool)

definition MAX_PENDING_PATHS :: nat where
  "MAX_PENDING_PATHS = 64"

definition MAX_RUNTIME_REGISTRATIONS :: nat where
  "MAX_RUNTIME_REGISTRATIONS = 256"

datatype pending_work = Idle | Paths "path set" | FullRoot

fun add_paths :: "path list \<Rightarrow> pending_work \<Rightarrow> pending_work" where
  "add_paths ps FullRoot = FullRoot"
| "add_paths ps Idle =
     (let s = set ps
      in if MAX_PENDING_PATHS < card s then FullRoot else if s \<noteq> {} then Paths s else Idle)"
| "add_paths ps (Paths existing) =
     (let s = existing \<union> set ps in if MAX_PENDING_PATHS < card s then FullRoot else Paths s)"

fun is_idle :: "pending_work \<Rightarrow> bool" where
  "is_idle Idle = True"
| "is_idle _ = False"

datatype catch_up_state = NotStarted | Queued | InFlight | Done

record registration =
  reg_corpus :: corpus_config
  reg_lock_keys :: "corpus_key list"
  reg_cfg :: binding_config
  reg_roots :: "watch_root list"
  reg_observation :: observation
  pending :: pending_work
  catch_up :: catch_up_state
  last_error :: "string option"
  reconciled_once :: bool
  retry_on_tick :: bool

definition registration_equivalent ::
  "registration \<Rightarrow> corpus_config \<Rightarrow> binding_config \<Rightarrow> watch_root list \<Rightarrow> bool" where
  "registration_equivalent existing corpus cfg roots \<longleftrightarrow>
     reg_corpus existing = corpus \<and> reg_roots existing = roots \<and> \<not> cfg_binding_differs (reg_cfg existing) cfg"

datatype register_outcome = NewRegistration | AlreadyRegistered | Conflict string | LimitReached

record retired_registration =
  retired_root :: path
  retired_cfg :: binding_config

record active_group =
  leader :: registration_id
  group_lock_keys :: "corpus_key list"
  members :: "registration_id list"
  valid :: bool

record watch_registry =
  regs :: "(registration_id \<times> registration) list"
  queue :: "registration_id list"
  active :: "active_group list"
  generation :: u64
  changed :: bool
  settled :: nat
  pump_is_unavailable :: bool
  boot_catch_up_running :: bool

definition registry_new :: watch_registry where
  "registry_new =
     \<lparr>regs = [], queue = [], active = [], generation = 0, changed = False, settled = 0,
      pump_is_unavailable = False, boot_catch_up_running = False\<rparr>"

subsection \<open>Registering\<close>

definition signal_changed :: "watch_registry \<Rightarrow> watch_registry" where
  "signal_changed s = s\<lparr>changed := True\<rparr>"

definition notify_settled :: "watch_registry \<Rightarrow> watch_registry" where
  "notify_settled s = s\<lparr>settled := settled s + 1\<rparr>"

definition bump_generation :: "watch_registry \<Rightarrow> watch_registry" where
  "bump_generation s = s\<lparr>generation := generation s + 1\<rparr>"

definition put_reg :: "registration_id \<Rightarrow> registration \<Rightarrow> watch_registry \<Rightarrow> watch_registry" where
  "put_reg rid reg s = s\<lparr>regs := AList.update rid reg (regs s)\<rparr>"

definition remove_reg :: "registration_id \<Rightarrow> watch_registry \<Rightarrow> watch_registry" where
  "remove_reg rid s = s\<lparr>regs := AList.delete rid (regs s)\<rparr>"

definition unqueue :: "registration_id \<Rightarrow> watch_registry \<Rightarrow> watch_registry" where
  "unqueue rid s = s\<lparr>queue := filter (\<lambda>queued. queued \<noteq> rid) (queue s)\<rparr>"

definition push_back :: "registration_id \<Rightarrow> watch_registry \<Rightarrow> watch_registry" where
  "push_back rid s = s\<lparr>queue := queue s @ [rid]\<rparr>"

definition release_group :: "registration_id \<Rightarrow> active_group \<Rightarrow> active_group" where
  "release_group rid g =
     g\<lparr>members := remove1 rid (members g), valid := (if leader g = rid then False else valid g)\<rparr>"

definition release_admission :: "registration_id \<Rightarrow> watch_registry \<Rightarrow> watch_registry" where
  "release_admission rid s = s\<lparr>active := map (release_group rid) (active s)\<rparr>"

definition binding_conflict ::
  "watch_registry \<Rightarrow> registration_id \<Rightarrow> binding_config \<Rightarrow> watch_root list \<Rightarrow> string option" where
  "binding_conflict s rid cfg roots =
     (if list_ex (\<lambda>(existing_id, existing).
            rid_key existing_id = rid_key rid \<and> rid_source existing_id \<noteq> rid_source rid \<and>
            (reg_roots existing \<noteq> roots \<or> cfg_binding_differs (reg_cfg existing) cfg)) (regs s)
      then Some (''corpus '' @ debug_str (ck_name (rid_key rid)) @
                 '' has an incompatible watcher registration; use one root binding per corpus'')
      else None)"

definition seed_baseline ::
  "canonicalizer \<Rightarrow> (string \<Rightarrow> string) \<Rightarrow> corpus_config \<Rightarrow> binding_config \<Rightarrow> watch_root list \<Rightarrow>
   watch_registry \<Rightarrow> watch_registry" where
  "seed_baseline canon tilde corpus cfg roots s =
     (let rid = \<lparr>rid_source = Baseline, rid_key = corpus_key_of corpus roots\<rparr>
      in if map_of (regs s) rid \<noteq> None then s
         else signal_changed (bump_generation (put_reg rid
                \<lparr>reg_corpus = corpus, reg_lock_keys = corpus_lock_keys canon tilde corpus, reg_cfg = cfg, reg_roots = roots,
                 reg_observation = Watched, pending = Idle, catch_up = Done, last_error = None,
                 reconciled_once = True, retry_on_tick = False\<rparr> s)))"

definition fresh_registration ::
  "canonicalizer \<Rightarrow> (string \<Rightarrow> string) \<Rightarrow> corpus_config \<Rightarrow> binding_config \<Rightarrow> watch_root list \<Rightarrow> observation \<Rightarrow> registration" where
  "fresh_registration canon tilde corpus cfg roots obs =
     \<lparr>reg_corpus = corpus, reg_lock_keys = corpus_lock_keys canon tilde corpus, reg_cfg = cfg, reg_roots = roots,
      reg_observation = obs, pending = Idle, catch_up = Queued, last_error = None,
      reconciled_once = False, retry_on_tick = False\<rparr>"

definition is_runtime :: "registration_id \<Rightarrow> bool" where
  "is_runtime rid = (case rid_source rid of Baseline \<Rightarrow> False | RepoLayer _ \<Rightarrow> True)"

definition limit_reached :: "watch_registry \<Rightarrow> registration_id \<Rightarrow> registration_id list \<Rightarrow> bool" where
  "limit_reached s rid obsolete \<longleftrightarrow>
     is_runtime rid \<and> MAX_RUNTIME_REGISTRATIONS \<le> length (filter is_runtime (map fst (regs s))) \<and>
     \<not> (map_of (regs s) rid \<noteq> None \<or> list_ex is_runtime obsolete)"

definition obsolete_ids :: "watch_registry \<Rightarrow> registration_id \<Rightarrow> registration_id list" where
  "obsolete_ids s rid =
     filter (\<lambda>existing. rid_source existing = rid_source rid \<and> ck_name (rid_key existing) = ck_name (rid_key rid) \<and>
        rid_key existing \<noteq> rid_key rid) (map fst (regs s))"

definition drop_obsolete :: "registration_id \<Rightarrow> watch_registry \<Rightarrow> watch_registry" where
  "drop_obsolete rid s = release_admission rid (unqueue rid (remove_reg rid s))"

text \<open>A changed registration keeps the observation that its backend is unavailable.\<close>

definition kept_observation :: "registration option \<Rightarrow> observation" where
  "kept_observation old =
     (case old of
        None \<Rightarrow> Watched
      | Some reg \<Rightarrow> (case reg_observation reg of Degraded e False \<Rightarrow> Degraded e False | _ \<Rightarrow> Watched))"

definition replace_reg :: "registration_id \<Rightarrow> registration \<Rightarrow> watch_registry \<Rightarrow> watch_registry" where
  "replace_reg rid reg s = push_back rid (put_reg rid reg (unqueue rid (release_admission rid (remove_reg rid s))))"

definition refresh_reg ::
  "canonicalizer \<Rightarrow> (string \<Rightarrow> string) \<Rightarrow> registration_id \<Rightarrow> registration \<Rightarrow> corpus_config \<Rightarrow> binding_config \<Rightarrow>
   watch_registry \<Rightarrow> watch_registry" where
  "refresh_reg canon tilde rid existing corpus cfg s =
     put_reg rid (existing\<lparr>reg_lock_keys := corpus_lock_keys canon tilde corpus, reg_corpus := corpus, reg_cfg := cfg\<rparr>) s"

text \<open>The part of \<open>register\<close> after the test for an unchanged registration.\<close>

definition register_new ::
  "canonicalizer \<Rightarrow> (string \<Rightarrow> string) \<Rightarrow> registration_id \<Rightarrow> corpus_config \<Rightarrow> binding_config \<Rightarrow> watch_root list \<Rightarrow>
   watch_registry \<Rightarrow> register_outcome \<times> watch_registry" where
  "register_new canon tilde rid corpus cfg roots s =
     (case binding_conflict s rid cfg roots of
        Some message \<Rightarrow> (Conflict message, s)
      | None \<Rightarrow>
          if limit_reached s rid (obsolete_ids s rid) then (LimitReached, s)
          else let s = fold drop_obsolete (obsolete_ids s rid) s;
                   reg = fresh_registration canon tilde corpus cfg roots (kept_observation (map_of (regs s) rid))
               in (NewRegistration, signal_changed (bump_generation (replace_reg rid reg s))))"

definition register ::
  "canonicalizer \<Rightarrow> (string \<Rightarrow> string) \<Rightarrow> config_source \<Rightarrow> corpus_config \<Rightarrow> binding_config \<Rightarrow> watch_root list \<Rightarrow>
   watch_registry \<Rightarrow> register_outcome \<times> watch_registry" where
  "register canon tilde source corpus cfg roots s =
     (let rid = \<lparr>rid_source = source, rid_key = corpus_key_of corpus roots\<rparr>
      in case map_of (regs s) rid of
           None \<Rightarrow> register_new canon tilde rid corpus cfg roots s
         | Some existing \<Rightarrow>
             if registration_equivalent existing corpus cfg roots
             then (AlreadyRegistered, refresh_reg canon tilde rid existing corpus cfg s)
             else register_new canon tilde rid corpus cfg roots s)"

definition is_registered_unchanged ::
  "config_source \<Rightarrow> corpus_config \<Rightarrow> binding_config \<Rightarrow> watch_root list \<Rightarrow> watch_registry \<Rightarrow> bool" where
  "is_registered_unchanged source corpus cfg roots s =
     list_ex (\<lambda>(rid, existing). rid_source rid = source \<and> ck_name (rid_key rid) = cc_name corpus \<and>
        registration_equivalent existing corpus cfg roots) (regs s)"

text \<open>
  \<open>refresh_roots\<close> builds the roots of a snapshot outside the lock and applies them to the registry as it is
  then: first the registrations whose key changed, then the roots of the others.
\<close>

type_synonym built_roots = "(registration_id \<times> watch_root list) list"

definition refresh_snapshot ::
  "((registration_id \<times> registration) list \<Rightarrow> (registration_id \<times> registration) list) \<Rightarrow>
   (corpus_config \<Rightarrow> watch_root list) \<Rightarrow> watch_registry \<Rightarrow> built_roots" where
  "refresh_snapshot order build s = map (\<lambda>(rid, reg). (rid, build (reg_corpus reg))) (order (regs s))"

definition stale_key :: "watch_registry \<Rightarrow> registration_id \<times> watch_root list \<Rightarrow> registration_id option" where
  "stale_key s b =
     (case b of (rid, roots) \<Rightarrow>
        (case map_of (regs s) rid of
           None \<Rightarrow> None
         | Some reg \<Rightarrow>
             (let new_key = corpus_key_of (reg_corpus reg) roots
              in if new_key = rid_key rid then None else Some \<lparr>rid_source = rid_source rid, rid_key = new_key\<rparr>)))"

definition rekey :: "registration_id \<Rightarrow> registration_id \<Rightarrow> watch_root list \<Rightarrow> watch_registry \<Rightarrow> watch_registry" where
  "rekey old_id new_id roots s =
     (case map_of (regs s) old_id of
        None \<Rightarrow> s
      | Some reg \<Rightarrow>
          (let reg = reg\<lparr>reg_roots := roots\<rparr>; s = remove_reg old_id s
           in case (if catch_up reg = InFlight
                    then (reg\<lparr>catch_up := Queued\<rparr>, push_back new_id (release_admission old_id s)) else (reg, s)) of
                (reg, s) \<Rightarrow>
                  (let s = put_reg new_id reg s
                   in bump_generation (s\<lparr>queue := map (\<lambda>queued. if queued = old_id then new_id else queued) (queue s)\<rparr>))))"

definition rekey_stale :: "(registration_id \<times> registration_id \<times> watch_root list) list \<Rightarrow> watch_registry \<Rightarrow> watch_registry" where
  "rekey_stale stale s = fold (\<lambda>(old_id, new_id, roots). rekey old_id new_id roots) stale s"

definition set_roots :: "registration_id \<times> watch_root list \<Rightarrow> watch_registry \<Rightarrow> watch_registry" where
  "set_roots b s =
     (case b of (rid, roots) \<Rightarrow>
        (case map_of (regs s) rid of
           None \<Rightarrow> s
         | Some reg \<Rightarrow> if reg_roots reg \<noteq> roots then put_reg rid (reg\<lparr>reg_roots := roots\<rparr>) s else s))"

definition stale_of :: "built_roots \<Rightarrow> watch_registry \<Rightarrow> (registration_id \<times> registration_id \<times> watch_root list) list" where
  "stale_of built s = List.map_filter (\<lambda>b. map_option (\<lambda>new_id. (fst b, new_id, snd b)) (stale_key s b)) built"

definition refresh_roots :: "built_roots \<Rightarrow> watch_registry \<Rightarrow> watch_registry" where
  "refresh_roots built s = fold set_roots built (rekey_stale (stale_of built s) s)"

definition registrations_for_root :: "watch_root \<Rightarrow> watch_registry \<Rightarrow> registration_id list" where
  "registrations_for_root root s = map fst (filter (\<lambda>(_, reg). root \<in> set (reg_roots reg)) (regs s))"

text \<open>A stable sort of the flattened roots.\<close>

definition snapshot_roots ::
  "((registration_id \<times> registration) list \<Rightarrow> (registration_id \<times> registration) list) \<Rightarrow> watch_registry \<Rightarrow>
   (registration_id \<times> watch_root) list" where
  "snapshot_roots order s =
     sort_key (\<lambda>(rid, _). (ck_name (rid_key rid), canonical_root (rid_key rid), rid_source rid))
       (concat (map (\<lambda>(rid, reg). map (Pair rid) (reg_roots reg)) (order (regs s))))"

subsection \<open>Replacing the registrations of a source\<close>

type_synonym candidate = "registration_id \<times> corpus_config \<times> watch_root list"

definition candidate_of :: "config_source \<Rightarrow> (corpus_config \<Rightarrow> watch_root list) \<Rightarrow> corpus_config \<Rightarrow> candidate" where
  "candidate_of source build_roots corpus =
     (let roots = build_roots corpus
      in (\<lparr>rid_source = source, rid_key = corpus_key_of corpus roots\<rparr>, corpus, roots))"

fun first_conflict :: "watch_registry \<Rightarrow> binding_config \<Rightarrow> candidate list \<Rightarrow> string option" where
  "first_conflict s cfg [] = None"
| "first_conflict s cfg ((rid, _, roots) # cs) =
     (case binding_conflict s rid cfg roots of Some message \<Rightarrow> Some message | None \<Rightarrow> first_conflict s cfg cs)"

definition admit_candidate ::
  "canonicalizer \<Rightarrow> (string \<Rightarrow> string) \<Rightarrow> binding_config \<Rightarrow> candidate \<Rightarrow> watch_registry \<Rightarrow> watch_registry" where
  "admit_candidate canon tilde cfg c s =
     (case c of (rid, corpus, roots) \<Rightarrow>
        (let replace = (\<lambda>s. push_back rid (put_reg rid (fresh_registration canon tilde corpus cfg roots Watched) (unqueue rid s)))
         in case map_of (regs s) rid of
              None \<Rightarrow> replace s
            | Some existing \<Rightarrow>
                if registration_equivalent existing corpus cfg roots then refresh_reg canon tilde rid existing corpus cfg s
                else replace (if catch_up existing = InFlight then release_admission rid s else s)))"

definition removed_ids ::
  "(registration_id list \<Rightarrow> registration_id list) \<Rightarrow> config_source \<Rightarrow> candidate list \<Rightarrow> watch_registry \<Rightarrow> registration_id list" where
  "removed_ids order source candidates s =
     order (filter (\<lambda>rid. rid_source rid = source \<and> rid \<notin> fst ` set candidates) (map fst (regs s)))"

definition retired_of :: "watch_registry \<Rightarrow> registration_id list \<Rightarrow> retired_registration list" where
  "retired_of s ids =
     List.map_filter (\<lambda>rid. map_option (\<lambda>reg. \<lparr>retired_root = canonical_root (rid_key rid), retired_cfg = reg_cfg reg\<rparr>)
       (map_of (regs s) rid)) ids"

definition drop_removed :: "registration_id list \<Rightarrow> watch_registry \<Rightarrow> watch_registry" where
  "drop_removed removed s =
     (let s = fold (\<lambda>rid s. release_admission rid (remove_reg rid s)) removed s
      in s\<lparr>queue := filter (\<lambda>rid. rid \<notin> set removed) (queue s)\<rparr>)"

definition replace_source ::
  "canonicalizer \<Rightarrow> (string \<Rightarrow> string) \<Rightarrow> (registration_id list \<Rightarrow> registration_id list) \<Rightarrow> config_source \<Rightarrow> corpus_config list \<Rightarrow>
   binding_config \<Rightarrow> (corpus_config \<Rightarrow> watch_root list) \<Rightarrow> watch_registry \<Rightarrow>
   (string, retired_registration list) result \<times> watch_registry" where
  "replace_source canon tilde order source corpora cfg build_roots s =
     (let candidates = map (candidate_of source build_roots) corpora
      in case first_conflict s cfg candidates of
           Some message \<Rightarrow> (Err message, s)
         | None \<Rightarrow>
             (let removed = removed_ids order source candidates s
              in (Ok (retired_of s removed),
                  notify_settled (signal_changed (bump_generation
                    (fold (admit_candidate canon tilde cfg) candidates (drop_removed removed s)))))))"

text \<open>A \<open>BTreeSet\<close>: sorted, without duplicates.\<close>

definition repo_layer_sources :: "watch_registry \<Rightarrow> path list" where
  "repo_layer_sources s =
     sort (remdups (List.map_filter (\<lambda>(rid, _). case rid_source rid of RepoLayer p \<Rightarrow> Some p | Baseline \<Rightarrow> None) (regs s)))"

subsection \<open>Pending work\<close>

definition mark_dirty_locked :: "registration_id \<Rightarrow> watch_registry \<Rightarrow> watch_registry" where
  "mark_dirty_locked rid s =
     (case map_of (regs s) rid of
        None \<Rightarrow> s
      | Some reg \<Rightarrow>
          if catch_up reg = NotStarted \<or> catch_up reg = Done
          then push_back rid (put_reg rid (reg\<lparr>catch_up := Queued\<rparr>) s) else s)"

definition update_reg :: "registration_id \<Rightarrow> (registration \<Rightarrow> registration) \<Rightarrow> watch_registry \<Rightarrow> watch_registry" where
  "update_reg rid f s = (case map_of (regs s) rid of None \<Rightarrow> s | Some reg \<Rightarrow> put_reg rid (f reg) s)"

definition record_pending :: "registration_id \<Rightarrow> path list \<Rightarrow> watch_registry \<Rightarrow> watch_registry" where
  "record_pending rid paths s =
     signal_changed (bump_generation
       (mark_dirty_locked rid (update_reg rid (\<lambda>reg. reg\<lparr>pending := add_paths paths (pending reg)\<rparr>) s)))"

definition mark_degraded :: "registration_id \<Rightarrow> string \<Rightarrow> watch_registry \<Rightarrow> watch_registry" where
  "mark_degraded rid message s = update_reg rid (\<lambda>reg. reg\<lparr>reg_observation := Degraded message True\<rparr>) s"

definition mark_backend_unavailable :: "registration_id \<Rightarrow> watch_registry \<Rightarrow> watch_registry" where
  "mark_backend_unavailable rid s =
     update_reg rid (\<lambda>reg. reg\<lparr>reg_observation := Degraded ''notify debouncer unavailable'' False\<rparr>) s"

definition mark_watched :: "registration_id \<Rightarrow> watch_registry \<Rightarrow> watch_registry" where
  "mark_watched rid s = update_reg rid (\<lambda>reg. reg\<lparr>reg_observation := Watched\<rparr>) s"

definition observation_of :: "registration_id \<Rightarrow> watch_registry \<Rightarrow> observation option" where
  "observation_of rid s = map_option reg_observation (map_of (regs s) rid)"

definition has_error :: "registration_id \<Rightarrow> watch_registry \<Rightarrow> bool" where
  "has_error rid s = (case map_of (regs s) rid of None \<Rightarrow> False | Some reg \<Rightarrow> last_error reg \<noteq> None)"

definition degraded_count :: "watch_registry \<Rightarrow> nat" where
  "degraded_count s = length (filter (\<lambda>(_, reg). reg_observation reg \<noteq> Watched) (regs s))"

definition config_for :: "registration_id \<Rightarrow> watch_registry \<Rightarrow> (corpus_config \<times> binding_config) option" where
  "config_for rid s = map_option (\<lambda>reg. (reg_corpus reg, reg_cfg reg)) (map_of (regs s) rid)"

definition mark_reconcile_due_all ::
  "(registration_id list \<Rightarrow> registration_id list) \<Rightarrow> watch_registry \<Rightarrow> watch_registry" where
  "mark_reconcile_due_all order s =
     signal_changed (bump_generation
       (fold (\<lambda>rid s. mark_dirty_locked rid (update_reg rid (\<lambda>reg. reg\<lparr>retry_on_tick := False\<rparr>) s))
          (order (map fst (regs s))) s))"

fun state_str :: "catch_up_state \<Rightarrow> string" where
  "state_str NotStarted = ''not-started''"
| "state_str Queued = ''queued''"
| "state_str InFlight = ''in-flight''"
| "state_str Done = ''done''"

definition recovery_clauses :: "bool \<Rightarrow> registration_id \<Rightarrow> registration \<Rightarrow> string list" where
  "recovery_clauses boot_running rid reg =
     (let clauses =
            (case last_error reg of Some message \<Rightarrow> [''failed reconciliation: '' @ message] | None \<Rightarrow> []) @
            (case reg_observation reg of
               Degraded message True \<Rightarrow> [''watcher backend error: '' @ message @ ''; retry will continue'']
             | Degraded _ False \<Rightarrow> [''native watcher unavailable; periodic reconciliation only'']
             | Watched \<Rightarrow> []) @
            (if \<not> is_idle (pending reg) then [''reconciliation pending''] else []) @
            (if rid_source rid = Baseline \<and> boot_running
             then [''boot reconciliation in progress; results may be stale''] else [])
      in if clauses = [] \<and> catch_up reg \<noteq> Done then [''reconciliation not complete''] else clauses)"

definition recovery_warnings_for ::
  "((registration_id \<times> registration) list \<Rightarrow> (registration_id \<times> registration) list) \<Rightarrow> config_source \<Rightarrow>
   corpus_config list \<Rightarrow> watch_registry \<Rightarrow> (string \<times> string) list" where
  "recovery_warnings_for order source queried s =
     List.map_filter (\<lambda>(rid, reg).
         let root = (case reg_roots reg of
                       root # _ \<Rightarrow> path_string (canonical_watched root)
                     | [] \<Rightarrow> (case cc_paths (reg_corpus reg) of p # _ \<Rightarrow> p | [] \<Rightarrow> ''<no root>''));
             clauses = recovery_clauses (boot_catch_up_running s) rid reg
         in if clauses = [] then None
            else Some (cc_name (reg_corpus reg),
                   ''root '' @ root @ ''; recovery state '' @ state_str (catch_up reg) @ ''; '' @ join_str ''; '' clauses))
       (filter (\<lambda>(rid, reg). rid_source rid = source \<and> cc_name (reg_corpus reg) \<in> set (map cc_name queried)) (order (regs s)))"

subsection \<open>Admission\<close>

definition active_locks_overlap :: "active_group list \<Rightarrow> corpus_key list \<Rightarrow> bool" where
  "active_locks_overlap groups keys \<longleftrightarrow> list_ex (\<lambda>g. list_ex (\<lambda>key. key \<in> set keys) (group_lock_keys g)) groups"

definition start_pass :: "registration \<Rightarrow> registration" where
  "start_pass reg = reg\<lparr>catch_up := InFlight\<rparr>"

definition shares_pass :: "watch_registry \<Rightarrow> registration \<Rightarrow> registration_id \<Rightarrow> bool" where
  "shares_pass s lead rid =
     (case map_of (regs s) rid of
        None \<Rightarrow> False
      | Some member \<Rightarrow>
          catch_up member = Queued \<and> reg_corpus member = reg_corpus lead \<and> reg_roots member = reg_roots lead \<and>
          \<not> cfg_binding_differs (reg_cfg member) (reg_cfg lead))"

text \<open>The head of the queue leads a pass; \<open>q\<close> is the rest of the queue.\<close>

definition admit_group ::
  "registration_id \<Rightarrow> registration \<Rightarrow> registration_id list \<Rightarrow> watch_registry \<Rightarrow> watch_registry" where
  "admit_group rid reg q s =
     (let s = put_reg rid (start_pass reg) (s\<lparr>queue := q\<rparr>);
          group_members = filter (shares_pass s reg) q;
          s = fold (\<lambda>m s. unqueue m (update_reg m start_pass s)) group_members s
      in s\<lparr>active := active s @
             [\<lparr>leader = rid, group_lock_keys = reg_lock_keys reg, members = rid # group_members, valid = True\<rparr>]\<rparr>)"

fun admit_loop ::
  "registration_id list \<Rightarrow> registration_id list \<Rightarrow> registration_id list \<Rightarrow> watch_registry \<Rightarrow>
   registration_id option \<times> registration_id list \<times> registration_id list \<times> watch_registry" where
  "admit_loop [] gated deferred s = (None, gated, deferred, s\<lparr>queue := []\<rparr>)"
| "admit_loop (rid # q) gated deferred s =
     (case map_of (regs s) rid of
        None \<Rightarrow> admit_loop q gated deferred s
      | Some reg \<Rightarrow>
          if catch_up reg \<noteq> Queued then admit_loop q gated deferred s
          else if retry_on_tick reg then admit_loop q (gated @ [rid]) deferred s
          else if active_locks_overlap (active s) (reg_lock_keys reg) then admit_loop q gated (deferred @ [rid]) s
          else (Some rid, gated, deferred, admit_group rid reg q s))"

definition begin_next_catch_up :: "nat \<Rightarrow> watch_registry \<Rightarrow> registration_id option \<times> watch_registry" where
  "begin_next_catch_up limit s =
     (if limit \<le> length (active s) then (None, s)
      else case admit_loop (queue s) [] [] s of
             (admitted, gated, deferred, s) \<Rightarrow> (admitted, s\<lparr>queue := deferred @ queue s @ gated\<rparr>))"

subsection \<open>The end of a pass\<close>

fun split_led :: "registration_id \<Rightarrow> active_group list \<Rightarrow> (active_group \<times> active_group list) option" where
  "split_led rid [] = None"
| "split_led rid (g # gs) =
     (if leader g = rid then Some (g, gs) else map_option (\<lambda>(led, rest). (led, g # rest)) (split_led rid gs))"

definition fail_pass :: "string \<Rightarrow> registration \<Rightarrow> registration" where
  "fail_pass message reg = reg\<lparr>last_error := Some message, retry_on_tick := True, pending := FullRoot, catch_up := Queued\<rparr>"

text \<open>One member of the group; the result is the work that the leader reports.\<close>

definition settle_member ::
  "registration_id \<Rightarrow> (string, unit) result \<Rightarrow> registration_id \<Rightarrow> pending_work \<times> watch_registry \<Rightarrow> pending_work \<times> watch_registry" where
  "settle_member rid res member acc =
     (case acc of (returned, s) \<Rightarrow>
        (case map_of (regs s) member of
           None \<Rightarrow> (returned, s)
         | Some reg \<Rightarrow>
             if member \<noteq> rid then
               (case res of
                  Ok _ \<Rightarrow>
                    (let reg = reg\<lparr>reconciled_once := True, last_error := None\<rparr>
                     in if is_idle (pending reg) then (returned, put_reg member (reg\<lparr>catch_up := Done\<rparr>) s)
                        else (returned, push_back member (put_reg member (reg\<lparr>catch_up := Queued\<rparr>) s)))
                | Err message \<Rightarrow> (returned, push_back member (put_reg member (fail_pass message reg) s)))
             else
               (let reg = reg\<lparr>reconciled_once := True\<rparr>
                in case res of
                     Ok _ \<Rightarrow>
                       (let work = pending reg; reg = reg\<lparr>last_error := None, pending := Idle\<rparr>
                        in if is_idle work then (work, put_reg member (reg\<lparr>catch_up := Done\<rparr>) s)
                           else (work, push_back member (put_reg member (reg\<lparr>catch_up := Queued\<rparr>) s)))
                   | Err message \<Rightarrow> (FullRoot, push_back member (put_reg member (fail_pass message reg) s)))))"

definition finish_catch_up ::
  "registration_id \<Rightarrow> (string, unit) result \<Rightarrow> watch_registry \<Rightarrow> pending_work \<times> watch_registry" where
  "finish_catch_up rid res s =
     (let known = map_of (regs s) rid \<noteq> None;
          settle = (\<lambda>ids s. case fold (settle_member rid res) ids (Idle, s) of
             (returned, s) \<Rightarrow> (returned, notify_settled (signal_changed (bump_generation s))))
      in case split_led rid (active s) of
           Some (g, rest) \<Rightarrow>
             settle (if members g = [] then (if valid g \<and> known then [rid] else []) else members g) (s\<lparr>active := rest\<rparr>)
         | None \<Rightarrow> if known then settle [rid] s else (Idle, s))"

subsection \<open>Waiting for the first pass\<close>

definition first_reconcile_pending :: "config_source \<Rightarrow> string list \<Rightarrow> watch_registry \<Rightarrow> bool" where
  "first_reconcile_pending source names s =
     list_ex (\<lambda>(rid, reg). rid_source rid = source \<and> cc_name (reg_corpus reg) \<in> set names \<and>
        \<not> reconciled_once reg \<and> last_error reg = None \<and> (catch_up reg = Queued \<or> catch_up reg = InFlight)) (regs s)"

text \<open>
  \<open>wait_first_reconcile\<close>: what the registry is at each look, with whether the wait that follows is ended by a
  notification or by the deadline; at the deadline the registry is looked at again. A list that ends first leaves the
  call waiting.
\<close>

datatype settle_wait = Notified | TimedOut watch_registry

fun wait_first_reconcile ::
  "config_source \<Rightarrow> corpus_config list \<Rightarrow> (watch_registry \<times> settle_wait) list \<Rightarrow> bool option" where
  "wait_first_reconcile source queried [] = None"
| "wait_first_reconcile source queried ((s, wait) # looks) =
     (let names = map cc_name queried
      in if \<not> first_reconcile_pending source names s then Some True
         else if pump_is_unavailable s then Some False
         else case wait of
                Notified \<Rightarrow> wait_first_reconcile source queried looks
              | TimedOut s' \<Rightarrow> Some (\<not> first_reconcile_pending source names s'))"

definition mark_pump_unavailable :: "watch_registry \<Rightarrow> watch_registry" where
  "mark_pump_unavailable s = s\<lparr>pump_is_unavailable := True\<rparr>"

definition mark_pump_available :: "watch_registry \<Rightarrow> watch_registry" where
  "mark_pump_available s = s\<lparr>pump_is_unavailable := False\<rparr>"

definition mark_boot_catch_up_running :: "watch_registry \<Rightarrow> watch_registry" where
  "mark_boot_catch_up_running s = s\<lparr>boot_catch_up_running := True\<rparr>"

definition boot_catch_up_guard_drop :: "watch_registry \<Rightarrow> watch_registry" where
  "boot_catch_up_guard_drop s = s\<lparr>boot_catch_up_running := False\<rparr>"

end
