(* ===== verification/Watch_Invariant.thy ===== *)
theory Watch_Invariant
  imports Watch_Registry "HOL-Library.Multiset"
begin

text \<open>
  The invariant of the watch registry. \<open>ledger\<close> states it on the registrations, the queue and the
  groups, with a set of registrations that are in flight but in no group for the moment, so that the
  loops over the members of a group keep it at each turn. Each operation is then shown to keep it.
\<close>

subsection \<open>The invariant\<close>

definition same_slot :: "registration_id \<Rightarrow> registration_id \<Rightarrow> bool" where
  "same_slot a b \<longleftrightarrow> rid_source a = rid_source b \<and> ck_name (rid_key a) = ck_name (rid_key b)"

fun pending_ok :: "pending_work \<Rightarrow> bool" where
  "pending_ok (Paths ps) = (finite ps \<and> ps \<noteq> {} \<and> card ps \<le> MAX_PENDING_PATHS)"
| "pending_ok _ = True"

definition reg_fine :: "registration_id \<Rightarrow> registration \<Rightarrow> bool" where
  "reg_fine rid reg \<longleftrightarrow>
     ck_name (rid_key rid) = cc_name (reg_corpus reg) \<and> rid_key rid \<in> set (reg_lock_keys reg) \<and>
     pending_ok (pending reg) \<and> catch_up reg \<noteq> NotStarted \<and>
     (catch_up reg = Done \<longrightarrow> pending reg = Idle \<and> last_error reg = None \<and> reconciled_once reg)"

definition group_fine :: "active_group \<Rightarrow> bool" where
  "group_fine g \<longleftrightarrow> rid_key (leader g) \<in> set (group_lock_keys g) \<and> (valid g \<longrightarrow> leader g \<in> set (members g))"

abbreviation all_members :: "active_group list \<Rightarrow> registration_id list" where
  "all_members gs \<equiv> concat (map members gs)"

abbreviation in_state :: "(registration_id \<rightharpoonup> registration) \<Rightarrow> catch_up_state \<Rightarrow> registration_id set" where
  "in_state L c \<equiv> {rid. \<exists>reg. L rid = Some reg \<and> catch_up reg = c}"

definition locks_apart :: "active_group list \<Rightarrow> bool" where
  "locks_apart = sorted_wrt (\<lambda>g h. set (group_lock_keys g) \<inter> set (group_lock_keys h) = {})"

definition ledger ::
  "registration_id set \<Rightarrow> (registration_id \<rightharpoonup> registration) \<Rightarrow> registration_id list \<Rightarrow> active_group list \<Rightarrow> bool" where
  "ledger P L q gs \<longleftrightarrow>
     distinct q \<and> set q = in_state L Queued \<and>
     distinct (all_members gs) \<and> set (all_members gs) \<inter> P = {} \<and> set (all_members gs) \<union> P = in_state L InFlight \<and>
     (\<forall>rid reg. L rid = Some reg \<longrightarrow> reg_fine rid reg) \<and>
     (\<forall>a \<in> dom L. \<forall>b \<in> dom L. same_slot a b \<longrightarrow> a = b) \<and>
     list_all group_fine gs \<and> locks_apart gs"

definition registry_ok :: "watch_registry \<Rightarrow> bool" where
  "registry_ok s \<longleftrightarrow> distinct (map fst (regs s)) \<and> ledger {} (map_of (regs s)) (queue s) (active s)"

lemma ledgerD:
  assumes "ledger P L q gs"
  shows "distinct q" "set q = in_state L Queued" "distinct (all_members gs)" "set (all_members gs) \<inter> P = {}"
    "set (all_members gs) \<union> P = in_state L InFlight" "L rid = Some reg \<Longrightarrow> reg_fine rid reg"
    "a \<in> dom L \<Longrightarrow> b \<in> dom L \<Longrightarrow> same_slot a b \<Longrightarrow> a = b" "list_all group_fine gs" "locks_apart gs"
  using assms unfolding ledger_def by blast+

lemma ledgerI:
  assumes "distinct q" "set q = in_state L Queued" "distinct (all_members gs)" "set (all_members gs) \<inter> P = {}"
    "set (all_members gs) \<union> P = in_state L InFlight" "\<And>rid reg. L rid = Some reg \<Longrightarrow> reg_fine rid reg"
    "\<And>a b. a \<in> dom L \<Longrightarrow> b \<in> dom L \<Longrightarrow> same_slot a b \<Longrightarrow> a = b" "list_all group_fine gs" "locks_apart gs"
  shows "ledger P L q gs"
  using assms unfolding ledger_def by blast

subsection \<open>Elementary changes\<close>

lemma in_state_upd:
  "in_state (L(rid \<mapsto> reg)) c = (if catch_up reg = c then insert rid (in_state L c) else in_state L c - {rid})"
  by auto

lemma in_state_del: "in_state (L(rid := None)) c = in_state L c - {rid}"
  by auto

lemma slots_upd:
  assumes "\<And>a b. a \<in> dom L \<Longrightarrow> b \<in> dom L \<Longrightarrow> same_slot a b \<Longrightarrow> a = b"
    and "\<And>a. a \<in> dom L \<Longrightarrow> same_slot a rid \<Longrightarrow> a = rid"
    and "a \<in> dom (L(rid \<mapsto> reg))" "b \<in> dom (L(rid \<mapsto> reg))" "same_slot a b"
  shows "a = b"
proof -
  have "same_slot b a" using assms(5) by (simp add: same_slot_def)
  then show ?thesis using assms by (cases "a = rid"; cases "b = rid") auto
qed

lemma ledger_same:
  assumes "ledger P L q gs" "L rid = Some reg" "catch_up reg' = catch_up reg" "reg_fine rid reg'"
  shows "ledger P (L(rid \<mapsto> reg')) q gs"
proof -
  have "in_state (L(rid \<mapsto> reg')) c = in_state L c" for c using assms(2,3) by auto
  moreover have "dom (L(rid \<mapsto> reg')) = dom L" using assms(2) by auto
  ultimately show ?thesis using assms(1,4) unfolding ledger_def by auto
qed

lemma ledger_enqueue:
  assumes "ledger P L q gs" "rid \<notin> set q" "rid \<notin> in_state L InFlight \<or> rid \<in> P" "catch_up reg = Queued" "reg_fine rid reg"
    "\<And>a. a \<in> dom L \<Longrightarrow> same_slot a rid \<Longrightarrow> a = rid"
  shows "ledger (P - {rid}) (L(rid \<mapsto> reg)) (q @ [rid]) gs"
proof (rule ledgerI)
  note L = ledgerD [OF assms(1)]
  show "distinct (q @ [rid])" "set (q @ [rid]) = in_state (L(rid \<mapsto> reg)) Queued" "distinct (all_members gs)"
    "set (all_members gs) \<inter> (P - {rid}) = {}" "list_all group_fine gs" "locks_apart gs"
    using L assms(2,4) by (auto simp: in_state_upd)
  show "set (all_members gs) \<union> (P - {rid}) = in_state (L(rid \<mapsto> reg)) InFlight"
    unfolding in_state_upd using L(4) assms(3,4) L(5) [symmetric] by auto
  show "reg_fine r x" if "(L(rid \<mapsto> reg)) r = Some x" for r x using that L(6) assms(5) by (auto split: if_splits)
  show "a = b" if "a \<in> dom (L(rid \<mapsto> reg))" "b \<in> dom (L(rid \<mapsto> reg))" "same_slot a b" for a b
    by (rule slots_upd [OF L(7) assms(6) that])
qed

lemma ledger_done:
  assumes "ledger P L q gs" "rid \<notin> set q" "rid \<notin> in_state L InFlight \<or> rid \<in> P" "catch_up reg = Done" "reg_fine rid reg"
    "\<And>a. a \<in> dom L \<Longrightarrow> same_slot a rid \<Longrightarrow> a = rid"
  shows "ledger (P - {rid}) (L(rid \<mapsto> reg)) q gs"
proof (rule ledgerI)
  note L = ledgerD [OF assms(1)]
  show "distinct q" "set q = in_state (L(rid \<mapsto> reg)) Queued" "distinct (all_members gs)"
    "set (all_members gs) \<inter> (P - {rid}) = {}" "list_all group_fine gs" "locks_apart gs"
    using L assms(2,4) by (auto simp: in_state_upd)
  show "set (all_members gs) \<union> (P - {rid}) = in_state (L(rid \<mapsto> reg)) InFlight"
    unfolding in_state_upd using L(4) assms(3,4) L(5) [symmetric] by auto
  show "reg_fine r x" if "(L(rid \<mapsto> reg)) r = Some x" for r x using that L(6) assms(5) by (auto split: if_splits)
  show "a = b" if "a \<in> dom (L(rid \<mapsto> reg))" "b \<in> dom (L(rid \<mapsto> reg))" "same_slot a b" for a b
    by (rule slots_upd [OF L(7) assms(6) that])
qed

lemma ledger_start:
  assumes "ledger P L q gs" "rid \<in> set q" "L rid = Some reg"
  shows "ledger (insert rid P) (L(rid \<mapsto> start_pass reg)) (filter (\<lambda>r. r \<noteq> rid) q) gs"
proof (rule ledgerI)
  note L = ledgerD [OF assms(1)]
  have queued: "catch_up reg = Queued" using L(2) assms(2,3) by auto
  then have "rid \<notin> in_state L InFlight" using assms(3) by auto
  then have not: "rid \<notin> set (all_members gs)" using L(5) by blast
  show "distinct (filter (\<lambda>r. r \<noteq> rid) q)" "distinct (all_members gs)" "list_all group_fine gs" "locks_apart gs"
    using L by auto
  show "set (filter (\<lambda>r. r \<noteq> rid) q) = in_state (L(rid \<mapsto> start_pass reg)) Queued"
    unfolding in_state_upd using L(2) [symmetric] by (auto simp: start_pass_def)
  show "set (all_members gs) \<inter> insert rid P = {}" using L(4) not by auto
  show "set (all_members gs) \<union> insert rid P = in_state (L(rid \<mapsto> start_pass reg)) InFlight"
    unfolding in_state_upd using L(5) [symmetric] by (auto simp: start_pass_def)
  show "reg_fine r x" if "(L(rid \<mapsto> start_pass reg)) r = Some x" for r x
    using that L(6) L(6) [OF assms(3)] by (auto simp: reg_fine_def start_pass_def split: if_splits)
  show "a = b" if "a \<in> dom (L(rid \<mapsto> start_pass reg))" "b \<in> dom (L(rid \<mapsto> start_pass reg))" "same_slot a b" for a b
    using that L(7) assms(3) by (metis (no_types, lifting) domI dom_fun_upd insert_absorb option.discI)
qed

lemma concat_remove1:
  "distinct (concat (map members gs)) \<Longrightarrow>
     concat (map members (map (release_group rid) gs)) = filter (\<lambda>r. r \<noteq> rid) (concat (map members gs))"
proof (induction gs)
  case (Cons g gs)
  then have "remove1 rid (members g) = filter (\<lambda>r. r \<noteq> rid) (members g)"
    by (simp add: distinct_remove1_removeAll removeAll_filter_not_eq neq_commute)
  with Cons show ?case by (simp add: release_group_def)
qed simp

lemma locks_apart_release [simp]: "locks_apart (map (release_group rid) gs) = locks_apart gs"
  by (simp add: locks_apart_def sorted_wrt_map release_group_def)

lemma group_fine_release: "group_fine g \<Longrightarrow> group_fine (release_group rid g)"
  by (auto simp: group_fine_def release_group_def)

lemma ledger_forget:
  assumes "ledger P L q gs"
  shows "ledger (P - {rid}) (L(rid := None)) (filter (\<lambda>r. r \<noteq> rid) q) (map (release_group rid) gs)"
proof (rule ledgerI)
  note L = ledgerD [OF assms]
  have members: "set (all_members (map (release_group rid) gs)) = set (all_members gs) - {rid}"
    using concat_remove1 [OF L(3)] by auto
  show "distinct (filter (\<lambda>r. r \<noteq> rid) q)" using L(1) by simp
  show "set (filter (\<lambda>r. r \<noteq> rid) q) = in_state (L(rid := None)) Queued"
    unfolding in_state_del using L(2) by auto
  show "distinct (all_members (map (release_group rid) gs))" using L(3) by (simp only: concat_remove1 distinct_filter)
  show "set (all_members (map (release_group rid) gs)) \<inter> (P - {rid}) = {}" using L(4) unfolding members by auto
  show "set (all_members (map (release_group rid) gs)) \<union> (P - {rid}) = in_state (L(rid := None)) InFlight"
    unfolding in_state_del members L(5) [symmetric] by auto
  show "reg_fine r x" if "(L(rid := None)) r = Some x" for r x using that L(6) by (auto split: if_splits)
  show "a = b" if "a \<in> dom (L(rid := None))" "b \<in> dom (L(rid := None))" "same_slot a b" for a b using that L(7) by auto
  show "list_all group_fine (map (release_group rid) gs)" using L(8) by (auto simp: list_all_iff group_fine_release)
  show "locks_apart (map (release_group rid) gs)" using L(9) by simp
qed

lemma ledger_queue: "ledger P L q gs \<Longrightarrow> mset q' = mset q \<Longrightarrow> ledger P L q' gs"
  using mset_eq_imp_distinct_iff [of q' q] mset_eq_setD [of q' q] unfolding ledger_def by simp

lemma ledger_close:
  assumes "ledger P L q gs" "distinct (members g)" "set (members g) = P" "group_fine g"
    "\<not> active_locks_overlap gs (group_lock_keys g)"
  shows "ledger {} L q (gs @ [g])"
proof (rule ledgerI)
  note L = ledgerD [OF assms(1)]
  show "distinct (all_members (gs @ [g]))" "set (all_members (gs @ [g])) \<inter> {} = {}"
    "set (all_members (gs @ [g])) \<union> {} = in_state L InFlight" "list_all group_fine (gs @ [g])" "distinct q" "set q = in_state L Queued"
    using L assms(2-4) by auto
  show "locks_apart (gs @ [g])"
    using L(9) assms(5) by (auto simp: locks_apart_def sorted_wrt_append active_locks_overlap_def list_ex_iff)
  show "reg_fine r x" if "L r = Some x" for r x using that L(6) by auto
  show "a = b" if "a \<in> dom L" "b \<in> dom L" "same_slot a b" for a b using that L(7) by auto
qed

lemma split_led_Some:
  "split_led rid gs = Some (g, rest) \<Longrightarrow> \<exists>us vs. gs = us @ g # vs \<and> rest = us @ vs \<and> leader g = rid"
proof (induction gs arbitrary: rest)
  case (Cons h gs)
  show ?case
  proof (cases "leader h = rid")
    case False
    then obtain rest' where "split_led rid gs = Some (g, rest')" "rest = h # rest'" using Cons.prems by auto
    with Cons.IH show ?thesis by (metis append_Cons)
  qed (use Cons.prems in fastforce)
qed simp

lemma split_led_None: "split_led rid gs = None \<longleftrightarrow> rid \<notin> leader ` set gs"
  by (induction gs) auto

lemma ledger_open:
  assumes "ledger {} L q gs" "split_led rid gs = Some (g, rest)"
  shows "ledger (set (members g)) L q rest \<and> distinct (members g) \<and> group_fine g"
proof -
  obtain us vs where gs: "gs = us @ g # vs" "rest = us @ vs" using split_led_Some [OF assms(2)] by auto
  have "locks_apart (us @ vs)" using ledgerD(9) [OF assms(1)] by (auto simp: gs locks_apart_def sorted_wrt_append)
  then show ?thesis using assms(1) unfolding ledger_def gs by auto
qed

subsection \<open>The fields after an operation\<close>

lemma registry_fields [simp]:
  "regs (signal_changed s) = regs s" "queue (signal_changed s) = queue s" "active (signal_changed s) = active s"
  "regs (notify_settled s) = regs s" "queue (notify_settled s) = queue s" "active (notify_settled s) = active s"
  "regs (bump_generation s) = regs s" "queue (bump_generation s) = queue s" "active (bump_generation s) = active s"
  "regs (put_reg rid reg s) = AList.update rid reg (regs s)" "queue (put_reg rid reg s) = queue s" "active (put_reg rid reg s) = active s"
  "regs (remove_reg rid s) = AList.delete rid (regs s)" "queue (remove_reg rid s) = queue s" "active (remove_reg rid s) = active s"
  "regs (unqueue rid s) = regs s" "queue (unqueue rid s) = filter (\<lambda>r. r \<noteq> rid) (queue s)" "active (unqueue rid s) = active s"
  "regs (push_back rid s) = regs s" "queue (push_back rid s) = queue s @ [rid]" "active (push_back rid s) = active s"
  "regs (release_admission rid s) = regs s" "queue (release_admission rid s) = queue s"
  "active (release_admission rid s) = map (release_group rid) (active s)"
  by (simp_all add: signal_changed_def notify_settled_def bump_generation_def put_reg_def remove_reg_def unqueue_def
      push_back_def release_admission_def)

lemma map_of_delete [simp]: "map_of (AList.delete rid al) = (map_of al)(rid := None)"
  by (rule delete_conv')

lemma registry_ok_frame [simp]:
  "registry_ok (signal_changed s) = registry_ok s" "registry_ok (notify_settled s) = registry_ok s"
  "registry_ok (bump_generation s) = registry_ok s"
  by (simp_all add: registry_ok_def)

lemma registry_okD:
  assumes "registry_ok s"
  shows "distinct (map fst (regs s))" "ledger {} (map_of (regs s)) (queue s) (active s)"
  using assms by (simp_all add: registry_ok_def)

lemma put_same_ok:
  assumes "registry_ok s" "map_of (regs s) rid = Some reg" "catch_up reg' = catch_up reg" "reg_fine rid reg'"
  shows "registry_ok (put_reg rid reg' s)"
  using registry_okD [OF assms(1)] ledger_same [OF registry_okD(2) [OF assms(1)] assms(2-4)]
  by (simp add: registry_ok_def distinct_update update_conv')

lemma update_same_ok:
  assumes "registry_ok s" "\<And>reg. catch_up (f reg) = catch_up reg" "\<And>reg. reg_fine rid reg \<Longrightarrow> reg_fine rid (f reg)"
  shows "registry_ok (update_reg rid f s)"
  using assms put_same_ok [OF assms(1) _ assms(2)] ledgerD(6) [OF registry_okD(2) [OF assms(1)]]
  by (simp add: update_reg_def split: option.splits)

lemma drop_obsolete_ok:
  assumes "registry_ok s"
  shows "registry_ok (drop_obsolete rid s)"
  using registry_okD [OF assms] ledger_forget [of "{}" "map_of (regs s)" "queue s" "active s" rid]
  by (simp add: registry_ok_def drop_obsolete_def distinct_delete)

text \<open>A registration that is not in the ledger is queued.\<close>

lemma put_queued_ok:
  assumes "registry_ok s" "rid \<notin> set (queue s)" "rid \<notin> in_state (map_of (regs s)) InFlight" "catch_up reg = Queued"
    "reg_fine rid reg" "\<And>a. a \<in> dom (map_of (regs s)) \<Longrightarrow> same_slot a rid \<Longrightarrow> a = rid"
  shows "registry_ok (push_back rid (put_reg rid reg s))"
  using registry_okD [OF assms(1)] ledger_enqueue [OF registry_okD(2) [OF assms(1)] assms(2) _ assms(4-6)] assms(3)
  by (simp add: registry_ok_def distinct_update update_conv')

lemma put_done_ok:
  assumes "registry_ok s" "rid \<notin> set (queue s)" "rid \<notin> in_state (map_of (regs s)) InFlight" "catch_up reg = Done"
    "reg_fine rid reg" "\<And>a. a \<in> dom (map_of (regs s)) \<Longrightarrow> same_slot a rid \<Longrightarrow> a = rid"
  shows "registry_ok (put_reg rid reg s)"
  using registry_okD [OF assms(1)] ledger_done [OF registry_okD(2) [OF assms(1)] assms(2) _ assms(4-6)] assms(3)
  by (simp add: registry_ok_def distinct_update update_conv')

lemma queue_state:
  assumes "registry_ok s"
  shows "rid \<in> set (queue s) \<longleftrightarrow> (\<exists>reg. map_of (regs s) rid = Some reg \<and> catch_up reg = Queued)"
  using ledgerD(2) [OF registry_okD(2) [OF assms]] by auto

lemma registered_fine:
  assumes "registry_ok s" "map_of (regs s) rid = Some reg"
  shows "reg_fine rid reg"
  using ledgerD(6) [OF registry_okD(2) [OF assms(1)] assms(2)] .

lemma slot_unique:
  assumes "registry_ok s" "a \<in> dom (map_of (regs s))" "b \<in> dom (map_of (regs s))" "same_slot a b"
  shows "a = b"
  using ledgerD(7) [OF registry_okD(2) [OF assms(1)] assms(2-4)] .

subsection \<open>Registering keeps the invariant\<close>

text \<open>
  The key of a corpus is one that its passes lock: the first watched root is the first configured path,
  resolved in the same file system.
\<close>

definition key_locked :: "canonicalizer \<Rightarrow> (string \<Rightarrow> string) \<Rightarrow> corpus_config \<Rightarrow> watch_root list \<Rightarrow> bool" where
  "key_locked canon tilde corpus roots \<longleftrightarrow> corpus_key_of corpus roots \<in> set (corpus_lock_keys canon tilde corpus)"

lemma corpus_key_of_name [simp]: "ck_name (corpus_key_of corpus roots) = cc_name corpus"
  by (simp add: corpus_key_of_def)

lemma fresh_fine:
  "key_locked canon tilde corpus roots \<Longrightarrow>
     reg_fine \<lparr>rid_source = source, rid_key = corpus_key_of corpus roots\<rparr> (fresh_registration canon tilde corpus cfg roots obs)"
  by (simp add: reg_fine_def fresh_registration_def key_locked_def)

lemma fresh_catch_up [simp]: "catch_up (fresh_registration canon tilde corpus cfg roots obs) = Queued"
  by (simp add: fresh_registration_def)

lemma seed_baseline_ok:
  assumes "registry_ok s" "key_locked canon tilde corpus roots"
    "\<And>a. a \<in> dom (map_of (regs s)) \<Longrightarrow> same_slot a \<lparr>rid_source = Baseline, rid_key = corpus_key_of corpus roots\<rparr> \<Longrightarrow>
       a = \<lparr>rid_source = Baseline, rid_key = corpus_key_of corpus roots\<rparr>"
  shows "registry_ok (seed_baseline canon tilde corpus cfg roots s)"
proof -
  let ?rid = "\<lparr>rid_source = Baseline, rid_key = corpus_key_of corpus roots\<rparr>"
  have "registry_ok (put_reg ?rid reg s)" if "map_of (regs s) ?rid = None" "catch_up reg = Done" "reg_fine ?rid reg" for reg
    using put_done_ok [OF assms(1) _ _ that(2,3) assms(3)] that(1) queue_state [OF assms(1)] by auto
  then show ?thesis using assms(1,2)
    by (auto simp: seed_baseline_def Let_def reg_fine_def key_locked_def)
qed

lemma refresh_reg_ok:
  assumes "registry_ok s" "map_of (regs s) rid = Some existing" "rid_key rid = corpus_key_of corpus roots"
    "key_locked canon tilde corpus roots" "registration_equivalent existing corpus cfg roots"
  shows "registry_ok (refresh_reg canon tilde rid existing corpus cfg s)"
  unfolding refresh_reg_def
  using registered_fine [OF assms(1,2)] assms(3-5)
  by (intro put_same_ok [OF assms(1,2)]) (auto simp: reg_fine_def key_locked_def registration_equivalent_def)

lemma fold_drop_obsolete:
  "registry_ok s \<Longrightarrow> registry_ok (fold drop_obsolete ids s) \<and>
     map_of (regs (fold drop_obsolete ids s)) = map_of (regs s) |` (- set ids)"
proof (induction ids arbitrary: s)
  case (Cons r ids)
  have "map_of (regs (drop_obsolete r s)) = map_of (regs s) |` (- {r})"
    by (auto simp: drop_obsolete_def restrict_map_def fun_eq_iff)
  with Cons.IH [OF drop_obsolete_ok [OF Cons.prems]] show ?case
    by (auto simp: restrict_map_def fun_eq_iff)
qed (simp add: restrict_map_def)

lemma replace_reg_drop: "replace_reg rid reg s = push_back rid (put_reg rid reg (drop_obsolete rid s))"
  by (simp add: replace_reg_def drop_obsolete_def push_back_def put_reg_def unqueue_def release_admission_def remove_reg_def)

lemma replace_reg_ok:
  assumes "registry_ok s" "catch_up reg = Queued" "reg_fine rid reg"
    "\<And>a. a \<in> dom (map_of (regs s)) \<Longrightarrow> same_slot a rid \<Longrightarrow> a = rid"
  shows "registry_ok (replace_reg rid reg s)"
  unfolding replace_reg_drop
  using assms(4) by (intro put_queued_ok [OF drop_obsolete_ok [OF assms(1)]] assms(2,3)) (auto simp: drop_obsolete_def split: if_splits)

lemma register_ok:
  assumes "registry_ok s" "key_locked canon tilde corpus roots"
  shows "registry_ok (snd (register canon tilde source corpus cfg roots s))"
proof -
  let ?rid = "\<lparr>rid_source = source, rid_key = corpus_key_of corpus roots\<rparr>"
  let ?s = "fold drop_obsolete (obsolete_ids s ?rid) s"
  have ok: "registry_ok ?s" and left: "map_of (regs ?s) = map_of (regs s) |` (- set (obsolete_ids s ?rid))"
    using fold_drop_obsolete [OF assms(1)] by blast+
  have alone: "a = ?rid" if "a \<in> dom (map_of (regs ?s))" "same_slot a ?rid" for a
  proof -
    have "a \<in> fst ` set (regs s)" "a \<notin> set (obsolete_ids s ?rid)"
      using that(1) unfolding left by (auto simp: dom_map_of_conv_image_fst [symmetric] restrict_map_def split: if_splits)
    then have "rid_key a = corpus_key_of corpus roots" using that(2) by (auto simp: obsolete_ids_def same_slot_def)
    then show ?thesis using that(2) by (cases a) (simp add: same_slot_def)
  qed
  have new: "registry_ok (snd (register_new canon tilde ?rid corpus cfg roots s))"
    using assms(1) replace_reg_ok [OF ok _ fresh_fine [OF assms(2)] alone]
    by (simp add: register_new_def Let_def split: option.split)
  have same: "registry_ok (refresh_reg canon tilde ?rid existing corpus cfg s)"
    if "map_of (regs s) ?rid = Some existing" "registration_equivalent existing corpus cfg roots" for existing
    using refresh_reg_ok [OF assms(1) that(1) _ assms(2) that(2)] by simp
  show ?thesis using new same by (auto simp: register_def Let_def split: option.split)
qed

subsection \<open>Refreshing roots keeps the invariant\<close>

lemma release_none:
  assumes "ledger {} L q gs" "rid \<notin> in_state L InFlight"
  shows "map (release_group rid) gs = gs"
proof -
  have "rid \<notin> set (all_members gs)" using ledgerD(5) [OF assms(1)] assms(2) by blast
  then have "release_group rid g = g" if "g \<in> set gs" for g
    using that ledgerD(8) [OF assms(1)] by (auto simp: release_group_def group_fine_def list_all_iff remove1_idem)
  then show ?thesis by (simp add: map_idI)
qed

lemma unqueued_same:
  "registry_ok s \<Longrightarrow> \<nexists>reg. map_of (regs s) rid = Some reg \<and> catch_up reg = Queued \<Longrightarrow> filter (\<lambda>r. r \<noteq> rid) (queue s) = queue s"
  using queue_state [of s rid] by (metis (mono_tags, lifting) filter_True)

text \<open>The registration under its new key, in whatever state it was.\<close>

lemma mset_rename:
  "distinct q \<Longrightarrow> a \<in> set q \<Longrightarrow> mset (map (\<lambda>r. if r = a then b else r) q) = mset (filter (\<lambda>r. r \<noteq> a) q @ [b])"
proof (induction q)
  case (Cons c q)
  have "map (\<lambda>r. if r = a then b else r) q = q \<and> filter (\<lambda>r. r \<noteq> a) q = q" if "a \<notin> set q"
    using that by (auto intro!: map_idI filter_True)
  with Cons show ?case by (cases "c = a") auto
qed simp

lemma rekey_ok:
  assumes ok: "registry_ok s" and reg: "map_of (regs s) old = Some reg"
    and new: "rid_source new = rid_source old" "rid_key new = corpus_key_of (reg_corpus reg) roots"
      "rid_key new \<in> set (reg_lock_keys reg)" "new \<noteq> old"
  shows "registry_ok (rekey old new roots s) \<and>
    map_of (regs (rekey old new roots s)) = (map_of (regs s))(old := None, new \<mapsto>
      (if catch_up reg = InFlight then reg\<lparr>reg_roots := roots, catch_up := Queued\<rparr> else reg\<lparr>reg_roots := roots\<rparr>)) \<and>
    map_of (regs s) new = None"
proof -
  let ?L = "map_of (regs s)" and ?reg = "reg\<lparr>reg_roots := roots\<rparr>"
  let ?L' = "?L(old := None)"
  have fine: "reg_fine old reg" by (rule registered_fine [OF ok reg])
  then have slot: "same_slot new old" using new(1,2) by (simp add: same_slot_def reg_fine_def)
  have none: "?L new = None" using slot_unique [OF ok _ _ slot] reg new(4) by auto
  have fine': "reg_fine new ?reg" "reg_fine new (?reg\<lparr>catch_up := Queued\<rparr>)"
    using fine new(2,3) by (auto simp: reg_fine_def)
  have alone: "a = new" if "a \<in> dom ?L'" "same_slot a new" for a
  proof -
    have "same_slot a old" using that(2) slot by (simp add: same_slot_def)
    then show ?thesis using that(1) slot_unique [OF ok, of a old] reg by (auto split: if_splits)
  qed
  have forgot: "ledger {} ?L' (filter (\<lambda>r. r \<noteq> old) (queue s)) (map (release_group old) (active s))"
    using ledger_forget [OF registry_okD(2) [OF ok], of old] by simp
  have out: "new \<notin> set (filter (\<lambda>r. r \<noteq> old) (queue s))" "new \<notin> in_state ?L' InFlight \<or> new \<in> {}"
    using queue_state [OF ok, of new] none by auto
  have keys: "distinct (map fst (AList.update new x (AList.delete old (regs s))))" for x
    using registry_okD(1) [OF ok] by (simp add: distinct_update distinct_delete)
  have same: "map (\<lambda>r. if r = old then new else r) (queue s) = queue s" if "old \<notin> set (queue s)"
    using that by (intro map_idI) auto
  have queued: "ledger {} (?L'(new \<mapsto> x)) (filter (\<lambda>r. r \<noteq> old) (queue s) @ [new]) (map (release_group old) (active s))"
    if "catch_up x = Queued" "reg_fine new x" for x
  proof -
    have "ledger ({} - {new}) (?L'(new \<mapsto> x)) (filter (\<lambda>r. r \<noteq> old) (queue s) @ [new]) (map (release_group old) (active s))"
      by (rule ledger_enqueue [OF forgot out that alone])
    then show ?thesis by simp
  qed
  have settled: "ledger ({} - {new}) (?L'(new \<mapsto> x)) (filter (\<lambda>r. r \<noteq> old) (queue s)) (map (release_group old) (active s))"
    if "catch_up x = Done" "reg_fine new x" for x
    by (rule ledger_done [OF forgot out that alone])
  show ?thesis
  proof (cases "catch_up reg")
    case InFlight
    then have "old \<notin> set (queue s)" using queue_state [OF ok] reg by auto
    moreover have "ledger {} (?L'(new \<mapsto> ?reg\<lparr>catch_up := Queued\<rparr>)) (filter (\<lambda>r. r \<noteq> old) (queue s) @ [new]) (map (release_group old) (active s))"
      by (rule queued) (simp_all add: fine')
    ultimately have "registry_ok (rekey old new roots s)"
      using InFlight keys unqueued_same [OF ok, of old] reg same
      by (simp add: rekey_def Let_def registry_ok_def update_conv')
    then show ?thesis using InFlight reg none by (simp add: rekey_def Let_def update_conv')
  next
    case Queued
    then have "map (release_group old) (active s) = active s" "old \<in> set (queue s)"
      using release_none [OF registry_okD(2) [OF ok], of old] reg queue_state [OF ok] by auto
    with Queued have "registry_ok (rekey old new roots s)"
      using ledger_queue [OF queued [OF _ fine'(1)] mset_rename [of "queue s" old new]]
        keys ledgerD(1) [OF registry_okD(2) [OF ok]] reg
      by (simp add: rekey_def Let_def registry_ok_def update_conv')
    then show ?thesis using Queued reg none by (simp add: rekey_def Let_def update_conv')
  next
    case Done
    then have "map (release_group old) (active s) = active s" "old \<notin> set (queue s)"
      using release_none [OF registry_okD(2) [OF ok], of old] reg queue_state [OF ok] by auto
    moreover have "ledger ({} - {new}) (?L'(new \<mapsto> ?reg)) (filter (\<lambda>r. r \<noteq> old) (queue s)) (map (release_group old) (active s))"
      using Done by (intro settled fine'(1)) simp
    ultimately have "registry_ok (rekey old new roots s)"
      using Done keys unqueued_same [OF ok, of old] reg same
      by (simp add: rekey_def Let_def registry_ok_def update_conv')
    then show ?thesis using Done reg none by (simp add: rekey_def Let_def update_conv')
  qed (use fine in \<open>simp add: reg_fine_def\<close>)
qed

definition stale_ok :: "watch_registry \<Rightarrow> registration_id \<times> registration_id \<times> watch_root list \<Rightarrow> bool" where
  "stale_ok s p =
     (case p of (old, new, roots) \<Rightarrow>
        \<exists>reg. map_of (regs s) old = Some reg \<and> rid_source new = rid_source old \<and>
          rid_key new = corpus_key_of (reg_corpus reg) roots \<and> rid_key new \<in> set (reg_lock_keys reg) \<and> new \<noteq> old)"

lemma rekey_stale_ok:
  "registry_ok s \<Longrightarrow> \<forall>p \<in> set stale. stale_ok s p \<Longrightarrow> distinct (map fst stale) \<Longrightarrow> registry_ok (rekey_stale stale s)"
proof (induction stale arbitrary: s)
  case (Cons p stale)
  obtain old new roots where p: "p = (old, new, roots)" by (cases p)
  with Cons.prems(2) obtain reg where reg: "map_of (regs s) old = Some reg" "rid_source new = rid_source old"
    "rid_key new = corpus_key_of (reg_corpus reg) roots" "rid_key new \<in> set (reg_lock_keys reg)" "new \<noteq> old"
    by (auto simp: stale_ok_def)
  note step = rekey_ok [OF Cons.prems(1) reg]
  have "stale_ok (rekey old new roots s) p'" if "p' \<in> set stale" for p'
  proof -
    have "fst p' \<noteq> old" using that Cons.prems(3) p by force
    moreover have "stale_ok s p'" using that Cons.prems(2) by simp
    ultimately show ?thesis using step by (auto simp: stale_ok_def)
  qed
  with Cons step p show ?case by (simp add: rekey_stale_def)
qed (simp add: rekey_stale_def)

lemma set_roots_ok:
  assumes "registry_ok s"
  shows "registry_ok (set_roots b s)"
proof (cases "map_of (regs s) (fst b)")
  case (Some reg)
  have "reg_fine (fst b) (reg\<lparr>reg_roots := snd b\<rparr>)" using registered_fine [OF assms Some] by (simp add: reg_fine_def)
  with put_same_ok [OF assms Some] assms Some show ?thesis by (cases b) (simp add: set_roots_def)
qed (use assms in \<open>cases b, simp add: set_roots_def\<close>)

lemma fold_set_roots_ok: "registry_ok s \<Longrightarrow> registry_ok (fold set_roots built s)"
  by (induction built arbitrary: s) (auto intro: set_roots_ok)

text \<open>The keys of the refreshed roots are among those that the registrations lock.\<close>

definition refresh_locked :: "built_roots \<Rightarrow> watch_registry \<Rightarrow> bool" where
  "refresh_locked built s \<longleftrightarrow>
     distinct (map fst built) \<and>
     (\<forall>(rid, roots) \<in> set built. \<forall>reg. map_of (regs s) rid = Some reg \<longrightarrow>
        corpus_key_of (reg_corpus reg) roots \<in> set (reg_lock_keys reg))"

lemma stale_of_fst: "map fst (stale_of built s) = map fst (filter (\<lambda>b. stale_key s b \<noteq> None) built)"
  by (induction built) (auto simp: stale_of_def map_filter_def)

lemma refresh_stale:
  assumes "refresh_locked built s"
  shows "\<forall>p \<in> set (stale_of built s). stale_ok s p" "distinct (map fst (stale_of built s))"
proof -
  show "distinct (map fst (stale_of built s))"
    using assms by (simp add: stale_of_fst refresh_locked_def distinct_map_filter)
  have "stale_ok s p" if mem: "p \<in> set (stale_of built s)" for p
  proof -
    obtain rid roots new where b: "(rid, roots) \<in> set built" "stale_key s (rid, roots) = Some new" "p = (rid, new, roots)"
      using mem by (auto simp: stale_of_def map_filter_def)
    obtain reg where reg: "map_of (regs s) rid = Some reg" using b(2) by (auto simp: stale_key_def split: option.splits)
    with b(1) assms have "corpus_key_of (reg_corpus reg) roots \<in> set (reg_lock_keys reg)"
      unfolding refresh_locked_def by blast
    then show ?thesis using b(2,3) reg by (cases rid) (auto simp: stale_key_def stale_ok_def Let_def split: if_splits)
  qed
  then show "\<forall>p \<in> set (stale_of built s). stale_ok s p" by blast
qed

lemma refresh_roots_ok:
  assumes "registry_ok s" "refresh_locked built s"
  shows "registry_ok (refresh_roots built s)"
  using rekey_stale_ok [OF assms(1) refresh_stale [OF assms(2)]] by (simp add: refresh_roots_def fold_set_roots_ok)

subsection \<open>Replacing a source keeps the invariant\<close>

lemma unqueue_fold:
  "fold (\<lambda>r s. release_admission r (remove_reg r s)) ids (unqueue rid s) =
   unqueue rid (fold (\<lambda>r s. release_admission r (remove_reg r s)) ids s)"
  by (rule fold_commute_apply [symmetric])
     (simp add: fun_eq_iff release_admission_def remove_reg_def unqueue_def)

lemma drop_removed_fold: "drop_removed ids s = fold drop_obsolete ids s"
proof (induction ids arbitrary: s)
  case (Cons r ids)
  have "drop_removed (r # ids) s = drop_removed ids (drop_obsolete r s)"
  proof -
    have "drop_obsolete r s = unqueue r (release_admission r (remove_reg r s))"
      by (simp add: drop_obsolete_def release_admission_def remove_reg_def unqueue_def)
    then show ?thesis
      by (simp add: drop_removed_def Let_def unqueue_fold)
         (simp add: unqueue_def conj_commute)
  qed
  with Cons show ?case by simp
qed (simp add: drop_removed_def)

lemma requeue_ok:
  assumes "registry_ok s" "catch_up reg = Queued" "reg_fine rid reg"
    "\<And>a. a \<in> dom (map_of (regs s)) \<Longrightarrow> same_slot a rid \<Longrightarrow> a = rid"
    "s' = (if rid \<in> in_state (map_of (regs s)) InFlight then release_admission rid s else s)"
  shows "registry_ok (push_back rid (put_reg rid reg (unqueue rid s')))"
proof -
  let ?L = "(map_of (regs s))(rid := None)"
  have groups: "active s' = map (release_group rid) (active s)"
    using assms(5) release_none [OF registry_okD(2) [OF assms(1)], of rid] by simp
  have "ledger {} ?L (filter (\<lambda>r. r \<noteq> rid) (queue s)) (map (release_group rid) (active s))"
    using ledger_forget [OF registry_okD(2) [OF assms(1)], of rid] by simp
  then have "ledger ({} - {rid}) (?L(rid \<mapsto> reg)) (filter (\<lambda>r. r \<noteq> rid) (queue s) @ [rid]) (map (release_group rid) (active s))"
    by (rule ledger_enqueue) (use assms(2-4) in auto)
  then show ?thesis
    using registry_okD(1) [OF assms(1)] assms(5) groups by (simp add: registry_ok_def distinct_update update_conv' split: if_splits)
qed

lemma admit_candidate_ok:
  assumes "registry_ok s" "c = candidate_of source build corpus" "key_locked canon tilde corpus (build corpus)"
    "\<And>a. a \<in> dom (map_of (regs s)) \<Longrightarrow> same_slot a (fst c) \<Longrightarrow> a = fst c"
  shows "registry_ok (admit_candidate canon tilde cfg c s) \<and>
    dom (map_of (regs (admit_candidate canon tilde cfg c s))) = insert (fst c) (dom (map_of (regs s)))"
proof -
  let ?rid = "\<lparr>rid_source = source, rid_key = corpus_key_of corpus (build corpus)\<rparr>"
  have c: "c = (?rid, corpus, build corpus)" using assms(2) by (simp add: candidate_of_def Let_def)
  note new = requeue_ok [OF assms(1) fresh_catch_up fresh_fine [OF assms(3)] assms(4) [unfolded c fst_conv]]
  show ?thesis
  proof (cases "map_of (regs s) ?rid")
    case None
    then have "registry_ok (admit_candidate canon tilde cfg c s)" using new [of s] c by (simp add: admit_candidate_def)
    then show ?thesis using None c by (simp add: admit_candidate_def update_conv')
  next
    case (Some existing)
    show ?thesis
    proof (cases "registration_equivalent existing corpus cfg (build corpus)")
      case True
      with refresh_reg_ok [OF assms(1) Some _ assms(3)] Some c show ?thesis
        by (auto simp: admit_candidate_def Let_def refresh_reg_def update_conv')
    next
      case False
      then have "registry_ok (admit_candidate canon tilde cfg c s)"
        using new [of "if catch_up existing = InFlight then release_admission ?rid s else s"] c Some
        by (simp add: admit_candidate_def Let_def split: if_splits)
      then show ?thesis using Some False c by (auto simp: admit_candidate_def Let_def update_conv')
    qed
  qed
qed

lemma admit_candidates_ok:
  assumes "registry_ok s" "\<forall>corpus \<in> set corpora. key_locked canon tilde corpus (build corpus)"
    "\<And>a. a \<in> dom (map_of (regs s)) \<Longrightarrow> rid_source a = source \<Longrightarrow> a \<in> fst ` candidate_of source build ` set all"
    "set corpora \<subseteq> set all" "distinct (map cc_name all)"
  shows "registry_ok (fold (admit_candidate canon tilde cfg) (map (candidate_of source build) corpora) s)"
  using assms(1-4)
proof (induction corpora arbitrary: s)
  case (Cons corpus corpora)
  have only: "a = fst (candidate_of source build corpus)"
    if "a \<in> dom (map_of (regs s))" "same_slot a (fst (candidate_of source build corpus))" for a
  proof -
    have "rid_source a = source" using that(2) by (simp add: same_slot_def candidate_of_def Let_def)
    from Cons.prems(3) [OF that(1) this] obtain other where o: "other \<in> set all" "a = fst (candidate_of source build other)" by auto
    with that(2) have "cc_name other = cc_name corpus" by (simp add: same_slot_def candidate_of_def Let_def)
    with o Cons.prems(4) assms(5) show ?thesis by (metis distinct_map inj_onD list.set_intros(1) subsetD)
  qed
  have step: "registry_ok (admit_candidate canon tilde cfg (candidate_of source build corpus) s)"
    "dom (map_of (regs (admit_candidate canon tilde cfg (candidate_of source build corpus) s))) =
       insert (fst (candidate_of source build corpus)) (dom (map_of (regs s)))"
    using admit_candidate_ok [OF Cons.prems(1) refl _ only] Cons.prems(2) by auto
  show ?case
    unfolding list.map fold.simps comp_apply
    by (rule Cons.IH [OF step(1)]) (use Cons.prems step(2) in auto)
qed simp

lemma replace_source_ok:
  assumes "registry_ok s" "distinct (map cc_name corpora)" "\<And>xs. set (order xs) = set xs"
    "\<forall>corpus \<in> set corpora. key_locked canon tilde corpus (build corpus)"
  shows "registry_ok (snd (replace_source canon tilde order source corpora cfg build s))"
proof -
  let ?cs = "map (candidate_of source build) corpora"
  let ?removed = "removed_ids order source ?cs s"
  have ok: "registry_ok (drop_removed ?removed s)"
    and left: "map_of (regs (drop_removed ?removed s)) = map_of (regs s) |` (- set ?removed)"
    using fold_drop_obsolete [OF assms(1)] by (simp_all add: drop_removed_fold)
  have "a \<in> fst ` candidate_of source build ` set corpora"
    if "a \<in> dom (map_of (regs (drop_removed ?removed s)))" "rid_source a = source" for a
  proof -
    have "a \<in> fst ` set (regs s)" "a \<notin> set ?removed"
      using that(1) unfolding left by (auto simp: dom_map_of_conv_image_fst [symmetric] restrict_map_def split: if_splits)
    then show ?thesis using that(2) by (auto simp: removed_ids_def assms(3))
  qed
  from admit_candidates_ok [OF ok assms(4) this subset_refl assms(2)] assms(1) show ?thesis
    by (auto simp: replace_source_def Let_def split: option.split)
qed

subsection \<open>Recording changes keeps the invariant\<close>

lemma dirty_ok:
  assumes "registry_ok s" "\<And>reg. catch_up (f reg) = catch_up reg"
    "\<And>reg. reg_fine rid reg \<Longrightarrow> catch_up reg \<noteq> Done \<Longrightarrow> reg_fine rid (f reg)"
    "\<And>reg. reg_fine rid reg \<Longrightarrow> reg_fine rid ((f reg)\<lparr>catch_up := Queued\<rparr>)"
  shows "registry_ok (mark_dirty_locked rid (update_reg rid f s))"
proof (cases "map_of (regs s) rid")
  case (Some reg)
  have fine: "reg_fine rid reg" by (rule registered_fine [OF assms(1) Some])
  show ?thesis
  proof (cases "catch_up reg = Done")
    case True
    have "ledger ({} - {rid}) ((map_of (regs s))(rid \<mapsto> (f reg)\<lparr>catch_up := Queued\<rparr>)) (queue s @ [rid]) (active s)"
    proof (rule ledger_enqueue [OF registry_okD(2) [OF assms(1)]])
      show "a = rid" if "a \<in> dom (map_of (regs s))" "same_slot a rid" for a
        using slot_unique [OF assms(1) that(1) _ that(2)] Some by blast
    qed (use True Some queue_state [OF assms(1)] fine assms(4) in auto)
    then show ?thesis using registry_okD(1) [OF assms(1)] Some True
      by (simp add: mark_dirty_locked_def update_reg_def assms(2) registry_ok_def update_conv' distinct_update)
  next
    case False
    then show ?thesis using put_same_ok [OF assms(1) Some assms(2) assms(3) [OF fine]] fine Some
      by (simp add: mark_dirty_locked_def update_reg_def assms(2) update_conv' reg_fine_def)
  qed
qed (use assms(1) in \<open>simp add: mark_dirty_locked_def update_reg_def\<close>)

lemma add_paths_ok: "pending_ok w \<Longrightarrow> pending_ok (add_paths ps w)"
  by (induction ps w rule: add_paths.induct) (auto simp: Let_def)

lemma record_pending_ok: "registry_ok s \<Longrightarrow> registry_ok (record_pending rid paths s)"
  by (simp add: record_pending_def) (rule dirty_ok; auto simp: reg_fine_def add_paths_ok)

lemma observation_ok:
  assumes "registry_ok s"
  shows "registry_ok (mark_degraded rid message s)" "registry_ok (mark_backend_unavailable rid s)" "registry_ok (mark_watched rid s)"
  unfolding mark_degraded_def mark_backend_unavailable_def mark_watched_def
  by (rule update_same_ok [OF assms]; simp add: reg_fine_def)+

lemma mark_reconcile_due_all_ok:
  assumes "registry_ok s"
  shows "registry_ok (mark_reconcile_due_all order s)"
proof -
  let ?due = "\<lambda>rid s. mark_dirty_locked rid (update_reg rid (\<lambda>reg. reg\<lparr>retry_on_tick := False\<rparr>) s)"
  have step: "registry_ok (?due rid s)" if "registry_ok s" for rid s
    by (rule dirty_ok [OF that]) (auto simp: reg_fine_def)
  have "registry_ok (fold ?due ids s)" for ids
    using assms by (induction ids arbitrary: s) (simp_all add: step)
  then show ?thesis by (simp add: mark_reconcile_due_all_def)
qed

subsection \<open>Admission keeps the invariant\<close>

text \<open>Why a queued registration may have to wait, and what one call of the loop does.\<close>

definition waits_for_tick :: "watch_registry \<Rightarrow> registration_id \<Rightarrow> bool" where
  "waits_for_tick s rid = (case map_of (regs s) rid of None \<Rightarrow> False | Some reg \<Rightarrow> retry_on_tick reg)"

definition ready :: "watch_registry \<Rightarrow> registration_id \<Rightarrow> bool" where
  "ready s rid =
     (case map_of (regs s) rid of
        None \<Rightarrow> False | Some reg \<Rightarrow> \<not> retry_on_tick reg \<and> \<not> active_locks_overlap (active s) (reg_lock_keys reg))"

lemma admit_loop_spec:
  assumes "\<forall>rid \<in> set q. \<exists>reg. map_of (regs s) rid = Some reg \<and> catch_up reg = Queued"
  shows "admit_loop q gated deferred s =
    (let before = takeWhile (\<lambda>rid. \<not> ready s rid) q;
         gated = gated @ filter (waits_for_tick s) before;
         deferred = deferred @ filter (\<lambda>rid. \<not> waits_for_tick s rid) before
     in case dropWhile (\<lambda>rid. \<not> ready s rid) q of
          [] \<Rightarrow> (None, gated, deferred, s\<lparr>queue := []\<rparr>)
        | rid # q' \<Rightarrow> (Some rid, gated, deferred, admit_group rid (the (map_of (regs s) rid)) q' s))"
  using assms
proof (induction q arbitrary: gated deferred)
  case (Cons rid q)
  then obtain reg where reg: "map_of (regs s) rid = Some reg" "catch_up reg = Queued" by auto
  have "ready s rid \<longleftrightarrow> \<not> retry_on_tick reg \<and> \<not> active_locks_overlap (active s) (reg_lock_keys reg)"
    "waits_for_tick s rid \<longleftrightarrow> retry_on_tick reg"
    using reg by (simp_all add: ready_def waits_for_tick_def)
  then show ?case using Cons.IH Cons.prems reg 
    by (cases "retry_on_tick reg"; cases "dropWhile (\<lambda>rid. \<not> ready s rid) q")
       (simp_all add: Let_def del: dropWhile_eq_Nil_conv)
qed (simp add: Let_def)

lemma admit_members:
  assumes "ledger P (map_of (regs s)) (q1 @ queue s) gs" "set ms \<subseteq> set (queue s)" "distinct ms" "distinct (map fst (regs s))"
  defines "t \<equiv> fold (\<lambda>m s. unqueue m (update_reg m start_pass s)) ms s"
  shows "ledger (P \<union> set ms) (map_of (regs t)) (q1 @ queue t) gs \<and> distinct (map fst (regs t)) \<and> active t = active s \<and>
    queue t = filter (\<lambda>r. r \<notin> set ms) (queue s) \<and>
    (\<forall>rid. map_of (regs t) rid = (if rid \<in> set ms then map_option start_pass (map_of (regs s) rid) else map_of (regs s) rid))"
  using assms(1-4) unfolding t_def
proof (induction ms arbitrary: P s)
  case (Cons m ms)
  let ?s = "unqueue m (update_reg m start_pass s)"
  let ?t = "fold (\<lambda>m s. unqueue m (update_reg m start_pass s)) ms ?s"
  have m: "m \<in> set (queue s)" using Cons.prems(2) by simp
  then obtain reg where reg: "map_of (regs s) m = Some reg"
    using ledgerD(2) [OF Cons.prems(1)] by auto
  have notin: "filter (\<lambda>r. r \<noteq> m) q1 = q1"
    using m ledgerD(1) [OF Cons.prems(1)] by (intro filter_True) auto
  have s': "regs ?s = AList.update m (start_pass reg) (regs s)" "queue ?s = filter (\<lambda>r. r \<noteq> m) (queue s)" "active ?s = active s"
    using reg by (simp_all add: update_reg_def)
  have "ledger (insert m P) (map_of (regs ?s)) (q1 @ queue ?s) gs"
    using ledger_start [OF Cons.prems(1) _ reg] m notin unfolding s' update_conv' by simp
  moreover have "set ms \<subseteq> set (queue ?s)" "distinct ms" "distinct (map fst (regs ?s))"
    using Cons.prems(2-4) unfolding s' by (auto simp: distinct_update)
  ultimately have IH: "ledger (insert m P \<union> set ms) (map_of (regs ?t)) (q1 @ queue ?t) gs \<and> distinct (map fst (regs ?t)) \<and>
      active ?t = active ?s \<and> queue ?t = filter (\<lambda>r. r \<notin> set ms) (queue ?s) \<and>
      (\<forall>rid. map_of (regs ?t) rid = (if rid \<in> set ms then map_option start_pass (map_of (regs ?s) rid) else map_of (regs ?s) rid))"
    by (rule Cons.IH)
  have t: "fold (\<lambda>m s. unqueue m (update_reg m start_pass s)) (m # ms) s = ?t" by simp
  have "P \<union> set (m # ms) = insert m P \<union> set ms" by auto
  then have "ledger (P \<union> set (m # ms)) (map_of (regs ?t)) (q1 @ queue ?t) gs \<and> distinct (map fst (regs ?t))" using IH by metis
  moreover have "active ?t = active s" "queue ?t = filter (\<lambda>r. r \<notin> set (m # ms)) (queue s)"
    using IH unfolding s' by (auto intro: filter_cong)
  moreover have "map_of (regs ?t) rid = (if rid \<in> set (m # ms) then map_option start_pass (map_of (regs s) rid) else map_of (regs s) rid)" for rid
  proof -
    have "map_of (regs ?t) rid = (if rid \<in> set ms then map_option start_pass (map_of (regs ?s) rid) else map_of (regs ?s) rid)"
      using IH by blast
    then show ?thesis using Cons.prems(3) reg unfolding s' update_conv' by auto
  qed
  ultimately show ?case unfolding t by blast
qed simp

lemma admit_group_ok:
  assumes "registry_ok s" "queue s = q1 @ rid # q2" "map_of (regs s) rid = Some reg"
    "\<not> active_locks_overlap (active s) (reg_lock_keys reg)" "mset w = mset q1"
  defines "t \<equiv> admit_group rid reg q2 s"
  defines "s1 \<equiv> put_reg rid (start_pass reg) (s\<lparr>queue := q2\<rparr>)"
  defines "ms \<equiv> filter (shares_pass s1 reg) q2"
  shows "registry_ok (t\<lparr>queue := w @ queue t\<rparr>)"
    "active t = active s @ [\<lparr>leader = rid, group_lock_keys = reg_lock_keys reg, members = rid # ms, valid = True\<rparr>]"
    "queue t = filter (\<lambda>r. r \<notin> set ms) q2"
    "map_of (regs t) r = (if r \<in> set (rid # ms) then map_option start_pass (map_of (regs s) r) else map_of (regs s) r)"
proof -
  note L = registry_okD [OF assms(1)]
  have dist: "distinct (q1 @ rid # q2)" using ledgerD(1) [OF L(2)] unfolding assms(2) .
  have "filter (\<lambda>r. r \<noteq> rid) (queue s) = q1 @ q2"
    using dist unfolding assms(2) by (auto intro!: arg_cong2 [where f = append] filter_True)
  then have start: "ledger {rid} (map_of (regs s1)) (q1 @ queue s1) (active s)" "distinct (map fst (regs s1))"
    using ledger_start [OF L(2) _ assms(3)] L(1) assms(2) by (auto simp: s1_def update_conv' distinct_update)
  let ?t = "fold (\<lambda>m s. unqueue m (update_reg m start_pass s)) ms s1"
  have sub: "set ms \<subseteq> set (queue s1)" "distinct ms" using dist by (auto simp: ms_def s1_def)
  note all = admit_members [OF start(1) sub start(2)]
  have t: "t = ?t\<lparr>active := active ?t @ [\<lparr>leader = rid, group_lock_keys = reg_lock_keys reg, members = rid # ms, valid = True\<rparr>]\<rparr>"
    by (simp add: t_def admit_group_def Let_def s1_def ms_def)
  show act: "active t = active s @ [\<lparr>leader = rid, group_lock_keys = reg_lock_keys reg, members = rid # ms, valid = True\<rparr>]"
    using all unfolding t by (simp add: s1_def)
  show "queue t = filter (\<lambda>r. r \<notin> set ms) q2" using all unfolding t by (simp add: s1_def)
  have "rid \<notin> set ms" using dist by (auto simp: ms_def)
  then show "map_of (regs t) r = (if r \<in> set (rid # ms) then map_option start_pass (map_of (regs s) r) else map_of (regs s) r)"
    using all assms(3) unfolding t by (simp add: s1_def update_conv')
  have "rid_key rid \<in> set (reg_lock_keys reg)" using registered_fine [OF assms(1,3)] by (simp add: reg_fine_def)
  moreover have "ledger (insert rid (set ms)) (map_of (regs ?t)) (q1 @ queue ?t) (active s)" using conjunct1 [OF all] by simp
  ultimately have "ledger {} (map_of (regs ?t)) (q1 @ queue ?t)
      (active s @ [\<lparr>leader = rid, group_lock_keys = reg_lock_keys reg, members = rid # ms, valid = True\<rparr>])"
    using \<open>rid \<notin> set ms\<close> sub(2) assms(4) by (intro ledger_close) (simp_all add: group_fine_def)
  then have "ledger {} (map_of (regs t)) (q1 @ queue t) (active t)" unfolding act by (simp add: t)
  from ledger_queue [OF this, of "w @ queue t"] all show "registry_ok (t\<lparr>queue := w @ queue t\<rparr>)"
    using assms(5) by (simp add: registry_ok_def t)
qed

text \<open>
  The next pass goes to the first registration of the queue that may run; those before it keep their places, but
  for the ones that wait for a tick, which go to the end.
\<close>

lemma begin_next_split:
  assumes "registry_ok s" "length (active s) < limit"
  defines "before \<equiv> takeWhile (\<lambda>rid. \<not> ready s rid) (queue s)"
  defines "stay \<equiv> filter (\<lambda>rid. \<not> waits_for_tick s rid) before" and "late \<equiv> filter (waits_for_tick s) before"
  shows "begin_next_catch_up limit s =
    (case dropWhile (\<lambda>rid. \<not> ready s rid) (queue s) of
       [] \<Rightarrow> (None, s\<lparr>queue := stay @ late\<rparr>)
     | rid # q \<Rightarrow> (let t = admit_group rid (the (map_of (regs s) rid)) q s in (Some rid, t\<lparr>queue := stay @ queue t @ late\<rparr>)))"
proof -
  have "\<forall>rid \<in> set (queue s). \<exists>reg. map_of (regs s) rid = Some reg \<and> catch_up reg = Queued"
    using queue_state [OF assms(1)] by blast
  from admit_loop_spec [OF this, of "[]" "[]"] assms(2) show ?thesis
    by (cases "dropWhile (\<lambda>rid. \<not> ready s rid) (queue s)")
       (simp_all add: begin_next_catch_up_def before_def stay_def late_def Let_def del: dropWhile_eq_Nil_conv)
qed

lemma mset_waits: "mset (filter (\<lambda>r. \<not> P r) xs @ filter P xs) = mset xs"
  by (induction xs) auto

lemma begin_next_catch_up_ok:
  assumes "registry_ok s" "begin_next_catch_up limit s = (admitted, t)"
  shows "registry_ok t \<and>
    (case admitted of
       None \<Rightarrow> active t = active s \<and> map_of (regs t) = map_of (regs s)
     | Some rid \<Rightarrow> length (active s) < limit \<and>
         (\<exists>g. active t = active s @ [g] \<and> leader g = rid \<and> rid \<in> set (members g) \<and>
            (\<forall>r. map_of (regs t) r = (if r \<in> set (members g) then map_option start_pass (map_of (regs s) r) else map_of (regs s) r))))"
proof (cases "length (active s) < limit")
  case True
  let ?before = "takeWhile (\<lambda>rid. \<not> ready s rid) (queue s)"
  let ?stay = "filter (\<lambda>rid. \<not> waits_for_tick s rid) ?before" and ?late = "filter (waits_for_tick s) ?before"
  note split = begin_next_split [OF assms(1) True]
  show ?thesis
  proof (cases "dropWhile (\<lambda>rid. \<not> ready s rid) (queue s)")
    case Nil
    then have "?before = queue s" by (metis append.right_neutral takeWhile_dropWhile_id)
    then have "mset (?stay @ ?late) = mset (queue s)" by (simp only: mset_waits)
    then have "ledger {} (map_of (regs s)) (?stay @ ?late) (active s)" by (rule ledger_queue [OF registry_okD(2) [OF assms(1)]])
    then show ?thesis using split Nil assms(2) registry_okD(1) [OF assms(1)] by (auto simp: registry_ok_def)
  next
    case (Cons rid q)
    have q: "queue s = ?before @ rid # q" using Cons by (metis takeWhile_dropWhile_id)
    have "ready s rid" using Cons by (metis dropWhile_eq_Cons_conv)
    then obtain reg where reg: "map_of (regs s) rid = Some reg" "\<not> active_locks_overlap (active s) (reg_lock_keys reg)"
      by (auto simp: ready_def split: option.splits)
    let ?t = "admit_group rid reg q s"
    note new = admit_group_ok [OF assms(1) q reg mset_waits]
    have t: "admitted = Some rid" "t = ?t\<lparr>queue := ?stay @ queue ?t @ ?late\<rparr>"
      using split Cons assms(2) reg by (simp_all add: Let_def)
    have "mset (queue t) = mset ((?stay @ ?late) @ queue ?t)" by (simp add: t)
    from ledger_queue [OF registry_okD(2) [OF new(1), simplified] this [unfolded append_assoc]]
    have "registry_ok t" using registry_okD(1) [OF new(1)] by (simp add: registry_ok_def t)
    then show ?thesis using new(2,4) True by (simp add: t)
  qed
qed (use assms in \<open>auto simp: begin_next_catch_up_def\<close>)

subsection \<open>The end of a pass keeps the invariant\<close>

lemma settle_member_ok:
  fixes rid :: registration_id and res :: "(string, unit) result" and returned :: pending_work
  assumes "ledger P (map_of (regs s)) (queue s) (active s)" "m \<in> P" "distinct (map fst (regs s))" "m \<notin> set (queue s)"
  defines "t \<equiv> snd (settle_member rid res m (returned, s))"
  shows "ledger (P - {m}) (map_of (regs t)) (queue t) (active t) \<and> distinct (map fst (regs t)) \<and> active t = active s \<and>
    (\<exists>reg reg'. map_of (regs s) m = Some reg \<and> map_of (regs t) = (map_of (regs s))(m \<mapsto> reg') \<and>
       (queue t = queue s @ [m] \<and> catch_up reg' = Queued \<or>
        queue t = queue s \<and> catch_up reg' = Done \<and> is_idle (pending reg) \<and> (\<exists>u. res = Ok u)))"
proof -
  have "m \<in> in_state (map_of (regs s)) InFlight" using ledgerD(5) [OF assms(1)] assms(2) by blast
  then obtain reg where reg: "map_of (regs s) m = Some reg" "catch_up reg = InFlight" by auto
  have fine: "reg_fine m reg" by (rule ledgerD(6) [OF assms(1) reg(1)])
  have alone: "a = m" if "a \<in> dom (map_of (regs s))" "same_slot a m" for a
    using ledgerD(7) [OF assms(1) that(1) _ that(2)] reg(1) by blast
  have queued: "ledger (P - {m}) ((map_of (regs s))(m \<mapsto> x)) (queue s @ [m]) (active s)" if "catch_up x = Queued" "reg_fine m x" for x
    by (rule ledger_enqueue [OF assms(1,4) _ that alone]) (use assms(2) in simp_all)
  have settled: "ledger (P - {m}) ((map_of (regs s))(m \<mapsto> x)) (queue s) (active s)" if "catch_up x = Done" "reg_fine m x" for x
    by (rule ledger_done [OF assms(1,4) _ that alone]) (use assms(2) in simp_all)
  have idle: "is_idle w \<longleftrightarrow> w = Idle" for w by (cases w) auto
  show ?thesis
    using reg fine queued settled assms(3)
    by (cases res) (auto simp: t_def settle_member_def Let_def update_conv' distinct_update reg_fine_def fail_pass_def idle)
qed

lemma settle_fold_ok:
  assumes "ledger (set ms) (map_of (regs s)) (queue s) (active s)" "distinct ms" "distinct (map fst (regs s))"
  shows "registry_ok (snd (fold (settle_member rid res) ms (w, s))) \<and> active (snd (fold (settle_member rid res) ms (w, s))) = active s \<and>
    (\<forall>r. r \<notin> set ms \<longrightarrow> map_of (regs (snd (fold (settle_member rid res) ms (w, s)))) r = map_of (regs s) r) \<and>
    (\<forall>m \<in> set ms. \<exists>reg reg'. map_of (regs s) m = Some reg \<and>
       map_of (regs (snd (fold (settle_member rid res) ms (w, s)))) m = Some reg' \<and>
       (catch_up reg' = Queued \<or> catch_up reg' = Done \<and> is_idle (pending reg) \<and> (\<exists>u. res = Ok u)))"
  using assms
proof (induction ms arbitrary: w s)
  case (Cons m ms)
  obtain w' t where t: "settle_member rid res m (w, s) = (w', t)" by fastforce
  have "m \<in> in_state (map_of (regs s)) InFlight" using ledgerD(5) [OF Cons.prems(1)] by auto
  then have "m \<notin> set (queue s)" using ledgerD(2) [OF Cons.prems(1)] by auto
  from settle_member_ok [OF Cons.prems(1) _ Cons.prems(3) this, where rid = rid and res = res and returned = w] t
  have step: "ledger (set (m # ms) - {m}) (map_of (regs t)) (queue t) (active t)" "distinct (map fst (regs t))" "active t = active s"
    and upd: "\<exists>reg reg'. map_of (regs s) m = Some reg \<and> map_of (regs t) = (map_of (regs s))(m \<mapsto> reg') \<and>
      (catch_up reg' = Queued \<or> catch_up reg' = Done \<and> is_idle (pending reg) \<and> (\<exists>u. res = Ok u))"
    by auto
  have "set (m # ms) - {m} = set ms" using Cons.prems(2) by auto
  with step Cons.prems(2) have IH: "registry_ok (snd (fold (settle_member rid res) ms (w', t))) \<and>
      active (snd (fold (settle_member rid res) ms (w', t))) = active t \<and>
    (\<forall>r. r \<notin> set ms \<longrightarrow> map_of (regs (snd (fold (settle_member rid res) ms (w', t)))) r = map_of (regs t) r) \<and>
    (\<forall>m \<in> set ms. \<exists>reg reg'. map_of (regs t) m = Some reg \<and>
       map_of (regs (snd (fold (settle_member rid res) ms (w', t)))) m = Some reg' \<and>
       (catch_up reg' = Queued \<or> catch_up reg' = Done \<and> is_idle (pending reg) \<and> (\<exists>u. res = Ok u)))"
    by (intro Cons.IH) (simp_all add: insert_absorb)
  have fold: "fold (settle_member rid res) (m # ms) (w, s) = fold (settle_member rid res) ms (w', t)" using t by simp
  obtain reg reg' where reg: "map_of (regs s) m = Some reg" "map_of (regs t) = (map_of (regs s))(m \<mapsto> reg')"
    "catch_up reg' = Queued \<or> catch_up reg' = Done \<and> is_idle (pending reg) \<and> (\<exists>u. res = Ok u)" using upd by blast
  have "m \<notin> set ms" using Cons.prems(2) by simp
  show ?case unfolding fold using IH step(3) reg \<open>m \<notin> set ms\<close> by (auto simp: reg(2) split: if_splits)
qed (simp add: registry_ok_def)

lemma finish_catch_up_ok:
  assumes "registry_ok s" "split_led rid (active s) = Some (g, rest)" "finish_catch_up rid res s = (work, t)"
  shows "registry_ok t \<and> active t = rest \<and>
    (\<forall>r. r \<notin> set (members g) \<longrightarrow> map_of (regs t) r = map_of (regs s) r) \<and>
    (\<forall>m \<in> set (members g). \<exists>reg reg'. map_of (regs s) m = Some reg \<and> map_of (regs t) m = Some reg' \<and>
       (catch_up reg' = Queued \<or> catch_up reg' = Done \<and> is_idle (pending reg) \<and> (\<exists>u. res = Ok u)))"
proof -
  let ?s = "s\<lparr>active := rest\<rparr>"
  have open_group: "ledger (set (members g)) (map_of (regs ?s)) (queue ?s) (active ?s)" "distinct (members g)" "group_fine g"
    using ledger_open [OF registry_okD(2) [OF assms(1)] assms(2)] by simp_all
  have "leader g = rid" using split_led_Some [OF assms(2)] by blast
  then have ids: "(if members g = [] then (if valid g \<and> map_of (regs s) rid \<noteq> None then [rid] else []) else members g) = members g"
    using open_group(3) by (auto simp: group_fine_def)
  obtain w u where u: "fold (settle_member rid res) (members g) (Idle, ?s) = (w, u)" by fastforce
  have "t = notify_settled (signal_changed (bump_generation u))"
    using assms(3) u unfolding finish_catch_up_def Let_def assms(2) option.case prod.case ids by simp
  moreover have "distinct (map fst (regs ?s))" using registry_okD(1) [OF assms(1)] by simp
  ultimately show ?thesis
    using settle_fold_ok [OF open_group(1,2), of rid res Idle] u by simp
qed

end
