(* ===== verification/Watch_Run.thy ===== *)
theory Watch_Run
  imports Watch_Invariant
begin

text \<open>
  The watch registry as a state machine: the watcher pump, requests, reloads of a repository's
  configuration and the passes themselves call the operations in any order. Beside the registry a
  world holds the passes that run and two histories: \<open>owed\<close>, the registrations with a recorded change
  that no successful pass has picked up yet, and \<open>covered\<close>, those whose last pass began after the last
  change recorded for them.
\<close>

record watch_world =
  registry :: watch_registry
  running :: "registration_id list"
  owed :: "registration_id set"
  covered :: "registration_id set"

definition with_registry :: "watch_registry \<Rightarrow> watch_world \<Rightarrow> watch_world" where
  "with_registry s w = w\<lparr>registry := s, owed := owed w \<inter> set (map fst (regs s))\<rparr>"

definition world_new :: watch_world where
  "world_new = \<lparr>registry = registry_new, running = [], owed = {}, covered = {}\<rparr>"

text \<open>Where a refresh of the roots moves a registration.\<close>

definition moved :: "built_roots \<Rightarrow> watch_registry \<Rightarrow> registration_id \<Rightarrow> registration_id" where
  "moved built s rid =
     (case map_of (map (\<lambda>(old, new, _). (old, new)) (stale_of built s)) rid of None \<Rightarrow> rid | Some new \<Rightarrow> new)"

definition record_world :: "registration_id \<Rightarrow> path list \<Rightarrow> watch_world \<Rightarrow> watch_world" where
  "record_world rid paths w =
     with_registry (record_pending rid paths (registry w))
       (w\<lparr>owed := insert rid (owed w), covered := covered w - {rid}\<rparr>)"

definition refresh_world :: "built_roots \<Rightarrow> watch_world \<Rightarrow> watch_world" where
  "refresh_world built w =
     with_registry (refresh_roots built (registry w))
       (w\<lparr>owed := moved built (registry w) ` owed w, covered := moved built (registry w) ` covered w\<rparr>)"

definition begin_world :: "nat \<Rightarrow> watch_world \<Rightarrow> watch_world" where
  "begin_world limit w =
     (case begin_next_catch_up limit (registry w) of
        (None, s) \<Rightarrow> with_registry s w
      | (Some rid, s) \<Rightarrow>
          with_registry s (w\<lparr>running := rid # running w, covered := covered w \<union> set (members (last (active s)))\<rparr>))"

definition finish_world :: "registration_id \<Rightarrow> (string, unit) result \<Rightarrow> watch_world \<Rightarrow> watch_world" where
  "finish_world rid res w =
     (let settled = (case split_led rid (active (registry w)) of None \<Rightarrow> {} | Some (g, _) \<Rightarrow> set (members g))
      in with_registry (snd (finish_catch_up rid res (registry w)))
           (w\<lparr>running := remove1 rid (running w),
              owed := (case res of Ok _ \<Rightarrow> owed w - (settled \<inter> covered w) | Err _ \<Rightarrow> owed w)\<rparr>))"

text \<open>
  The steps. The corpora of one configuration have different names, the key of a corpus is among the keys
  that its passes lock, and a pass ends that was begun.
\<close>

inductive watch_step :: "nat \<Rightarrow> watch_world \<Rightarrow> watch_world \<Rightarrow> bool" for limit where
  Seed: "\<lbrakk>key_locked canon tilde corpus roots;
     \<forall>a \<in> dom (map_of (regs (registry w))). same_slot a \<lparr>rid_source = Baseline, rid_key = corpus_key_of corpus roots\<rparr> \<longrightarrow>
       a = \<lparr>rid_source = Baseline, rid_key = corpus_key_of corpus roots\<rparr>\<rbrakk>
   \<Longrightarrow> watch_step limit w (with_registry (seed_baseline canon tilde corpus cfg roots (registry w)) w)"
| Register: "key_locked canon tilde corpus roots
   \<Longrightarrow> watch_step limit w (with_registry (snd (register canon tilde source corpus cfg roots (registry w))) w)"
| Refresh: "refresh_locked built (registry w) \<Longrightarrow> watch_step limit w (refresh_world built w)"
| Replace: "\<lbrakk>distinct (map cc_name corpora); \<And>xs. set (order xs) = set xs;
     \<forall>corpus \<in> set corpora. key_locked canon tilde corpus (build corpus)\<rbrakk>
   \<Longrightarrow> watch_step limit w (with_registry (snd (replace_source canon tilde order source corpora cfg build (registry w))) w)"
| Record: "paths \<noteq> [] \<Longrightarrow> watch_step limit w (record_world rid paths w)"
| Degrade: "watch_step limit w (with_registry (mark_degraded rid message (registry w)) w)"
| Unavailable: "watch_step limit w (with_registry (mark_backend_unavailable rid (registry w)) w)"
| Watch: "watch_step limit w (with_registry (mark_watched rid (registry w)) w)"
| Tick: "watch_step limit w (with_registry (mark_reconcile_due_all order (registry w)) w)"
| Begin: "watch_step limit w (begin_world limit w)"
| Finish: "rid \<in> set (running w) \<Longrightarrow> watch_step limit w (finish_world rid res w)"

inductive watch_run :: "nat \<Rightarrow> watch_world \<Rightarrow> bool" for limit where
  Start: "watch_run limit world_new"
| Step: "watch_run limit w \<Longrightarrow> watch_step limit w w' \<Longrightarrow> watch_run limit w'"

inductive_cases watch_stepE: "watch_step limit w w'"

subsection \<open>What an operation leaves to do\<close>

text \<open>
  An operation is calm if it begins and ends no pass and each registration after it is queued or was there before,
  in the same state and with the same pending work.
\<close>

definition calm :: "watch_registry \<Rightarrow> watch_registry \<Rightarrow> bool" where
  "calm s t \<longleftrightarrow> map leader (active t) = map leader (active s) \<and>
     (\<forall>rid reg'. map_of (regs t) rid = Some reg' \<longrightarrow> catch_up reg' = Queued \<or>
        (\<exists>reg. map_of (regs s) rid = Some reg \<and> catch_up reg' = catch_up reg \<and> pending reg' = pending reg))"

lemma calm_refl [simp]: "calm s s"
  by (simp add: calm_def)

lemma calm_trans: "calm s t \<Longrightarrow> calm t u \<Longrightarrow> calm s u"
  unfolding calm_def by (metis)

lemma calm_frame [simp]:
  "calm s (signal_changed t) = calm s t" "calm s (notify_settled t) = calm s t" "calm s (bump_generation t) = calm s t"
  "calm s (unqueue rid t) = calm s t" "calm s (push_back rid t) = calm s t"
  by (simp_all add: calm_def)

lemma calm_release: "calm s (release_admission rid s)"
  by (simp add: calm_def release_group_def)

lemma calm_remove: "calm s (remove_reg rid s)"
  by (auto simp: calm_def split: if_splits)

lemma calm_put_queued: "calm s t \<Longrightarrow> catch_up reg = Queued \<Longrightarrow> calm s (put_reg rid reg t)"
  by (auto simp: calm_def update_conv' split: if_splits)

lemma calm_put_same:
  "map_of (regs s) rid = Some reg \<Longrightarrow> catch_up reg' = catch_up reg \<Longrightarrow> pending reg' = pending reg \<Longrightarrow> calm s (put_reg rid reg' s)"
  by (auto simp: calm_def update_conv' split: if_splits)

lemma calm_drop: "calm s (drop_obsolete rid s)"
  unfolding drop_obsolete_def by (rule calm_trans [OF _ calm_release]) (simp add: calm_remove)

lemma calm_fold: "(\<And>x s. calm s (f x s)) \<Longrightarrow> calm s (fold f xs s)"
  by (induction xs arbitrary: s) (auto intro: calm_trans)

lemma calm_update: "(\<And>reg. catch_up (f reg) = catch_up reg \<and> pending (f reg) = pending reg) \<Longrightarrow> calm s (update_reg rid f s)"
  by (auto simp: update_reg_def intro: calm_put_same split: option.split)

lemma calm_mark_dirty: "calm s (mark_dirty_locked rid s)"
  by (auto simp: mark_dirty_locked_def intro!: calm_put_queued split: option.split)

lemma calm_refresh_reg: "map_of (regs s) rid = Some existing \<Longrightarrow> calm s (refresh_reg canon tilde rid existing corpus cfg s)"
  by (auto simp: refresh_reg_def intro: calm_put_same)

lemma calm_register: "calm s (snd (register canon tilde source corpus cfg roots s))"
proof -
  have "calm s (snd (register_new canon tilde rid corpus cfg roots s))" for rid
  proof -
    have "calm s (fold drop_obsolete (obsolete_ids s rid) s)" by (rule calm_fold) (rule calm_drop)
    then have "calm s (drop_obsolete rid (fold drop_obsolete (obsolete_ids s rid) s))" by (rule calm_trans [OF _ calm_drop])
    then show ?thesis
      by (auto simp: register_new_def Let_def replace_reg_drop intro: calm_put_queued split: option.split)
  qed
  then show ?thesis by (auto simp: register_def Let_def calm_refresh_reg split: option.split)
qed

lemma calm_replace_source: "calm s (snd (replace_source canon tilde order source corpora cfg build s))"
proof -
  have cand: "calm s (admit_candidate canon tilde cfg c s)" for c s
    by (auto simp: admit_candidate_def Let_def calm_refresh_reg calm_release intro!: calm_put_queued split: prod.split option.split)
  have "calm s (drop_removed ids s)" for ids s
    unfolding drop_removed_fold by (rule calm_fold) (rule calm_drop)
  moreover have "calm t (fold (admit_candidate canon tilde cfg) cs t)" for cs t by (rule calm_fold) (rule cand)
  ultimately have "calm s (fold (admit_candidate canon tilde cfg) cs (drop_removed ids s))" for cs ids
    by (rule calm_trans)
  then show ?thesis by (simp add: replace_source_def Let_def split: option.split)
qed

lemma calm_observation:
  "calm s (mark_degraded rid message s)" "calm s (mark_backend_unavailable rid s)" "calm s (mark_watched rid s)"
  by (simp_all add: mark_degraded_def mark_backend_unavailable_def mark_watched_def calm_update)

lemma calm_tick: "calm s (mark_reconcile_due_all order s)"
proof -
  have "calm s (mark_dirty_locked rid (update_reg rid (\<lambda>reg. reg\<lparr>retry_on_tick := False\<rparr>) s))" for rid s
    by (rule calm_trans [OF _ calm_mark_dirty]) (simp add: calm_update)
  then show ?thesis by (simp add: mark_reconcile_due_all_def calm_fold)
qed

subsection \<open>Where refreshed registrations go\<close>

definition kept_as :: "registration \<Rightarrow> registration \<Rightarrow> bool" where
  "kept_as reg reg' \<longleftrightarrow> catch_up reg' = Queued \<or> catch_up reg' = catch_up reg \<and> pending reg' = pending reg"

lemma rekey_leaders [simp]: "map leader (active (rekey old new roots s)) = map leader (active s)"
  by (auto simp: rekey_def Let_def release_group_def split: option.split)

lemma set_roots_kept:
  "map leader (active (set_roots b s)) = map leader (active s) \<and>
   (map_of (regs s) rid = Some reg \<longrightarrow> (\<exists>reg'. map_of (regs (set_roots b s)) rid = Some reg' \<and>
      catch_up reg' = catch_up reg \<and> pending reg' = pending reg))"
  by (auto simp: set_roots_def update_conv' split: prod.split option.split)

lemma fold_set_roots_kept:
  "map leader (active (fold set_roots built s)) = map leader (active s) \<and>
   (map_of (regs s) rid = Some reg \<longrightarrow> (\<exists>reg'. map_of (regs (fold set_roots built s)) rid = Some reg' \<and>
      catch_up reg' = catch_up reg \<and> pending reg' = pending reg))"
proof (induction built arbitrary: s reg)
  case (Cons b built)
  with set_roots_kept [of b s rid reg] show ?case by fastforce
qed simp

lemma rekey_stale_kept:
  assumes "registry_ok s" "\<forall>p \<in> set stale. stale_ok s p" "distinct (map fst stale)"
  shows "map leader (active (rekey_stale stale s)) = map leader (active s) \<and>
    (\<forall>rid reg. map_of (regs s) rid = Some reg \<longrightarrow>
       (\<exists>reg'. map_of (regs (rekey_stale stale s))
           (case map_of (map (\<lambda>(old, new, _). (old, new)) stale) rid of None \<Rightarrow> rid | Some new \<Rightarrow> new) = Some reg' \<and> kept_as reg reg'))"
  using assms
proof (induction stale arbitrary: s)
  case (Cons p stale)
  obtain old new roots where p: "p = (old, new, roots)" by (cases p)
  with Cons.prems(2) obtain x where x: "map_of (regs s) old = Some x" "rid_source new = rid_source old"
    "rid_key new = corpus_key_of (reg_corpus x) roots" "rid_key new \<in> set (reg_lock_keys x)" "new \<noteq> old"
    by (auto simp: stale_ok_def)
  let ?t = "rekey old new roots s"
  note step = rekey_ok [OF Cons.prems(1) x]
  have ready: "registry_ok ?t" "\<forall>p' \<in> set stale. stale_ok ?t p'" "distinct (map fst stale)"
  proof -
    have "stale_ok ?t p'" if "p' \<in> set stale" for p'
    proof -
      have "fst p' \<noteq> old" using that Cons.prems(3) p by force
      moreover have "stale_ok s p'" using that Cons.prems(2) by simp
      ultimately show ?thesis using step by (auto simp: stale_ok_def)
    qed
    then show "\<forall>p' \<in> set stale. stale_ok ?t p'" by blast
  qed (use step Cons.prems(3) in auto)
  have stale: "rekey_stale (p # stale) s = rekey_stale stale ?t" by (simp add: rekey_stale_def p)
  note IH = Cons.IH [OF ready]
  have "map leader (active (rekey_stale (p # stale) s)) = map leader (active s)" unfolding stale using IH by simp
  moreover have "\<exists>reg'. map_of (regs (rekey_stale (p # stale) s))
      (case map_of (map (\<lambda>(old, new, _). (old, new)) (p # stale)) rid of None \<Rightarrow> rid | Some new \<Rightarrow> new) = Some reg' \<and> kept_as reg reg'"
    if reg: "map_of (regs s) rid = Some reg" for rid reg
  proof (cases "rid = old")
    case True
    obtain y where y: "map_of (regs ?t) new = Some y" "kept_as reg y" using step x(1) reg True by (auto simp: kept_as_def)
    have "new \<notin> fst ` set stale" using Cons.prems(2) step by (force simp: stale_ok_def)
    then have "map_of (map (\<lambda>(old, new, _). (old, new)) stale) new = None"
      by (force simp: map_of_eq_None_iff)
    moreover obtain z where "map_of (regs (rekey_stale stale ?t))
        (case map_of (map (\<lambda>(old, new, _). (old, new)) stale) new of None \<Rightarrow> new | Some new \<Rightarrow> new) = Some z" "kept_as y z"
      using IH y(1) by blast
    ultimately show ?thesis using y(2)
      by (auto simp: stale [unfolded p] p True kept_as_def)
  next
    case False
    then have "map_of (regs ?t) rid = Some reg" using step reg by (auto simp del: fun_upd_apply) (auto split: if_splits)
    with IH False show ?thesis by (simp add: stale [unfolded p] p)
  qed
  ultimately show ?case by blast
qed (auto simp: rekey_stale_def kept_as_def)

lemma refresh_kept:
  assumes "registry_ok s" "refresh_locked built s"
  shows "map leader (active (refresh_roots built s)) = map leader (active s)"
    "map_of (regs s) rid = Some reg \<Longrightarrow>
       \<exists>reg'. map_of (regs (refresh_roots built s)) (moved built s rid) = Some reg' \<and> kept_as reg reg'"
proof -
  note stale = rekey_stale_kept [OF assms(1) refresh_stale [OF assms(2)]]
  note fold = fold_set_roots_kept [of built "rekey_stale (stale_of built s) s"]
  show "map leader (active (refresh_roots built s)) = map leader (active s)"
    using stale fold by (simp add: refresh_roots_def)
  assume "map_of (regs s) rid = Some reg"
  then obtain x where "map_of (regs (rekey_stale (stale_of built s) s)) (moved built s rid) = Some x" "kept_as reg x"
    using stale unfolding moved_def by blast
  then show "\<exists>reg'. map_of (regs (refresh_roots built s)) (moved built s rid) = Some reg' \<and> kept_as reg reg'"
    using fold by (fastforce simp: refresh_roots_def kept_as_def)
qed

subsection \<open>The invariant of a run\<close>

definition owed_ok :: "watch_world \<Rightarrow> bool" where
  "owed_ok w \<longleftrightarrow>
     (\<forall>rid \<in> owed w. \<exists>reg. map_of (regs (registry w)) rid = Some reg \<and>
        (catch_up reg = Queued \<or> catch_up reg = InFlight \<and> (rid \<in> covered w \<or> \<not> is_idle (pending reg))))"

definition world_ok :: "nat \<Rightarrow> watch_world \<Rightarrow> bool" where
  "world_ok limit w \<longleftrightarrow>
     registry_ok (registry w) \<and> mset (map leader (active (registry w))) = mset (running w) \<and>
     length (active (registry w)) \<le> limit \<and> owed_ok w"

lemma with_registry_fields [simp]:
  "registry (with_registry s w) = s" "running (with_registry s w) = running w" "covered (with_registry s w) = covered w"
  "owed (with_registry s w) = owed w \<inter> dom (map_of (regs s))"
  by (simp_all add: with_registry_def dom_map_of_conv_image_fst)

lemma calm_world:
  assumes "world_ok limit w" "registry_ok t" "calm (registry w) t"
  shows "world_ok limit (with_registry t w)"
proof -
  have leaders: "map leader (active t) = map leader (active (registry w))" using assms(3) by (simp add: calm_def)
  then have "length (active t) = length (active (registry w))" by (metis length_map)
  moreover have "owed_ok (with_registry t w)"
    using assms(1,3) unfolding world_ok_def owed_ok_def calm_def by fastforce
  ultimately show ?thesis using assms(1,2) leaders unfolding world_ok_def by (simp del: mset_map)
qed

lemma seed_world:
  assumes "world_ok limit w" "registry_ok (seed_baseline canon tilde corpus cfg roots (registry w))"
  shows "world_ok limit (with_registry (seed_baseline canon tilde corpus cfg roots (registry w)) w)"
  using assms unfolding world_ok_def owed_ok_def
  by (fastforce simp: seed_baseline_def Let_def update_conv' split: if_splits)

lemma idle_add_paths: "ps \<noteq> [] \<Longrightarrow> \<not> is_idle (add_paths ps work)"
  by (cases work) (auto simp: Let_def)

lemma record_effect:
  assumes "registry_ok s"
  shows "map leader (active (record_pending rid paths s)) = map leader (active s)"
    "map_of (regs (record_pending rid paths s)) r =
       (if r = rid then map_option (\<lambda>reg. reg\<lparr>pending := add_paths paths (pending reg),
            catch_up := (if catch_up reg = Done \<or> catch_up reg = NotStarted then Queued else catch_up reg)\<rparr>) (map_of (regs s) rid)
        else map_of (regs s) r)"
  by (auto simp: record_pending_def mark_dirty_locked_def update_reg_def update_conv' split: option.split)

lemma record_world_ok:
  assumes "world_ok limit w" "paths \<noteq> []"
  shows "world_ok limit (record_world rid paths w)"
proof -
  let ?s = "registry w"
  have ok: "registry_ok ?s" using assms(1) by (simp add: world_ok_def)
  note effect = record_effect [OF ok, of rid paths]
  have "length (active (record_pending rid paths ?s)) = length (active ?s)" using effect(1) by (metis length_map)
  moreover have "owed_ok (record_world rid paths w)"
    unfolding owed_ok_def
  proof
    fix r assume "r \<in> owed (record_world rid paths w)"
    then have r: "r = rid \<or> r \<in> owed w" and "r \<in> dom (map_of (regs (record_pending rid paths ?s)))"
      by (auto simp: record_world_def)
    then obtain reg where reg: "map_of (regs ?s) r = Some reg" by (auto simp: effect(2) split: if_splits)
    have fine: "reg_fine r reg" by (rule registered_fine [OF ok reg])
    show "\<exists>reg. map_of (regs (registry (record_world rid paths w))) r = Some reg \<and>
        (catch_up reg = Queued \<or> catch_up reg = InFlight \<and> (r \<in> covered (record_world rid paths w) \<or> \<not> is_idle (pending reg)))"
    proof (cases "r = rid")
      case True
      then show ?thesis using reg fine assms(2)
        by (cases "catch_up reg") (auto simp: record_world_def effect(2) idle_add_paths reg_fine_def)
    next
      case False
      with r assms(1) reg show ?thesis by (auto simp: record_world_def effect(2) world_ok_def owed_ok_def)
    qed
  qed
  ultimately show ?thesis using assms(1) effect(1) record_pending_ok [OF ok]
    by (simp add: world_ok_def record_world_def del: mset_map)
qed

lemma refresh_world_ok:
  assumes "world_ok limit w" "refresh_locked built (registry w)"
  shows "world_ok limit (refresh_world built w)"
proof -
  let ?s = "registry w"
  have ok: "registry_ok ?s" using assms(1) by (simp add: world_ok_def)
  note kept = refresh_kept [OF ok assms(2)]
  have leaders: "map leader (active (refresh_roots built ?s)) = map leader (active ?s)" by (rule kept(1))
  then have "length (active (refresh_roots built ?s)) = length (active ?s)" by (metis length_map)
  moreover have "owed_ok (refresh_world built w)"
    unfolding owed_ok_def
  proof
    fix r assume "r \<in> owed (refresh_world built w)"
    then obtain r0 where r0: "r0 \<in> owed w" "r = moved built ?s r0" by (auto simp: refresh_world_def)
    then obtain reg where reg: "map_of (regs ?s) r0 = Some reg"
      "catch_up reg = Queued \<or> catch_up reg = InFlight \<and> (r0 \<in> covered w \<or> \<not> is_idle (pending reg))"
      using assms(1) unfolding world_ok_def owed_ok_def by blast
    moreover obtain reg' where "map_of (regs (refresh_roots built ?s)) r = Some reg'" "kept_as reg reg'"
      using kept(2) [OF reg(1)] r0(2) by blast
    ultimately show "\<exists>reg. map_of (regs (registry (refresh_world built w))) r = Some reg \<and>
        (catch_up reg = Queued \<or> catch_up reg = InFlight \<and> (r \<in> covered (refresh_world built w) \<or> \<not> is_idle (pending reg)))"
      using r0(2) by (auto simp: refresh_world_def kept_as_def)
  qed
  ultimately show ?thesis using assms(1) leaders refresh_roots_ok [OF ok assms(2)]
    by (simp add: world_ok_def refresh_world_def del: mset_map)
qed

lemma begin_world_ok:
  assumes "world_ok limit w"
  shows "world_ok limit (begin_world limit w)"
proof -
  let ?s = "registry w"
  have ok: "registry_ok ?s" using assms by (simp add: world_ok_def)
  obtain admitted t where run: "begin_next_catch_up limit ?s = (admitted, t)" by fastforce
  note admit = begin_next_catch_up_ok [OF ok run]
  show ?thesis
  proof (cases admitted)
    case None
    then have "calm ?s t" using admit by (auto simp: calm_def)
    then show ?thesis using calm_world [OF assms] admit None run by (simp add: begin_world_def)
  next
    case (Some rid)
    with admit obtain g where g: "length (active ?s) < limit" "active t = active ?s @ [g]" "leader g = rid"
      "\<And>r. map_of (regs t) r = (if r \<in> set (members g) then map_option start_pass (map_of (regs ?s) r) else map_of (regs ?s) r)"
      by auto
    have "owed_ok (begin_world limit w)"
      unfolding owed_ok_def
    proof
      fix r assume "r \<in> owed (begin_world limit w)"
      then have "r \<in> owed w" by (auto simp: begin_world_def run Some)
      then obtain reg where "map_of (regs ?s) r = Some reg"
        "catch_up reg = Queued \<or> catch_up reg = InFlight \<and> (r \<in> covered w \<or> \<not> is_idle (pending reg))"
        using assms unfolding world_ok_def owed_ok_def by blast
      then show "\<exists>reg. map_of (regs (registry (begin_world limit w))) r = Some reg \<and>
          (catch_up reg = Queued \<or> catch_up reg = InFlight \<and> (r \<in> covered (begin_world limit w) \<or> \<not> is_idle (pending reg)))"
        by (auto simp: begin_world_def run Some g(2,4) start_pass_def)
    qed
    then show ?thesis using assms admit g(1,3) by (simp add: world_ok_def begin_world_def run Some g(2))
  qed
qed

lemma finish_world_ok:
  assumes "world_ok limit w" "rid \<in> set (running w)"
  shows "world_ok limit (finish_world rid res w)"
proof -
  let ?s = "registry w"
  have ok: "registry_ok ?s" using assms by (simp add: world_ok_def)
  have "set (running w) = leader ` set (active ?s)" using assms(1) unfolding world_ok_def by (metis list.set_map mset_eq_setD)
  then obtain g rest where led: "split_led rid (active ?s) = Some (g, rest)"
    using assms(2) split_led_None [of rid "active ?s"] by (cases "split_led rid (active ?s)") auto
  obtain work t where run: "finish_catch_up rid res ?s = (work, t)" by fastforce
  note finish = finish_catch_up_ok [OF ok led run]
  obtain us vs where gs: "active ?s = us @ g # vs" "rest = us @ vs" "leader g = rid" using split_led_Some [OF led] by blast
  have ghost: "owed (finish_world rid res w) \<subseteq> owed w"
    "r \<in> owed (finish_world rid res w) \<Longrightarrow> res = Ok u \<Longrightarrow> r \<notin> set (members g) \<or> r \<notin> covered w"
    "covered (finish_world rid res w) = covered w" "registry (finish_world rid res w) = t" for r u
    by (auto simp: finish_world_def Let_def led run split: sum.splits)
  have "owed_ok (finish_world rid res w)"
    unfolding owed_ok_def
  proof
    fix r assume r: "r \<in> owed (finish_world rid res w)"
    then obtain reg where reg: "map_of (regs ?s) r = Some reg"
      "catch_up reg = Queued \<or> catch_up reg = InFlight \<and> (r \<in> covered w \<or> \<not> is_idle (pending reg))"
      using assms(1) ghost(1) unfolding world_ok_def owed_ok_def by blast
    show "\<exists>reg. map_of (regs (registry (finish_world rid res w))) r = Some reg \<and>
        (catch_up reg = Queued \<or> catch_up reg = InFlight \<and> (r \<in> covered (finish_world rid res w) \<or> \<not> is_idle (pending reg)))"
    proof (cases "r \<in> set (members g)")
      case False
      then show ?thesis using finish reg ghost(3,4) by auto
    next
      case True
      then obtain reg' where reg': "map_of (regs t) r = Some reg'"
        "catch_up reg' = Queued \<or> catch_up reg' = Done \<and> is_idle (pending reg) \<and> (\<exists>u. res = Ok u)"
        using finish reg(1) by fastforce
      moreover have "r \<in> set (all_members (active ?s))" using True gs(1) by auto
      then have "r \<in> in_state (map_of (regs ?s)) InFlight" using ledgerD(5) [OF registry_okD(2) [OF ok]] by blast
      then have "catch_up reg = InFlight" using reg(1) by auto
      ultimately show ?thesis using reg(2) True ghost(2) [OF r] ghost(4) by auto
    qed
  qed
  moreover have "running (finish_world rid res w) = remove1 rid (running w)" by (simp add: finish_world_def Let_def)
  moreover have "mset (running w) = add_mset rid (mset (map leader rest))" "length (active t) \<le> limit"
    using assms(1) gs finish unfolding world_ok_def by (auto dest: sym)
  ultimately show ?thesis using finish ghost(4) by (simp add: world_ok_def)
qed

lemma watch_step_ok: "watch_step limit w w' \<Longrightarrow> world_ok limit w \<Longrightarrow> world_ok limit w'"
proof (induction rule: watch_step.induct)
  case (Seed canon tilde corpus roots w cfg)
  then show ?case by (intro seed_world seed_baseline_ok) (auto simp: world_ok_def)
next
  case (Register canon tilde corpus roots w source cfg)
  then show ?case by (intro calm_world register_ok calm_register) (auto simp: world_ok_def)
next
  case (Replace corpora order canon tilde build w source cfg)
  then show ?case by (intro calm_world replace_source_ok calm_replace_source) (auto simp: world_ok_def)
next
  case (Tick w order)
  then show ?case by (intro calm_world mark_reconcile_due_all_ok calm_tick) (auto simp: world_ok_def)
next
  case (Degrade w rid message)
  then show ?case by (intro calm_world observation_ok calm_observation) (auto simp: world_ok_def)
next
  case (Unavailable w rid)
  then show ?case by (intro calm_world observation_ok calm_observation) (auto simp: world_ok_def)
next
  case (Watch w rid)
  then show ?case by (intro calm_world observation_ok calm_observation) (auto simp: world_ok_def)
qed (rule refresh_world_ok record_world_ok begin_world_ok finish_world_ok; assumption)+

lemma watch_run_ok: "watch_run limit w \<Longrightarrow> world_ok limit w"
proof (induction rule: watch_run.induct)
  case Start
  then show ?case
    by (simp add: world_ok_def world_new_def registry_new_def registry_ok_def ledger_def owed_ok_def locks_apart_def)
qed (rule watch_step_ok)

lemma leaders_distinct: "list_all group_fine gs \<Longrightarrow> locks_apart gs \<Longrightarrow> distinct (map leader gs)"
  by (induction gs) (force simp: locks_apart_def group_fine_def list_all_iff)+

subsection \<open>Sample run\<close>

definition sample_corpus :: "string \<Rightarrow> corpus_config" where
  "sample_corpus name = \<lparr>cc_name = name, cc_paths = [''/'' @ name], cc_globs = [], cc_exclude = [], cc_global = False\<rparr>"

definition sample_roots :: "corpus_config \<Rightarrow> watch_root list" where
  "sample_roots corpus =
     [\<lparr>watched = [RootDir, Normal (cc_name corpus)], canonical_watched = [RootDir, Normal (cc_name corpus)],
       root_corpus = corpus, canonical_file_root = None, root_mode = Recursive\<rparr>]"

definition sample_cfg :: binding_config where
  "sample_cfg = \<lparr>ground_dir = ''g'', embed_model = ''m'', embed_quantized = False, embed_enabled = True\<rparr>"

definition sample_rid :: "string \<Rightarrow> registration_id" where
  "sample_rid name = \<lparr>rid_source = RepoLayer [RootDir], rid_key = \<lparr>ck_name = name, canonical_root = [RootDir, Normal name]\<rparr>\<rparr>"

definition sample_register :: "string \<Rightarrow> watch_registry \<Rightarrow> watch_registry" where
  "sample_register name s =
     snd (register Ok (\<lambda>p. p) (RepoLayer [RootDir]) (sample_corpus name) sample_cfg (sample_roots (sample_corpus name)) s)"

text \<open>Two registrations, a pass for the first, and a change of it while the pass runs.\<close>

definition sample_world :: watch_world where
  "sample_world =
     record_world (sample_rid ''a'') [[RootDir, Normal ''a'', Normal ''x.md'']]
       (begin_world 1 (with_registry (sample_register ''b'' (registry (with_registry (sample_register ''a'' registry_new) world_new)))
          (with_registry (sample_register ''a'' registry_new) world_new)))"

lemma sample_locked: "key_locked Ok (\<lambda>p. p) (sample_corpus name) (sample_roots (sample_corpus name))"
  if "name = ''a'' \<or> name = ''b''" for name
  using that by (elim disjE) (simp; code_simp)+

lemma sample_run: "watch_run 1 sample_world"
  unfolding sample_world_def
proof (intro watch_run.Step [OF _ Record] watch_run.Step [OF _ Begin])
  have "watch_run 1 (with_registry (sample_register ''a'' registry_new) world_new)"
    using watch_run.Step [OF watch_run.Start Register [OF sample_locked [of "''a''"]]]
    by (simp add: sample_register_def world_new_def)
  then show "watch_run 1 (with_registry (sample_register ''b'' (registry (with_registry (sample_register ''a'' registry_new) world_new)))
      (with_registry (sample_register ''a'' registry_new) world_new))"
    unfolding sample_register_def [of "''b''"]
    by (rule watch_run.Step) (rule Register, rule sample_locked, simp)
qed simp

subsection \<open>Properties\<close>

text \<open>
  C38. Whatever the order of the calls, a registration is in the queue exactly if it is queued, once; it is in a running
  group exactly if it is in flight, and in one group only. No two running groups share a corpus lock, no registration
  leads two of them, each belongs to a pass that runs, and there are at most \<open>limit\<close>. A registration at rest has no
  error and no pending work, and no pending set has more than the allowed number of paths.
\<close>
theorem registry_invariant:
  assumes "watch_run limit w"
  defines "s \<equiv> registry w"
  shows "distinct (queue s) \<and> set (queue s) = {rid. \<exists>reg. map_of (regs s) rid = Some reg \<and> catch_up reg = Queued} \<and>
    distinct (concat (map members (active s))) \<and>
    set (concat (map members (active s))) = {rid. \<exists>reg. map_of (regs s) rid = Some reg \<and> catch_up reg = InFlight} \<and>
    sorted_wrt (\<lambda>g h. set (group_lock_keys g) \<inter> set (group_lock_keys h) = {}) (active s) \<and>
    distinct (map leader (active s)) \<and> mset (map leader (active s)) = mset (running w) \<and> length (active s) \<le> limit \<and>
    (\<forall>(rid, reg) \<in> set (regs s).
       (catch_up reg = Done \<longrightarrow> pending reg = Idle \<and> last_error reg = None \<and> reconciled_once reg) \<and>
       (\<forall>ps. pending reg = Paths ps \<longrightarrow> finite ps \<and> card ps \<le> MAX_PENDING_PATHS))"
proof -
  have ok: "world_ok limit w" by (rule watch_run_ok [OF assms(1)])
  then have reg: "registry_ok s" by (simp add: world_ok_def s_def)
  note L = ledgerD [OF registry_okD(2) [OF reg]]
  have "reg_fine rid x" if "(rid, x) \<in> set (regs s)" for rid x
    using that L(6) registry_okD(1) [OF reg] by (simp add: map_of_is_SomeI)
  then have fine: "(catch_up x = Done \<longrightarrow> pending x = Idle \<and> last_error x = None \<and> reconciled_once x) \<and>
      (\<forall>ps. pending x = Paths ps \<longrightarrow> finite ps \<and> card ps \<le> MAX_PENDING_PATHS)" if "(rid, x) \<in> set (regs s)" for rid x
    using that by (fastforce simp: reg_fine_def)
  have "set (concat (map members (active s))) = in_state (map_of (regs s)) InFlight" using L(5) by simp
  moreover have "distinct (map leader (active s))" by (rule leaders_distinct [OF L(8,9)])
  moreover have "mset (map leader (active s)) = mset (running w)" "length (active s) \<le> limit"
    using ok by (simp_all add: world_ok_def s_def)
  ultimately show ?thesis
    using L(1,2,3) L(9) [unfolded locks_apart_def] fine by (intro conjI) (assumption | blast)+
qed

lemma registry_invariant_witness:
  "queue (registry sample_world) = [sample_rid ''b''] \<and> members (hd (active (registry sample_world))) = [sample_rid ''a''] \<and>
   distinct (map leader (active (registry sample_world))) \<and>
   mset (map leader (active (registry sample_world))) = mset (running sample_world)"
proof -
  have "queue (registry sample_world) = [sample_rid ''b''] \<and> members (hd (active (registry sample_world))) = [sample_rid ''a'']"
    by code_simp
  then show ?thesis using registry_invariant [OF sample_run] by blast
qed

text \<open>
  C39. No recorded change is lost: until a pass that began after the change ends in success, its registration, as long as
  it is registered, under its old key or the new one, is queued for a pass or in a running one, and then either that
  pass began after the change or the registration keeps pending work, which queues it again when the pass ends.
\<close>
theorem no_change_lost:
  assumes "watch_run limit w" "rid \<in> owed w"
  shows "\<exists>reg. map_of (regs (registry w)) rid = Some reg \<and>
    (rid \<in> set (queue (registry w)) \<or>
     (\<exists>g \<in> set (active (registry w)). rid \<in> set (members g)) \<and> (rid \<in> covered w \<or> pending reg \<noteq> Idle))"
proof -
  have ok: "world_ok limit w" by (rule watch_run_ok [OF assms(1)])
  then have registry: "registry_ok (registry w)" by (simp add: world_ok_def)
  obtain reg where reg: "map_of (regs (registry w)) rid = Some reg"
    "catch_up reg = Queued \<or> catch_up reg = InFlight \<and> (rid \<in> covered w \<or> \<not> is_idle (pending reg))"
    using ok assms(2) unfolding world_ok_def owed_ok_def by blast
  have "rid \<in> set (concat (map members (active (registry w))))" if "catch_up reg = InFlight"
    using that reg(1) ledgerD(5) [OF registry_okD(2) [OF registry]] by blast
  then show ?thesis using reg queue_state [OF registry] by auto
qed

lemma no_change_lost_witness:
  "sample_rid ''a'' \<in> owed sample_world \<and> sample_rid ''a'' \<notin> covered sample_world \<and>
   (\<exists>reg. map_of (regs (registry sample_world)) (sample_rid ''a'') = Some reg \<and>
      (\<exists>g \<in> set (active (registry sample_world)). sample_rid ''a'' \<in> set (members g)) \<and> pending reg \<noteq> Idle)"
proof -
  have "sample_rid ''a'' \<notin> set (queue (registry sample_world))" by code_simp
  moreover have owed: "sample_rid ''a'' \<in> owed sample_world" "sample_rid ''a'' \<notin> covered sample_world" by code_simp+
  ultimately show ?thesis using no_change_lost [OF sample_run owed(1)] by blast
qed

end
