(* ===== verification/Spec2Isabelle.thy ===== *)
theory Spec2Isabelle
  imports Section_Edit Claim_Marks Frontmatter Index_Md Wikilinks Footnotes Common Content_Key
    Index_Plan Writer Chunk_Store Index_Apply Index_Sync Lance_Filter Lance_Store Lance_Laws
    Lance_Memory Corpus_Index Write_Gate Daemon_Health Watchdog Supervisor Relative_Path Sandbox
    Sandbox_Laws Sandbox_Memory Derived_Text Phrase Fusion Fusion_Laws Grounding Grounding_Laws
    Repository Config Watch_Registry Watch_Invariant Watch_Run
begin

text \<open>
  A verification of Hallouminate, a local search index over Markdown wikis and other files: a
  daemon watches configured roots, chunks and embeds their files into a LanceDB store, answers
  grounding queries over it, and edits wiki pages on request.

  \<^bold>\<open>The program and its model.\<close> The program is a Rust workspace. The crate
  \<open>hallouminate-domain\<close> holds the logic on text and files, \<open>hallouminate-adapters\<close> the
  LanceDB store behind the domain's ports, \<open>hallouminate-daemon\<close> the scheduler and the server,
  \<open>hallouminate-config\<close> the configuration and \<open>hallouminate\<close> the command line and the MCP
  server. A byte string is a HOL string of bytes, Rust's text and path functions are modelled
  on bytes in \<open>Rust_Text\<close> and \<open>Rust_Path\<close>, and every error is a value. What the source calls
  outside itself is an argument of the definitions: the Markdown parser (as its stream of
  events with byte ranges, \<open>Markdown_Events\<close>), the YAML reader, BLAKE3, Unicode lower-casing, the
  file system (\<open>canonicalizer\<close>, \<open>lstat\<close>, \<open>disk_env\<close>), the iteration order of hash maps
  (\<open>hash_order\<close>), the embedding model and LanceDB (\<open>lance_db\<close>). What a property needs of an
  argument is a named hypothesis of it.

  \<^bold>\<open>Theories.\<close>

  \<^item> \<open>Prelude\<close>, \<open>Rust_Text\<close>, \<open>Rust_Path\<close>: results, saturating words, substring search,
    lines, trimming, decimal numbers, path components and their order.

  \<^item> \<open>Section_Edit\<close> (\<open>corpus/section.rs\<close>): splicing under a heading, replacing a line range and
    replacing a unique match. A splice changes nothing outside its section, errors are exactly
    the documented ones.

  \<^item> \<open>Claim_Marks\<close> (\<open>corpus/claim_marks.rs\<close>): classifying, extracting, stripping and linting claim
    comments. The stripping loop terminates and leaves no claim comment.

  \<^item> \<open>Frontmatter\<close> (\<open>corpus/frontmatter.rs\<close>), \<open>Footnotes\<close> (\<open>footnotes.rs\<close>), \<open>Index_Md\<close>
    (\<open>corpus/index_md.rs\<close>), \<open>Wikilinks\<close> (\<open>corpus/validate.rs\<close>): the other operations on pages,
    with what they keep and what they cut; the hash index of slugs agrees with the linear
    resolution.

  \<^item> \<open>Common\<close> (\<open>common.rs\<close>, \<open>common/paths.rs\<close>): corpora, their keys and the resolution of
    paths.

  \<^item> \<open>Content_Key\<close> (\<open>indexer/content_key.rs\<close>, \<open>indexer/chunk.rs\<close>): the bytes under a content
    key form a prefix code (the locale \<open>prefix_code\<close>, interpreted for each field), so the key
    determines every derived input.

  \<^item> \<open>Effects\<close>: operations on a state that may fail, and triples about them. \<open>Index_Plan\<close>
    (\<open>indexer/plan.rs\<close>), \<open>Writer\<close> (\<open>indexer/writer.rs\<close>), \<open>Chunk_Store\<close> (\<open>indexer/store.rs\<close>),
    \<open>Index_Apply\<close> (\<open>indexer/apply.rs\<close>, \<open>indexer/index.rs\<close>) and \<open>Index_Sync\<close>: the plan, the
    preparation of a file, the store port, the application of a plan, and what indexing a
    corpus achieves. The port's contract is the locale \<open>chunk_store_laws\<close>; the run is verified
    once, inside it.

  \<^item> \<open>Lance_Filter\<close>, \<open>Lance_Store\<close>, \<open>Lance_Laws\<close>, \<open>Lance_Memory\<close> (\<open>adapters/lance.rs\<close>): filter
    texts and their reading as SQL, the write side of the store, the laws of LanceDB as the
    locale \<open>lance_laws\<close>, the invariant of the two tables, and the proof (a \<open>sublocale\<close>) that the
    store provides the port. \<open>Lance_Memory\<close> is a database in memory that keeps the laws.

  \<^item> \<open>Corpus_Index\<close> joins both sides: indexing a corpus into the Lance store. \<open>Write_Gate\<close>
    interleaves batches, removal of unreferenced content and ungated operations as a step
    relation and shows that content a file refers to is never removed.

  \<^item> \<open>Daemon_Health\<close> (\<open>backoff.rs\<close>, \<open>ladder.rs\<close>, \<open>churn.rs\<close>, \<open>heartbeat.rs\<close>, \<open>debt.rs\<close>,
    \<open>backpressure.rs\<close>), \<open>Watchdog\<close> (\<open>watchdog.rs\<close>) and \<open>Supervisor\<close> (\<open>supervisor.rs\<close>): the
    supervision of the daemon's loops. Counters are machine words, instants are ticks. Each
    tracker is shown to compute a function of the history it has seen, and the two waits (the
    gate on mutations, the backoff of a start) are shown to end.

  \<^item> \<open>Relative_Path\<close>, \<open>Sandbox\<close>, \<open>Sandbox_Laws\<close>, \<open>Sandbox_Memory\<close> (\<open>corpus/sandbox.rs\<close>): which
    paths a caller may name, and writing, reading and deleting pages through directory
    capabilities. cap-std is an argument, its laws are the locale \<open>cap_fs_laws\<close> over a tree of
    entries, a file system in memory keeps them. No operation reaches outside the way to the
    page. The model runs one operation at a time: races with other processes, which the source
    bounds by the capability, are not part of it.

  \<^item> \<open>Derived_Text\<close> (\<open>corpus/snippet.rs\<close>, \<open>corpus/keywords.rs\<close>, \<open>corpus/summary.rs\<close>,
    \<open>search/terms.rs\<close>): the texts derived from a page. A snippet is the longest prefix of words
    that fits, the keywords are the best-ranked words outside code blocks in any order of the hash
    map.

  \<^item> \<open>Phrase\<close> (\<open>search/phrase.rs\<close>): exact-phrase search over the retrieval port. Hits are ranked
    by occurrences outside the overlap with the chunk before; the hits are the best of all scanned
    chunks, and a search without a warning is complete.

  \<^item> \<open>Fusion\<close> (\<open>search.rs\<close>, \<open>search/fuse.rs\<close>, \<open>search/ripgrep.rs\<close>,
    \<open>search/lexical_fallback.rs\<close>): the ripgrep pass and its hits on chunks, the four signals of a root,
    their fusion over one or several roots, and the fallback on files without rows. The float
    operations are the record \<open>float_ops\<close>. \<open>Fusion_Laws\<close>: fusion is the declarative rank fusion,
    whatever the iteration order of its hash map, when scores compare as a total order.

  \<^item> \<open>Grounding\<close> (\<open>ground/types.rs\<close>, \<open>ground/bucket.rs\<close>, \<open>ground/inventory.rs\<close>,
    \<open>ground/orchestrate.rs\<close>): a query over the roots of several corpora, from the inventory to the
    response. \<open>Grounding_Laws\<close>: which files the cut keeps, with the slots reserved for the corpus of
    the searcher.

  \<^item> \<open>Repository\<close> (\<open>repository.rs\<close>, \<open>discovery.rs\<close>, \<open>embeddings/index.rs\<close>): the corpora derived from
    repositories, the wiki a directory belongs to, the wikis found below a directory and their
    union with the declared ones, whose names stay valid and unique.

  \<^item> \<open>Config\<close> (\<open>hallouminate-config/src/lib.rs\<close>, \<open>xdg.rs\<close>): the sections of the configuration with their
    defaults and validation, the baseline, the search for the configuration of a repository, its
    confinement and the merge. A repository cannot make the daemon index what lies outside it, nor
    change the settings of the daemon.

  \<^item> \<open>Watch_Registry\<close>, \<open>Watch_Invariant\<close>, \<open>Watch_Run\<close> (\<open>watch/registry.rs\<close>): the ledger of watched
    corpora with its operations, the invariant that ties the queue, the running groups and the
    states of the registrations together, and runs of it as a step relation: no recorded change
    is lost, whatever fails and whatever is registered or moved in between.

  \<^bold>\<open>Termination.\<close> Loops are total functions with measures; the gate on mutations is a
  \<open>partial_function\<close> that is shown to return. No definition runs on fuel but the reader of
  filter texts, whose fuel is the length of the text.

  \<^bold>\<open>Not modelled.\<close> Of the daemon the request dispatch, the shared state, the file watcher, the
  maintenance loop and the server: concurrent services around the parts above. The rendering of a
  response (\<open>ground/format.rs\<close>), the search side, opening and locking of the Lance store, the walker,
  the document handlers and the chunker, which are calls into libraries. Process start, sockets, the
  wire protocol, logging, the command line and the MCP glue are input and output; the embedding and
  reranking models are libraries. Bounds on memory are not part of the model; sizes are natural
  numbers, with the 64-bit bound stated where a proof needs it.
\<close>

end
